(* ===== verification/B3_Prelude.thy ===== *)
theory B3_Prelude
  imports Main "HOL-Library.Word" "HOL-Library.AList"
begin

unbundle bit_operations_syntax

text \<open>
  What every component of the development shares: the machine integers of the Rust code, the
  little-endian byte encodings of the standard library (\<open>to_le_bytes\<close>, \<open>from_le_bytes\<close>),
  \<open>slice::chunks\<close>, the two maps of the standard library the code uses (\<open>BTreeMap\<close> and
  \<open>HashMap\<close>, both as association lists with distinct keys), and the two interfaces that
  several components implement: a state machine that keeps an invariant, and a codec.

  Conventions of the whole development. Integers have their width and wrap, as in the release
  profile of \<open>src/Cargo.toml\<close> (no \<open>overflow-checks\<close>); \<open>usize\<close> lengths of vectors are \<open>nat\<close>.
  A panic is the result \<open>None\<close> of an operation whose Rust body can panic, an error return is
  \<open>Inl\<close> of an error datatype. A closure or socket the code writes to is an output: the
  operation returns the list of what it wrote, in order.
\<close>

named_theorems le_simps \<open>lengths and round trips of the little-endian encodings\<close>
named_theorems btree_simps \<open>lookup, membership and size after an update of a map\<close>

type_synonym u8 = "8 word"
type_synonym u16 = "16 word"
type_synonym u32 = "32 word"
type_synonym u64 = "64 word"
type_synonym bytes = "u8 list"


section \<open>Little-endian integers\<close>

text \<open>\<open>to_le_bytes\<close> of an integer of \<open>n\<close> bytes, and \<open>from_le_bytes\<close> of a byte array.\<close>

primrec to_le :: "nat \<Rightarrow> 'a::len word \<Rightarrow> bytes" where
  "to_le 0 w = []"
| "to_le (Suc n) w = ucast w # to_le n (drop_bit 8 w)"

primrec from_le :: "bytes \<Rightarrow> 'a::len word" where
  "from_le [] = 0"
| "from_le (b # bs) = ucast b OR push_bit 8 (from_le bs)"

lemma length_to_le [simp, le_simps]: "length (to_le n w) = n"
  by (induction n arbitrary: w) auto

lemma from_le_to_le_take_bit: "from_le (to_le n w) = take_bit (8 * n) w"
proof (induction n arbitrary: w)
  case 0
  then show ?case by simp
next
  case (Suc n)
  show ?case
    by (rule bit_word_eqI) (auto simp: Suc bit_simps not_less less_diff_conv2)
qed

lemma from_le_to_le [simp, le_simps]:
  "LENGTH('a) = 8 * n \<Longrightarrow> from_le (to_le n (w :: 'a::len word)) = w"
  by (metis from_le_to_le_take_bit take_bit_length_eq)

lemma drop_bit_from_le:
  "drop_bit 8 (from_le (b # bs) :: 'a::len word) = take_bit (LENGTH('a) - 8) (from_le bs)"
  by (rule bit_word_eqI) (auto simp: bit_simps dest: bit_imp_le_length)

lemma ucast_from_le:
  "8 \<le> LENGTH('a) \<Longrightarrow> ucast (from_le (b # bs) :: 'a::len word) = b"
  by (rule bit_word_eqI) (auto simp: bit_simps)

lemma to_le_take_bit: "8 * n \<le> m \<Longrightarrow> to_le n (take_bit m w) = to_le n w"
proof (induction n arbitrary: w m)
  case 0
  then show ?case by simp
next
  case (Suc n)
  have "ucast (take_bit m w) = (ucast w :: u8)"
    using Suc.prems by (intro bit_word_eqI) (auto simp: bit_simps)
  moreover have "drop_bit 8 (take_bit m w) = take_bit (m - 8) (drop_bit 8 w)"
    using Suc.prems by (intro bit_word_eqI) (auto simp: bit_simps)
  ultimately show ?case
    using Suc.prems by (simp add: Suc.IH)
qed

lemma to_le_from_le [le_simps]:
  "length bs = n \<Longrightarrow> 8 * n \<le> LENGTH('a) \<Longrightarrow> to_le n (from_le bs :: 'a::len word) = bs"
proof (induction bs arbitrary: n)
  case Nil
  then show ?case by simp
next
  case (Cons b bs)
  then obtain k where n: "n = Suc k" and k: "length bs = k" by auto
  with Cons.prems have "8 * k \<le> LENGTH('a) - 8" "8 \<le> LENGTH('a)" "8 * k \<le> LENGTH('a)" by auto
  then show ?case
    using Cons.IH [OF k] n
    by (simp only: to_le.simps ucast_from_le drop_bit_from_le to_le_take_bit)
qed

text \<open>The arrays the code reads are of a fixed length: their elements, one by one.\<close>

lemma to_le_2: "to_le 2 w = [ucast w, ucast (drop_bit 8 w)]"
  by (simp add: numeral_2_eq_2)

lemma to_le_4:
  "to_le 4 w = [ucast w, ucast (drop_bit 8 w), ucast (drop_bit 16 w), ucast (drop_bit 24 w)]"
  by (simp add: numeral_eq_Suc drop_bit_drop_bit)

lemma from_le_to_le_4 [le_simps]:
  "from_le [ucast w, ucast (drop_bit 8 w), ucast (drop_bit 16 w), ucast (drop_bit 24 w)] = (w :: u32)"
  using from_le_to_le [where n = 4 and w = w] by (simp add: to_le_4)

lemma from_le_to_le_2 [le_simps]: "from_le [ucast w, ucast (drop_bit 8 w)] = (w :: u16)"
  using from_le_to_le [where n = 2 and w = w] by (simp add: to_le_2)

text \<open>From here on an encoding is opaque; \<open>le_eval\<close> unfolds it on concrete bytes.\<close>

declare to_le.simps [simp del] from_le.simps [simp del]

lemmas le_eval = to_le.simps from_le.simps

lemma unat_of_nat_u32: "n < 2 ^ 32 \<Longrightarrow> unat (of_nat n :: u32) = n"
  by (simp add: unat_of_nat)

lemma unat_succ_u32: "unat (w :: u32) + 1 < 2 ^ 32 \<Longrightarrow> unat (w + 1) = unat w + 1"
  by (simp add: unat_word_ariths)


section \<open>Decimal numbers\<close>

text \<open>\<open>format!("{n}")\<close> of an unsigned integer, and reading it back.\<close>

fun show_nat :: "nat \<Rightarrow> string" where
  "show_nat n = (if n < 10 then [char_of (48 + n)] else show_nat (n div 10) @ [char_of (48 + n mod 10)])"

declare show_nat.simps [simp del]

definition parse_nat :: "string \<Rightarrow> nat" where
  "parse_nat s = fold (\<lambda>c n. 10 * n + (of_char c - 48)) s 0"

definition is_digit :: "char \<Rightarrow> bool" where
  "is_digit c \<longleftrightarrow> 48 \<le> (of_char c :: nat) \<and> (of_char c :: nat) \<le> 57"

lemma of_char_digit: "n < 10 \<Longrightarrow> (of_char (char_of (48 + n) :: char) :: nat) = 48 + n"
  by (simp add: of_char_of)

lemma parse_show_nat [simp]: "parse_nat (show_nat n) = n"
proof (induction n rule: show_nat.induct)
  case (1 n)
  show ?case
  proof (cases "n < 10")
    case False
    then have "show_nat n = show_nat (n div 10) @ [char_of (48 + n mod 10)]" by (simp add: show_nat.simps [of n])
    with "1.IH" [OF False] show ?thesis by (simp add: parse_nat_def of_char_digit)
  qed (simp add: show_nat.simps [of n] parse_nat_def of_char_digit)
qed

lemma show_nat_digits: "list_all is_digit (show_nat n)"
proof (induction n rule: show_nat.induct)
  case (1 n)
  then show ?case by (cases "n < 10") (simp_all add: show_nat.simps [of n] is_digit_def of_char_digit)
qed

lemma show_nat_inj: "show_nat m = show_nat n \<longleftrightarrow> m = n"
  by (metis parse_show_nat)


section \<open>Slices\<close>

text \<open>
  \<open>slice::chunks\<close>: consecutive pieces of \<open>n\<close> elements, the last one shorter if need be.
  \<open>n = 0\<close> panics in Rust; the callers below have that branch.
\<close>

function chunks :: "nat \<Rightarrow> 'a list \<Rightarrow> 'a list list" where
  "chunks n xs = (if n = 0 \<or> xs = [] then [] else take n xs # chunks n (drop n xs))"
  by pat_completeness auto
termination
  by (relation "measure (\<lambda>(n, xs). length xs)") auto

declare chunks.simps [simp del]

lemma chunks_Nil [simp]: "chunks n [] = []"
  by (simp add: chunks.simps)

lemma chunks_0 [simp]: "chunks 0 xs = []"
  by (simp add: chunks.simps)

lemma chunks_step: "0 < n \<Longrightarrow> xs \<noteq> [] \<Longrightarrow> chunks n xs = take n xs # chunks n (drop n xs)"
  by (simp add: chunks.simps [of n xs])

lemma concat_chunks [simp]: "0 < n \<Longrightarrow> concat (chunks n xs) = xs"
proof (induction n xs rule: chunks.induct)
  case (1 n xs)
  show ?case
  proof (cases "xs = []")
    case False
    then have "chunks n xs = take n xs # chunks n (drop n xs)" using "1.prems" by (intro chunks_step)
    then show ?thesis using "1.IH" "1.prems" False by simp
  qed simp
qed

lemma chunks_eq_Nil [simp]: "0 < n \<Longrightarrow> chunks n xs = [] \<longleftrightarrow> xs = []"
  by (simp add: chunks.simps [of n xs])

lemma chunks_bounds: "c \<in> set (chunks n xs) \<Longrightarrow> 0 < length c \<and> length c \<le> n"
proof (induction n xs rule: chunks.induct)
  case (1 n xs)
  show ?case
  proof (cases "n = 0 \<or> xs = []")
    case True
    with "1.prems" show ?thesis by auto
  next
    case False
    then have step: "chunks n xs = take n xs # chunks n (drop n xs)" by (intro chunks_step) auto
    have "c = take n xs \<or> c \<in> set (chunks n (drop n xs))"
      using "1.prems" unfolding step by simp
    then show ?thesis
      using False "1.IH" [OF False] by auto
  qed
qed

lemma ceil_div_step:
  assumes "0 < n" and "0 < (m :: nat)"
  shows "(m + n - 1) div n = Suc ((m - n + n - 1) div n)"
proof -
  have step: "(m - 1 + n) div n = Suc ((m - 1) div n)"
    using assms(1) by (metis Suc_eq_plus1 div_add_self2 neq0_conv)
  have lhs: "m + n - 1 = m - 1 + n" using assms(2) by simp
  have rhs: "(m - n + n - 1) div n = (m - 1) div n"
  proof (cases "n \<le> m")
    case False
    then have "m - n + n - 1 = n - 1" and "m - 1 < n" by auto
    with assms(1) show ?thesis by (metis One_nat_def diff_less div_less zero_less_one)
  qed simp
  show ?thesis unfolding lhs rhs by (rule step)
qed

lemma length_chunks: "0 < n \<Longrightarrow> length (chunks n xs) = (length xs + n - 1) div n"
proof (induction n xs rule: chunks.induct)
  case (1 n xs)
  show ?case
  proof (cases "xs = []")
    case True
    with "1.prems" show ?thesis by simp
  next
    case False
    then have "chunks n xs = take n xs # chunks n (drop n xs)"
      using "1.prems" by (intro chunks_step)
    moreover have "length (chunks n (drop n xs)) = (length xs - n + n - 1) div n"
      using False "1.prems" "1.IH" by simp
    moreover have "0 < length xs" using False by simp
    ultimately show ?thesis
      using ceil_div_step [OF "1.prems", of "length xs"] by (simp del: add_Suc)
  qed
qed


section \<open>Maps of the standard library\<close>

text \<open>
  \<open>BTreeMap\<close> and \<open>HashMap\<close> as association lists with distinct keys: \<open>get\<close> is \<^const>\<open>map_of\<close>,
  \<open>insert\<close> replaces the value of a key, \<open>entry(k).or_insert(v)\<close> keeps it, \<open>remove\<close> deletes it,
  \<open>len\<close> is the length. The iteration order, which a \<open>HashMap\<close> does not fix, is never relied on.
\<close>

type_synonym ('k, 'v) rmap = "('k \<times> 'v) list"

definition map_wf :: "('k, 'v) rmap \<Rightarrow> bool" where
  "map_wf m \<longleftrightarrow> distinct (map fst m)"

definition map_insert :: "'k \<Rightarrow> 'v \<Rightarrow> ('k, 'v) rmap \<Rightarrow> ('k, 'v) rmap" where
  "map_insert k v m = AList.update k v m"

definition map_or_insert :: "'k \<Rightarrow> 'v \<Rightarrow> ('k, 'v) rmap \<Rightarrow> ('k, 'v) rmap" where
  "map_or_insert k v m = (case map_of m k of None \<Rightarrow> m @ [(k, v)] | Some _ \<Rightarrow> m)"

definition map_remove :: "'k \<Rightarrow> ('k, 'v) rmap \<Rightarrow> ('k, 'v) rmap" where
  "map_remove k m = AList.delete k m"

lemma map_of_insert [simp, btree_simps]: "map_of (map_insert k v m) = (map_of m)(k \<mapsto> v)"
  by (simp add: map_insert_def update_conv')

lemma map_of_remove [simp, btree_simps]: "map_of (map_remove k m) = (map_of m)(k := None)"
  by (simp add: map_remove_def delete_conv')

lemma map_of_or_insert [simp, btree_simps]:
  "map_of (map_or_insert k v m) = (case map_of m k of None \<Rightarrow> (map_of m)(k \<mapsto> v) | Some _ \<Rightarrow> map_of m)"
  by (auto simp: map_or_insert_def map_add_def fun_eq_iff split: option.splits)

lemma map_wf_Nil [simp, intro!]: "map_wf []"
  by (simp add: map_wf_def)

lemma map_wf_insert [simp, intro]: "map_wf m \<Longrightarrow> map_wf (map_insert k v m)"
  by (simp add: map_wf_def map_insert_def distinct_update)

lemma map_wf_remove [simp, intro]: "map_wf m \<Longrightarrow> map_wf (map_remove k m)"
  by (simp add: map_wf_def map_remove_def distinct_delete)

lemma map_wf_or_insert [simp, intro]: "map_wf m \<Longrightarrow> map_wf (map_or_insert k v m)"
  by (auto simp: map_wf_def map_or_insert_def map_of_eq_None_iff split: option.splits)

lemma length_map_remove [btree_simps]:
  "map_wf m \<Longrightarrow> map_of m k = Some v \<Longrightarrow> length m = Suc (length (map_remove k m))"
proof (induction m)
  case Nil
  then show ?case by simp
next
  case (Cons a m)
  obtain k' v' where a: "a = (k', v')" by (cases a)
  show ?case
  proof (cases "k' = k")
    case True
    with Cons.prems(1) a have "k \<notin> fst ` set m" by (auto simp: map_wf_def)
    with True a show ?thesis by (simp add: map_remove_def)
  next
    case False
    with Cons a show ?thesis by (simp add: map_wf_def map_remove_def)
  qed
qed

lemma map_remove_less [termination_simp]: "map_of m k = Some v \<Longrightarrow> length (map_remove k m) < length m"
proof (induction m)
  case Nil
  then show ?case by simp
next
  case (Cons a m)
  have "length (map_remove k m) \<le> length m"
    by (simp add: map_remove_def length_delete_le)
  with Cons show ?case
    by (cases a) (auto simp: map_remove_def split: if_splits)
qed

lemma map_of_Nil_conv: "(\<forall>k. map_of m k = None) \<longleftrightarrow> m = []"
  by (cases m) auto


section \<open>Interfaces\<close>

text \<open>
  A component with an invariant: a step per event and a predicate every step keeps. Whatever
  runs a component relies on this only, and gets the invariant after any sequence of events.
\<close>

locale machine =
  fixes step :: "'s \<Rightarrow> 'e \<Rightarrow> 's"
    and inv :: "'s \<Rightarrow> bool"
  assumes inv_step: "inv s \<Longrightarrow> inv (step s e)"
begin

lemma inv_run: "inv s \<Longrightarrow> inv (foldl step s es)"
  by (induction es arbitrary: s) (auto intro: inv_step)

lemma inv_prefix: "inv s \<Longrightarrow> es = us @ vs \<Longrightarrow> inv (foldl step s us)"
  by (rule inv_run)

end

text \<open>
  A codec for datagrams: the decoder gives back what the encoder was given. A stream codec
  also says where the message ends, so a concatenation of messages is read back one by one.
\<close>

locale codec =
  fixes enc :: "'a \<Rightarrow> bytes"
    and dec :: "bytes \<Rightarrow> 'b option"
    and out :: "'a \<Rightarrow> 'b"
    and wf :: "'a \<Rightarrow> bool"
  assumes dec_enc: "wf a \<Longrightarrow> dec (enc a) = Some (out a)"
begin

lemma enc_inj: "wf a \<Longrightarrow> wf b \<Longrightarrow> enc a = enc b \<Longrightarrow> out a = out b"
  by (metis dec_enc option.inject)

lemma dec_all: "\<forall>a \<in> set as. wf a \<Longrightarrow> map (dec \<circ> enc) as = map (Some \<circ> out) as"
  by (simp add: dec_enc)

end

locale stream_codec =
  fixes enc :: "'a \<Rightarrow> bytes"
    and read :: "bytes \<Rightarrow> ('err + 'a \<times> bytes)"
    and wf :: "'a \<Rightarrow> bool"
  assumes read_enc: "wf a \<Longrightarrow> read (enc a @ rest) = Inr (a, rest)"
    and enc_nonempty: "wf a \<Longrightarrow> enc a \<noteq> []"
begin

text \<open>Reading \<open>n\<close> messages off a stream, stopping at the first error.\<close>

primrec read_n :: "nat \<Rightarrow> bytes \<Rightarrow> ('err + 'a list \<times> bytes)" where
  "read_n 0 bs = Inr ([], bs)"
| "read_n (Suc n) bs =
     (case read bs of
        Inl e \<Rightarrow> Inl e
      | Inr (a, rest) \<Rightarrow>
          (case read_n n rest of Inl e \<Rightarrow> Inl e | Inr (as, rest') \<Rightarrow> Inr (a # as, rest')))"

lemma read_n_concat:
  "\<forall>a \<in> set as. wf a \<Longrightarrow> read_n (length as) (concat (map enc as) @ rest) = Inr (as, rest)"
  by (induction as) (simp_all add: read_enc)

lemma enc_prefix_free:
  assumes "wf a" and "wf b" and "enc a @ xs = enc b @ ys"
  shows "a = b \<and> xs = ys"
  by (metis assms read_enc Inr_inject prod.inject)

definition read_one :: "bytes \<Rightarrow> 'a option" where
  "read_one bs = (case read bs of Inl _ \<Rightarrow> None | Inr (a, rest) \<Rightarrow> Some a)"

sublocale codec enc read_one "\<lambda>a. a" wf
proof
  fix a assume "wf a"
  from read_enc [OF this, of "[]"] show "read_one (enc a) = Some a"
    by (simp add: read_one_def)
qed

end

text \<open>
  A registry: named entries with insertion (which replaces an entry of the same key) and removal.
  The transport table and the session table promise the same laws; a client sees the effect of any
  sequence of insertions (\<open>Inl\<close>) and removals (\<open>Inr\<close>).
\<close>

locale registry =
  fixes find :: "'s \<Rightarrow> 'k \<Rightarrow> 'v option"
    and add :: "'k \<Rightarrow> 'v \<Rightarrow> 's \<Rightarrow> 's"
    and del :: "'k \<Rightarrow> 's \<Rightarrow> 's"
    and wf :: "'s \<Rightarrow> bool"
  assumes find_add: "wf s \<Longrightarrow> find (add k v s) = (find s)(k \<mapsto> v)"
    and find_del: "wf s \<Longrightarrow> find (del k s) = (find s)(k := None)"
    and wf_add: "wf s \<Longrightarrow> wf (add k v s)"
    and wf_del: "wf s \<Longrightarrow> wf (del k s)"
begin

definition apply1 :: "('k \<times> 'v) + 'k \<Rightarrow> 's \<Rightarrow> 's" where
  "apply1 op s = (case op of Inl (k, v) \<Rightarrow> add k v s | Inr k \<Rightarrow> del k s)"

definition abs1 :: "('k \<times> 'v) + 'k \<Rightarrow> ('k \<Rightarrow> 'v option) \<Rightarrow> ('k \<Rightarrow> 'v option)" where
  "abs1 op m = (case op of Inl (k, v) \<Rightarrow> m(k \<mapsto> v) | Inr k \<Rightarrow> m(k := None))"

lemma apply1_refines: "wf s \<Longrightarrow> wf (apply1 op s) \<and> find (apply1 op s) = abs1 op (find s)"
  by (auto simp: apply1_def abs1_def find_add find_del wf_add wf_del split: sum.splits)

lemma run_refines: "wf s \<Longrightarrow> wf (fold apply1 ops s) \<and> find (fold apply1 ops s) = fold abs1 ops (find s)"
  by (induction ops arbitrary: s) (simp_all add: apply1_refines)

lemma find_add_same: "wf s \<Longrightarrow> find (add k v s) k = Some v"
  by (simp add: find_add)

lemma find_add_del: "wf s \<Longrightarrow> find (del k (add k v s)) = (find s)(k := None)"
  by (simp add: find_add find_del wf_add)

end

text \<open>The maps of the standard library are registries.\<close>

interpretation rmap_registry: registry map_of map_insert map_remove map_wf
  by unfold_locales auto

end
