(* ===== verification/Frame.thy ===== *)
theory Frame
  imports B3_Prelude
begin

text \<open>
  The wire format of \<open>src/crates/b3-reliable/src/frame.rs\<close>: data, ACK and Resume frames, their
  encoders and the decoder with its length, magic and checksum guards. The CRC32 of the
  \<open>crc32fast\<close> crate is the parameter \<open>crc\<close>; nothing is assumed of it.
\<close>

definition MAGIC :: bytes where "MAGIC = [0xB3, 0x01]"
definition MAGIC_ACK :: bytes where "MAGIC_ACK = [0xB3, 0x02]"
definition MAGIC_RESUME :: bytes where "MAGIC_RESUME = [0xB3, 0x03]"

definition DATA_HEADER_SIZE :: nat where "DATA_HEADER_SIZE = 2 + 4 + 4 + 4 + 1 + 4"
definition ACK_SIZE :: nat where "ACK_SIZE = 2 + 4 + 2"
definition RESUME_SIZE :: nat where "RESUME_SIZE = 2 + 4"

datatype priority = Critical | BestEffort

definition priority_from_u8 :: "u8 \<Rightarrow> priority" where
  "priority_from_u8 v = (if v = 0 then Critical else BestEffort)"

text \<open>\<open>priority as u8\<close>: the discriminants of the \<open>repr(u8)\<close> enum.\<close>

definition priority_as_u8 :: "priority \<Rightarrow> u8" where
  "priority_as_u8 p = (case p of Critical \<Rightarrow> 0 | BestEffort \<Rightarrow> 1)"

datatype frame =
    Data u32 u32 u32 priority bytes  \<comment> \<open>seq, timestamp, checksum, priority, payload\<close>
  | Ack u32 u16  \<comment> \<open>ack_seq, window\<close>
  | Resume u32  \<comment> \<open>last_ack_seq\<close>

definition is_reliable :: "bytes \<Rightarrow> bool" where
  "is_reliable data \<longleftrightarrow>
     length data \<ge> 2 \<and> data ! 0 = 0xB3 \<and> (data ! 1 \<ge> 0x01 \<and> data ! 1 \<le> 0x03)"

definition encode_data :: "(bytes \<Rightarrow> u32) \<Rightarrow> u32 \<Rightarrow> u32 \<Rightarrow> priority \<Rightarrow> bytes \<Rightarrow> bytes" where
  "encode_data crc sq ts pri pl =
     (let checksum = crc pl;
          len = (of_nat (length pl) :: u32)
      in MAGIC @ to_le 4 sq @ to_le 4 ts @ to_le 4 checksum @ [priority_as_u8 pri]
           @ to_le 4 len @ pl)"

definition encode_ack :: "u32 \<Rightarrow> u16 \<Rightarrow> bytes" where
  "encode_ack a w = MAGIC_ACK @ to_le 4 a @ to_le 2 w"

definition encode_resume :: "u32 \<Rightarrow> bytes" where
  "encode_resume a = MAGIC_RESUME @ to_le 4 a"

definition decode_data :: "(bytes \<Rightarrow> u32) \<Rightarrow> bytes \<Rightarrow> frame option" where
  "decode_data crc data =
     (if length data < DATA_HEADER_SIZE then None
      else
        let sq = from_le [data ! 2, data ! 3, data ! 4, data ! 5];
            ts = from_le [data ! 6, data ! 7, data ! 8, data ! 9];
            checksum = from_le [data ! 10, data ! 11, data ! 12, data ! 13];
            pri = priority_from_u8 (data ! 14);
            payload_len = unat (from_le [data ! 15, data ! 16, data ! 17, data ! 18] :: u32)
        in if length data < DATA_HEADER_SIZE + payload_len then None
           else
             let pl = take payload_len (drop DATA_HEADER_SIZE data)
             in if crc pl \<noteq> checksum then None
                else Some (Data sq ts checksum pri pl))"

definition decode_ack :: "bytes \<Rightarrow> frame option" where
  "decode_ack data =
     (if length data < ACK_SIZE then None
      else Some (Ack (from_le [data ! 2, data ! 3, data ! 4, data ! 5])
                     (from_le [data ! 6, data ! 7])))"

definition decode_resume :: "bytes \<Rightarrow> frame option" where
  "decode_resume data =
     (if length data < RESUME_SIZE then None
      else Some (Resume (from_le [data ! 2, data ! 3, data ! 4, data ! 5])))"

definition decode :: "(bytes \<Rightarrow> u32) \<Rightarrow> bytes \<Rightarrow> frame option" where
  "decode crc data =
     (if length data < 2 then None
      else if data ! 0 = 0xB3 \<and> data ! 1 = 0x01 then decode_data crc data
      else if data ! 0 = 0xB3 \<and> data ! 1 = 0x02 then decode_ack data
      else if data ! 0 = 0xB3 \<and> data ! 1 = 0x03 then decode_resume data
      else None)"


section \<open>Round trips\<close>

lemmas header_sizes = DATA_HEADER_SIZE_def ACK_SIZE_def RESUME_SIZE_def
lemmas magics = MAGIC_def MAGIC_ACK_def MAGIC_RESUME_def

lemma priority_roundtrip [simp]: "priority_from_u8 (priority_as_u8 p) = p"
  by (cases p) (simp_all add: priority_from_u8_def priority_as_u8_def)

lemma length_encode_data [simp]: "length (encode_data crc sq ts pri pl) = DATA_HEADER_SIZE + length pl"
  by (simp add: encode_data_def magics header_sizes Let_def)

lemma drop_header_encode_data [simp]: "drop DATA_HEADER_SIZE (encode_data crc sq ts pri pl) = pl"
  by (simp add: encode_data_def magics header_sizes Let_def to_le_4)

text \<open>
  The decoder on an encoded frame followed by anything: the payload length of the header decides
  where the frame ends, so trailing bytes are ignored.
\<close>

lemma decode_encode_data_append:
  assumes "length pl < 2 ^ 32"
  shows "decode crc (encode_data crc sq ts pri pl @ rest) = Some (Data sq ts (crc pl) pri pl)"
  using assms
  by (simp add: decode_def decode_data_def encode_data_def magics header_sizes Let_def to_le_4
      le_simps unat_of_nat_u32)

lemma decode_encode_ack_append: "decode crc (encode_ack a w @ rest) = Some (Ack a w)"
  by (simp add: decode_def decode_ack_def encode_ack_def magics header_sizes to_le_4 to_le_2 le_simps)

lemma decode_encode_resume_append: "decode crc (encode_resume a @ rest) = Some (Resume a)"
  by (simp add: decode_def decode_resume_def encode_resume_def magics header_sizes to_le_4 le_simps)

lemma decode_encode_data [simp]:
  "length pl < 2 ^ 32 \<Longrightarrow> decode crc (encode_data crc sq ts pri pl) = Some (Data sq ts (crc pl) pri pl)"
  using decode_encode_data_append [where rest = "[]"] by simp

lemma decode_encode_ack [simp]: "decode crc (encode_ack a w) = Some (Ack a w)"
  using decode_encode_ack_append [where rest = "[]"] by simp

lemma decode_encode_resume [simp]: "decode crc (encode_resume a) = Some (Resume a)"
  using decode_encode_resume_append [where rest = "[]"] by simp

text \<open>The decoder accepts nothing that \<^const>\<open>is_reliable\<close> refuses.\<close>

lemma decode_Some_is_reliable: "decode crc data = Some f \<Longrightarrow> is_reliable data"
  by (auto simp: decode_def is_reliable_def split: if_splits)

lemma is_reliable_encode [simp]:
  "is_reliable (encode_data crc sq ts pri pl @ rest)"
  "is_reliable (encode_ack a w @ rest)"
  "is_reliable (encode_resume a @ rest)"
  by (simp_all add: is_reliable_def encode_data_def encode_ack_def encode_resume_def magics Let_def)

text \<open>A frame whose payload no longer has the checksum of its header is dropped.\<close>

lemma decode_corrupt_payload:
  assumes "length pl' = length pl" and "length pl < 2 ^ 32" and "crc pl' \<noteq> crc pl"
  shows "decode crc (take DATA_HEADER_SIZE (encode_data crc sq ts pri pl) @ pl') = None"
  using assms
  by (simp add: decode_def decode_data_def encode_data_def magics header_sizes Let_def to_le_4
      le_simps unat_of_nat_u32)

text \<open>A frame cut short anywhere is dropped.\<close>

lemma decode_truncated:
  assumes "length pl < 2 ^ 32" and "n < DATA_HEADER_SIZE + length pl"
  shows "decode crc (take n (encode_data crc sq ts pri pl)) = None"
proof (cases "n < DATA_HEADER_SIZE")
  case True
  then show ?thesis
    by (auto simp: decode_def decode_data_def encode_data_def magics header_sizes Let_def
        nth_append)
next
  case False
  with assms obtain m where "n = DATA_HEADER_SIZE + m" "m < length pl"
    by (metis add_less_cancel_left le_Suc_ex not_less)
  with assms(1) show ?thesis
    by (simp add: decode_def decode_data_def encode_data_def magics header_sizes Let_def to_le_4
        le_simps unat_of_nat_u32)
qed

interpretation data_frame: codec
  "\<lambda>(sq, ts, pri, pl). encode_data crc sq ts pri pl" "decode crc"
  "\<lambda>(sq, ts, pri, pl). Data sq ts (crc pl) pri pl" "\<lambda>(sq, ts, pri, pl). length pl < 2 ^ 32"
  for crc
  by unfold_locales auto

interpretation control_frame: codec
  "\<lambda>m. case m of Inl (a, w) \<Rightarrow> encode_ack a w | Inr a \<Rightarrow> encode_resume a" "decode crc"
  "\<lambda>m. case m of Inl (a, w) \<Rightarrow> Ack a w | Inr a \<Rightarrow> Resume a" "\<lambda>_. True"
  for crc
  by unfold_locales (auto split: sum.splits)

end
