(* ===== verification/Channel.thy ===== *)
theory Channel
  imports Frame
begin

text \<open>
  \<open>src/crates/b3-reliable/src/channel.rs\<close> and the \<open>Config\<close> of \<open>lib.rs\<close>: the reliable channel,
  its state and every operation. The transport closure \<open>transport_tx\<close> is the field
  \<^emph>\<open>transport_tx\<close>, a name for the closure; an operation returns the frames it handed to the closure,
  in order. \<open>timestamp()\<close> reads a clock: the reading is the argument \<open>now\<close>, or \<open>clk i\<close> for the
  \<open>i\<close>-th reading of an operation that reads it several times. Log lines are left out.
\<close>

section \<open>State\<close>

record config =
  max_send_buffer :: nat
  ack_interval_ms :: u64
  max_frame_payload :: nat

definition default_config :: config where
  "default_config = \<lparr>max_send_buffer = 1000, ack_interval_ms = 100, max_frame_payload = 32 * 1024\<rparr>"

record buffered_message =
  bm_seq :: u32
  bm_priority :: priority
  bm_encoded :: bytes

record received_message =
  rm_payload :: bytes
  rm_seq :: u32
  rm_priority :: priority

record 't reliable_channel =
  cfg :: config
  session_id :: u64
  next_seq :: u32
  send_buffer :: "buffered_message list"
  last_ack_received :: u32
  transport_tx :: 't
  last_contiguous :: u32
  reorder_buffer :: "(u32, received_message) rmap"
  ack_pending :: bool
  chunk_assembly :: bytes
  duplicate_ack_count :: u32

definition channel_new :: "config \<Rightarrow> 't \<Rightarrow> 't reliable_channel" where
  "channel_new c tx =
     \<lparr>cfg = c, session_id = 0, next_seq = 1, send_buffer = [], last_ack_received = 0,
      transport_tx = tx, last_contiguous = 0, reorder_buffer = [], ack_pending = False,
      chunk_assembly = [], duplicate_ack_count = 0\<rparr>"

definition set_session_id :: "u64 \<Rightarrow> 't reliable_channel \<Rightarrow> 't reliable_channel" where
  "set_session_id i ch = ch\<lparr>session_id := i\<rparr>"


section \<open>Sending\<close>

text \<open>The loop that enforces the buffer limit: it looks at the front of the buffer only.\<close>

fun evict :: "nat \<Rightarrow> u32 \<Rightarrow> buffered_message list \<Rightarrow> buffered_message list" where
  "evict mx la [] = []"
| "evict mx la (front # rest) =
     (if length (front # rest) > mx then
        if bm_priority front = BestEffort \<or> bm_seq front \<le> la then evict mx la rest
        else front # rest
      else front # rest)"

definition send_one ::
  "(bytes \<Rightarrow> u32) \<Rightarrow> u32 \<Rightarrow> bytes \<Rightarrow> priority \<Rightarrow> 't reliable_channel \<Rightarrow> 't reliable_channel \<times> bytes list" where
  "send_one crc now pl pri ch =
     (let sq = next_seq ch;
          ch1 = ch\<lparr>next_seq := next_seq ch + 1\<rparr>;
          encoded = encode_data crc sq now pri pl;
          ch2 = ch1\<lparr>send_buffer := send_buffer ch1 @
                  [\<lparr>bm_seq = sq, bm_priority = pri, bm_encoded = encoded\<rparr>]\<rparr>;
          ch3 = ch2\<lparr>send_buffer :=
                  evict (max_send_buffer (cfg ch2)) (last_ack_received ch2) (send_buffer ch2)\<rparr>
      in (ch3, [encoded]))"

text \<open>The bodies of the two loops that call \<open>send_one\<close> on a list of framed payloads.\<close>

fun send_framed ::
  "(bytes \<Rightarrow> u32) \<Rightarrow> (nat \<Rightarrow> u32) \<Rightarrow> nat \<Rightarrow> (bytes \<times> priority) list \<Rightarrow> 't reliable_channel
     \<Rightarrow> 't reliable_channel \<times> bytes list" where
  "send_framed crc clk i [] ch = (ch, [])"
| "send_framed crc clk i ((pl, pri) # ps) ch =
     (let (ch1, out1) = send_one crc (clk i) pl pri ch;
          (ch2, out2) = send_framed crc clk (Suc i) ps ch1
      in (ch2, out1 @ out2))"

definition chunk_tag :: "nat \<Rightarrow> nat \<Rightarrow> u8" where
  "chunk_tag i last_idx = (if i = 0 then 0x01 else if i = last_idx then 0x03 else 0x02)"

text \<open>
  The framed payloads of one message: a standalone frame, or the tagged chunks. \<open>None\<close> is the
  panic of \<open>payload.chunks(0)\<close>.
\<close>

definition frame_payloads :: "nat \<Rightarrow> bytes \<Rightarrow> bytes list option" where
  "frame_payloads mx pl =
     (if length pl \<le> mx then Some [0x00 # pl]
      else if mx = 0 then None
      else
        let cs = chunks mx pl;
            last_idx = length cs - 1
        in Some (map (\<lambda>(i, c). chunk_tag i last_idx # c) (enumerate 0 cs)))"

definition send ::
  "(bytes \<Rightarrow> u32) \<Rightarrow> (nat \<Rightarrow> u32) \<Rightarrow> bytes \<Rightarrow> priority \<Rightarrow> 't reliable_channel
     \<Rightarrow> ('t reliable_channel \<times> bytes list) option" where
  "send crc clk pl pri ch =
     (case frame_payloads (max_frame_payload (cfg ch)) pl of
        None \<Rightarrow> None
      | Some framed \<Rightarrow> Some (send_framed crc clk 0 (map (\<lambda>f. (f, pri)) framed) ch))"


section \<open>Receiving data\<close>

fun process_chunk ::
  "bytes \<Rightarrow> u32 \<Rightarrow> priority \<Rightarrow> 't reliable_channel \<Rightarrow> 't reliable_channel \<times> received_message list" where
  "process_chunk [] sq pri ch = (ch, [])"
| "process_chunk (tag # data) sq pri ch =
     (if tag = 0x00 then (ch, [\<lparr>rm_payload = data, rm_seq = sq, rm_priority = pri\<rparr>])
      else if tag = 0x01 then (ch\<lparr>chunk_assembly := data\<rparr>, [])
      else if tag = 0x02 then (ch\<lparr>chunk_assembly := chunk_assembly ch @ data\<rparr>, [])
      else if tag = 0x03 then
        (ch\<lparr>chunk_assembly := []\<rparr>,
         [\<lparr>rm_payload = chunk_assembly ch @ data, rm_seq = sq, rm_priority = pri\<rparr>])
      else (ch, [\<lparr>rm_payload = tag # data, rm_seq = sq, rm_priority = pri\<rparr>]))"

lemma process_chunk_frame:
  assumes "process_chunk pl sq pri ch = (ch', ms)"
  shows "reorder_buffer ch' = reorder_buffer ch \<and> last_contiguous ch' = last_contiguous ch \<and>
    ack_pending ch' = ack_pending ch \<and> cfg ch' = cfg ch \<and> next_seq ch' = next_seq ch \<and>
    send_buffer ch' = send_buffer ch \<and> last_ack_received ch' = last_ack_received ch \<and>
    transport_tx ch' = transport_tx ch \<and> session_id ch' = session_id ch \<and>
    duplicate_ack_count ch' = duplicate_ack_count ch"
  using assms by (cases pl) (auto split: if_splits)

text \<open>The loop that drains the reorder buffer while the next sequence number is there.\<close>

function drain :: "'t reliable_channel \<Rightarrow> 't reliable_channel \<times> received_message list" where
  "drain ch =
     (case map_of (reorder_buffer ch) (last_contiguous ch + 1) of
        None \<Rightarrow> (ch, [])
      | Some nxt \<Rightarrow>
          let ch1 = ch\<lparr>reorder_buffer := map_remove (last_contiguous ch + 1) (reorder_buffer ch),
                       last_contiguous := rm_seq nxt\<rparr>;
              (ch2, d) = process_chunk (rm_payload nxt) (rm_seq nxt) (rm_priority nxt) ch1;
              (ch3, ds) = drain ch2
          in (ch3, d @ ds))"
  by pat_completeness auto
termination
proof (relation "measure (\<lambda>ch. length (reorder_buffer ch))")
  fix ch :: "'t reliable_channel" and nxt x ch1 ch2 d
  assume nxt: "map_of (reorder_buffer ch) (last_contiguous ch + 1) = Some nxt"
    and ch1: "ch1 = ch\<lparr>reorder_buffer := map_remove (last_contiguous ch + 1) (reorder_buffer ch),
                last_contiguous := rm_seq nxt\<rparr>"
    and "x = process_chunk (rm_payload nxt) (rm_seq nxt) (rm_priority nxt) ch1" and "(ch2, d) = x"
  then have "reorder_buffer ch2 = reorder_buffer ch1"
    by (metis process_chunk_frame)
  with nxt ch1 show "(ch2, ch) \<in> measure (\<lambda>ch. length (reorder_buffer ch))"
    by (simp add: map_remove_less)
qed simp

declare drain.simps [simp del]

definition receive_data ::
  "u32 \<Rightarrow> priority \<Rightarrow> bytes \<Rightarrow> 't reliable_channel \<Rightarrow> 't reliable_channel \<times> received_message list" where
  "receive_data sq pri pl ch =
     (let ch0 = ch\<lparr>ack_pending := True\<rparr>
      in if sq \<le> last_contiguous ch0 then (ch0, [])
         else if sq = last_contiguous ch0 + 1 then
           let ch1 = ch0\<lparr>last_contiguous := sq\<rparr>;
               (ch2, delivered) = process_chunk pl sq pri ch1;
               (ch3, more) = drain ch2
           in (ch3, delivered @ more)
         else
           (ch0\<lparr>reorder_buffer :=
              map_or_insert sq \<lparr>rm_payload = pl, rm_seq = sq, rm_priority = pri\<rparr> (reorder_buffer ch0)\<rparr>, []))"


section \<open>ACK, Resume and the other operations\<close>

definition retransmit :: "u32 \<Rightarrow> buffered_message list \<Rightarrow> bytes list" where
  "retransmit a buf = map bm_encoded (filter (\<lambda>m. bm_seq m > a \<and> bm_priority m = Critical) buf)"

definition receive_ack :: "u32 \<Rightarrow> 't reliable_channel \<Rightarrow> 't reliable_channel \<times> bytes list" where
  "receive_ack a ch =
     (if a > last_ack_received ch then
        (ch\<lparr>last_ack_received := a,
            send_buffer := dropWhile (\<lambda>m. bm_seq m \<le> a) (send_buffer ch),
            duplicate_ack_count := 0\<rparr>, [])
      else if a = last_ack_received ch \<and> send_buffer ch \<noteq> [] then
        let n = duplicate_ack_count ch + 1
        in if n \<ge> 3 then (ch\<lparr>duplicate_ack_count := 0\<rparr>, retransmit a (send_buffer ch))
           else (ch\<lparr>duplicate_ack_count := n\<rparr>, [])
      else (ch, []))"

text \<open>The payload of a buffered frame, as the gap branch of \<open>handle_resume\<close> extracts it.\<close>

definition buffered_payload :: "buffered_message \<Rightarrow> bytes" where
  "buffered_payload m =
     (if length (bm_encoded m) > DATA_HEADER_SIZE then drop DATA_HEADER_SIZE (bm_encoded m)
      else bm_encoded m)"

definition resume_gap :: "u32 \<Rightarrow> 't reliable_channel \<Rightarrow> bool" where
  "resume_gap la ch \<longleftrightarrow>
     (case send_buffer ch of [] \<Rightarrow> False | m # _ \<Rightarrow> bm_seq m > la + 1)"

definition handle_resume ::
  "(bytes \<Rightarrow> u32) \<Rightarrow> (nat \<Rightarrow> u32) \<Rightarrow> u32 \<Rightarrow> 't reliable_channel \<Rightarrow> 't reliable_channel \<times> bytes list" where
  "handle_resume crc clk la ch =
     (let ch0 = ch\<lparr>last_ack_received := la\<rparr>;
          (ch1, resent) =
            (if la \<ge> next_seq ch0 then
               (ch0\<lparr>next_seq := la + 1, send_buffer := [], last_contiguous := 0, reorder_buffer := []\<rparr>, [])
             else if la < next_seq ch0 \<and> resume_gap la ch0 then
               let critical_payloads =
                     map (\<lambda>m. (buffered_payload m, bm_priority m))
                       (filter (\<lambda>m. bm_priority m = Critical) (send_buffer ch0))
               in send_framed crc clk 0 critical_payloads
                    (ch0\<lparr>next_seq := la + 1, last_contiguous := la, send_buffer := [],
                         reorder_buffer := []\<rparr>)
             else (ch0, []));
          to_replay = retransmit la (send_buffer ch1);
          ch2 = ch1\<lparr>send_buffer := dropWhile (\<lambda>m. bm_seq m \<le> la) (send_buffer ch1)\<rparr>
      in (ch2, resent @ to_replay))"

text \<open>\<open>receive\<close>: the delivered messages, and the frames handed to the transport meanwhile.\<close>

definition receive ::
  "(bytes \<Rightarrow> u32) \<Rightarrow> (nat \<Rightarrow> u32) \<Rightarrow> bytes \<Rightarrow> 't reliable_channel
     \<Rightarrow> 't reliable_channel \<times> received_message list \<times> bytes list" where
  "receive crc clk data ch =
     (case decode crc data of
        None \<Rightarrow> (ch, [], [])
      | Some (Data sq ts ck pri pl) \<Rightarrow>
          let (ch', ms) = receive_data sq pri pl ch in (ch', ms, [])
      | Some (Ack a w) \<Rightarrow>
          let (ch', out) = receive_ack a ch in (ch', [], out)
      | Some (Resume la) \<Rightarrow>
          let (ch', out) = handle_resume crc clk la ch in (ch', [], out))"

definition set_transport :: "'t \<Rightarrow> 't reliable_channel \<Rightarrow> 't reliable_channel" where
  "set_transport tx ch = ch\<lparr>transport_tx := tx\<rparr>"

definition channel_reset :: "'t reliable_channel \<Rightarrow> 't reliable_channel" where
  "channel_reset ch =
     ch\<lparr>next_seq := 1, send_buffer := [], last_ack_received := 0, last_contiguous := 0,
        reorder_buffer := [], ack_pending := False, chunk_assembly := [], duplicate_ack_count := 0\<rparr>"

definition send_resume :: "'t reliable_channel \<Rightarrow> bytes list" where
  "send_resume ch = [encode_resume (last_contiguous ch)]"

definition last_contiguous_received :: "'t reliable_channel \<Rightarrow> u32" where
  "last_contiguous_received ch = last_contiguous ch"

text \<open>The advertised window: a \<open>usize\<close> subtraction, then a cast to \<open>u16\<close>.\<close>

definition tick_window :: "'t reliable_channel \<Rightarrow> u16" where
  "tick_window ch =
     ucast (of_nat (max_send_buffer (cfg ch)) - of_nat (length (reorder_buffer ch)) :: u64)"

definition tick :: "'t reliable_channel \<Rightarrow> 't reliable_channel \<times> bytes list" where
  "tick ch =
     (if ack_pending ch then
        (ch\<lparr>ack_pending := False\<rparr>, [encode_ack (last_contiguous ch) (tick_window ch)])
      else (ch, []))"

definition flush_unacked :: "'t reliable_channel \<Rightarrow> bytes list" where
  "flush_unacked ch = retransmit (last_ack_received ch) (send_buffer ch)"

definition unacked_count :: "'t reliable_channel \<Rightarrow> nat" where
  "unacked_count ch = length (send_buffer ch)"

definition reorder_count :: "'t reliable_channel \<Rightarrow> nat" where
  "reorder_count ch = length (reorder_buffer ch)"

end
