(* ===== verification/Channel_Receive.thy ===== *)
theory Channel_Receive
  imports Channel
begin

text \<open>
  The receiving half of the reliable channel: the abstract specification (the delivered messages
  are the reassembly of the frames \<open>1..k\<close>, where \<open>k\<close> is the end of the contiguous run received so
  far) and the proof that \<^const>\<open>receive_data\<close> with its reorder buffer implements it for frames that
  arrive in any order, any number of times.
\<close>

section \<open>Reassembly as a function of the frames\<close>

fun chunk_step :: "bytes \<Rightarrow> bytes \<Rightarrow> u32 \<Rightarrow> priority \<Rightarrow> bytes \<times> received_message list" where
  "chunk_step asm [] sq pri = (asm, [])"
| "chunk_step asm (tag # data) sq pri =
     (if tag = 0x00 then (asm, [\<lparr>rm_payload = data, rm_seq = sq, rm_priority = pri\<rparr>])
      else if tag = 0x01 then (data, [])
      else if tag = 0x02 then (asm @ data, [])
      else if tag = 0x03 then ([], [\<lparr>rm_payload = asm @ data, rm_seq = sq, rm_priority = pri\<rparr>])
      else (asm, [\<lparr>rm_payload = tag # data, rm_seq = sq, rm_priority = pri\<rparr>]))"

lemma process_chunk_eq:
  "process_chunk pl sq pri ch =
     (ch\<lparr>chunk_assembly := fst (chunk_step (chunk_assembly ch) pl sq pri)\<rparr>,
      snd (chunk_step (chunk_assembly ch) pl sq pri))"
  by (cases pl) simp_all

fun assemble :: "bytes \<Rightarrow> nat \<Rightarrow> (bytes \<times> priority) list \<Rightarrow> bytes \<times> received_message list" where
  "assemble asm k [] = (asm, [])"
| "assemble asm k ((pl, pri) # fs) =
     (let (asm1, ms1) = chunk_step asm pl (of_nat k) pri;
          (asm2, ms2) = assemble asm1 (Suc k) fs
      in (asm2, ms1 @ ms2))"

lemma assemble_append:
  "assemble asm k (fs @ gs) =
     (let (asm1, ms1) = assemble asm k fs;
          (asm2, ms2) = assemble asm1 (k + length fs) gs
      in (asm2, ms1 @ ms2))"
  by (induction asm k fs rule: assemble.induct) (simp_all add: Let_def split: prod.splits)


section \<open>The receiver's state against the set of frames received\<close>

text \<open>
  \<open>fr n\<close> is the frame the sender put at sequence number \<open>n\<close>; \<open>S\<close> is the set of the numbers received
  so far. \<open>rx_at fr S k ch d\<close>: the channel has delivered exactly the frames \<open>1..k\<close> as \<open>d\<close>, and the
  reorder buffer holds exactly the other received frames.
\<close>

definition rx_at ::
  "(nat \<Rightarrow> bytes \<times> priority) \<Rightarrow> nat set \<Rightarrow> nat \<Rightarrow> 't reliable_channel \<Rightarrow> received_message list \<Rightarrow> bool" where
  "rx_at fr S k ch d \<longleftrightarrow>
     last_contiguous ch = of_nat k \<and> k < 2 ^ 32 \<and> (\<forall>n. 0 < n \<and> n \<le> k \<longrightarrow> n \<in> S) \<and> (\<forall>n \<in> S. 0 < n \<and> n < 2 ^ 32) \<and>
     map_wf (reorder_buffer ch) \<and>
     map_of (reorder_buffer ch) =
       (\<lambda>s. if unat s \<in> S \<and> k < unat s
            then Some \<lparr>rm_payload = fst (fr (unat s)), rm_seq = s, rm_priority = snd (fr (unat s))\<rparr>
            else None) \<and>
     assemble [] 1 (map fr [1..<Suc k]) = (chunk_assembly ch, d)"

definition rx_inv ::
  "(nat \<Rightarrow> bytes \<times> priority) \<Rightarrow> nat set \<Rightarrow> nat \<Rightarrow> 't reliable_channel \<Rightarrow> received_message list \<Rightarrow> bool" where
  "rx_inv fr S k ch d \<longleftrightarrow> rx_at fr S k ch d \<and> Suc k \<notin> S"

lemma rx_at_lc: "rx_at fr S k ch d \<Longrightarrow> unat (last_contiguous ch) = k"
  by (simp add: rx_at_def unat_of_nat_u32)

text \<open>Delivering the frame after the contiguous run, from wherever it was kept.\<close>

lemma rx_at_deliver:
  assumes rx: "rx_at fr S k ch d" and S': "S' = insert (Suc k) S" and lt: "Suc k < 2 ^ 32"
    and fr: "fr (Suc k) = (pl, pri)"
    and rb: "map_wf rb" "map_of rb = (map_of (reorder_buffer ch))(of_nat (Suc k) := None)"
    and st: "process_chunk pl (of_nat (Suc k)) pri
               (ch\<lparr>reorder_buffer := rb, last_contiguous := of_nat (Suc k)\<rparr>) = (ch', ms)"
  shows "rx_at fr S' (Suc k) ch' (d @ ms)"
proof -
  from st have ch': "chunk_step (chunk_assembly ch) pl (of_nat (Suc k)) pri = (chunk_assembly ch', ms)"
      "reorder_buffer ch' = rb" "last_contiguous ch' = of_nat (Suc k)"
    by (auto simp: process_chunk_eq)
  have "assemble [] 1 (map fr [1..<Suc k]) = (chunk_assembly ch, d)"
    using rx unfolding rx_at_def by blast
  then have "assemble [] 1 (map fr [1..<Suc k] @ [fr (Suc k)]) = (chunk_assembly ch', d @ ms)"
    using ch'(1) fr by (simp add: assemble_append del: upt_Suc of_nat_Suc)
  then have asm: "assemble [] 1 (map fr [1..<Suc (Suc k)]) = (chunk_assembly ch', d @ ms)"
    by simp
  have key: "s = of_nat (Suc k) \<longleftrightarrow> unat s = Suc k" for s :: u32
    using lt by (metis unat_of_nat_u32 word_unat_eq_iff)
  have "map_of rb s = (if unat s \<in> S' \<and> Suc k < unat s
      then Some \<lparr>rm_payload = fst (fr (unat s)), rm_seq = s, rm_priority = snd (fr (unat s))\<rparr>
      else None)" for s
  proof (cases "unat s = Suc k")
    case True
    then have "s = of_nat (Suc k)" using key by blast
    with True show ?thesis unfolding rb(2) by simp
  next
    case False
    then have "s \<noteq> of_nat (Suc k)" using key by blast
    then have "map_of rb s = map_of (reorder_buffer ch) s" unfolding rb(2) by simp
    moreover have "unat s \<in> S' \<and> Suc k < unat s \<longleftrightarrow> unat s \<in> S \<and> k < unat s"
      using False S' by auto
    ultimately show ?thesis using rx by (simp add: rx_at_def)
  qed
  then have "map_of rb = (\<lambda>s. if unat s \<in> S' \<and> Suc k < unat s
      then Some \<lparr>rm_payload = fst (fr (unat s)), rm_seq = s, rm_priority = snd (fr (unat s))\<rparr>
      else None)" by blast
  moreover have "0 < n \<and> n \<le> Suc k \<longrightarrow> n \<in> S'" for n
    using rx S' by (auto simp: rx_at_def le_Suc_eq)
  moreover have "\<forall>n \<in> S'. 0 < n \<and> n < 2 ^ 32"
    using rx lt S' by (auto simp: rx_at_def)
  ultimately show ?thesis
    using asm ch'(2,3) lt rb(1) unfolding rx_at_def by blast
qed

lemma drain_None: "map_of (reorder_buffer ch) (last_contiguous ch + 1) = None \<Longrightarrow> drain ch = (ch, [])"
  by (simp add: drain.simps [of ch])

lemma drain_Some:
  assumes "map_of (reorder_buffer ch) (last_contiguous ch + 1) = Some nxt"
    and "process_chunk (rm_payload nxt) (rm_seq nxt) (rm_priority nxt)
           (ch\<lparr>reorder_buffer := map_remove (last_contiguous ch + 1) (reorder_buffer ch),
              last_contiguous := rm_seq nxt\<rparr>) = (ch2, d)"
    and "drain ch2 = (ch3, ds)"
  shows "drain ch = (ch3, d @ ds)"
  using assms by (simp add: drain.simps [of ch] Let_def)

lemma rx_at_drain: "rx_at fr S k ch d \<Longrightarrow> drain ch = (ch', ms) \<Longrightarrow> \<exists>k'. rx_inv fr S k' ch' (d @ ms)"
proof (induction ch arbitrary: k d ch' ms rule: drain.induct)
  case (1 ch)
  let ?nx = "last_contiguous ch + 1"
  have nx: "?nx = of_nat (Suc k)" using "1.prems"(1) by (simp add: rx_at_def)
  show ?case
  proof (cases "map_of (reorder_buffer ch) ?nx")
    case None
    have "Suc k \<notin> S"
    proof
      assume "Suc k \<in> S"
      moreover from this "1.prems"(1) have "unat (of_nat (Suc k) :: u32) = Suc k"
        by (intro unat_of_nat_u32) (auto simp: rx_at_def)
      ultimately show False
        using None "1.prems"(1) unfolding nx by (simp add: rx_at_def del: of_nat_Suc)
    qed
    with None "1.prems" show ?thesis
      by (auto simp: rx_inv_def drain.simps [of ch])
  next
    case (Some nxt)
    from Some "1.prems"(1) have inS: "unat (of_nat (Suc k) :: u32) \<in> S" "k < unat (of_nat (Suc k) :: u32)"
      unfolding nx by (auto simp: rx_at_def simp del: of_nat_Suc split: if_splits)
    have lt: "Suc k < 2 ^ 32"
    proof (rule ccontr)
      assume "\<not> Suc k < 2 ^ 32"
      with "1.prems"(1) have "Suc k = 2 ^ 32" by (simp add: rx_at_def)
      then have "unat (of_nat (Suc k) :: u32) = 0" by (simp only: unat_of_nat) simp
      with inS show False by simp
    qed
    then have u: "unat (of_nat (Suc k) :: u32) = Suc k" by (rule unat_of_nat_u32)
    obtain pl pri where fr: "fr (Suc k) = (pl, pri)" by fastforce
    from Some "1.prems"(1) have nxt: "nxt = \<lparr>rm_payload = pl, rm_seq = of_nat (Suc k), rm_priority = pri\<rparr>"
      unfolding nx by (auto simp: rx_at_def u fr simp del: of_nat_Suc split: if_splits)
    define ch1 where "ch1 = ch\<lparr>reorder_buffer := map_remove (of_nat (Suc k)) (reorder_buffer ch),
                        last_contiguous := of_nat (Suc k)\<rparr>"
    obtain ch2 d1 where p: "process_chunk pl (of_nat (Suc k)) pri ch1 = (ch2, d1)" by fastforce
    obtain ch3 ds where dr: "drain ch2 = (ch3, ds)" by fastforce
    have "rx_at fr S (Suc k) ch2 (d @ d1)"
    proof (rule rx_at_deliver [OF "1.prems"(1) _ lt fr])
      show "S = insert (Suc k) S" using inS(1) unfolding u by auto
      show "map_wf (map_remove (of_nat (Suc k)) (reorder_buffer ch))"
        using "1.prems"(1) by (simp add: rx_at_def map_wf_remove)
    qed (use p in \<open>simp_all only: ch1_def map_of_remove\<close>)
    moreover have st: "process_chunk (rm_payload nxt) (rm_seq nxt) (rm_priority nxt)
           (ch\<lparr>reorder_buffer := map_remove ?nx (reorder_buffer ch), last_contiguous := rm_seq nxt\<rparr>)
         = (ch2, d1)"
      using p unfolding nxt nx ch1_def by simp
    then have "ch' = ch3" "ms = d1 @ ds"
      using "1.prems"(2) drain_Some [OF Some st dr] by auto
    ultimately show ?thesis
      using "1.IH" [OF Some refl st [symmetric] refl _ dr] by (metis append.assoc)
  qed
qed

text \<open>One frame, whatever its place: already delivered, next in line, or out of order.\<close>

lemma receive_data_rx:
  assumes rx: "rx_inv fr S k ch d" and n: "0 < n" "n < 2 ^ 32" and fr: "fr n = (pl, pri)"
    and st: "receive_data (of_nat n) pri pl ch = (ch', ms)"
  shows "\<exists>k'. rx_inv fr (insert n S) k' ch' (d @ ms)"
proof -
  let ?ch0 = "ch\<lparr>ack_pending := True\<rparr>" and ?sq = "of_nat n :: u32"
  have at: "rx_at fr S k ch d" and gap: "Suc k \<notin> S" using rx by (auto simp: rx_inv_def)
  then have lc: "last_contiguous ch = of_nat k" "k < 2 ^ 32" by (auto simp: rx_at_def)
  have u: "unat ?sq = n" "unat (of_nat k :: u32) = k" using n lc by (simp_all add: unat_of_nat_u32)
  have at0: "rx_at fr S k ?ch0 d" using at by (simp add: rx_at_def)
  show ?thesis
  proof (cases "n \<le> k")
    case True
    then have "n \<in> S" using at n by (simp add: rx_at_def)
    moreover have "?sq \<le> last_contiguous ch" using True u lc by (simp add: word_le_nat_alt)
    ultimately show ?thesis
      using st at0 gap by (auto simp: receive_data_def rx_inv_def insert_absorb)
  next
    case later: False
    then have gt: "\<not> ?sq \<le> last_contiguous ch" using u lc by (simp add: word_le_nat_alt)
    show ?thesis
    proof (cases "n = Suc k")
      case True
      then have nx: "?sq = last_contiguous ch + 1" using lc by simp
      define ch1 where "ch1 = ?ch0\<lparr>last_contiguous := ?sq\<rparr>"
      obtain ch2 d1 where p: "process_chunk pl ?sq pri ch1 = (ch2, d1)" by fastforce
      obtain ch3 ds where dr: "drain ch2 = (ch3, ds)" by fastforce
      have out: "ch' = ch3" "ms = d1 @ ds"
        using st gt nx p dr by (simp_all add: receive_data_def ch1_def)
      have none: "map_of (reorder_buffer ch) (of_nat (Suc k)) = None"
        using at gap u(1) unfolding True by (simp add: rx_at_def del: of_nat_Suc)
      have "rx_at fr (insert n S) (Suc k) ch2 (d @ d1)"
      proof (rule rx_at_deliver [OF at0 _ _ fr [unfolded True], where rb = "reorder_buffer ch"])
        show "map_wf (reorder_buffer ch)" using at by (simp add: rx_at_def)
        show "map_of (reorder_buffer ch) = (map_of (reorder_buffer ?ch0))(of_nat (Suc k) := None)"
          using none by (simp add: fun_upd_idem del: of_nat_Suc)
      qed (use True n p in \<open>simp_all add: ch1_def del: of_nat_Suc\<close>)
      from rx_at_drain [OF this dr] show ?thesis using out by simp
    next
      case False
      have nn: "?sq \<noteq> last_contiguous ch + 1"
      proof
        assume "?sq = last_contiguous ch + 1"
        then have "?sq = of_nat (Suc k)" using lc by simp
        moreover have "unat (of_nat (Suc k) :: u32) = Suc k"
          using later n by (intro unat_of_nat_u32) simp
        ultimately show False using u(1) False by simp
      qed
      let ?m = "\<lparr>rm_payload = pl, rm_seq = ?sq, rm_priority = pri\<rparr>"
      have ch': "ch' = ?ch0\<lparr>reorder_buffer := map_or_insert ?sq ?m (reorder_buffer ch)\<rparr>" "ms = []"
        using st gt nn by (simp_all add: receive_data_def)
      have key: "s = ?sq \<longleftrightarrow> unat s = n" for s :: u32 using u by (metis word_unat_eq_iff)
      have "map_of (map_or_insert ?sq ?m (reorder_buffer ch)) s =
          (if unat s \<in> insert n S \<and> k < unat s
           then Some \<lparr>rm_payload = fst (fr (unat s)), rm_seq = s, rm_priority = snd (fr (unat s))\<rparr>
           else None)" for s
        using at later fr key [of s] u by (auto simp: rx_at_def split: option.splits)
      then have "rx_at fr (insert n S) k ch' d"
        using at n ch' by (auto simp: rx_at_def)
      then show ?thesis using ch' gap False by (auto simp: rx_inv_def)
    qed
  qed
qed

end
