(* ===== verification/Delivery.thy ===== *)
theory Delivery
  imports Channel_Receive
begin

text \<open>
  End to end: what one channel sends, chunked and numbered, against what the other delivers. The
  frames may arrive in any order and any number of times; once each has arrived, exactly the
  messages sent have been delivered, in order and once.
\<close>

section \<open>Chunking and reassembly\<close>

lemma frame_payloads_Some: "0 < mx \<Longrightarrow> \<exists>fs. frame_payloads mx pl = Some fs"
  by (simp add: frame_payloads_def Let_def)

lemma frame_payloads_length:
  "frame_payloads mx pl = Some fs \<Longrightarrow> f \<in> set fs \<Longrightarrow> f \<noteq> [] \<and> length f \<le> Suc mx"
  by (auto simp: frame_payloads_def Let_def in_set_enumerate_eq split: if_splits
      dest!: nth_mem chunks_bounds)

text \<open>The middle chunks of a message are appended one by one.\<close>

lemma assemble_middle:
  "assemble asm k (map (\<lambda>c. (0x02 # c, pri)) cs) = (asm @ concat cs, [])"
  by (induction cs arbitrary: asm k) simp_all

text \<open>The tags of a chunked message: one first chunk, middle chunks, one last chunk.\<close>

lemma chunked_split:
  assumes "mx < length pl" and "0 < mx"
  obtains c cs l where "chunks mx pl = c # cs @ [l]" and
    "map (\<lambda>(i, c). chunk_tag i (length (chunks mx pl) - 1) # c) (enumerate 0 (chunks mx pl))
       = (0x01 # c) # map (\<lambda>c. 0x02 # c) cs @ [0x03 # l]"
proof -
  have "chunks mx pl = take mx pl # chunks mx (drop mx pl)"
    using assms by (intro chunks_step) auto
  moreover have "chunks mx (drop mx pl) \<noteq> []" using assms by simp
  ultimately obtain c cs l where eq: "chunks mx pl = c # cs @ [l]"
    by (metis append_butlast_last_id)
  have mid: "map (\<lambda>(i, c). chunk_tag i (Suc n) # c) (enumerate k cs) = map (\<lambda>c. 0x02 # c) cs"
    if "0 < k" and "k + length cs \<le> Suc n" for k n
    using that
  proof (induction cs arbitrary: k)
    case (Cons c cs)
    then show ?case by (simp add: chunk_tag_def)
  qed simp
  have "map (\<lambda>(i, c). chunk_tag i (length (chunks mx pl) - 1) # c) (enumerate 0 (chunks mx pl))
      = (0x01 # c) # map (\<lambda>c. 0x02 # c) cs @ [0x03 # l]"
    unfolding eq using mid [of 1 "length cs"]
    by (simp add: enumerate_append_eq chunk_tag_def)
  from that [OF eq this] show thesis .
qed

lemma assemble_message:
  assumes "frame_payloads mx pl = Some fs"
  shows "\<exists>sq. assemble [] k (map (\<lambda>f. (f, pri)) fs)
           = ([], [\<lparr>rm_payload = pl, rm_seq = sq, rm_priority = pri\<rparr>])"
proof (cases "length pl \<le> mx")
  case True
  with assms show ?thesis by (auto simp: frame_payloads_def)
next
  case False
  with assms have mx: "0 < mx" "mx < length pl" by (auto simp: frame_payloads_def split: if_splits)
  then obtain c cs l where cs: "chunks mx pl = c # cs @ [l]"
    and fs: "map (\<lambda>(i, c). chunk_tag i (length (chunks mx pl) - 1) # c) (enumerate 0 (chunks mx pl))
       = (0x01 # c) # map (\<lambda>c. 0x02 # c) cs @ [0x03 # l]"
    by (elim chunked_split)
  have pl: "pl = c @ concat cs @ l"
    using concat_chunks [OF mx(1), of pl] cs by simp
  have "fs = (0x01 # c) # map (\<lambda>c. 0x02 # c) cs @ [0x03 # l]"
    using assms mx fs by (simp add: frame_payloads_def Let_def)
  then have "map (\<lambda>f. (f, pri)) fs =
      (0x01 # c, pri) # map (\<lambda>c. (0x02 # c, pri)) cs @ [(0x03 # l, pri)]" by simp
  then show ?thesis
    by (simp add: assemble_append assemble_middle pl)
qed

text \<open>The framed payloads of a list of messages, and their reassembly.\<close>

fun frames_of :: "nat \<Rightarrow> (bytes \<times> priority) list \<Rightarrow> (bytes \<times> priority) list" where
  "frames_of mx [] = []"
| "frames_of mx ((pl, pri) # ms) =
     (case frame_payloads mx pl of None \<Rightarrow> [] | Some fs \<Rightarrow> map (\<lambda>f. (f, pri)) fs) @ frames_of mx ms"

lemma assemble_frames_of:
  "0 < mx \<Longrightarrow> \<exists>rs. assemble [] k (frames_of mx ms) = ([], rs) \<and>
     map (\<lambda>r. (rm_payload r, rm_priority r)) rs = ms"
proof (induction ms arbitrary: k)
  case Nil
  then show ?case by simp
next
  case (Cons m ms)
  obtain pl pri where m: "m = (pl, pri)" by fastforce
  obtain fs where fs: "frame_payloads mx pl = Some fs" using Cons.prems frame_payloads_Some by blast
  then obtain sq where "assemble [] k (map (\<lambda>f. (f, pri)) fs)
      = ([], [\<lparr>rm_payload = pl, rm_seq = sq, rm_priority = pri\<rparr>])"
    using assemble_message by blast
  moreover obtain rs where "assemble [] (k + length fs) (frames_of mx ms) = ([], rs)"
      "map (\<lambda>r. (rm_payload r, rm_priority r)) rs = ms"
    using Cons by blast
  ultimately show ?case using fs m by (simp add: assemble_append)
qed

lemma frames_of_length: "(f, pri) \<in> set (frames_of mx ms) \<Longrightarrow> f \<noteq> [] \<and> length f \<le> Suc mx"
  proof (induction mx ms rule: frames_of.induct)
  case (2 mx pl p ms)
  then show ?case
    by (cases "frame_payloads mx pl") (auto dest: frame_payloads_length)
qed simp


section \<open>The wire\<close>

text \<open>Frame \<open>j\<close> of a list put on the wire by \<^const>\<open>send_framed\<close>, up to the time stamp.\<close>

definition wire_of :: "(bytes \<Rightarrow> u32) \<Rightarrow> u32 \<Rightarrow> (bytes \<times> priority) list \<Rightarrow> bytes list \<Rightarrow> bool" where
  "wire_of crc sq ps out \<longleftrightarrow>
     list_all2 (\<lambda>(j, pl, pri) w. \<exists>ts. w = encode_data crc (sq + of_nat j) ts pri pl) (enumerate 0 ps) out"

lemma wire_of_Nil [simp]: "wire_of crc sq [] out \<longleftrightarrow> out = []"
  by (simp add: wire_of_def)

lemma wire_of_length: "wire_of crc sq ps out \<Longrightarrow> length out = length ps"
  by (auto simp: wire_of_def dest: list_all2_lengthD)

lemma wire_of_append:
  assumes "wire_of crc sq ps out1" and "wire_of crc (sq + of_nat (length ps)) qs out2"
  shows "wire_of crc sq (ps @ qs) (out1 @ out2)"
proof -
  have "list_all2 (\<lambda>(j, pl, pri) w. \<exists>ts. w = encode_data crc (sq + of_nat j) ts pri pl)
      (enumerate (length ps) qs) out2"
    using assms(2) by (auto simp: wire_of_def list_all2_conv_all_nth nth_enumerate_eq add_ac)
  with assms(1) show ?thesis
    by (simp add: wire_of_def enumerate_append_eq list_all2_appendI)
qed

lemma wire_of_Cons:
  "wire_of crc (sq + 1) ps out \<Longrightarrow> wire_of crc sq ((pl, pri) # ps) (encode_data crc sq ts pri pl # out)"
  using wire_of_append [of crc sq "[(pl, pri)]" "[encode_data crc sq ts pri pl]" ps out]
  by (auto simp: wire_of_def)

lemma send_framed_wire:
  "send_framed crc clk i ps ch = (ch', out) \<Longrightarrow>
     wire_of crc (next_seq ch) ps out \<and> next_seq ch' = next_seq ch + of_nat (length ps) \<and> cfg ch' = cfg ch"
proof (induction crc clk i ps ch arbitrary: ch' out rule: send_framed.induct)
  case (2 crc clk i pl pri ps ch)
  obtain ch1 out1 where s1: "send_one crc (clk i) pl pri ch = (ch1, out1)" by fastforce
  obtain ch2 out2 where s2: "send_framed crc clk (Suc i) ps ch1 = (ch2, out2)" by fastforce
  have one: "out1 = [encode_data crc (next_seq ch) (clk i) pri pl]" "next_seq ch1 = next_seq ch + 1"
      "cfg ch1 = cfg ch"
    using s1 by (auto simp: send_one_def Let_def)
  with "2.IH" [OF s1 [symmetric] refl s2] "2.prems" s1 s2 show ?case
    by (auto intro: wire_of_Cons)
qed simp

text \<open>A run of sends and a run of receives; the clock of message \<open>i\<close> is \<open>clk i\<close>.\<close>

fun send_all ::
  "(bytes \<Rightarrow> u32) \<Rightarrow> (nat \<Rightarrow> nat \<Rightarrow> u32) \<Rightarrow> (bytes \<times> priority) list \<Rightarrow> 't reliable_channel
     \<Rightarrow> ('t reliable_channel \<times> bytes list) option" where
  "send_all crc clk [] ch = Some (ch, [])"
| "send_all crc clk ((pl, pri) # ms) ch =
     (case send crc (clk (length ms)) pl pri ch of
        None \<Rightarrow> None
      | Some (ch1, out1) \<Rightarrow>
          (case send_all crc clk ms ch1 of
             None \<Rightarrow> None
           | Some (ch2, out2) \<Rightarrow> Some (ch2, out1 @ out2)))"

fun receive_all ::
  "(bytes \<Rightarrow> u32) \<Rightarrow> (nat \<Rightarrow> u32) \<Rightarrow> bytes list \<Rightarrow> 't reliable_channel
     \<Rightarrow> 't reliable_channel \<times> received_message list" where
  "receive_all crc clk [] ch = (ch, [])"
| "receive_all crc clk (w # ws) ch =
     (let (ch1, ms1, _) = receive crc clk w ch;
          (ch2, ms2) = receive_all crc clk ws ch1
      in (ch2, ms1 @ ms2))"

lemma send_all_wire:
  "0 < max_frame_payload (cfg ch) \<Longrightarrow>
     \<exists>ch' out. send_all crc clk ms ch = Some (ch', out) \<and>
       wire_of crc (next_seq ch) (frames_of (max_frame_payload (cfg ch)) ms) out"
proof (induction ms arbitrary: ch)
  case Nil
  then show ?case by simp
next
  case (Cons m ms)
  obtain pl pri where m: "m = (pl, pri)" by fastforce
  obtain fs where fs: "frame_payloads (max_frame_payload (cfg ch)) pl = Some fs"
    using Cons.prems frame_payloads_Some by blast
  obtain ch1 out1 where
    s1: "send_framed crc (clk (length ms)) 0 (map (\<lambda>f. (f, pri)) fs) ch = (ch1, out1)" by fastforce
  note w1 = send_framed_wire [OF s1]
  then obtain ch2 out2 where s2: "send_all crc clk ms ch1 = Some (ch2, out2)"
      "wire_of crc (next_seq ch1) (frames_of (max_frame_payload (cfg ch)) ms) out2"
    using Cons.IH [of ch1] Cons.prems by auto
  then have "wire_of crc (next_seq ch) (frames_of (max_frame_payload (cfg ch)) (m # ms)) (out1 @ out2)"
    using w1 fs m by (auto intro: wire_of_append)
  then show ?case using s1 s2 fs m by (simp add: send_def)
qed


section \<open>Exactly once, in order\<close>

text \<open>
  What the receiver makes of wire frames whose numbers start at 1: frame \<open>n\<close> carries the \<open>n\<close>-th
  framed payload, in whatever order and multiplicity the frames come.
\<close>

lemma receive_all_rx:
  assumes wire: "wire_of crc 1 fs ws" and n: "length fs < 2 ^ 32" "mx + 1 < 2 ^ 32"
    and short: "\<And>f p. (f, p) \<in> set fs \<Longrightarrow> length f \<le> Suc mx"
  shows "rx_inv (\<lambda>i. fs ! (i - 1)) S k ch d \<Longrightarrow> \<forall>w \<in> set as. \<exists>j < length ws. w = ws ! j \<Longrightarrow>
    receive_all crc clk as ch = (ch', ms) \<Longrightarrow>
    \<exists>k'. rx_inv (\<lambda>i. fs ! (i - 1)) (S \<union> {Suc j |j. j < length ws \<and> ws ! j \<in> set as}) k' ch' (d @ ms)"
proof (induction as arbitrary: S k ch d ms)
  case Nil
  then show ?case by auto
next
  case (Cons w as)
  let ?fr = "\<lambda>i. fs ! (i - 1)"
  have len: "length ws = length fs" using wire by (rule wire_of_length)
  have nth: "\<exists>ts. ws ! j = encode_data crc (of_nat (Suc j)) ts (snd (fs ! j)) (fst (fs ! j))"
    if "j < length fs" for j
    using wire that by (auto simp: wire_of_def list_all2_conv_all_nth nth_enumerate_eq split_def add.commute)
  have dec: "\<exists>ts. decode crc (ws ! j) = Some (Data (of_nat (Suc j)) ts (crc (fst (fs ! j))) (snd (fs ! j)) (fst (fs ! j)))"
    if "j < length fs" for j
  proof -
    from that have "length (fst (fs ! j)) < 2 ^ 32"
      using short [of "fst (fs ! j)" "snd (fs ! j)"] n(2) by (simp add: nth_mem)
    then show ?thesis using nth [OF that] by (auto simp del: of_nat_Suc)
  qed
  have inj: "{Suc i |i. i < length ws \<and> ws ! i = ws ! j} = {Suc j}" if "j < length fs" for j
  proof -
    have "i = j" if "i < length fs" "ws ! i = ws ! j" for i
    proof -
      from dec [OF that(1)] dec [OF \<open>j < length fs\<close>] that(2)
      have "of_nat (Suc i) = (of_nat (Suc j) :: u32)" by (auto simp del: of_nat_Suc)
      moreover have "Suc i < 2 ^ 32" "Suc j < 2 ^ 32" using that(1) \<open>j < length fs\<close> n(1) by auto
      ultimately have "Suc i = Suc j" by (metis unat_of_nat_u32)
      then show ?thesis by simp
    qed
    with that len show ?thesis by auto
  qed
  from Cons.prems(2) obtain j where j: "j < length fs" "w = ws ! j" using len by auto
  obtain ch1 ms1 o1 where r1: "receive crc clk w ch = (ch1, ms1, o1)" by (cases "receive crc clk w ch")
  obtain ms2 where r2: "receive_all crc clk as ch1 = (ch', ms2)" and ms: "ms = ms1 @ ms2"
    using Cons.prems(3) r1 by (auto split: prod.splits)
  from dec [OF j(1)] r1 j(2) have "receive_data (of_nat (Suc j)) (snd (fs ! j)) (fst (fs ! j)) ch = (ch1, ms1)"
    by (auto simp: receive_def simp del: of_nat_Suc split: prod.splits)
  then obtain k1 where "rx_inv ?fr (insert (Suc j) S) k1 ch1 (d @ ms1)"
    using receive_data_rx [OF Cons.prems(1), of "Suc j" "fst (fs ! j)" "snd (fs ! j)" ch1 ms1] j n by auto
  from Cons.IH [OF this _ r2] Cons.prems(2) obtain k' where
    "rx_inv ?fr (insert (Suc j) S \<union> {Suc i |i. i < length ws \<and> ws ! i \<in> set as}) k' ch' (d @ ms)"
    using ms by auto
  moreover have "insert (Suc j) S \<union> {Suc i |i. i < length ws \<and> ws ! i \<in> set as} =
      S \<union> {Suc i |i. i < length ws \<and> ws ! i \<in> set (w # as)}"
    using inj [OF j(1)] j(2) by auto
  ultimately show ?case by auto
qed

lemma rx_inv_start: "rx_inv fr {} 0 (channel_new c tx) []"
  by (auto simp: rx_inv_def rx_at_def channel_new_def fun_eq_iff)

lemma rx_inv_complete:
  assumes "rx_inv fr {Suc j |j. j < n} k ch d"
  shows "k = n \<and> last_contiguous ch = of_nat n \<and> reorder_buffer ch = [] \<and>
    assemble [] 1 (map fr [1..<Suc n]) = (chunk_assembly ch, d)"
proof -
  from assms have at: "rx_at fr {Suc j |j. j < n} k ch d" and gap: "Suc k \<notin> {Suc j |j. j < n}"
    by (auto simp: rx_inv_def)
  from at have "0 < k \<longrightarrow> k \<in> {Suc j |j. j < n}" unfolding rx_at_def by blast
  then have "k \<le> n" by auto
  moreover have "n \<le> k" using gap by auto
  ultimately have k: "k = n" by simp
  have "map_of (reorder_buffer ch) s = None" for s
    using at k by (auto simp: rx_at_def)
  then have "reorder_buffer ch = []" using map_of_Nil_conv by blast
  with at k show ?thesis by (simp add: rx_at_def del: upt_Suc)
qed

text \<open>
  \<^bold>\<open>C1\<close>. Two fresh channels, any clocks, any checksum function. The sender sends the messages \<open>ms\<close>
  (each chunked as its configuration says) and puts \<open>wire\<close> on the wire. Whatever arrives at the
  receiver, in any order and with any duplicates, as long as each frame arrives at least once, the
  receiver delivers exactly \<open>ms\<close>, each once and in the order sent, and nothing stays buffered.
\<close>

theorem transfer_exactly_once:
  fixes a :: "'s reliable_channel" and b :: "'t reliable_channel"
  assumes "a = channel_new ca ta" and "b = channel_new cb tb"
    and mx: "0 < max_frame_payload ca" "max_frame_payload ca + 1 < 2 ^ 32"
    and sent: "send_all crc clk ms a = Some (a', wire)" and fits: "length wire < 2 ^ 32"
    and arrivals: "set as = set wire"
    and got: "receive_all crc clk' as b = (b', delivered)"
  shows "map (\<lambda>r. (rm_payload r, rm_priority r)) delivered = ms \<and>
    last_contiguous b' = of_nat (length wire) \<and> reorder_buffer b' = []"
proof -
  let ?fs = "frames_of (max_frame_payload ca) ms" and ?S = "{Suc j |j. j < length wire}"
  have w: "wire_of crc 1 ?fs wire"
    using send_all_wire [of a crc clk ms] mx sent assms(1) by (simp add: channel_new_def)
  then have len: "length wire = length ?fs" by (rule wire_of_length)
  have "\<exists>k. rx_inv (\<lambda>i. ?fs ! (i - 1)) ({} \<union> {Suc j |j. j < length wire \<and> wire ! j \<in> set as}) k b' ([] @ delivered)"
  proof (rule receive_all_rx [OF w _ mx(2) _ _ _ got])
    show "rx_inv (\<lambda>i. ?fs ! (i - 1)) {} 0 b []" unfolding assms(2) by (rule rx_inv_start)
    show "length f \<le> Suc (max_frame_payload ca)" if "(f, p) \<in> set ?fs" for f p
      using frames_of_length [OF that] by simp
    show "\<forall>w \<in> set as. \<exists>j < length wire. w = wire ! j"
      using arrivals by (metis in_set_conv_nth)
  qed (use fits len in simp)
  moreover have "{Suc j |j. j < length wire \<and> wire ! j \<in> set as} = ?S" using arrivals by auto
  ultimately obtain k where "rx_inv (\<lambda>i. ?fs ! (i - 1)) ?S k b' delivered" by auto
  from rx_inv_complete [OF this] have r: "last_contiguous b' = of_nat (length wire)" "reorder_buffer b' = []"
    "assemble [] 1 (map (\<lambda>i. ?fs ! (i - 1)) [1..<Suc (length wire)]) = (chunk_assembly b', delivered)"
    by auto
  moreover have "map (\<lambda>i. ?fs ! (i - 1)) [1..<Suc (length wire)] = ?fs"
    unfolding len by (rule nth_equalityI) (simp_all del: upt_Suc)
  ultimately show ?thesis
    using assemble_frames_of [OF mx(1), of 1 ms] by (simp del: upt_Suc)
qed

theorem transfer_exactly_once_witness:
  "\<exists>a' wire b' delivered.
     send_all (\<lambda>_. 5) (\<lambda>_ _. 7) [([1, 2, 3], Critical), ([9], BestEffort)]
       (channel_new \<lparr>max_send_buffer = 8, ack_interval_ms = 100, max_frame_payload = 2\<rparr> ()) = Some (a', wire) \<and>
     length wire = 3 \<and>
     receive_all (\<lambda>_. 5) (\<lambda>_. 0) [wire ! 2, wire ! 1, wire ! 1, wire ! 0] (channel_new default_config ()) = (b', delivered) \<and>
     map (\<lambda>r. (rm_payload r, rm_priority r)) delivered = [([1, 2, 3], Critical), ([9], BestEffort)]"
proof -
  let ?c = "\<lparr>max_send_buffer = 8, ack_interval_ms = 100, max_frame_payload = 2\<rparr>"
  let ?ms = "[([1, 2, 3], Critical), ([9], BestEffort)]"
  obtain a' wire where s: "send_all (\<lambda>_. 5) (\<lambda>_ _. 7) ?ms (channel_new ?c ()) = Some (a', wire)"
    and w: "wire_of (\<lambda>_. 5) 1 (frames_of 2 ?ms) wire"
    using send_all_wire [of "channel_new ?c ()" "\<lambda>_. 5" "\<lambda>_ _. 7" ?ms] by (auto simp: channel_new_def)
  have len: "length wire = 3"
    using wire_of_length [OF w] by (simp add: frame_payloads_def chunks.simps)
  then have "set [wire ! 2, wire ! 1, wire ! 1, wire ! 0] = set wire"
    by (auto simp: numeral_eq_Suc length_Suc_conv)
  moreover obtain b' delivered where
    got: "receive_all (\<lambda>_. 5) (\<lambda>_. 0) [wire ! 2, wire ! 1, wire ! 1, wire ! 0] (channel_new default_config ()) = (b', delivered)"
    by fastforce
  ultimately have res: "map (\<lambda>r. (rm_payload r, rm_priority r)) delivered = ?ms \<and>
      last_contiguous b' = of_nat (length wire) \<and> reorder_buffer b' = []"
    by (intro transfer_exactly_once [OF refl refl _ _ s _ _ got]) (simp_all only: len, simp_all)
  show ?thesis
    by (intro exI conjI) (rule s, rule len, rule got, rule conjunct1 [OF res])
qed

end
