(* ===== verification/Channel_Send.thy ===== *)
theory Channel_Send
  imports Delivery
begin

text \<open>
  The sending half of the reliable channel and the channel as a machine: the invariant of the
  send buffer (consecutive sequence numbers that end before \<open>next_seq\<close>, each entry the encoding of
  a non-empty payload), the invariant of the reorder buffer, and the proof that every operation,
  on any bytes from the network, keeps both and never panics.
\<close>

section \<open>Operations as events\<close>

datatype 't event =
    Ev_Send bytes priority "nat \<Rightarrow> u32"
  | Ev_Receive bytes "nat \<Rightarrow> u32"
  | Ev_Tick
  | Ev_Send_Resume
  | Ev_Flush
  | Ev_Reset
  | Ev_Set_Transport 't
  | Ev_Set_Session_Id u64

text \<open>One operation: the new state, what it delivered, what it wrote; \<open>None\<close> for a panic.\<close>

fun chan_apply ::
  "(bytes \<Rightarrow> u32) \<Rightarrow> 't event \<Rightarrow> 't reliable_channel
     \<Rightarrow> ('t reliable_channel \<times> received_message list \<times> bytes list) option" where
  "chan_apply crc (Ev_Send pl pri clk) ch =
     (case send crc clk pl pri ch of None \<Rightarrow> None | Some (ch', out) \<Rightarrow> Some (ch', [], out))"
| "chan_apply crc (Ev_Receive data clk) ch = Some (receive crc clk data ch)"
| "chan_apply crc Ev_Tick ch = (let (ch', out) = tick ch in Some (ch', [], out))"
| "chan_apply crc Ev_Send_Resume ch = Some (ch, [], send_resume ch)"
| "chan_apply crc Ev_Flush ch = Some (ch, [], flush_unacked ch)"
| "chan_apply crc Ev_Reset ch = Some (channel_reset ch, [], [])"
| "chan_apply crc (Ev_Set_Transport tx) ch = Some (set_transport tx ch, [], [])"
| "chan_apply crc (Ev_Set_Session_Id i) ch = Some (set_session_id i ch, [], [])"

definition chan_step ::
  "(bytes \<Rightarrow> u32) \<Rightarrow> 't reliable_channel option \<Rightarrow> 't event \<Rightarrow> 't reliable_channel option" where
  "chan_step crc s e = Option.bind s (\<lambda>ch. map_option fst (chan_apply crc e ch))"


section \<open>The invariant\<close>

definition buffer_ok :: "(bytes \<Rightarrow> u32) \<Rightarrow> nat \<Rightarrow> u32 \<Rightarrow> buffered_message list \<Rightarrow> bool" where
  "buffer_ok crc mx nx buf \<longleftrightarrow>
     (\<forall>i < length buf. bm_seq (buf ! i) = nx - of_nat (length buf - i)) \<and>
     (\<forall>m \<in> set buf. \<exists>ts pl. 0 < length pl \<and> length pl \<le> Suc mx \<and>
        bm_encoded m = encode_data crc (bm_seq m) ts (bm_priority m) pl)"

definition reorder_ok :: "u32 \<Rightarrow> (u32, received_message) rmap \<Rightarrow> bool" where
  "reorder_ok lc rb \<longleftrightarrow>
     map_wf rb \<and> (\<forall>s m. map_of rb s = Some m \<longrightarrow> rm_seq m = s \<and> lc < s \<and> s \<noteq> lc + 1)"

definition config_ok :: "config \<Rightarrow> bool" where
  "config_ok c \<longleftrightarrow> 0 < max_frame_payload c \<and> max_frame_payload c + 1 < 2 ^ 32"

definition chan_inv :: "(bytes \<Rightarrow> u32) \<Rightarrow> 't reliable_channel \<Rightarrow> bool" where
  "chan_inv crc ch \<longleftrightarrow>
     config_ok (cfg ch) \<and>
     buffer_ok crc (max_frame_payload (cfg ch)) (next_seq ch) (send_buffer ch) \<and>
     reorder_ok (last_contiguous ch) (reorder_buffer ch)"

lemma buffer_ok_Nil [simp]: "buffer_ok crc mx nx []"
  by (simp add: buffer_ok_def)

lemma buffer_ok_suffix: "buffer_ok crc mx nx (xs @ ys) \<Longrightarrow> buffer_ok crc mx nx ys"
proof -
  assume ok: "buffer_ok crc mx nx (xs @ ys)"
  have "bm_seq (ys ! i) = nx - of_nat (length ys - i)" if "i < length ys" for i
    using ok [unfolded buffer_ok_def, THEN conjunct1, rule_format, of "length xs + i"] that
    by (simp add: nth_append)
  with ok show ?thesis by (auto simp: buffer_ok_def)
qed

lemma buffer_ok_snoc:
  assumes "buffer_ok crc mx nx buf" and "0 < length pl" and "length pl \<le> Suc mx"
  shows "buffer_ok crc mx (nx + 1)
    (buf @ [\<lparr>bm_seq = nx, bm_priority = pri, bm_encoded = encode_data crc nx ts pri pl\<rparr>])"
  using assms
  by (auto simp: buffer_ok_def nth_append Suc_diff_le less_Suc_eq)

lemma evict_suffix: "\<exists>xs. buf = xs @ evict mx la buf \<and> (\<forall>m \<in> set xs. bm_priority m = BestEffort \<or> bm_seq m \<le> la)"
proof (induction mx la buf rule: evict.induct)
  case (2 mx la front rest)
  show ?case
  proof (cases "length (front # rest) > mx \<and> (bm_priority front = BestEffort \<or> bm_seq front \<le> la)")
    case True
    then obtain xs where "rest = xs @ evict mx la rest"
        "\<forall>m \<in> set xs. bm_priority m = BestEffort \<or> bm_seq m \<le> la"
      using "2.IH" by blast
    with True show ?thesis by (intro exI [of _ "front # xs"]) auto
  qed (intro exI [of _ "[]"], auto)
qed simp

lemma buffer_ok_evict: "buffer_ok crc mx nx buf \<Longrightarrow> buffer_ok crc mx nx (evict n la buf)"
  using evict_suffix [of buf n la] by (metis buffer_ok_suffix)

lemma buffer_ok_dropWhile: "buffer_ok crc mx nx buf \<Longrightarrow> buffer_ok crc mx nx (dropWhile P buf)"
  by (metis buffer_ok_suffix takeWhile_dropWhile_id)

text \<open>What bounds the buffer: only an unacknowledged Critical frame at the front stops eviction.\<close>

lemma evict_bound:
  "length (evict mx la buf) \<le> mx \<or>
   (\<exists>m ms. evict mx la buf = m # ms \<and> bm_priority m = Critical \<and> la < bm_seq m)"
  by (induction mx la buf rule: evict.induct)
     (auto simp: not_le split: if_splits intro: priority.exhaust)


section \<open>Each operation keeps the invariant\<close>

lemma send_one_inv:
  assumes "chan_inv crc ch" and "0 < length pl" and "length pl \<le> Suc (max_frame_payload (cfg ch))"
    and "send_one crc now pl pri ch = (ch', out)"
  shows "chan_inv crc ch' \<and> cfg ch' = cfg ch"
  using assms
  by (auto simp: chan_inv_def send_one_def Let_def intro!: buffer_ok_evict buffer_ok_snoc)

lemma send_framed_inv:
  "chan_inv crc ch \<Longrightarrow> \<forall>(pl, pri) \<in> set ps. 0 < length pl \<and> length pl \<le> Suc (max_frame_payload (cfg ch)) \<Longrightarrow>
     send_framed crc clk i ps ch = (ch', out) \<Longrightarrow> chan_inv crc ch'"
proof (induction crc clk i ps ch arbitrary: ch' out rule: send_framed.induct)
  case (2 crc clk i pl pri ps ch)
  obtain ch1 out1 where s1: "send_one crc (clk i) pl pri ch = (ch1, out1)" by fastforce
  obtain ch2 out2 where s2: "send_framed crc clk (Suc i) ps ch1 = (ch2, out2)" by fastforce
  have "chan_inv crc ch1 \<and> cfg ch1 = cfg ch"
    using "2.prems"(1,2) by (intro send_one_inv [OF _ _ _ s1]) auto
  with "2.IH" [OF s1 [symmetric] refl _ _ s2] "2.prems" s1 s2 show ?case by auto
qed simp

lemma send_inv:
  assumes "chan_inv crc ch"
  shows "\<exists>ch' out. send crc clk pl pri ch = Some (ch', out) \<and> chan_inv crc ch'"
proof -
  have "0 < max_frame_payload (cfg ch)" using assms by (simp add: chan_inv_def config_ok_def)
  then obtain fs where fs: "frame_payloads (max_frame_payload (cfg ch)) pl = Some fs"
    using frame_payloads_Some by blast
  obtain ch' out where s: "send_framed crc clk 0 (map (\<lambda>f. (f, pri)) fs) ch = (ch', out)" by fastforce
  have "chan_inv crc ch'"
    using frame_payloads_length [OF fs] by (intro send_framed_inv [OF assms _ s]) auto
  then show ?thesis using fs s by (simp add: send_def)
qed

lemma word_less_not_Suc: "lc < s \<Longrightarrow> s \<noteq> lc + 1 \<Longrightarrow> lc + 1 < (s :: 'a::len word)"
  by (metis inc_le order_le_imp_less_or_eq)

text \<open>
  The drain loop starts with every buffered key above \<open>last_contiguous\<close> and ends when the next one
  is missing.
\<close>

lemma drain_reorder_ok:
  "drain ch = (ch', ms) \<Longrightarrow> map_wf (reorder_buffer ch) \<Longrightarrow>
     \<forall>s m. map_of (reorder_buffer ch) s = Some m \<longrightarrow> rm_seq m = s \<and> last_contiguous ch < s \<Longrightarrow>
     reorder_ok (last_contiguous ch') (reorder_buffer ch') \<and> cfg ch' = cfg ch \<and>
       next_seq ch' = next_seq ch \<and> send_buffer ch' = send_buffer ch \<and>
       last_ack_received ch' = last_ack_received ch"
proof (induction ch arbitrary: ch' ms rule: drain.induct)
  case (1 ch)
  let ?nx = "last_contiguous ch + 1"
  show ?case
  proof (cases "map_of (reorder_buffer ch) ?nx")
    case None
    with "1.prems" drain_None [OF None] show ?thesis
      by (auto simp: reorder_ok_def)
  next
    case (Some nxt)
    define ch1 where "ch1 = ch\<lparr>reorder_buffer := map_remove ?nx (reorder_buffer ch),
                        last_contiguous := rm_seq nxt\<rparr>"
    obtain ch2 d where p: "process_chunk (rm_payload nxt) (rm_seq nxt) (rm_priority nxt) ch1 = (ch2, d)"
      by fastforce
    obtain ch3 ds where dr: "drain ch2 = (ch3, ds)" by fastforce
    have seq: "rm_seq nxt = ?nx" using "1.prems"(3) Some by blast
    note keep = process_chunk_frame [OF p]
    have "last_contiguous ch2 < s" if "map_of (reorder_buffer ch2) s = Some m" for s m
    proof -
      from that keep have "s \<noteq> ?nx" "map_of (reorder_buffer ch) s = Some m"
        by (auto simp: ch1_def split: if_splits)
      then show ?thesis
        using "1.prems"(3) keep seq by (simp add: ch1_def word_less_not_Suc)
    qed
    moreover have "rm_seq m = s" if "map_of (reorder_buffer ch2) s = Some m" for s m
      using that keep "1.prems"(3) by (auto simp: ch1_def split: if_splits)
    moreover have "map_wf (reorder_buffer ch2)" using "1.prems"(2) keep by (simp add: ch1_def)
    ultimately have "reorder_ok (last_contiguous ch3) (reorder_buffer ch3) \<and> cfg ch3 = cfg ch2 \<and>
        next_seq ch3 = next_seq ch2 \<and> send_buffer ch3 = send_buffer ch2 \<and>
        last_ack_received ch3 = last_ack_received ch2"
      using "1.IH" [OF Some refl p [unfolded ch1_def, symmetric] refl dr] by blast
    moreover have "ch' = ch3"
      using "1.prems"(1) drain_Some [OF Some p [unfolded ch1_def] dr] by simp
    ultimately show ?thesis using keep by (simp add: ch1_def)
  qed
qed

lemma receive_data_inv:
  assumes inv: "chan_inv crc ch" and st: "receive_data sq pri pl ch = (ch', ms)"
  shows "chan_inv crc ch' \<and> send_buffer ch' = send_buffer ch \<and> next_seq ch' = next_seq ch \<and>
    last_ack_received ch' = last_ack_received ch \<and> cfg ch' = cfg ch"
proof -
  have ok: "reorder_ok (last_contiguous ch) (reorder_buffer ch)" using inv by (simp add: chan_inv_def)
  consider "sq \<le> last_contiguous ch" | "sq = last_contiguous ch + 1" "last_contiguous ch < sq"
    | "last_contiguous ch < sq" "sq \<noteq> last_contiguous ch + 1"
    by fastforce
  then show ?thesis
  proof cases
    case 1
    with inv st show ?thesis by (auto simp: receive_data_def chan_inv_def)
  next
    case 2
    define ch1 where "ch1 = ch\<lparr>ack_pending := True, last_contiguous := sq\<rparr>"
    obtain ch2 d where p: "process_chunk pl sq pri ch1 = (ch2, d)" by fastforce
    obtain ch3 ds where dr: "drain ch2 = (ch3, ds)" by fastforce
    note keep = process_chunk_frame [OF p]
    have "reorder_ok (last_contiguous ch3) (reorder_buffer ch3) \<and> cfg ch3 = cfg ch2 \<and>
        next_seq ch3 = next_seq ch2 \<and> send_buffer ch3 = send_buffer ch2 \<and>
        last_ack_received ch3 = last_ack_received ch2"
    proof (rule drain_reorder_ok [OF dr])
      show "\<forall>s m. map_of (reorder_buffer ch2) s = Some m \<longrightarrow> rm_seq m = s \<and> last_contiguous ch2 < s"
        using ok keep 2 by (auto simp: reorder_ok_def ch1_def intro: word_less_not_Suc)
    qed (use ok keep in \<open>simp add: reorder_ok_def ch1_def\<close>)
    moreover have "ch' = ch3"
      using st p dr 2 by (auto simp: receive_data_def ch1_def Let_def not_le split: if_splits)
    ultimately show ?thesis using inv keep by (simp add: chan_inv_def ch1_def)
  next
    case 3
    with st ok have "ch' = ch\<lparr>ack_pending := True, reorder_buffer :=
        map_or_insert sq \<lparr>rm_payload = pl, rm_seq = sq, rm_priority = pri\<rparr> (reorder_buffer ch)\<rparr>"
      by (auto simp: receive_data_def Let_def not_le split: if_splits)
    moreover have "reorder_ok (last_contiguous ch)
        (map_or_insert sq \<lparr>rm_payload = pl, rm_seq = sq, rm_priority = pri\<rparr> (reorder_buffer ch))"
      using ok 3 by (auto simp: reorder_ok_def split: option.splits if_splits)
    ultimately show ?thesis using inv by (simp add: chan_inv_def)
  qed
qed

lemma drain_cfg: "drain ch = (ch', ms) \<Longrightarrow> cfg ch' = cfg ch"
proof (induction ch arbitrary: ch' ms rule: drain.induct)
  case (1 ch)
  show ?case
  proof (cases "map_of (reorder_buffer ch) (last_contiguous ch + 1)")
    case None
    with "1.prems" show ?thesis by (simp add: drain_None)
  next
    case (Some nxt)
    obtain ch2 d where p: "process_chunk (rm_payload nxt) (rm_seq nxt) (rm_priority nxt)
        (ch\<lparr>reorder_buffer := map_remove (last_contiguous ch + 1) (reorder_buffer ch),
            last_contiguous := rm_seq nxt\<rparr>) = (ch2, d)" by fastforce
    obtain ch3 ds where dr: "drain ch2 = (ch3, ds)" by fastforce
    then have "cfg ch3 = cfg ch2" using "1.IH" [OF Some refl p [symmetric] refl] by blast
    then show ?thesis
      using "1.prems" drain_Some [OF Some p dr] process_chunk_frame [OF p] by simp
  qed
qed

lemma receive_data_cfg: "receive_data sq pri pl ch = (ch', ms) \<Longrightarrow> cfg ch' = cfg ch"
  by (auto simp: receive_data_def Let_def process_chunk_eq dest: drain_cfg split: if_splits prod.splits)

lemma receive_ack_inv:
  "chan_inv crc ch \<Longrightarrow> receive_ack a ch = (ch', out) \<Longrightarrow> chan_inv crc ch'"
  by (auto simp: receive_ack_def chan_inv_def Let_def buffer_ok_dropWhile split: if_splits)

text \<open>A buffered frame gives back the payload it was made of: the header is 19 bytes.\<close>

lemma buffered_payload_encoded:
  "bm_encoded m = encode_data crc sq ts pri pl \<Longrightarrow> 0 < length pl \<Longrightarrow> buffered_payload m = pl"
  by (simp add: buffered_payload_def)

lemma buffered_payload_bounds:
  assumes "buffer_ok crc mx nx buf" and "m \<in> set buf"
  shows "0 < length (buffered_payload m) \<and> length (buffered_payload m) \<le> Suc mx"
  using assms buffered_payload_encoded unfolding buffer_ok_def by metis

text \<open>The three branches of \<^const>\<open>handle_resume\<close>.\<close>

lemma handle_resume_ahead:
  "next_seq ch \<le> la \<Longrightarrow> handle_resume crc clk la ch =
     (ch\<lparr>last_ack_received := la, next_seq := la + 1, send_buffer := [], last_contiguous := 0,
         reorder_buffer := []\<rparr>, [])"
  by (simp add: handle_resume_def Let_def retransmit_def)

lemma handle_resume_gap:
  assumes "la < next_seq ch" and "resume_gap la ch"
    and "send_framed crc clk 0
      (map (\<lambda>m. (buffered_payload m, bm_priority m)) (filter (\<lambda>m. bm_priority m = Critical) (send_buffer ch)))
      (ch\<lparr>last_ack_received := la, next_seq := la + 1, last_contiguous := la, send_buffer := [],
          reorder_buffer := []\<rparr>) = (ch1, out1)"
  shows "handle_resume crc clk la ch =
    (ch1\<lparr>send_buffer := dropWhile (\<lambda>m. bm_seq m \<le> la) (send_buffer ch1)\<rparr>,
     out1 @ retransmit la (send_buffer ch1))"
  using assms by (simp add: handle_resume_def Let_def resume_gap_def not_le [symmetric])

lemma handle_resume_replay:
  assumes "la < next_seq ch" and "\<not> resume_gap la ch"
  shows "handle_resume crc clk la ch =
    (ch\<lparr>last_ack_received := la, send_buffer := dropWhile (\<lambda>m. bm_seq m \<le> la) (send_buffer ch)\<rparr>,
     retransmit la (send_buffer ch))"
  using assms by (simp add: handle_resume_def Let_def resume_gap_def not_le [symmetric])

lemma handle_resume_inv:
  assumes inv: "chan_inv crc ch" and st: "handle_resume crc clk la ch = (ch', out)"
  shows "chan_inv crc ch'"
proof -
  have clean: "chan_inv crc (c\<lparr>send_buffer := dropWhile P (send_buffer c)\<rparr>)" if "chan_inv crc c" for c :: "'a reliable_channel" and P
    using that by (simp add: chan_inv_def buffer_ok_dropWhile)
  consider "la \<ge> next_seq ch" | "la < next_seq ch" "resume_gap la ch"
    | "la < next_seq ch" "\<not> resume_gap la ch"
    by fastforce
  then show ?thesis
  proof cases
    case 1
    with st inv show ?thesis
      by (auto simp: handle_resume_ahead chan_inv_def reorder_ok_def)
  next
    case 2
    let ?ps = "map (\<lambda>m. (buffered_payload m, bm_priority m))
                 (filter (\<lambda>m. bm_priority m = Critical) (send_buffer ch))"
    obtain ch1 out1 where sf: "send_framed crc clk 0 ?ps
        (ch\<lparr>last_ack_received := la, next_seq := la + 1, last_contiguous := la, send_buffer := [],
            reorder_buffer := []\<rparr>) = (ch1, out1)"
      by fastforce
    have "chan_inv crc ch1"
      by (rule send_framed_inv [OF _ _ sf])
         (use inv buffered_payload_bounds in \<open>auto simp: chan_inv_def reorder_ok_def\<close>)
    then show ?thesis using st handle_resume_gap [OF 2 sf] clean by auto
  next
    case 3
    with st inv show ?thesis
      by (auto simp: handle_resume_replay chan_inv_def buffer_ok_dropWhile)
  qed
qed

lemma receive_inv:
  assumes inv: "chan_inv crc ch" and st: "receive crc clk data ch = (ch', ms, out)"
  shows "chan_inv crc ch'"
proof (cases "decode crc data")
  case None
  with assms show ?thesis by (simp add: receive_def)
next
  case (Some f)
  with st show ?thesis
    using receive_data_inv [OF inv] receive_ack_inv [OF inv] handle_resume_inv [OF inv]
    by (cases f) (auto simp: receive_def split: prod.splits)
qed

lemma chan_apply_inv:
  assumes "chan_inv crc ch"
  shows "\<exists>ch' ms out. chan_apply crc e ch = Some (ch', ms, out) \<and> chan_inv crc ch'"
proof (cases e)
  case (Ev_Send pl pri clk)
  then show ?thesis using send_inv [OF assms, of clk pl pri] by auto
next
  case (Ev_Receive data clk)
  then show ?thesis
    using receive_inv [OF assms] by (cases "receive crc clk data ch") auto
qed (use assms in \<open>auto simp: tick_def channel_reset_def set_transport_def set_session_id_def
       chan_inv_def reorder_ok_def\<close>)

interpretation channel_machine: machine "chan_step crc"
  "\<lambda>s. case s of None \<Rightarrow> False | Some ch \<Rightarrow> chan_inv crc ch" for crc
proof
  fix s :: "'a reliable_channel option" and e :: "'a event"
  assume "case s of None \<Rightarrow> False | Some ch \<Rightarrow> chan_inv crc ch"
  then obtain ch where "s = Some ch" "chan_inv crc ch" by (cases s) auto
  then show "case chan_step crc s e of None \<Rightarrow> False | Some ch \<Rightarrow> chan_inv crc ch"
    using chan_apply_inv [of crc ch e] by (auto simp: chan_step_def)
qed

text \<open>
  \<^bold>\<open>C5\<close>. A fresh channel, then any sequence of operations with any arguments and any bytes from the
  network: no operation panics; the send buffer always holds consecutive sequence numbers that end
  just before \<open>next_seq\<close>, each entry the exact encoding of its number, its priority and a non-empty
  payload of at most \<open>max_frame_payload + 1\<close> bytes; every reordered frame is keyed by its own
  sequence number, which is beyond the next expected one.
\<close>

theorem channel_invariant:
  assumes "config_ok c"
  shows "\<exists>ch. foldl (chan_step crc) (Some (channel_new c tx)) es = Some ch \<and> chan_inv crc ch"
proof -
  have "chan_inv crc (channel_new c tx)"
    using assms by (simp add: chan_inv_def channel_new_def reorder_ok_def)
  then have "case foldl (chan_step crc) (Some (channel_new c tx)) es of None \<Rightarrow> False | Some ch \<Rightarrow> chan_inv crc ch"
    by (intro channel_machine.inv_run) simp
  then show ?thesis by (auto split: option.splits)
qed

theorem channel_invariant_witness:
  "\<exists>ch. foldl (chan_step (\<lambda>_. 0)) (Some (channel_new default_config ()))
      [Ev_Send [1, 2] Critical (\<lambda>_. 3), Ev_Receive (encode_resume 0xFFFFFFFF) (\<lambda>_. 4), Ev_Tick] = Some ch \<and>
    chan_inv (\<lambda>_. 0) ch"
  by (rule channel_invariant) (simp add: config_ok_def default_config_def)

end
