(* ===== verification/Link.thy ===== *)
theory Link
  imports Channel_Send
begin

text \<open>
  Two channels joined by an unreliable network: a step relation in which the network loses,
  duplicates and reorders frames and acknowledgements at will. Every reachable state is safe (what
  the receiver delivered is a prefix of what was sent, and no Critical frame the receiver still
  needs has left the send buffer), and a receiver that misses Critical frames is brought up to date
  by the fast retransmit that its own duplicate acknowledgements trigger.
\<close>

section \<open>The sender against the list of frames sent\<close>

text \<open>\<open>frame_at crc fs w j\<close>: \<open>w\<close> is a wire encoding of the \<open>j\<close>-th frame sent (numbered \<open>j + 1\<close>).\<close>

definition frame_at :: "(bytes \<Rightarrow> u32) \<Rightarrow> (bytes \<times> priority) list \<Rightarrow> bytes \<Rightarrow> nat \<Rightarrow> bool" where
  "frame_at crc fs w j \<longleftrightarrow>
     j < length fs \<and> (\<exists>ts. w = encode_data crc (of_nat (Suc j)) ts (snd (fs ! j)) (fst (fs ! j)))"

definition entry_at :: "(bytes \<Rightarrow> u32) \<Rightarrow> (bytes \<times> priority) list \<Rightarrow> buffered_message \<Rightarrow> nat \<Rightarrow> bool" where
  "entry_at crc fs m j \<longleftrightarrow>
     frame_at crc fs (bm_encoded m) j \<and> bm_seq m = of_nat (Suc j) \<and> bm_priority m = snd (fs ! j)"

definition tx_rel ::
  "(bytes \<Rightarrow> u32) \<Rightarrow> (bytes \<times> priority) list \<Rightarrow> nat \<Rightarrow> 't reliable_channel \<Rightarrow> bool" where
  "tx_rel crc fs la ch \<longleftrightarrow>
     next_seq ch = of_nat (Suc (length fs)) \<and> last_ack_received ch = of_nat la \<and> la \<le> length fs \<and>
     duplicate_ack_count ch < 3 \<and> length (send_buffer ch) \<le> length fs \<and>
     (\<forall>m \<in> set (send_buffer ch). \<exists>j. entry_at crc fs m j) \<and>
     (\<forall>j < length fs. la \<le> j \<and> snd (fs ! j) = Critical \<longrightarrow>
        (\<exists>m \<in> set (send_buffer ch). entry_at crc fs m j))"

lemma frame_at_append: "frame_at crc fs w j \<Longrightarrow> frame_at crc (fs @ gs) w j"
  by (auto simp: frame_at_def nth_append)

lemma entry_at_append: "entry_at crc fs m j \<Longrightarrow> entry_at crc (fs @ gs) m j"
  by (auto simp: entry_at_def frame_at_append) (auto simp: frame_at_def nth_append)

lemma seq_le_iff:
  "j < 2 ^ 32 - 1 \<Longrightarrow> a < 2 ^ 32 \<Longrightarrow> (of_nat (Suc j) :: u32) \<le> of_nat a \<longleftrightarrow> j < a"
  by (simp add: word_le_nat_alt unat_of_nat_u32 Suc_le_eq del: of_nat_Suc)

lemma tx_rel_send_one:
  assumes rel: "tx_rel crc fs la ch" and n: "length fs < 2 ^ 32 - 1"
    and st: "send_one crc now pl pri ch = (ch', out)"
  shows "tx_rel crc (fs @ [(pl, pri)]) la ch' \<and> (\<forall>w \<in> set out. frame_at crc (fs @ [(pl, pri)]) w (length fs))"
proof -
  let ?fs = "fs @ [(pl, pri)]" and ?N = "length fs"
  let ?enc = "encode_data crc (next_seq ch) now pri pl"
  let ?new = "\<lparr>bm_seq = next_seq ch, bm_priority = pri, bm_encoded = ?enc\<rparr>"
  let ?buf = "send_buffer ch @ [?new]"
  have ch': "ch' = ch\<lparr>next_seq := next_seq ch + 1,
      send_buffer := evict (max_send_buffer (cfg ch)) (last_ack_received ch) ?buf\<rparr>" and out: "out = [?enc]"
    using st by (auto simp: send_one_def Let_def)
  have new: "frame_at crc ?fs ?enc ?N" "entry_at crc ?fs ?new ?N"
    using rel by (auto simp: frame_at_def entry_at_def tx_rel_def)
  obtain xs where xs: "?buf = xs @ send_buffer ch'"
      "\<forall>m \<in> set xs. bm_priority m = BestEffort \<or> bm_seq m \<le> of_nat la"
    using evict_suffix [of ?buf "max_send_buffer (cfg ch)" "last_ack_received ch"] rel ch'
    by (auto simp: tx_rel_def)
  have all: "\<exists>j. entry_at crc ?fs m j" if "m \<in> set ?buf" for m
    using that rel new(2) entry_at_append unfolding tx_rel_def by (metis Un_iff empty_iff empty_set set_append set_ConsD)
  have "\<exists>m \<in> set (send_buffer ch'). entry_at crc ?fs m j"
    if j: "j < length ?fs" "la \<le> j" "snd (?fs ! j) = Critical" for j
  proof -
    have "\<exists>m \<in> set ?buf. entry_at crc ?fs m j"
    proof (cases "j < ?N")
      case True
      then have "snd (fs ! j) = Critical" using j(3) by (simp add: nth_append)
      with True j(2) rel obtain m where "m \<in> set (send_buffer ch)" "entry_at crc fs m j"
        unfolding tx_rel_def by blast
      then show ?thesis using entry_at_append [of crc fs m j] by (intro bexI [of _ m]) auto
    next
      case False
      with j(1) have "j = ?N" by simp
      then show ?thesis using new(2) by auto
    qed
    then obtain m where m: "m \<in> set ?buf" "entry_at crc ?fs m j" by blast
    have "m \<notin> set xs"
    proof
      assume "m \<in> set xs"
      with xs(2) m(2) j(3) have "(of_nat (Suc j) :: u32) \<le> of_nat la" by (auto simp: entry_at_def)
      moreover have "j < 2 ^ 32 - 1" "la < 2 ^ 32" using j(1,2) n by simp_all
      ultimately show False using seq_le_iff [of j la] j(2) by linarith
    qed
    with m xs(1) show ?thesis by (metis Un_iff set_append)
  qed
  moreover have "\<forall>m \<in> set (send_buffer ch'). \<exists>j. entry_at crc ?fs m j"
    using all xs(1) by (metis Un_iff set_append)
  moreover have "next_seq ch' = of_nat (Suc (length ?fs))" using rel ch' by (simp add: tx_rel_def)
  moreover have "last_ack_received ch' = of_nat la" "la \<le> length ?fs" "duplicate_ack_count ch' < 3"
    using rel ch' by (simp_all add: tx_rel_def)
  moreover have "length (send_buffer ch') \<le> length ?buf" using xs(1) by (metis le_add2 length_append)
  then have "length (send_buffer ch') \<le> length ?fs" using rel by (simp add: tx_rel_def)
  ultimately show ?thesis
    using out new(1) unfolding tx_rel_def by simp
qed

lemma tx_rel_send_framed:
  "tx_rel crc fs la ch \<Longrightarrow> length fs + length ps < 2 ^ 32 \<Longrightarrow>
     send_framed crc clk i ps ch = (ch', out) \<Longrightarrow>
     tx_rel crc (fs @ ps) la ch' \<and> (\<forall>w \<in> set out. \<exists>j \<ge> length fs. frame_at crc (fs @ ps) w j)"
proof (induction crc clk i ps ch arbitrary: fs ch' out rule: send_framed.induct)
  case (2 crc clk i pl pri ps ch)
  obtain ch1 out1 where s1: "send_one crc (clk i) pl pri ch = (ch1, out1)" by fastforce
  obtain ch2 out2 where s2: "send_framed crc clk (Suc i) ps ch1 = (ch2, out2)" by fastforce
  have one: "tx_rel crc (fs @ [(pl, pri)]) la ch1"
      "\<forall>w \<in> set out1. frame_at crc (fs @ [(pl, pri)]) w (length fs)"
    using tx_rel_send_one [OF "2.prems"(1) _ s1] "2.prems"(2) by auto
  have "tx_rel crc ((fs @ [(pl, pri)]) @ ps) la ch2 \<and>
      (\<forall>w \<in> set out2. \<exists>j \<ge> length (fs @ [(pl, pri)]). frame_at crc ((fs @ [(pl, pri)]) @ ps) w j)"
    using "2.IH" [OF s1 [symmetric] refl one(1) _ s2] "2.prems"(2) by simp
  moreover have "\<forall>w \<in> set out1. frame_at crc (fs @ (pl, pri) # ps) w (length fs)"
    using one(2) frame_at_append [of crc "fs @ [(pl, pri)]" _ _ ps] by simp
  moreover have "ch' = ch2" "out = out1 @ out2" using "2.prems"(3) s1 s2 by simp_all
  ultimately show ?case by (metis Suc_leD Un_iff append.assoc append_Cons append_Nil le_refl length_append_singleton set_append)
qed simp

lemma in_dropWhile: "x \<in> set xs \<Longrightarrow> \<not> P x \<Longrightarrow> x \<in> set (dropWhile P xs)"
  by (induction xs) auto

text \<open>Everything a retransmission writes is a Critical frame, and every Critical frame beyond \<open>a\<close> is in it.\<close>

lemma retransmit_frames:
  assumes "tx_rel crc fs la ch" and "w \<in> set (retransmit a (send_buffer ch))"
  shows "\<exists>j. frame_at crc fs w j \<and> snd (fs ! j) = Critical"
proof -
  from assms(2) obtain m where m: "m \<in> set (send_buffer ch)" "bm_priority m = Critical" "w = bm_encoded m"
    by (auto simp: retransmit_def)
  with assms(1) obtain j where "entry_at crc fs m j" unfolding tx_rel_def by blast
  with m show ?thesis by (auto simp: entry_at_def)
qed

lemma retransmit_complete:
  assumes "tx_rel crc fs la ch" and "length fs < 2 ^ 32 - 1"
    and "la \<le> j" and "a \<le> j" and "j < length fs" and "snd (fs ! j) = Critical"
  shows "\<exists>w \<in> set (retransmit (of_nat a) (send_buffer ch)). frame_at crc fs w j"
proof -
  obtain m where m: "m \<in> set (send_buffer ch)" "entry_at crc fs m j"
    using assms unfolding tx_rel_def by blast
  moreover have "\<not> (of_nat (Suc j) :: u32) \<le> of_nat a"
    using seq_le_iff [of j a] assms(2,4,5) by simp
  ultimately have "bm_encoded m \<in> set (retransmit (of_nat a) (send_buffer ch))"
    using assms(6) by (auto simp: retransmit_def entry_at_def not_le simp del: of_nat_Suc)
  with m show ?thesis by (auto simp: entry_at_def)
qed

lemma tx_rel_ack:
  assumes rel: "tx_rel crc fs la ch" and n: "length fs < 2 ^ 32 - 1" and a: "a \<le> length fs"
    and st: "receive_ack (of_nat a) ch = (ch', out)"
  shows "tx_rel crc fs (max la a) ch' \<and> cfg ch' = cfg ch \<and>
    (\<forall>w \<in> set out. \<exists>j. frame_at crc fs w j \<and> snd (fs ! j) = Critical)"
proof -
  have la: "last_ack_received ch = of_nat la" "la \<le> length fs" using rel by (simp_all add: tx_rel_def)
  have u: "unat (of_nat la :: u32) = la" "unat (of_nat a :: u32) = a"
    using la a n by (simp_all add: unat_of_nat_u32)
  have gt: "of_nat a > last_ack_received ch \<longleftrightarrow> a > la" unfolding la by (simp add: word_less_nat_alt u)
  have eq: "of_nat a = last_ack_received ch \<longleftrightarrow> a = la" unfolding la by (metis u)
  show ?thesis
  proof (cases "a > la")
    case True
    with st gt have ch': "ch' = ch\<lparr>last_ack_received := of_nat a,
        send_buffer := dropWhile (\<lambda>m. bm_seq m \<le> of_nat a) (send_buffer ch), duplicate_ack_count := 0\<rparr>" "out = []"
      by (simp_all add: receive_ack_def)
    have "\<exists>m \<in> set (send_buffer ch'). entry_at crc fs m j"
      if j: "j < length fs" "a \<le> j" "snd (fs ! j) = Critical" for j
    proof -
      obtain m where m: "m \<in> set (send_buffer ch)" "entry_at crc fs m j"
        using rel True j unfolding tx_rel_def by (metis less_imp_le le_trans)
      moreover have "\<not> bm_seq m \<le> of_nat a"
        using m(2) seq_le_iff [of j a] j n by (simp add: entry_at_def del: of_nat_Suc)
      ultimately show ?thesis using ch' by (auto intro: in_dropWhile)
    qed
    moreover have "\<exists>j. entry_at crc fs m j" if "m \<in> set (send_buffer ch')" for m
    proof -
      have "m \<in> set (send_buffer ch)" using that ch' by (auto dest: set_dropWhileD)
      then show ?thesis using rel unfolding tx_rel_def by blast
    qed
    moreover have "length (send_buffer ch') \<le> length fs"
      using rel ch' length_dropWhile_le by (fastforce simp: tx_rel_def intro: le_trans)
    ultimately show ?thesis
      using rel ch' True a by (simp add: tx_rel_def max_def)
  next
    case le: False
    show ?thesis
    proof (cases "a = la \<and> send_buffer ch \<noteq> []")
      case True
      then have dup: "receive_ack (of_nat a) ch =
          (if duplicate_ack_count ch + 1 \<ge> 3
           then (ch\<lparr>duplicate_ack_count := 0\<rparr>, retransmit (of_nat a) (send_buffer ch))
           else (ch\<lparr>duplicate_ack_count := duplicate_ack_count ch + 1\<rparr>, []))"
        using gt eq by (simp add: receive_ack_def Let_def)
      have "\<not> 3 \<le> duplicate_ack_count ch + 1 \<Longrightarrow> duplicate_ack_count ch + 1 < 3" by simp
      with dup st rel True show ?thesis
        using retransmit_frames [OF rel] by (auto simp: tx_rel_def split: if_splits)
    next
      case False
      with st gt eq le have "ch' = ch" "out = []" by (auto simp: receive_ack_def)
      with rel le show ?thesis by (simp add: max_def)
    qed
  qed
qed


section \<open>The link\<close>

text \<open>
  \<open>wire\<close> holds the data frames on their way, \<open>acks\<close> the acknowledgements; a frame that is delivered
  stays on the wire (it may be duplicated and reordered), and any frame may be lost at any time.
\<close>

record ('s, 't) link =
  snd_ch :: "'s reliable_channel"
  rcv_ch :: "'t reliable_channel"
  wire :: "bytes set"
  acks :: "bytes set"
  sent :: "(bytes \<times> priority) list"
  delivered :: "received_message list"

definition link_start :: "config \<Rightarrow> 's \<Rightarrow> config \<Rightarrow> 't \<Rightarrow> ('s, 't) link" where
  "link_start ca ta cb tb =
     \<lparr>snd_ch = channel_new ca ta, rcv_ch = channel_new cb tb, wire = {}, acks = {}, sent = [], delivered = []\<rparr>"

inductive link_step :: "(bytes \<Rightarrow> u32) \<Rightarrow> ('s, 't) link \<Rightarrow> ('s, 't) link \<Rightarrow> bool" for crc where
  sends: "send crc clk pl pri (snd_ch L) = Some (a, out) \<Longrightarrow>
     link_step crc L (L\<lparr>snd_ch := a, wire := wire L \<union> set out, sent := sent L @ [(pl, pri)]\<rparr>)"
| arrives: "w \<in> wire L \<Longrightarrow> receive crc clk w (rcv_ch L) = (b, ms, out) \<Longrightarrow>
     link_step crc L (L\<lparr>rcv_ch := b, delivered := delivered L @ ms\<rparr>)"
| ticks: "tick (rcv_ch L) = (b, out) \<Longrightarrow>
     link_step crc L (L\<lparr>rcv_ch := b, acks := acks L \<union> set out\<rparr>)"
| keepalive: "link_step crc L (L\<lparr>acks := insert (encode_ack (last_contiguous_received (rcv_ch L)) 0) (acks L)\<rparr>)"
| acked: "w \<in> acks L \<Longrightarrow> receive crc clk w (snd_ch L) = (a, ms, out) \<Longrightarrow>
     link_step crc L (L\<lparr>snd_ch := a, wire := wire L \<union> set out\<rparr>)"
| flushes: "link_step crc L (L\<lparr>wire := wire L \<union> set (flush_unacked (snd_ch L))\<rparr>)"
| loses: "link_step crc L (L\<lparr>wire := wire L - ws, acks := acks L - vs\<rparr>)"

inductive_cases link_stepE: "link_step crc L L'"

abbreviation link_reach :: "(bytes \<Rightarrow> u32) \<Rightarrow> ('s, 't) link \<Rightarrow> ('s, 't) link \<Rightarrow> bool" where
  "link_reach crc \<equiv> (link_step crc)\<^sup>*\<^sup>*"


section \<open>The invariant of the link\<close>

definition fr_of :: "(bytes \<times> priority) list \<Rightarrow> nat \<Rightarrow> bytes \<times> priority" where
  "fr_of fs i = fs ! (i - 1)"

definition link_frames :: "('s, 't) link \<Rightarrow> (bytes \<times> priority) list" where
  "link_frames L = frames_of (max_frame_payload (cfg (snd_ch L))) (sent L)"

text \<open>
  \<open>la\<close> is the highest acknowledgement the sender saw, \<open>k\<close> the end of the receiver's contiguous run
  and \<open>S\<close> the set of the frame numbers it received.
\<close>

definition link_rel :: "(bytes \<Rightarrow> u32) \<Rightarrow> ('s, 't) link \<Rightarrow> nat \<Rightarrow> nat set \<Rightarrow> nat \<Rightarrow> bool" where
  "link_rel crc L la S k \<longleftrightarrow>
     config_ok (cfg (snd_ch L)) \<and> tx_rel crc (link_frames L) la (snd_ch L) \<and> la \<le> k \<and>
     rx_inv (fr_of (link_frames L)) S k (rcv_ch L) (delivered L) \<and>
     (\<forall>n \<in> S. 0 < n \<and> n \<le> length (link_frames L)) \<and>
     (\<forall>w \<in> wire L. \<exists>j. frame_at crc (link_frames L) w j) \<and>
     (\<forall>w \<in> acks L. \<exists>a win. a \<le> k \<and> w = encode_ack (of_nat a) win)"

lemma link_relI:
  assumes "config_ok (cfg (snd_ch L))" and "link_frames L = fs" and "tx_rel crc fs la (snd_ch L)" and "la \<le> k"
    and "rx_inv (fr_of fs) S k (rcv_ch L) (delivered L)"
    and "\<And>n. n \<in> S \<Longrightarrow> 0 < n \<and> n \<le> length fs"
    and "\<And>w. w \<in> wire L \<Longrightarrow> \<exists>j. frame_at crc fs w j"
    and "\<And>w. w \<in> acks L \<Longrightarrow> \<exists>a win. a \<le> k \<and> w = encode_ack (of_nat a) win"
  shows "link_rel crc L la S k"
  using assms unfolding link_rel_def by blast

lemma link_relD:
  assumes "link_rel crc L la S k"
  shows "config_ok (cfg (snd_ch L))" and "tx_rel crc (link_frames L) la (snd_ch L)" and "la \<le> k"
    and "rx_inv (fr_of (link_frames L)) S k (rcv_ch L) (delivered L)"
    and "n \<in> S \<Longrightarrow> 0 < n \<and> n \<le> length (link_frames L)"
    and "w \<in> wire L \<Longrightarrow> \<exists>j. frame_at crc (link_frames L) w j"
    and "w \<in> acks L \<Longrightarrow> \<exists>a win. a \<le> k \<and> w = encode_ack (of_nat a) win"
  using assms unfolding link_rel_def by blast+

lemma rx_inv_cong:
  assumes "rx_inv fr S k ch d" and "\<forall>n \<in> S. fr n = fr' n"
  shows "rx_inv fr' S k ch d"
proof -
  have at: "rx_at fr S k ch d" using assms(1) by (simp add: rx_inv_def)
  then have "\<forall>n. 0 < n \<and> n \<le> k \<longrightarrow> n \<in> S" unfolding rx_at_def by blast
  then have "map fr [1..<Suc k] = map fr' [1..<Suc k]" using assms(2) by (intro map_cong) auto
  moreover have "(\<lambda>s. if unat s \<in> S \<and> k < unat s
        then Some \<lparr>rm_payload = fst (fr (unat s)), rm_seq = s, rm_priority = snd (fr (unat s))\<rparr> else None)
      = (\<lambda>s :: u32. if unat s \<in> S \<and> k < unat s
        then Some \<lparr>rm_payload = fst (fr' (unat s)), rm_seq = s, rm_priority = snd (fr' (unat s))\<rparr> else None)"
    using assms(2) by (auto simp: fun_eq_iff)
  ultimately show ?thesis using assms(1) unfolding rx_inv_def rx_at_def by metis
qed

lemma rx_inv_ack_pending [simp]: "rx_inv fr S k (ch\<lparr>ack_pending := x\<rparr>) d \<longleftrightarrow> rx_inv fr S k ch d"
  by (simp add: rx_inv_def rx_at_def)

lemma rx_inv_bound: "rx_inv fr S k ch d \<Longrightarrow> \<forall>n \<in> S. n \<le> N \<Longrightarrow> k \<le> N"
  by (cases "k = 0") (auto simp: rx_inv_def rx_at_def)

lemma rx_inv_lc: "rx_inv fr S k ch d \<Longrightarrow> last_contiguous ch = of_nat k"
  by (simp add: rx_inv_def rx_at_def)

lemma frames_of_append: "frames_of mx (ms @ ns) = frames_of mx ms @ frames_of mx ns"
  by (induction mx ms rule: frames_of.induct) simp_all

lemma frame_at_decode:
  assumes "frame_at crc (frames_of mx ms) w j" and "mx + 1 < 2 ^ 32"
  shows "\<exists>ts ck. decode crc w = Some (Data (of_nat (Suc j)) ts ck
           (snd (frames_of mx ms ! j)) (fst (frames_of mx ms ! j)))"
proof -
  let ?f = "frames_of mx ms ! j"
  from assms(1) obtain ts where j: "j < length (frames_of mx ms)"
    and w: "w = encode_data crc (of_nat (Suc j)) ts (snd ?f) (fst ?f)" by (auto simp: frame_at_def)
  have "(fst ?f, snd ?f) \<in> set (frames_of mx ms)" using j by simp
  then have "length (fst ?f) < 2 ^ 32" using frames_of_length assms(2) by (metis Suc_eq_plus1 le_less_trans)
  then show ?thesis using w by (simp del: of_nat_Suc)
qed

lemma frame_at_unique:
  assumes "frame_at crc (frames_of mx ms) w i" and "frame_at crc (frames_of mx ms) w j"
    and "mx + 1 < 2 ^ 32" and "length (frames_of mx ms) < 2 ^ 32"
  shows "i = j"
proof -
  have "of_nat (Suc i) = (of_nat (Suc j) :: u32)"
    using frame_at_decode [OF assms(1,3)] frame_at_decode [OF assms(2,3)] by (auto simp del: of_nat_Suc)
  moreover have "Suc i < 2 ^ 32" "Suc j < 2 ^ 32" using assms by (auto simp: frame_at_def)
  ultimately show ?thesis by (metis unat_of_nat_u32 Suc_inject)
qed

text \<open>Receiving an acknowledgement, receiving a data frame: the branches of \<^const>\<open>receive\<close>.\<close>

lemma receive_encoded_ack:
  "receive crc clk (encode_ack a w) ch = (fst (receive_ack a ch), [], snd (receive_ack a ch))"
  by (simp add: receive_def split: prod.splits)

lemma receive_frame_at:
  assumes "frame_at crc (frames_of mx ms) w j" and "mx + 1 < 2 ^ 32"
    and "receive crc clk w ch = (ch', rs, out)"
  shows "receive_data (of_nat (Suc j)) (snd (frames_of mx ms ! j)) (fst (frames_of mx ms ! j)) ch = (ch', rs)"
  using frame_at_decode [OF assms(1,2)] assms(3) by (auto simp: receive_def simp del: of_nat_Suc split: prod.splits)

lemma link_rel_start: "config_ok ca \<Longrightarrow> link_rel crc (link_start ca ta cb tb) 0 {} 0"
  using rx_inv_start by (simp add: link_rel_def link_start_def link_frames_def tx_rel_def channel_new_def)

lemma retransmit_last_ack: "tx_rel crc fs la ch \<Longrightarrow> flush_unacked ch = retransmit (of_nat la) (send_buffer ch)"
  by (simp add: flush_unacked_def tx_rel_def)

lemma send_cfg: "send crc clk pl pri ch = Some (ch', out) \<Longrightarrow> cfg ch' = cfg ch"
  by (auto simp: send_def dest: send_framed_wire split: option.splits)

text \<open>What one step does to the numbers: nothing is taken back, and a new frame is either just sent or Critical.\<close>

definition link_progress :: "(bytes \<Rightarrow> u32) \<Rightarrow> ('s, 't) link \<Rightarrow> nat \<Rightarrow> nat set \<Rightarrow> nat \<Rightarrow> ('s, 't) link \<Rightarrow> nat \<Rightarrow> nat set \<Rightarrow> nat \<Rightarrow> bool" where
  "link_progress crc L la S k L' la' S' k' \<longleftrightarrow>
     la \<le> la' \<and> k \<le> k' \<and> (\<exists>gs. link_frames L' = link_frames L @ gs) \<and>
     S' \<subseteq> S \<union> {Suc j |j w. w \<in> wire L \<and> frame_at crc (link_frames L) w j} \<and>
     (\<forall>w \<in> wire L'. w \<in> wire L \<or>
        (\<exists>j. frame_at crc (link_frames L') w j \<and>
             (length (link_frames L) \<le> j \<or> snd (link_frames L' ! j) = Critical)))"

lemma rx_inv_mono: "rx_inv fr S k ch d \<Longrightarrow> rx_inv fr' S' k' ch' d' \<Longrightarrow> S \<subseteq> S' \<Longrightarrow> k \<le> k'"
proof (rule ccontr)
  assume rx: "rx_inv fr S k ch d" "rx_inv fr' S' k' ch' d'" "S \<subseteq> S'" and "\<not> k \<le> k'"
  then have "0 < Suc k'" "Suc k' \<le> k" by auto
  with rx(1) have "Suc k' \<in> S" unfolding rx_inv_def rx_at_def by blast
  with rx(2,3) show False by (auto simp: rx_inv_def)
qed

lemma link_rel_send:
  assumes rel: "link_rel crc L la S k" and st: "send crc clk pl pri (snd_ch L) = Some (a, out)"
    and L': "L' = L\<lparr>snd_ch := a, wire := wire L \<union> set out, sent := sent L @ [(pl, pri)]\<rparr>"
    and n: "length (link_frames L') < 2 ^ 32 - 1"
  shows "link_rel crc L' la S k \<and> link_progress crc L la S k L' la S k"
proof -
  let ?fs = "link_frames L"
  have cfg: "cfg a = cfg (snd_ch L)" using send_cfg [OF st] .
  obtain framed where fp: "frame_payloads (max_frame_payload (cfg (snd_ch L))) pl = Some framed"
    and sf: "send_framed crc clk 0 (map (\<lambda>f. (f, pri)) framed) (snd_ch L) = (a, out)"
    using st by (auto simp: send_def split: option.splits)
  define gs where "gs = map (\<lambda>f. (f, pri)) framed"
  have fs': "link_frames L' = ?fs @ gs"
    using cfg fp L' by (simp add: link_frames_def frames_of_append gs_def)
  have "length ?fs + length gs < 2 ^ 32" using n fs' by simp
  note tx = tx_rel_send_framed [OF _ this sf [folded gs_def]]
  have tx: "tx_rel crc (?fs @ gs) la a" "\<forall>w \<in> set out. \<exists>j \<ge> length ?fs. frame_at crc (?fs @ gs) w j"
    using tx [OF link_relD(2) [OF rel]] by blast+
  have "fr_of ?fs n = fr_of (?fs @ gs) n" if "n \<in> S" for n
    using link_relD(5) [OF rel that] by (cases n) (auto simp: fr_of_def nth_append)
  then have rx: "rx_inv (fr_of (?fs @ gs)) S k (rcv_ch L) (delivered L)"
    using rx_inv_cong [OF link_relD(4) [OF rel]] by blast
  have "link_rel crc L' la S k"
  proof (rule link_relI [OF _ fs'])
    show "rx_inv (fr_of (?fs @ gs)) S k (rcv_ch L') (delivered L')" using rx L' by simp
    show "tx_rel crc (?fs @ gs) la (snd_ch L')" using tx(1) L' by simp
    show "0 < n \<and> n \<le> length (?fs @ gs)" if "n \<in> S" for n using link_relD(5) [OF rel that] by simp
    show "\<exists>j. frame_at crc (?fs @ gs) w j" if "w \<in> wire L'" for w
    proof (cases "w \<in> set out")
      case False
      with that L' have "w \<in> wire L" by simp
      then show ?thesis using link_relD(6) [OF rel] frame_at_append by blast
    qed (use tx(2) in blast)
  qed (use link_relD [OF rel] cfg L' in simp_all)
  moreover have "link_progress crc L la S k L' la S k"
    unfolding link_progress_def fs' using tx(2) L' by auto
  ultimately show ?thesis by blast
qed

lemma link_rel_arrives:
  assumes rel: "link_rel crc L la S k" and n: "length (link_frames L) < 2 ^ 32 - 1"
    and w: "w \<in> wire L" and st: "receive crc clk w (rcv_ch L) = (b, ms, out)"
    and L': "L' = L\<lparr>rcv_ch := b, delivered := delivered L @ ms\<rparr>"
  shows "\<exists>S' k'. link_rel crc L' la S' k' \<and> link_progress crc L la S k L' la S' k'"
proof -
  let ?fs = "link_frames L"
  have fs': "link_frames L' = ?fs" using L' by (simp add: link_frames_def)
  obtain j where j: "frame_at crc ?fs w j" using link_relD(6) [OF rel w] by blast
  have mx: "max_frame_payload (cfg (snd_ch L)) + 1 < 2 ^ 32"
    using rel by (simp add: link_rel_def config_ok_def)
  have len: "j < length ?fs" using j by (simp add: frame_at_def)
  have rd: "receive_data (of_nat (Suc j)) (snd (?fs ! j)) (fst (?fs ! j)) (rcv_ch L) = (b, ms)"
    using receive_frame_at [OF _ mx st] j unfolding link_frames_def by blast
  have rx: "rx_inv (fr_of ?fs) S k (rcv_ch L) (delivered L)" by (rule link_relD(4) [OF rel])
  obtain k' where rx': "rx_inv (fr_of ?fs) (insert (Suc j) S) k' b (delivered L @ ms)"
    using receive_data_rx [OF rx _ _ _ rd] len n by (auto simp: fr_of_def)
  have le: "k \<le> k'" using rx_inv_mono [OF rx rx'] by blast
  have "link_rel crc L' la (insert (Suc j) S) k'"
  proof (rule link_relI [OF _ fs'])
    show "0 < n \<and> n \<le> length ?fs" if "n \<in> insert (Suc j) S" for n
      using that link_relD(5) [OF rel, of n] len by auto
    show "\<exists>a win. a \<le> k' \<and> v = encode_ack (of_nat a) win" if "v \<in> acks L'" for v
      using link_relD(7) [OF rel, of v] that L' le by (auto dest: le_trans)
  qed (use link_relD(1-3,6) [OF rel] rx' le L' in auto)
  moreover have "link_progress crc L la S k L' la (insert (Suc j) S) k'"
    unfolding link_progress_def fs' using le L' w j by auto
  ultimately show ?thesis by blast
qed

lemma link_rel_acked:
  assumes rel: "link_rel crc L la S k" and n: "length (link_frames L) < 2 ^ 32 - 1"
    and w: "w \<in> acks L" and st: "receive crc clk w (snd_ch L) = (a, ms, out)"
    and L': "L' = L\<lparr>snd_ch := a, wire := wire L \<union> set out\<rparr>"
  shows "\<exists>la'. link_rel crc L' la' S k \<and> link_progress crc L la S k L' la' S k"
proof -
  let ?fs = "link_frames L"
  obtain i win where i: "i \<le> k" "w = encode_ack (of_nat i) win" using link_relD(7) [OF rel w] by blast
  have "k \<le> length ?fs" using rx_inv_bound [OF link_relD(4) [OF rel]] link_relD(5) [OF rel] by blast
  with i have le: "i \<le> length ?fs" by simp
  have ra: "receive_ack (of_nat i) (snd_ch L) = (a, out)" using st i(2) by (auto simp: receive_encoded_ack)
  have tx: "tx_rel crc ?fs la (snd_ch L)" by (rule link_relD(2) [OF rel])
  note ack = tx_rel_ack [OF tx n le ra]
  have fs': "link_frames L' = ?fs" using ack L' by (simp add: link_frames_def)
  have "link_rel crc L' (max la i) S k"
  proof (rule link_relI [OF _ fs'])
    show "\<exists>j. frame_at crc ?fs v j" if "v \<in> wire L'" for v
      using that link_relD(6) [OF rel, of v] ack L' by auto
  qed (use link_relD(1,3,4,5,7) [OF rel] ack i L' in auto)
  moreover have "link_progress crc L la S k L' (max la i) S k"
    unfolding link_progress_def fs' using ack L' by auto
  ultimately show ?thesis by blast
qed

lemma link_rel_step:
  assumes "link_step crc L L'" and rel: "link_rel crc L la S k" and n: "length (link_frames L') < 2 ^ 32 - 1"
  shows "\<exists>la' S' k'. link_rel crc L' la' S' k' \<and> link_progress crc L la S k L' la' S' k'"
  using assms(1)
proof cases
  case (sends clk pl pri a out)
  then show ?thesis using link_rel_send [OF rel _ _ n] by blast
next
  case (arrives w clk b ms out)
  then show ?thesis using link_rel_arrives [OF rel _ _ _ refl] n by (fastforce simp: link_frames_def)
next
  case (ticks b out)
  then have out: "\<forall>w \<in> set out. \<exists>win. w = encode_ack (last_contiguous (rcv_ch L)) win"
    and b: "\<exists>x. b = (rcv_ch L)\<lparr>ack_pending := x\<rparr>"
    by (auto simp: tick_def split: if_splits intro: exI [of _ False] exI [of _ "ack_pending (rcv_ch L)"])
  have fs': "link_frames L' = link_frames L" using ticks(1) by (simp add: link_frames_def)
  have "link_rel crc L' la S k"
  proof (rule link_relI [OF _ fs'])
    show "\<exists>a win. a \<le> k \<and> w = encode_ack (of_nat a) win" if "w \<in> acks L'" for w
      using that link_relD(7) [OF rel, of w] out ticks(1) rx_inv_lc [OF link_relD(4) [OF rel]] by auto
  qed (use link_relD(1-6) [OF rel] ticks(1) b in auto)
  moreover have "link_progress crc L la S k L' la S k"
    unfolding link_progress_def fs' using ticks(1) by auto
  ultimately show ?thesis by blast
next
  case keepalive
  have fs': "link_frames L' = link_frames L" using keepalive by (simp add: link_frames_def)
  have "link_rel crc L' la S k"
  proof (rule link_relI [OF _ fs'])
    show "\<exists>a win. a \<le> k \<and> w = encode_ack (of_nat a) win" if "w \<in> acks L'" for w
      using that link_relD(7) [OF rel, of w] keepalive rx_inv_lc [OF link_relD(4) [OF rel]]
      by (auto simp: last_contiguous_received_def)
  qed (use link_relD(1-6) [OF rel] keepalive in auto)
  moreover have "link_progress crc L la S k L' la S k"
    unfolding link_progress_def fs' using keepalive by auto
  ultimately show ?thesis by blast
next
  case (acked w clk a ms out)
  obtain i win where i: "i \<le> k" "w = encode_ack (of_nat i) win" using link_relD(7) [OF rel acked(2)] by blast
  have le: "length (link_frames L) < 2 ^ 32 - 1"
  proof -
    have "cfg a = cfg (snd_ch L)"
      using acked(3) i(2) by (auto simp: receive_encoded_ack receive_ack_def Let_def split: if_splits)
    then show ?thesis using n acked(1) by (simp add: link_frames_def)
  qed
  then show ?thesis using link_rel_acked [OF rel le acked(2,3,1)] by blast
next
  case flushes
  have fs': "link_frames L' = link_frames L" using flushes by (simp add: link_frames_def)
  note tx = link_relD(2) [OF rel]
  have out: "\<forall>w \<in> set (flush_unacked (snd_ch L)). \<exists>j. frame_at crc (link_frames L) w j \<and> snd (link_frames L ! j) = Critical"
    unfolding retransmit_last_ack [OF tx] using retransmit_frames [OF tx] by blast
  have "link_rel crc L' la S k"
  proof (rule link_relI [OF _ fs'])
    show "\<exists>j. frame_at crc (link_frames L) w j" if "w \<in> wire L'" for w
      using that link_relD(6) [OF rel, of w] out flushes by auto
  qed (use link_relD(1-5,7) [OF rel] flushes in auto)
  moreover have "link_progress crc L la S k L' la S k"
    unfolding link_progress_def fs' using out flushes by auto
  ultimately show ?thesis by blast
next
  case (loses ws vs)
  have fs': "link_frames L' = link_frames L" using loses by (simp add: link_frames_def)
  have "link_rel crc L' la S k"
    by (rule link_relI [OF _ fs']) (use link_relD [OF rel] loses in auto)
  moreover have "link_progress crc L la S k L' la S k"
    unfolding link_progress_def fs' using loses by auto
  ultimately show ?thesis by blast
qed

lemma receive_cfg: "receive crc clk w ch = (ch', ms, out) \<Longrightarrow> cfg ch' = cfg ch"
proof (cases "decode crc w")
  case (Some f)
  assume st: "receive crc clk w ch = (ch', ms, out)"
  show ?thesis
  proof (cases f)
    case (Data sq ts ck pri pl)
    then have "receive_data sq pri pl ch = (ch', ms)" using Some st by (simp add: receive_def split: prod.splits)
    then show ?thesis by (rule receive_data_cfg)
  next
    case (Ack a v)
    with Some st show ?thesis by (auto simp: receive_def receive_ack_def Let_def split: if_splits)
  next
    case (Resume la)
    then have "handle_resume crc clk la ch = (ch', out)" using Some st by (simp add: receive_def split: prod.splits)
    then show ?thesis
      by (auto simp: handle_resume_def Let_def dest: send_framed_wire split: if_splits prod.splits)
  qed
qed (simp add: receive_def)

lemma link_step_frames: "link_step crc L L' \<Longrightarrow> \<exists>gs. link_frames L' = link_frames L @ gs"
  by (induction rule: link_step.cases)
     (auto simp: link_frames_def frames_of_append dest: send_cfg receive_cfg intro: exI [of _ "[]"])

lemma link_reach_rel:
  assumes "link_reach crc L L'" and "link_rel crc L la S k" and "length (link_frames L') < 2 ^ 32 - 1"
  shows "\<exists>la' S' k'. link_rel crc L' la' S' k'"
  using assms
proof (induction rule: rtranclp_induct)
  case (step M N)
  have "length (link_frames M) < 2 ^ 32 - 1"
    using link_step_frames [OF step(2)] step.prems(2) by auto
  then show ?case using step link_rel_step by blast
qed blast


section \<open>Safety\<close>

lemma map_fr_of: "k \<le> length fs \<Longrightarrow> map (fr_of fs) [1..<Suc k] = take k fs"
  by (rule nth_equalityI) (simp_all add: fr_of_def del: upt_Suc)

lemma link_rel_delivered:
  assumes rel: "link_rel crc L la S k"
  shows "\<exists>rest. sent L = map (\<lambda>r. (rm_payload r, rm_priority r)) (delivered L) @ rest"
proof -
  let ?fs = "link_frames L"
  have k: "k \<le> length ?fs" using rx_inv_bound [OF link_relD(4) [OF rel]] link_relD(5) [OF rel] by blast
  have "assemble [] 1 (map (fr_of ?fs) [1..<Suc k]) = (chunk_assembly (rcv_ch L), delivered L)"
    using link_relD(4) [OF rel] unfolding rx_inv_def rx_at_def by blast
  then have a: "assemble [] 1 (take k ?fs) = (chunk_assembly (rcv_ch L), delivered L)"
    unfolding map_fr_of [OF k] .
  have "0 < max_frame_payload (cfg (snd_ch L))" using link_relD(1) [OF rel] by (simp add: config_ok_def)
  then obtain rs where rs: "assemble [] 1 ?fs = ([], rs)" "map (\<lambda>r. (rm_payload r, rm_priority r)) rs = sent L"
    using assemble_frames_of unfolding link_frames_def by blast
  have "assemble [] 1 (take k ?fs @ drop k ?fs) = ([], rs)" using rs(1) by simp
  then obtain ds where "rs = delivered L @ ds"
    unfolding assemble_append a by (auto simp: Let_def split: prod.splits)
  with rs(2) have "sent L = map (\<lambda>r. (rm_payload r, rm_priority r)) (delivered L)
      @ map (\<lambda>r. (rm_payload r, rm_priority r)) ds" by simp
  then show ?thesis by (rule exI)
qed

text \<open>
  \<^bold>\<open>C2\<close>. In every state a sender and a receiver reach over a network that loses, duplicates and
  reorders frames and acknowledgements, what the receiver delivered is a prefix of what was sent:
  nothing is lost in the middle, delivered twice, reordered or altered (as long as fewer than
  \<open>2 ^ 32 - 1\<close> frames were sent, the range of the sequence numbers).
\<close>

theorem link_delivers_prefix:
  assumes "config_ok ca" and "link_reach crc (link_start ca ta cb tb) L"
    and "length (link_frames L) < 2 ^ 32 - 1"
  shows "\<exists>rest. sent L = map (\<lambda>r. (rm_payload r, rm_priority r)) (delivered L) @ rest"
  using link_reach_rel [OF assms(2) link_rel_start [OF assms(1)] assms(3)] link_rel_delivered by blast

text \<open>
  In every such state each Critical frame the receiver has not yet got in its contiguous run is
  still in the sender's buffer, with its original number and payload: eviction and acknowledgements
  never drop a Critical frame that is still needed.
\<close>

theorem critical_frame_retained:
  assumes "config_ok ca" and "link_reach crc (link_start ca ta cb tb) L"
    and "length (link_frames L) < 2 ^ 32 - 1"
    and "j < length (link_frames L)" and "snd (link_frames L ! j) = Critical"
    and "unat (last_contiguous (rcv_ch L)) \<le> j"
  shows "\<exists>m \<in> set (send_buffer (snd_ch L)). bm_seq m = of_nat (Suc j) \<and> bm_priority m = Critical \<and>
    (\<exists>ts. bm_encoded m = encode_data crc (of_nat (Suc j)) ts Critical (fst (link_frames L ! j)))"
proof -
  obtain la S k where rel: "link_rel crc L la S k"
    using link_reach_rel [OF assms(2) link_rel_start [OF assms(1)] assms(3)] by blast
  have "k \<le> length (link_frames L)"
    using rx_inv_bound [OF link_relD(4) [OF rel]] link_relD(5) [OF rel] by blast
  then have "unat (last_contiguous (rcv_ch L)) = k"
    using rx_inv_lc [OF link_relD(4) [OF rel]] assms(3) by (simp add: unat_of_nat_u32)
  then have "la \<le> j" using assms(6) link_relD(3) [OF rel] by simp
  then obtain m where "m \<in> set (send_buffer (snd_ch L))" "entry_at crc (link_frames L) m j"
    using link_relD(2) [OF rel] assms(4,5) unfolding tx_rel_def by blast
  then show ?thesis using assms(5) by (auto simp: entry_at_def frame_at_def)
qed

end
