(* ===== verification/Recovery.thy ===== *)
theory Recovery
  imports Link
begin

text \<open>
  Liveness of the link: what the retransmissions triggered by duplicate acknowledgements recover,
  and what they cannot recover.
\<close>

section \<open>Frames that arrive at the receiver\<close>

lemma receive_all_frames:
  assumes mx: "mx + 1 < 2 ^ 32" and n: "length (frames_of mx ms) < 2 ^ 32 - 1"
  shows "rx_inv (fr_of (frames_of mx ms)) S k ch d \<Longrightarrow>
    \<forall>w \<in> set as. \<exists>j. frame_at crc (frames_of mx ms) w j \<Longrightarrow>
    receive_all crc clk as ch = (ch', rs) \<Longrightarrow>
    \<exists>k'. rx_inv (fr_of (frames_of mx ms))
           (S \<union> {Suc j |j. \<exists>w \<in> set as. frame_at crc (frames_of mx ms) w j}) k' ch' (d @ rs)"
proof (induction as arbitrary: S k ch d rs)
  case Nil
  then show ?case by auto
next
  case (Cons w as)
  let ?fs = "frames_of mx ms"
  from Cons.prems(2) obtain j where j: "frame_at crc ?fs w j" by auto
  then have len: "j < length ?fs" by (simp add: frame_at_def)
  obtain ch1 rs1 o1 where r1: "receive crc clk w ch = (ch1, rs1, o1)" by (cases "receive crc clk w ch")
  obtain rs2 where r2: "receive_all crc clk as ch1 = (ch', rs2)" and rs: "rs = rs1 @ rs2"
    using Cons.prems(3) r1 by (auto split: prod.splits)
  note rd = receive_frame_at [OF j mx r1]
  have fr: "fr_of ?fs (Suc j) = (fst (?fs ! j), snd (?fs ! j))" by (simp add: fr_of_def)
  have u: "i = j" if "frame_at crc ?fs w i" for i
    using frame_at_unique [OF that j mx] n by simp
  have "0 < Suc j" "Suc j < 2 ^ 32" using len n by simp_all
  from receive_data_rx [OF Cons.prems(1) this fr rd]
  obtain k1 where k1: "rx_inv (fr_of ?fs) (insert (Suc j) S) k1 ch1 (d @ rs1)" by blast
  have "\<forall>w \<in> set as. \<exists>j. frame_at crc ?fs w j" using Cons.prems(2) by simp
  note ih = Cons.IH [OF k1 this r2]
  have "{Suc i |i. frame_at crc ?fs w i} = {Suc j}"
    by (auto dest: u intro: j)
  moreover have "{Suc j |j. \<exists>v \<in> set (w # as). frame_at crc ?fs v j} =
      {Suc i |i. frame_at crc ?fs w i} \<union> {Suc j |j. \<exists>v \<in> set as. frame_at crc ?fs v j}"
    by auto
  ultimately have sets: "insert (Suc j) S \<union> {Suc j |j. \<exists>w \<in> set as. frame_at crc ?fs w j} =
      S \<union> {Suc j |j. \<exists>w \<in> set (w # as). frame_at crc ?fs w j}"
    by (simp only: Un_insert_left Un_insert_right Un_empty_left Un_empty_right)
  show ?case using ih unfolding sets rs append_assoc .
qed


section \<open>Duplicate acknowledgements\<close>

text \<open>A run of frames fed to one end, and everything it writes meanwhile.\<close>

fun answer_all ::
  "(bytes \<Rightarrow> u32) \<Rightarrow> (nat \<Rightarrow> u32) \<Rightarrow> bytes list \<Rightarrow> 't reliable_channel \<Rightarrow> 't reliable_channel \<times> bytes list" where
  "answer_all crc clk [] ch = (ch, [])"
| "answer_all crc clk (w # ws) ch =
     (let (ch1, _, out1) = receive crc clk w ch;
          (ch2, out2) = answer_all crc clk ws ch1
      in (ch2, out1 @ out2))"

lemma word_less_3: "(x :: u32) < 3 \<Longrightarrow> x = 0 \<or> x = 1 \<or> x = 2"
proof -
  assume "x < 3"
  then have "unat x < 3" by (simp add: word_less_nat_alt)
  then have "unat x = 0 \<or> unat x = 1 \<or> unat x = 2" by auto
  then show ?thesis by (simp add: word_unat_eq_iff)
qed

lemma duplicate_ack:
  assumes "last_ack_received ch = a" and "send_buffer ch \<noteq> []"
  shows "receive_ack a ch =
    (if duplicate_ack_count ch + 1 \<ge> 3
     then (ch\<lparr>duplicate_ack_count := 0\<rparr>, retransmit a (send_buffer ch))
     else (ch\<lparr>duplicate_ack_count := duplicate_ack_count ch + 1\<rparr>, []))"
  using assms by (simp add: receive_ack_def Let_def)

lemma answer_ack:
  "receive_ack a ch = (ch1, out1) \<Longrightarrow> answer_all crc clk ws ch1 = (ch2, out2) \<Longrightarrow>
     answer_all crc clk (encode_ack a w # ws) ch = (ch2, out1 @ out2)"
  by (simp add: receive_encoded_ack)

lemma duplicate_below:
  "last_ack_received ch = a \<Longrightarrow> send_buffer ch \<noteq> [] \<Longrightarrow> \<not> 3 \<le> duplicate_ack_count ch + 1 \<Longrightarrow>
     receive_ack a ch = (ch\<lparr>duplicate_ack_count := duplicate_ack_count ch + 1\<rparr>, [])"
  by (simp add: duplicate_ack)

lemma duplicate_third:
  "last_ack_received ch = a \<Longrightarrow> send_buffer ch \<noteq> [] \<Longrightarrow> 3 \<le> duplicate_ack_count ch + 1 \<Longrightarrow>
     receive_ack a ch = (ch\<lparr>duplicate_ack_count := 0\<rparr>, retransmit a (send_buffer ch))"
  by (simp add: duplicate_ack)

text \<open>Within three duplicates of the last acknowledgement the buffered Critical frames are written once.\<close>

lemma three_duplicates:
  assumes la: "last_ack_received ch = a" and buf: "send_buffer ch \<noteq> []" and cnt: "duplicate_ack_count ch < 3"
  shows "\<exists>ch'. answer_all crc clk (replicate 3 (encode_ack a w)) ch = (ch', retransmit a (send_buffer ch))"
proof -
  have c: "\<not> 3 \<le> (0 + 1 :: u32)" "\<not> 3 \<le> (1 + 1 :: u32)" "3 \<le> (2 + 1 :: u32)" "2 = (1 + 1 :: u32)" "1 = (0 + 1 :: u32)"
    by (simp_all add: word_le_nat_alt)
  have r3: "replicate 3 x = [x, x, x]" for x :: bytes by (simp add: numeral_3_eq_3)
  let ?c = "\<lambda>n. ch\<lparr>duplicate_ack_count := n\<rparr>"
  have up: "receive_ack a (?c n) = (?c (n + 1), [])" if "\<not> 3 \<le> n + 1" for n
    using duplicate_below [of "?c n" a] la buf that by simp
  have top: "receive_ack a (?c 2) = (?c 0, retransmit a (send_buffer ch))"
    using duplicate_third [of "?c 2" a] la buf by simp
  have up0: "receive_ack a (?c 0) = (?c 1, [])" and up1: "receive_ack a (?c 1) = (?c 2, [])"
    using up [OF c(1)] up [OF c(2)] by simp_all
  have nil: "answer_all crc clk [] (?c n) = (?c n, [])" for n by simp
  from word_less_3 [OF cnt] have "\<exists>ch'. answer_all crc clk (replicate 3 (encode_ack a w)) (?c (duplicate_ack_count ch))
      = (ch', retransmit a (send_buffer ch))"
  proof (elim disjE)
    assume "duplicate_ack_count ch = 0"
    then show "\<exists>ch'. answer_all crc clk (replicate 3 (encode_ack a w)) (?c (duplicate_ack_count ch))
        = (ch', retransmit a (send_buffer ch))"
      using answer_ack [OF up0 answer_ack [OF up1 answer_ack [OF top nil]]] unfolding r3 by auto
  next
    assume "duplicate_ack_count ch = 1"
    then show "\<exists>ch'. answer_all crc clk (replicate 3 (encode_ack a w)) (?c (duplicate_ack_count ch))
        = (ch', retransmit a (send_buffer ch))"
      using answer_ack [OF up1 answer_ack [OF top answer_ack [OF up0 nil]]] unfolding r3 by auto
  next
    assume "duplicate_ack_count ch = 2"
    then show "\<exists>ch'. answer_all crc clk (replicate 3 (encode_ack a w)) (?c (duplicate_ack_count ch))
        = (ch', retransmit a (send_buffer ch))"
      using answer_ack [OF top answer_ack [OF up0 answer_ack [OF up1 nil]]] unfolding r3 by auto
  qed
  then show ?thesis by simp
qed

text \<open>
  Four acknowledgements of the receiver's position: the first may be news to the sender, the others
  are duplicates, and together they make it write every Critical frame beyond that position.
\<close>

lemma four_acks:
  assumes rel: "link_rel crc L la S k" and n: "length (link_frames L) < 2 ^ 32 - 1"
    and j: "k \<le> j" "j < length (link_frames L)" "snd (link_frames L ! j) = Critical"
    and run: "answer_all crc clk (replicate 4 (encode_ack (of_nat k) w)) (snd_ch L) = (a, out)"
  shows "(\<exists>v \<in> set out. frame_at crc (link_frames L) v j) \<and> (\<forall>v \<in> set out. \<exists>i. frame_at crc (link_frames L) v i)"
proof -
  let ?fs = "link_frames L"
  obtain a1 out1 where r1: "receive_ack (of_nat k) (snd_ch L) = (a1, out1)" by fastforce
  have kN: "k \<le> length ?fs" using j by simp
  note ack = tx_rel_ack [OF link_relD(2) [OF rel] n kN r1]
  then have tx: "tx_rel crc ?fs k a1" using link_relD(3) [OF rel] by (simp add: max_def split: if_splits)
  then have la: "last_ack_received a1 = of_nat k" "duplicate_ack_count a1 < 3" by (simp_all add: tx_rel_def)
  have buf: "send_buffer a1 \<noteq> []" using tx j unfolding tx_rel_def by fastforce
  obtain a2 where a2: "answer_all crc clk (replicate 3 (encode_ack (of_nat k) w)) a1 = (a2, retransmit (of_nat k) (send_buffer a1))"
    using three_duplicates [OF la(1) buf la(2)] by blast
  have "replicate 4 (encode_ack (of_nat k) w) = encode_ack (of_nat k) w # replicate 3 (encode_ack (of_nat k) w)"
    by (simp add: numeral_eq_Suc)
  then have out: "out = out1 @ retransmit (of_nat k) (send_buffer a1)"
    using run answer_ack [OF r1 a2] by simp
  have "\<exists>v \<in> set out. frame_at crc ?fs v j"
    using retransmit_complete [OF tx n j(1,1,2,3)] out by auto
  moreover have "\<exists>i. frame_at crc ?fs v i" if "v \<in> set out" for v
    using that ack retransmit_frames [OF tx, of v "of_nat k"] out by auto
  ultimately show ?thesis by blast
qed

text \<open>Once every missing frame has arrived, everything has been delivered.\<close>

lemma rx_inv_all:
  assumes rel: "link_rel crc L la S k"
    and rx2: "rx_inv (fr_of (link_frames L)) (S \<union> {Suc j |j. \<exists>v \<in> set as. frame_at crc (link_frames L) v j}) k2 b d"
    and all: "\<And>j. k \<le> j \<Longrightarrow> j < length (link_frames L) \<Longrightarrow> \<exists>v \<in> set as. frame_at crc (link_frames L) v j"
  shows "map (\<lambda>r. (rm_payload r, rm_priority r)) d = sent L \<and> reorder_buffer b = []"
proof -
  let ?fs = "link_frames L"
  let ?S = "S \<union> {Suc j |j. \<exists>v \<in> set as. frame_at crc ?fs v j}"
  have mx: "0 < max_frame_payload (cfg (snd_ch L))" using link_relD(1) [OF rel] by (simp add: config_ok_def)
  have "Suc j \<in> ?S" if "j < length ?fs" for j
  proof (cases "k \<le> j")
    case True
    then show ?thesis using all [of j] that by auto
  next
    case False
    then show ?thesis using link_relD(4) [OF rel] unfolding rx_inv_def rx_at_def by auto
  qed
  moreover have "\<exists>j < length ?fs. m = Suc j" if "m \<in> ?S" for m
  proof (cases "m \<in> S")
    case True
    then have "0 < m" "m \<le> length ?fs" using link_relD(5) [OF rel] by auto
    then show ?thesis by (intro exI [of _ "m - 1"]) auto
  next
    case False
    with that show ?thesis by (auto simp: frame_at_def)
  qed
  ultimately have "?S = {Suc j |j. j < length ?fs}" by blast
  with rx2 have "rx_inv (fr_of ?fs) {Suc j |j. j < length ?fs} k2 b d" by simp
  from rx_inv_complete [OF this] have "reorder_buffer b = []"
    "assemble [] 1 ?fs = (chunk_assembly b, d)"
    using map_fr_of [of "length ?fs" ?fs] by simp_all
  then show ?thesis
    using assemble_frames_of [OF mx, of 1 "sent L"] by (simp add: link_frames_def)
qed

text \<open>
  \<^bold>\<open>C3\<close>. Fast retransmit recovers. Take any reachable state in which the frames the receiver still
  misses are all Critical and there is at least one. Let the sender get four acknowledgements of the
  receiver's position, and let what it then writes arrive, in any order and with any repetitions:
  the receiver has now delivered exactly the messages sent, and its reorder buffer is empty.
\<close>

theorem fast_retransmit_recovers:
  assumes "config_ok ca" and "link_reach crc (link_start ca ta cb tb) L"
    and n: "length (link_frames L) < 2 ^ 32 - 1"
    and k: "k = unat (last_contiguous (rcv_ch L))" "k < length (link_frames L)"
    and crit: "\<forall>j. k \<le> j \<and> j < length (link_frames L) \<longrightarrow> snd (link_frames L ! j) = Critical"
    and run: "answer_all crc clk (replicate 4 (encode_ack (last_contiguous (rcv_ch L)) w)) (snd_ch L) = (a, out)"
    and arrivals: "set as = set out" and got: "receive_all crc clk' as (rcv_ch L) = (b, rs)"
  shows "map (\<lambda>r. (rm_payload r, rm_priority r)) (delivered L @ rs) = sent L \<and> reorder_buffer b = []"
proof -
  let ?fs = "link_frames L" and ?mx = "max_frame_payload (cfg (snd_ch L))"
  obtain la S k' where rel: "link_rel crc L la S k'"
    using link_reach_rel [OF assms(2) link_rel_start [OF assms(1)] n] by blast
  note rx = link_relD(4) [OF rel]
  have mx: "?mx + 1 < 2 ^ 32" "0 < ?mx" using link_relD(1) [OF rel] by (simp_all add: config_ok_def)
  have "k' \<le> length ?fs" using rx_inv_bound [OF rx] link_relD(5) [OF rel] by blast
  then have kk: "k' = k" using rx_inv_lc [OF rx] n k(1) by (simp add: unat_of_nat_u32)
  have lc: "last_contiguous (rcv_ch L) = of_nat k" using rx_inv_lc [OF rx] kk by simp
  have rel: "link_rel crc L la S k" and rx: "rx_inv (fr_of ?fs) S k (rcv_ch L) (delivered L)"
    using rel rx kk by simp_all
  note four = four_acks [OF rel n _ _ _ run [unfolded lc]]
  have "\<forall>v \<in> set as. \<exists>j. frame_at crc ?fs v j" using four [of k] k(2) crit arrivals by auto
  from receive_all_frames [OF mx(1) n [unfolded link_frames_def] rx [unfolded link_frames_def]
      this [unfolded link_frames_def] got]
  obtain k2 where rx2: "rx_inv (fr_of ?fs) (S \<union> {Suc j |j. \<exists>v \<in> set as. frame_at crc ?fs v j}) k2 b (delivered L @ rs)"
    unfolding link_frames_def by blast
  show ?thesis by (rule rx_inv_all [OF rel rx2]) (use four crit arrivals in auto)
qed


section \<open>A lost best-effort frame\<close>

text \<open>Frame \<open>j\<close> is best effort, was not received, and no copy of it is on the wire.\<close>

definition lost_frame :: "(bytes \<Rightarrow> u32) \<Rightarrow> ('s, 't) link \<Rightarrow> nat \<Rightarrow> bool" where
  "lost_frame crc L j \<longleftrightarrow>
     j < length (link_frames L) \<and> snd (link_frames L ! j) = BestEffort \<and>
     unat (last_contiguous (rcv_ch L)) \<le> j \<and>
     map_of (reorder_buffer (rcv_ch L)) (of_nat (Suc j)) = None \<and>
     (\<forall>w \<in> wire L. \<not> frame_at crc (link_frames L) w j)"

lemma frame_at_shrink: "frame_at crc (fs @ gs) w j \<Longrightarrow> j < length fs \<Longrightarrow> frame_at crc fs w j"
  by (simp add: frame_at_def nth_append)

lemma lost_frame_step:
  assumes step: "link_step crc L L'" and rel: "link_rel crc L la S k" and n: "length (link_frames L') < 2 ^ 32 - 1"
    and j: "j < length (link_frames L)" "snd (link_frames L ! j) = BestEffort" "Suc j \<notin> S"
    and w: "\<forall>w \<in> wire L. \<not> frame_at crc (link_frames L) w j"
  shows "\<exists>la' S' k'. link_rel crc L' la' S' k' \<and> Suc j \<notin> S' \<and> j < length (link_frames L') \<and>
    snd (link_frames L' ! j) = BestEffort \<and> (\<forall>w \<in> wire L'. \<not> frame_at crc (link_frames L') w j)"
proof -
  obtain la' S' k' where rel': "link_rel crc L' la' S' k'" and pr: "link_progress crc L la S k L' la' S' k'"
    using link_rel_step [OF step rel n] by blast
  then obtain gs where gs: "link_frames L' = link_frames L @ gs" by (auto simp: link_progress_def)
  have mx: "max_frame_payload (cfg (snd_ch L')) + 1 < 2 ^ 32"
    using link_relD(1) [OF rel'] by (simp add: config_ok_def)
  have be: "j < length (link_frames L')" "snd (link_frames L' ! j) = BestEffort"
    using j gs by (simp_all add: nth_append)
  have "Suc j \<notin> S'" using pr j(3) w unfolding link_progress_def by blast
  moreover have "\<not> frame_at crc (link_frames L') v j" if v: "v \<in> wire L'" for v
  proof
    assume at: "frame_at crc (link_frames L') v j"
    then have "v \<notin> wire L" using w j(1) frame_at_shrink gs by metis
    with v pr obtain i where i: "frame_at crc (link_frames L') v i"
        "length (link_frames L) \<le> i \<or> snd (link_frames L' ! i) = Critical"
      unfolding link_progress_def by blast
    have "length (link_frames L') < 2 ^ 32" using n by simp
    then have "i = j"
      using frame_at_unique [OF i(1) [unfolded link_frames_def] at [unfolded link_frames_def] mx]
      by (simp add: link_frames_def)
    with i(2) j(1) be(2) show False by simp
  qed
  ultimately show ?thesis using rel' be by blast
qed

lemma lost_frame_reach:
  assumes "link_reach crc L L'" and "link_rel crc L la S k" and "length (link_frames L') < 2 ^ 32 - 1"
    and "j < length (link_frames L)" "snd (link_frames L ! j) = BestEffort" "Suc j \<notin> S"
    and "\<forall>w \<in> wire L. \<not> frame_at crc (link_frames L) w j"
  shows "\<exists>la' S' k'. link_rel crc L' la' S' k' \<and> Suc j \<notin> S' \<and> j < length (link_frames L') \<and>
    snd (link_frames L' ! j) = BestEffort \<and> (\<forall>w \<in> wire L'. \<not> frame_at crc (link_frames L') w j)"
  using assms
proof (induction rule: rtranclp_induct)
  case (step M N)
  have "length (link_frames M) < 2 ^ 32 - 1" using link_step_frames [OF step(2)] step.prems(2) by auto
  from step.IH [OF step.prems(1) this step.prems(3-6)] obtain la' S' k' where
    "link_rel crc M la' S' k'" "j < length (link_frames M)" "snd (link_frames M ! j) = BestEffort" "Suc j \<notin> S'"
    "\<forall>w \<in> wire M. \<not> frame_at crc (link_frames M) w j"
    by blast
  from lost_frame_step [OF step(2) this(1) step.prems(2) this(2-5)] show ?case .
qed blast

text \<open>
  A best-effort frame that the network lost is never written again, whatever is sent,
  acknowledged or flushed afterwards, so the receiver never gets past it: every later frame, Critical
  ones included, stays in the reorder buffer (until a Resume or a reset replaces the numbering).
\<close>

theorem best_effort_loss_stalls:
  assumes "config_ok ca" and reach: "link_reach crc (link_start ca ta cb tb) L"
    and lost: "lost_frame crc L j"
    and later: "link_reach crc L L'" and n: "length (link_frames L') < 2 ^ 32 - 1"
  shows "unat (last_contiguous (rcv_ch L')) \<le> j"
proof -
  have grow: "length (link_frames L) \<le> length (link_frames L')"
    using later by (induction rule: rtranclp_induct) (auto dest!: link_step_frames)
  then obtain la S k where rel: "link_rel crc L la S k"
    using link_reach_rel [OF reach link_rel_start [OF assms(1)]] n by fastforce
  note rx = link_relD(4) [OF rel]
  have j: "j < length (link_frames L)" using lost by (simp add: lost_frame_def)
  have "k \<le> length (link_frames L)" using rx_inv_bound [OF rx] link_relD(5) [OF rel] by blast
  then have kj: "k \<le> j" using rx_inv_lc [OF rx] lost n grow by (simp add: unat_of_nat_u32 lost_frame_def)
  have "Suc j \<notin> S"
  proof
    assume "Suc j \<in> S"
    moreover have "unat (of_nat (Suc j) :: u32) = Suc j" using j n grow by (intro unat_of_nat_u32) simp
    ultimately have "map_of (reorder_buffer (rcv_ch L)) (of_nat (Suc j)) \<noteq> None"
      using rx kj by (simp add: rx_inv_def rx_at_def del: of_nat_Suc)
    then show False using lost by (simp add: lost_frame_def)
  qed
  then obtain la' S' k' where rel': "link_rel crc L' la' S' k'" and S': "Suc j \<notin> S'"
    using lost_frame_reach [OF later rel n] lost unfolding lost_frame_def by blast
  note rx' = link_relD(4) [OF rel']
  have "k' \<le> j"
  proof (rule ccontr)
    assume "\<not> k' \<le> j"
    then have "Suc j \<le> k'" by simp
    then have "Suc j \<in> S'" using rx' unfolding rx_inv_def rx_at_def by blast
    with S' show False by blast
  qed
  moreover have "k' \<le> length (link_frames L')" using rx_inv_bound [OF rx'] link_relD(5) [OF rel'] by blast
  ultimately show ?thesis using rx_inv_lc [OF rx'] n by (simp add: unat_of_nat_u32)
qed


section \<open>The theorems at a concrete run\<close>

text \<open>One message is sent and its frame is lost on the way.\<close>

lemma one_lost_message:
  obtains L where "link_reach (\<lambda>_. 5) (link_start default_config () default_config ()) L"
    and "link_frames L = [([0, 1], pri)]" and "sent L = [([1], pri)]"
    and "rcv_ch L = channel_new default_config ()" and "wire L = {}" and "delivered L = []"
proof -
  let ?start = "link_start default_config () default_config ()"
  have ok: "config_ok default_config" by (simp add: config_ok_def default_config_def)
  have "chan_inv (\<lambda>_. 5) (channel_new default_config ())"
    using ok by (simp add: chan_inv_def channel_new_def reorder_ok_def)
  then obtain a out where send: "send (\<lambda>_. 5) (\<lambda>_. 7) [1] pri (snd_ch ?start) = Some (a, out)"
    using send_inv by (fastforce simp: link_start_def)
  let ?one = "?start\<lparr>snd_ch := a, wire := wire ?start \<union> set out, sent := sent ?start @ [([1], pri)]\<rparr>"
  let ?lost = "?one\<lparr>wire := wire ?one - set out, acks := acks ?one - {}\<rparr>"
  have "link_step (\<lambda>_. 5) ?start ?one" by (rule link_step.sends [OF send])
  moreover have "link_step (\<lambda>_. 5) ?one ?lost" by (rule link_step.loses)
  ultimately have "link_reach (\<lambda>_. 5) ?start ?lost" by (meson rtranclp.rtrancl_into_rtrancl rtranclp.rtrancl_refl)
  moreover have "link_frames ?lost = [([0, 1], pri)]"
    using send_cfg [OF send]
    by (simp add: link_frames_def link_start_def channel_new_def default_config_def frame_payloads_def)
  ultimately show thesis by (rule that) (simp_all add: link_start_def)
qed

theorem link_delivers_prefix_witness:
  "\<exists>L. link_reach (\<lambda>_. 5) (link_start default_config () default_config ()) L \<and> sent L = [([1], Critical)] \<and>
    (\<exists>rest. sent L = map (\<lambda>r. (rm_payload r, rm_priority r)) (delivered L) @ rest)"
proof -
  obtain L where L: "link_reach (\<lambda>_. 5) (link_start default_config () default_config ()) L"
    "link_frames L = [([0, 1], Critical)]" "sent L = [([1], Critical)]"
    using one_lost_message by blast
  moreover have "\<exists>rest. sent L = map (\<lambda>r. (rm_payload r, rm_priority r)) (delivered L) @ rest"
    by (rule link_delivers_prefix [OF _ L(1)]) (simp_all add: L(2) config_ok_def default_config_def)
  ultimately show ?thesis by blast
qed

theorem critical_frame_retained_witness:
  "\<exists>L. link_reach (\<lambda>_. 5) (link_start default_config () default_config ()) L \<and> wire L = {} \<and>
    (\<exists>m \<in> set (send_buffer (snd_ch L)). bm_seq m = 1 \<and> bm_priority m = Critical \<and>
      (\<exists>ts. bm_encoded m = encode_data (\<lambda>_. 5) 1 ts Critical [0, 1]))"
proof -
  obtain L where L: "link_reach (\<lambda>_. 5) (link_start default_config () default_config ()) L"
    "link_frames L = [([0, 1], Critical)]" "rcv_ch L = channel_new default_config ()" "wire L = {}"
    using one_lost_message by blast
  moreover have "\<exists>m \<in> set (send_buffer (snd_ch L)). bm_seq m = of_nat (Suc 0) \<and> bm_priority m = Critical \<and>
      (\<exists>ts. bm_encoded m = encode_data (\<lambda>_. 5) (of_nat (Suc 0)) ts Critical (fst (link_frames L ! 0)))"
    by (rule critical_frame_retained [OF _ L(1)])
       (simp_all add: L(2,3) config_ok_def default_config_def channel_new_def)
  ultimately show ?thesis by auto
qed

theorem fast_retransmit_recovers_witness:
  "\<exists>L a out b rs. link_reach (\<lambda>_. 5) (link_start default_config () default_config ()) L \<and> wire L = {} \<and>
    delivered L = [] \<and> answer_all (\<lambda>_. 5) (\<lambda>_. 0) (replicate 4 (encode_ack 0 0)) (snd_ch L) = (a, out) \<and>
    receive_all (\<lambda>_. 5) (\<lambda>_. 0) out (rcv_ch L) = (b, rs) \<and>
    map (\<lambda>r. (rm_payload r, rm_priority r)) rs = [([1], Critical)]"
proof -
  obtain L where L: "link_reach (\<lambda>_. 5) (link_start default_config () default_config ()) L"
    "link_frames L = [([0, 1], Critical)]" "sent L = [([1], Critical)]"
    "rcv_ch L = channel_new default_config ()" "wire L = {}" "delivered L = []"
    using one_lost_message by blast
  have lc: "last_contiguous (rcv_ch L) = 0" by (simp add: L(4) channel_new_def)
  obtain a out where a: "answer_all (\<lambda>_. 5) (\<lambda>_. 0) (replicate 4 (encode_ack 0 0)) (snd_ch L) = (a, out)"
    by fastforce
  obtain b rs where b: "receive_all (\<lambda>_. 5) (\<lambda>_. 0) out (rcv_ch L) = (b, rs)" by fastforce
  have "map (\<lambda>r. (rm_payload r, rm_priority r)) (delivered L @ rs) = sent L \<and> reorder_buffer b = []"
    by (rule fast_retransmit_recovers [OF _ L(1) _ refl _ _ a [folded lc] refl b])
       (simp_all add: L(2) lc config_ok_def default_config_def)
  then show ?thesis using L a b by auto
qed

theorem best_effort_loss_stalls_witness:
  "\<exists>L. link_reach (\<lambda>_. 5) (link_start default_config () default_config ()) L \<and> sent L = [([1], BestEffort)] \<and>
    lost_frame (\<lambda>_. 5) L 0 \<and>
    unat (last_contiguous (rcv_ch (L\<lparr>wire := wire L \<union> set (flush_unacked (snd_ch L))\<rparr>))) \<le> 0"
proof -
  obtain L where L: "link_reach (\<lambda>_. 5) (link_start default_config () default_config ()) L"
    "link_frames L = [([0, 1], BestEffort)]" "sent L = [([1], BestEffort)]"
    "rcv_ch L = channel_new default_config ()" "wire L = {}"
    using one_lost_message by blast
  let ?L' = "L\<lparr>wire := wire L \<union> set (flush_unacked (snd_ch L))\<rparr>"
  have lost: "lost_frame (\<lambda>_. 5) L 0" using L by (simp add: lost_frame_def channel_new_def)
  have step: "link_reach (\<lambda>_. 5) L ?L'" by (rule r_into_rtranclp) (rule link_step.flushes)
  have "unat (last_contiguous (rcv_ch ?L')) \<le> 0"
    by (rule best_effort_loss_stalls [OF _ L(1) lost step])
       (use L(2) in \<open>simp_all add: config_ok_def default_config_def link_frames_def\<close>)
  with L(1,3) lost show ?thesis by blast
qed

end
