(* ===== verification/Resume.thy ===== *)
theory Resume
  imports Recovery
begin

text \<open>
  Reconnection: the Resume handshake of \<open>handle_resume\<close> in its three branches. The replay branch
  brings a receiver up to date; the gap branch renumbers the buffered Critical frames and resends
  them; and the cases in which the renumbering or the shared counters lose data.
\<close>

section \<open>Replay\<close>

lemma unat_next_u32: "k < 2 ^ 32 - 1 \<Longrightarrow> unat (of_nat k + 1 :: u32) = Suc k"
proof -
  assume "k < 2 ^ 32 - 1"
  then have "unat (of_nat (Suc k) :: u32) = Suc k" by (intro unat_of_nat_u32) simp
  then show ?thesis by (simp add: add.commute)
qed

lemma link_start_inv: "config_ok ca \<Longrightarrow> chan_inv crc (snd_ch (link_start ca ta cb tb))"
  by (simp add: link_start_def chan_inv_def channel_new_def reorder_ok_def)

lemma link_step_inv: "link_step crc L L' \<Longrightarrow> chan_inv crc (snd_ch L) \<Longrightarrow> chan_inv crc (snd_ch L')"
proof (induction rule: link_step.cases)
  case (sends clk pl pri L a out)
  then show ?case using send_inv [of crc "snd_ch L" clk pl pri] by auto
next
  case (acked w L clk a ms out)
  then show ?case using receive_inv by auto
qed auto

lemma link_reach_inv: "link_reach crc L L' \<Longrightarrow> chan_inv crc (snd_ch L) \<Longrightarrow> chan_inv crc (snd_ch L')"
  by (induction rule: rtranclp_induct) (auto intro: link_step_inv)

text \<open>A frame in the buffer rules the gap branch out: the front is not beyond it.\<close>

lemma no_gap:
  assumes rel: "tx_rel crc fs la ch" and inv: "chan_inv crc ch" and n: "length fs < 2 ^ 32 - 1"
    and m: "m \<in> set (send_buffer ch)" "bm_seq m = of_nat (Suc k)" and k: "k < length fs"
  shows "\<not> resume_gap (of_nat k) ch"
proof -
  let ?buf = "send_buffer ch" and ?N = "length fs"
  have len: "length ?buf \<le> ?N" and next_sq: "next_seq ch = of_nat (Suc ?N)" using rel by (simp_all add: tx_rel_def)
  have seq: "unat (bm_seq (?buf ! i)) = Suc ?N - (length ?buf - i)" if "i < length ?buf" for i
  proof -
    have "bm_seq (?buf ! i) = of_nat (Suc ?N) - of_nat (length ?buf - i)"
      using inv that next_sq by (simp add: chan_inv_def buffer_ok_def)
    also have "\<dots> = of_nat (Suc ?N - (length ?buf - i))"
      using len that by (subst of_nat_diff) simp_all
    finally show ?thesis using n by (simp add: unat_of_nat_u32 del: of_nat_diff)
  qed
  obtain i where i: "i < length ?buf" "m = ?buf ! i" using m(1) by (auto simp: in_set_conv_nth)
  have "unat (of_nat (Suc k) :: u32) = Suc k" using k n by (intro unat_of_nat_u32) simp
  then have "Suc k = Suc ?N - (length ?buf - i)" using seq [OF i(1)] i(2) m(2) by simp
  moreover have "unat (bm_seq (?buf ! 0)) = Suc ?N - length ?buf" using seq [of 0] i(1) by (cases ?buf) auto
  ultimately have "unat (bm_seq (?buf ! 0)) \<le> Suc k" using i(1) by simp
  moreover have "unat (of_nat k + 1 :: u32) = Suc k" using k n by (intro unat_next_u32) simp
  ultimately have "bm_seq (?buf ! 0) \<le> of_nat k + 1" by (simp add: word_le_nat_alt)
  then show ?thesis using i(1) by (cases ?buf) (auto simp: resume_gap_def not_less)
qed

text \<open>
  \<^bold>\<open>C4\<close>. Reconnection. Take any reachable state in which every frame the receiver still misses (there
  may be none) is Critical. The receiver's Resume carries its position; the sender answers with
  \<^const>\<open>handle_resume\<close>, and what it then writes arrives, in any order and with any repetitions. The
  receiver has then delivered exactly the messages sent, and the sender's numbering is unchanged.
\<close>

theorem resume_recovers:
  assumes "config_ok ca" and reach: "link_reach crc (link_start ca ta cb tb) L"
    and n: "length (link_frames L) < 2 ^ 32 - 1"
    and crit: "\<forall>j. unat (last_contiguous (rcv_ch L)) \<le> j \<and> j < length (link_frames L) \<longrightarrow>
                 snd (link_frames L ! j) = Critical"
    and run: "handle_resume crc clk (last_contiguous (rcv_ch L)) (snd_ch L) = (a, out)"
    and arrivals: "set as = set out" and got: "receive_all crc clk' as (rcv_ch L) = (b, rs)"
  shows "map (\<lambda>r. (rm_payload r, rm_priority r)) (delivered L @ rs) = sent L \<and>
    reorder_buffer b = [] \<and> next_seq a = next_seq (snd_ch L)"
proof -
  let ?fs = "link_frames L"
  obtain la S k where rel: "link_rel crc L la S k"
    using link_reach_rel [OF reach link_rel_start [OF assms(1)] n] by blast
  note rx = link_relD(4) [OF rel] and tx = link_relD(2) [OF rel]
  have mx: "max_frame_payload (cfg (snd_ch L)) + 1 < 2 ^ 32" using link_relD(1) [OF rel] by (simp add: config_ok_def)
  have inv: "chan_inv crc (snd_ch L)" by (rule link_reach_inv [OF reach link_start_inv [OF assms(1)]])
  have kN: "k \<le> length ?fs" using rx_inv_bound [OF rx] link_relD(5) [OF rel] by blast
  have lc: "last_contiguous (rcv_ch L) = of_nat k" by (rule rx_inv_lc [OF rx])
  have uk: "unat (of_nat k :: u32) = k" using kN n by (simp add: unat_of_nat_u32)
  have nx: "next_seq (snd_ch L) = of_nat (Suc (length ?fs))" using tx by (simp add: tx_rel_def)
  have crit: "snd (?fs ! j) = Critical" if "k \<le> j" "j < length ?fs" for j using crit that lc uk by simp
  have lt: "of_nat k < next_seq (snd_ch L)"
    using kN n nx by (simp add: word_less_nat_alt unat_of_nat_u32 del: of_nat_Suc)
  have gap: "\<not> resume_gap (of_nat k) (snd_ch L)"
  proof (cases "k < length ?fs")
    case True
    then obtain m where "m \<in> set (send_buffer (snd_ch L))" "entry_at crc ?fs m k"
      using tx link_relD(3) [OF rel] crit unfolding tx_rel_def by blast
    then show ?thesis using no_gap [OF tx inv n] True by (auto simp: entry_at_def)
  next
    case False
    then have kN: "k = length ?fs" using kN by simp
    have "bm_seq m \<le> of_nat k + 1" if "m \<in> set (send_buffer (snd_ch L))" for m
    proof -
      obtain j where "entry_at crc ?fs m j" using tx \<open>m \<in> _\<close> unfolding tx_rel_def by blast
      then have "j < k" "bm_seq m = of_nat (Suc j)" using kN by (auto simp: entry_at_def frame_at_def)
      moreover from this have "unat (of_nat (Suc j) :: u32) = Suc j" using kN n by (intro unat_of_nat_u32) simp
      moreover have "unat (of_nat k + 1 :: u32) = Suc k" using kN n by (intro unat_next_u32) simp
      ultimately show ?thesis by (simp add: word_le_nat_alt)
    qed
    then show ?thesis by (cases "send_buffer (snd_ch L)") (auto simp: resume_gap_def not_less)
  qed
  have a: "a = (snd_ch L)\<lparr>last_ack_received := of_nat k,
        send_buffer := dropWhile (\<lambda>m. bm_seq m \<le> of_nat k) (send_buffer (snd_ch L))\<rparr>"
    and out: "out = retransmit (of_nat k) (send_buffer (snd_ch L))"
    using run handle_resume_replay [OF lt gap] unfolding lc by simp_all
  have all: "\<exists>v \<in> set as. frame_at crc ?fs v j" if "k \<le> j" "j < length ?fs" for j
    using retransmit_complete [OF tx n _ that crit [OF that]] link_relD(3) [OF rel] that arrivals out by auto
  have "\<forall>v \<in> set as. \<exists>j. frame_at crc ?fs v j"
    using retransmit_frames [OF tx] arrivals out by blast
  from receive_all_frames [OF mx n [unfolded link_frames_def] rx [unfolded link_frames_def]
      this [unfolded link_frames_def] got]
  obtain k2 where "rx_inv (fr_of ?fs) (S \<union> {Suc j |j. \<exists>v \<in> set as. frame_at crc ?fs v j}) k2 b (delivered L @ rs)"
    unfolding link_frames_def by blast
  from rx_inv_all [OF rel this] all show ?thesis using a by auto
qed

theorem resume_recovers_witness:
  "\<exists>L a out b rs. link_reach (\<lambda>_. 5) (link_start default_config () default_config ()) L \<and> wire L = {} \<and>
    delivered L = [] \<and> handle_resume (\<lambda>_. 5) (\<lambda>_. 0) 0 (snd_ch L) = (a, out) \<and>
    receive_all (\<lambda>_. 5) (\<lambda>_. 0) (out @ out) (rcv_ch L) = (b, rs) \<and>
    map (\<lambda>r. (rm_payload r, rm_priority r)) rs = [([1], Critical)]"
proof -
  obtain L where L: "link_reach (\<lambda>_. 5) (link_start default_config () default_config ()) L"
    "link_frames L = [([0, 1], Critical)]" "sent L = [([1], Critical)]"
    "rcv_ch L = channel_new default_config ()" "wire L = {}" "delivered L = []"
    using one_lost_message by blast
  have lc: "last_contiguous (rcv_ch L) = 0" by (simp add: L(4) channel_new_def)
  obtain a out where a: "handle_resume (\<lambda>_. 5) (\<lambda>_. 0) 0 (snd_ch L) = (a, out)" by fastforce
  obtain b rs where b: "receive_all (\<lambda>_. 5) (\<lambda>_. 0) (out @ out) (rcv_ch L) = (b, rs)" by fastforce
  have "map (\<lambda>r. (rm_payload r, rm_priority r)) (delivered L @ rs) = sent L \<and>
      reorder_buffer b = [] \<and> next_seq a = next_seq (snd_ch L)"
    by (rule resume_recovers [OF _ L(1) _ _ a [folded lc] _ b])
       (simp_all add: L(2) lc config_ok_def default_config_def)
  then show ?thesis using L a b by auto
qed


section \<open>The gap branch\<close>

text \<open>Frames that arrive in order, one after the other, at a receiver with nothing buffered.\<close>

lemma wire_of_ConsE:
  assumes "wire_of crc sq ((pl, pri) # ps) out"
  obtains ts out' where "out = encode_data crc sq ts pri pl # out'" and "wire_of crc (sq + 1) ps out'"
proof -
  from assms obtain w out' where out: "out = w # out'" by (auto simp: wire_of_def list_all2_Cons1)
  with assms obtain ts where "w = encode_data crc sq ts pri pl" by (auto simp: wire_of_def)
  moreover have "wire_of crc (sq + 1) ps out'"
    using assms out unfolding wire_of_def
    by (simp add: enumerate_Suc_eq list_all2_map1 split_def add_ac)
  ultimately show thesis using that out by blast
qed

lemma receive_in_order:
  "wire_of crc (last_contiguous b + 1) ps ws \<Longrightarrow> reorder_buffer b = [] \<Longrightarrow>
    unat (last_contiguous b) + length ps < 2 ^ 32 \<Longrightarrow> \<forall>(pl, pri) \<in> set ps. length pl < 2 ^ 32 \<Longrightarrow>
    receive_all crc clk ws b = (b', rs) \<Longrightarrow>
    rs = snd (assemble (chunk_assembly b) (Suc (unat (last_contiguous b))) ps) \<and>
    last_contiguous b' = last_contiguous b + of_nat (length ps) \<and> reorder_buffer b' = []"
proof (induction ps arbitrary: ws b rs)
  case Nil
  then show ?case by simp
next
  case (Cons p ps)
  let ?lc = "last_contiguous b"
  obtain pl pri where p: "p = (pl, pri)" by fastforce
  from Cons.prems(1) obtain ts ws' where ws: "ws = encode_data crc (?lc + 1) ts pri pl # ws'"
    and ws': "wire_of crc (?lc + 1 + 1) ps ws'"
    unfolding p by (rule wire_of_ConsE)
  have u: "unat (?lc + 1) = Suc (unat ?lc)" using Cons.prems(3) unat_succ_u32 by simp
  then have gt: "\<not> ?lc + 1 \<le> ?lc" by (simp add: word_le_nat_alt)
  define b1 where "b1 = b\<lparr>ack_pending := True, last_contiguous := ?lc + 1,
    chunk_assembly := fst (chunk_step (chunk_assembly b) pl (?lc + 1) pri)\<rparr>"
  let ?ms = "snd (chunk_step (chunk_assembly b) pl (?lc + 1) pri)"
  have "drain b1 = (b1, [])" by (rule drain_None) (simp add: b1_def Cons.prems(2))
  then have "receive_data (?lc + 1) pri pl b = (b1, ?ms)"
    using gt by (simp add: receive_data_def process_chunk_eq b1_def)
  then have r1: "receive crc clk (encode_data crc (?lc + 1) ts pri pl) b = (b1, ?ms, [])"
    using Cons.prems(4) p by (simp add: receive_def)
  obtain rs2 where r2: "receive_all crc clk ws' b1 = (b', rs2)" and rs: "rs = ?ms @ rs2"
    using Cons.prems(5) ws r1 by (auto split: prod.splits)
  have "rs2 = snd (assemble (chunk_assembly b1) (Suc (unat (last_contiguous b1))) ps) \<and>
      last_contiguous b' = last_contiguous b1 + of_nat (length ps) \<and> reorder_buffer b' = []"
    by (rule Cons.IH [OF _ _ _ _ r2]) (use ws' Cons.prems(2-4) u in \<open>simp_all add: b1_def\<close>)
  moreover have "(of_nat (Suc (unat ?lc)) :: u32) = ?lc + 1" by simp
  ultimately show ?case
    using rs u p by (simp add: b1_def Let_def split_def add_ac)
qed

lemma receive_duplicates:
  "\<forall>w \<in> set ws. \<exists>sq ts ck pri pl. decode crc w = Some (Data sq ts ck pri pl) \<and> sq \<le> last_contiguous b \<Longrightarrow>
     \<exists>x. receive_all crc clk ws b = (b\<lparr>ack_pending := x\<rparr>, [])"
proof (induction ws arbitrary: b)
  case Nil
  then show ?case by (intro exI [of _ "ack_pending b"]) simp
next
  case (Cons w ws)
  then obtain sq ts ck pri pl where "decode crc w = Some (Data sq ts ck pri pl)" "sq \<le> last_contiguous b" by auto
  then have "receive crc clk w b = (b\<lparr>ack_pending := True\<rparr>, [], [])"
    by (simp add: receive_def receive_data_def)
  then show ?case using Cons.IH [of "b\<lparr>ack_pending := True\<rparr>"] Cons.prems by auto
qed

lemma receive_all_append:
  "receive_all crc clk (us @ vs) ch =
     (let (ch1, ms1) = receive_all crc clk us ch; (ch2, ms2) = receive_all crc clk vs ch1 in (ch2, ms1 @ ms2))"
  by (induction us arbitrary: ch) (simp_all add: Let_def split: prod.splits)

text \<open>What is buffered was just written, when the buffer was empty before.\<close>

lemma send_framed_buffered:
  "send_framed crc clk i ps ch = (ch', out) \<Longrightarrow>
     \<forall>m \<in> set (send_buffer ch'). m \<in> set (send_buffer ch) \<or> bm_encoded m \<in> set out"
proof (induction crc clk i ps ch arbitrary: ch' out rule: send_framed.induct)
  case (2 crc clk i pl pri ps ch)
  obtain ch1 out1 where s1: "send_one crc (clk i) pl pri ch = (ch1, out1)" by fastforce
  obtain ch2 out2 where s2: "send_framed crc clk (Suc i) ps ch1 = (ch2, out2)" by fastforce
  let ?buf = "send_buffer ch @ [\<lparr>bm_seq = next_seq ch, bm_priority = pri,
      bm_encoded = encode_data crc (next_seq ch) (clk i) pri pl\<rparr>]"
  have "send_buffer ch1 = evict (max_send_buffer (cfg ch)) (last_ack_received ch) ?buf"
      "out1 = [encode_data crc (next_seq ch) (clk i) pri pl]"
    using s1 by (auto simp: send_one_def Let_def)
  moreover from this(1) obtain xs where "?buf = xs @ send_buffer ch1" using evict_suffix by metis
  then have "set (send_buffer ch1) \<subseteq> set ?buf" by (metis le_sup_iff order_refl set_append)
  ultimately have "\<forall>m \<in> set (send_buffer ch1). m \<in> set (send_buffer ch) \<or> bm_encoded m \<in> set out1" by auto
  moreover have "ch' = ch2" "out = out1 @ out2" using "2.prems" s1 s2 by simp_all
  ultimately show ?case using "2.IH" [OF s1 [symmetric] refl s2] by (metis Un_iff set_append)
qed simp

text \<open>
  The gap branch. When frames the peer needs have left the send buffer, every buffered Critical
  payload is renumbered from \<open>la + 1\<close> on, in order, and written. A peer at position \<open>la\<close> with an empty
  reorder buffer delivers exactly those payloads (reassembled from wherever its chunk assembly stands),
  once each although the retransmission that follows writes them again, and both ends agree on the
  numbering afterwards.
\<close>

theorem resume_gap_resends:
  assumes inv: "chan_inv crc ch" and gap: "la < next_seq ch" "resume_gap la ch"
    and ps: "ps = map (\<lambda>m. (buffered_payload m, Critical)) (filter (\<lambda>m. bm_priority m = Critical) (send_buffer ch))"
    and fits: "unat la + length ps < 2 ^ 32"
    and run: "handle_resume crc clk la ch = (ch', out)"
    and peer: "last_contiguous b = la" "reorder_buffer b = []"
    and got: "receive_all crc clk' out b = (b', rs)"
  shows "rs = snd (assemble (chunk_assembly b) (Suc (unat la)) ps) \<and>
    last_contiguous b' = la + of_nat (length ps) \<and> next_seq ch' = last_contiguous b' + 1 \<and> reorder_buffer b' = []"
proof -
  let ?c = "ch\<lparr>last_ack_received := la, next_seq := la + 1, last_contiguous := la, send_buffer := [],
              reorder_buffer := []\<rparr>"
  have ps': "map (\<lambda>m. (buffered_payload m, bm_priority m)) (filter (\<lambda>m. bm_priority m = Critical) (send_buffer ch)) = ps"
    unfolding ps by simp
  obtain ch1 out1 where sf: "send_framed crc clk 0 ps ?c = (ch1, out1)" by fastforce
  note eq = handle_resume_gap [OF gap sf [folded ps']]
  have out: "out = out1 @ retransmit la (send_buffer ch1)" and nx: "next_seq ch' = next_seq ch1"
    using run eq by auto
  have wire: "wire_of crc (la + 1) ps out1" "next_seq ch1 = la + 1 + of_nat (length ps)"
    using send_framed_wire [OF sf] by auto
  have mx: "max_frame_payload (cfg ch) + 1 < 2 ^ 32" and ok: "buffer_ok crc (max_frame_payload (cfg ch)) (next_seq ch) (send_buffer ch)"
    using inv by (simp_all add: chan_inv_def config_ok_def)
  have short: "\<forall>(pl, pri) \<in> set ps. length pl < 2 ^ 32"
    using buffered_payload_bounds [OF ok] mx unfolding ps by fastforce
  obtain b1 rs1 where r1: "receive_all crc clk' out1 b = (b1, rs1)" by fastforce
  have first: "rs1 = snd (assemble (chunk_assembly b) (Suc (unat la)) ps) \<and>
      last_contiguous b1 = la + of_nat (length ps) \<and> reorder_buffer b1 = []"
    using receive_in_order [OF _ peer(2) _ short r1] wire(1) fits unfolding peer(1) by blast
  have "\<exists>sq ts ck pri pl. decode crc w = Some (Data sq ts ck pri pl) \<and> sq \<le> last_contiguous b1"
    if "w \<in> set (retransmit la (send_buffer ch1))" for w
  proof -
    from that send_framed_buffered [OF sf] have "w \<in> set out1" by (auto simp: retransmit_def)
    then obtain j where j: "j < length out1" "w = out1 ! j" by (auto simp: in_set_conv_nth)
    have len: "length out1 = length ps" by (rule wire_of_length [OF wire(1)])
    obtain ts where w: "w = encode_data crc (la + 1 + of_nat j) ts (snd (ps ! j)) (fst (ps ! j))"
      using wire(1) j len unfolding wire_of_def
      by (auto simp: list_all2_conv_all_nth nth_enumerate_eq split_def)
    have "(fst (ps ! j), snd (ps ! j)) \<in> set ps" using j len by simp
    then have "length (fst (ps ! j)) < 2 ^ 32" using short by blast
    moreover have "la + 1 + of_nat j \<le> la + of_nat (length ps)"
    proof -
      have "unat (la + of_nat i) = unat la + i" if "i \<le> length ps" for i
        using that fits by (simp add: unat_word_ariths unat_of_nat_u32 unat_of_nat)
      from this [of "Suc j"] this [of "length ps"] j len show ?thesis
        by (simp add: word_le_nat_alt add_ac)
    qed
    ultimately show ?thesis using w first by simp
  qed
  then obtain x where "receive_all crc clk' (retransmit la (send_buffer ch1)) b1 = (b1\<lparr>ack_pending := x\<rparr>, [])"
    using receive_duplicates by blast
  then have "b' = b1\<lparr>ack_pending := x\<rparr>" "rs = rs1"
    using got r1 out by (simp_all add: receive_all_append)
  then show ?thesis using first nx wire(2) by (simp add: add_ac)
qed

text \<open>A sender whose best-effort frame 1 was evicted, with the Critical frame 2 still buffered.\<close>

theorem resume_gap_resends_witness:
  "\<exists>ch' out b' rs.
     handle_resume (\<lambda>_. 5) (\<lambda>_. 0) 0
       ((channel_new default_config ())\<lparr>next_seq := 3, send_buffer :=
          [\<lparr>bm_seq = 2, bm_priority = Critical, bm_encoded = encode_data (\<lambda>_. 5) 2 7 Critical [0, 9]\<rparr>]\<rparr>) = (ch', out) \<and>
     receive_all (\<lambda>_. 5) (\<lambda>_. 0) out (channel_new default_config ()) = (b', rs) \<and>
     rs = [\<lparr>rm_payload = [9], rm_seq = 1, rm_priority = Critical\<rparr>] \<and> last_contiguous b' = 1 \<and> next_seq ch' = 2"
proof -
  let ?m = "\<lparr>bm_seq = 2, bm_priority = Critical, bm_encoded = encode_data (\<lambda>_. 5) 2 7 Critical [0, 9]\<rparr>"
  let ?ch = "(channel_new default_config ())\<lparr>next_seq := 3, send_buffer := [?m]\<rparr>"
  obtain ch' out where a: "handle_resume (\<lambda>_. 5) (\<lambda>_. 0) 0 ?ch = (ch', out)" by fastforce
  obtain b' rs where b: "receive_all (\<lambda>_. 5) (\<lambda>_. 0) out (channel_new default_config ()) = (b', rs)" by fastforce
  have "\<exists>ts pl. 0 < length pl \<and> length pl \<le> Suc 32768 \<and>
      encode_data (\<lambda>_. 5) 2 7 Critical [0, 9] = encode_data (\<lambda>_. 5) 2 ts Critical pl"
    by (intro exI [of _ 7] exI [of _ "[0, 9]"]) simp
  then have inv: "chan_inv (\<lambda>_. 5) ?ch"
    by (simp add: chan_inv_def channel_new_def config_ok_def default_config_def reorder_ok_def buffer_ok_def)
  have pl: "buffered_payload ?m = [0, 9]" by (simp add: buffered_payload_def)
  have "rs = snd (assemble [] (Suc (unat (0 :: u32))) [([0, 9], Critical)]) \<and>
      last_contiguous b' = 0 + of_nat (length [([0, 9], Critical)]) \<and>
      next_seq ch' = last_contiguous b' + 1 \<and> reorder_buffer b' = []"
    using resume_gap_resends [OF inv _ _ _ _ a _ _ b] pl
    by (simp add: channel_new_def resume_gap_def word_less_nat_alt)
  then show ?thesis using a b by simp
qed


section \<open>Numbers ahead of the sender\<close>

lemma max_u32: "(0xFFFFFFFF :: u32) = - 1"
  by (simp add: word_unat_eq_iff unsigned_minus_1_eq_mask mask_eq_exp_minus_1)

text \<open>
  A peer that is ahead (the sender restarted): for any position but the last of the range, the
  sender continues right after the peer's position, the next message is accepted and delivered by a
  peer at that position, and the sender accepts the peer's numbering from 1.
\<close>

theorem resume_ahead_continues:
  assumes "next_seq ch \<le> la" and "la \<noteq> 0xFFFFFFFF" and "length pl \<le> max_frame_payload (cfg ch)"
    and "max_frame_payload (cfg ch) + 1 < 2 ^ 32"
    and "handle_resume crc clk la ch = (ch', out)"
    and "send crc clk' pl pri ch' = Some (ch'', [w])"
    and "last_contiguous b = la" and "reorder_buffer b = []"
  shows "out = [] \<and> (\<exists>b'. receive crc clk'' w b = (b', [\<lparr>rm_payload = pl, rm_seq = la + 1, rm_priority = pri\<rparr>], [])) \<and>
    last_contiguous ch' = 0 \<and> snd (receive_data 1 pri' (0x00 # pl') ch') = [\<lparr>rm_payload = pl', rm_seq = 1, rm_priority = pri'\<rparr>]"
proof -
  have ch': "out = []" "ch' = ch\<lparr>last_ack_received := la, next_seq := la + 1, send_buffer := [], last_contiguous := 0,
         reorder_buffer := []\<rparr>"
    using assms(1,5) by (simp_all add: handle_resume_ahead)
  then have w: "w = encode_data crc (la + 1) (clk' 0) pri (0x00 # pl)"
    using assms(3,6) by (auto simp: send_def frame_payloads_def send_one_def Let_def)
  have gt: "\<not> la + 1 \<le> la"
  proof -
    have "la \<noteq> - 1" using assms(2) unfolding max_u32 .
    moreover have "unat la < 2 ^ LENGTH(32)" by (rule unsigned_less)
    ultimately have "unat la < 2 ^ 32 - 1" by (simp add: word_unat_eq_iff unsigned_minus_1_eq_mask mask_eq_exp_minus_1)
    then have "unat (la + 1) = unat la + 1" by (intro unat_succ_u32) simp
    then show ?thesis by (simp add: word_le_nat_alt)
  qed
  let ?b = "b\<lparr>ack_pending := True, last_contiguous := la + 1\<rparr>"
  have d: "drain ?b = (?b, [])" by (rule drain_None) (simp add: assms(8))
  have "receive crc clk'' w b = (?b, [\<lparr>rm_payload = pl, rm_seq = la + 1, rm_priority = pri\<rparr>], [])"
    using w assms(3,4,7) gt d by (simp add: receive_def receive_data_def)
  moreover have "snd (receive_data 1 pri' (0x00 # pl') ch') = [\<lparr>rm_payload = pl', rm_seq = 1, rm_priority = pri'\<rparr>]"
  proof -
    have "drain (ch'\<lparr>ack_pending := True, last_contiguous := 1\<rparr>) = (ch'\<lparr>ack_pending := True, last_contiguous := 1\<rparr>, [])"
      by (rule drain_None) (simp add: ch'(2))
    then show ?thesis by (simp add: receive_data_def ch'(2))
  qed
  ultimately show ?thesis using ch' by auto
qed

theorem resume_ahead_continues_witness:
  "\<exists>ch'' w b'. send (\<lambda>_. 5) (\<lambda>_. 7) [1] Critical (fst (handle_resume (\<lambda>_. 5) (\<lambda>_. 0) 3217 (channel_new default_config ())))
       = Some (ch'', [w]) \<and>
     receive (\<lambda>_. 5) (\<lambda>_. 0) w ((channel_new default_config ())\<lparr>last_contiguous := 3217\<rparr>)
       = (b', [\<lparr>rm_payload = [1], rm_seq = 3218, rm_priority = Critical\<rparr>], [])"
proof -
  obtain ch' out where h: "handle_resume (\<lambda>_. 5) (\<lambda>_. 0) 3217 (channel_new default_config ()) = (ch', out)" by fastforce
  have "cfg ch' = default_config"
    using h by (simp add: handle_resume_ahead channel_new_def word_le_nat_alt) (auto)
  then obtain ch'' w where s: "send (\<lambda>_. 5) (\<lambda>_. 7) [1] Critical ch' = Some (ch'', [w])"
    by (auto simp: send_def frame_payloads_def default_config_def send_one_def Let_def)
  have "\<exists>b'. receive (\<lambda>_. 5) (\<lambda>_. 0) w ((channel_new default_config ())\<lparr>last_contiguous := 3217\<rparr>)
      = (b', [\<lparr>rm_payload = [1], rm_seq = 3217 + 1, rm_priority = Critical\<rparr>], [])"
    using resume_ahead_continues [OF _ _ _ _ h s, of "(channel_new default_config ())\<lparr>last_contiguous := 3217\<rparr>" "\<lambda>_. 0" Critical "[]"]
    by (simp add: channel_new_def default_config_def word_le_nat_alt)
  then show ?thesis using h s by auto
qed

text \<open>
  At the last position of the range the renumbering wraps to the reserved number 0: the next
  frame the sender writes is one that every receiver, whatever its state, discards as a duplicate.
\<close>

theorem resume_at_max_is_discarded:
  assumes "handle_resume crc clk 0xFFFFFFFF ch = (ch', out)"
    and "length pl \<le> max_frame_payload (cfg ch)" and "max_frame_payload (cfg ch) + 1 < 2 ^ 32"
    and "send crc clk' pl pri ch' = Some (ch'', [w])"
  shows "next_seq ch' = 0 \<and> receive crc clk'' w b = (b\<lparr>ack_pending := True\<rparr>, [], [])"
proof -
  have "next_seq ch \<le> 0xFFFFFFFF" unfolding max_u32 by simp
  then have ch': "next_seq ch' = 0" "cfg ch' = cfg ch"
    using assms(1) by (auto simp: handle_resume_ahead)
  then have "w = encode_data crc 0 (clk' 0) pri (0x00 # pl)"
    using assms(2,4) by (auto simp: send_def frame_payloads_def send_one_def Let_def)
  then show ?thesis using assms(2,3) ch' by (simp add: receive_def receive_data_def)
qed

theorem resume_at_max_is_discarded_witness:
  "\<exists>ch'' w. send (\<lambda>_. 5) (\<lambda>_. 7) [1] Critical (fst (handle_resume (\<lambda>_. 5) (\<lambda>_. 0) 0xFFFFFFFF (channel_new default_config ())))
       = Some (ch'', [w]) \<and>
     receive (\<lambda>_. 5) (\<lambda>_. 0) w (channel_new default_config ()) = ((channel_new default_config ())\<lparr>ack_pending := True\<rparr>, [], [])"
proof -
  obtain ch' out where h: "handle_resume (\<lambda>_. 5) (\<lambda>_. 0) 0xFFFFFFFF (channel_new default_config ()) = (ch', out)" by fastforce
  have "cfg ch' = default_config"
    using h by (simp add: handle_resume_ahead channel_new_def word_le_nat_alt) (auto)
  then obtain ch'' w where s: "send (\<lambda>_. 5) (\<lambda>_. 7) [1] Critical ch' = Some (ch'', [w])"
    by (auto simp: send_def frame_payloads_def default_config_def send_one_def Let_def)
  have "receive (\<lambda>_. 5) (\<lambda>_. 0) w (channel_new default_config ()) = ((channel_new default_config ())\<lparr>ack_pending := True\<rparr>, [], [])"
    by (rule conjunct2 [OF resume_at_max_is_discarded [OF h _ _ s]])
       (simp_all add: channel_new_def default_config_def)
  then show ?thesis using h s by auto
qed


section \<open>What the gap branch loses\<close>

text \<open>The inbound counter after the gap branch is the peer's position in the outbound numbering.\<close>

lemma send_framed_keeps:
  "send_framed crc clk i ps ch = (ch', out) \<Longrightarrow>
     last_contiguous ch' = last_contiguous ch \<and> reorder_buffer ch' = reorder_buffer ch \<and>
     chunk_assembly ch' = chunk_assembly ch \<and> last_ack_received ch' = last_ack_received ch"
proof (induction crc clk i ps ch arbitrary: ch' out rule: send_framed.induct)
  case (2 crc clk i pl pri ps ch)
  obtain ch1 out1 where s1: "send_one crc (clk i) pl pri ch = (ch1, out1)" by fastforce
  obtain ch2 out2 where s2: "send_framed crc clk (Suc i) ps ch1 = (ch2, out2)" by fastforce
  have "last_contiguous ch1 = last_contiguous ch \<and> reorder_buffer ch1 = reorder_buffer ch \<and>
     chunk_assembly ch1 = chunk_assembly ch \<and> last_ack_received ch1 = last_ack_received ch"
    using s1 by (auto simp: send_one_def Let_def)
  with "2.IH" [OF s1 [symmetric] refl s2] "2.prems" s1 s2 show ?case by simp
qed simp

text \<open>
  The gap branch overwrites the inbound position with the peer's position in the other
  direction: whatever this end had received before, a frame of the peer with a number up to \<open>la\<close> is
  afterwards discarded as a duplicate, even when it was the very next one this end was waiting for.
\<close>

theorem resume_gap_discards_inbound:
  assumes "la < next_seq ch" and "resume_gap la ch" and "handle_resume crc clk la ch = (ch', out)"
  shows "last_contiguous ch' = la \<and> (\<forall>sq pri pl. sq \<le> la \<longrightarrow> snd (receive_data sq pri pl ch') = [])"
proof -
  let ?c = "ch\<lparr>last_ack_received := la, next_seq := la + 1, last_contiguous := la, send_buffer := [],
              reorder_buffer := []\<rparr>"
  let ?ps = "map (\<lambda>m. (buffered_payload m, bm_priority m)) (filter (\<lambda>m. bm_priority m = Critical) (send_buffer ch))"
  obtain ch1 out1 where sf: "send_framed crc clk 0 ?ps ?c = (ch1, out1)" by fastforce
  have "last_contiguous ch' = la"
    using handle_resume_gap [OF assms(1,2) sf] assms(3) send_framed_keeps [OF sf] by auto
  then show ?thesis by (simp add: receive_data_def)
qed

theorem resume_gap_discards_inbound_witness:
  "\<exists>ch' out.
     handle_resume (\<lambda>_. 5) (\<lambda>_. 0) 9
       ((channel_new default_config ())\<lparr>next_seq := 20, last_contiguous := 3, send_buffer :=
          [\<lparr>bm_seq = 15, bm_priority = Critical, bm_encoded = encode_data (\<lambda>_. 5) 15 7 Critical [0, 9]\<rparr>]\<rparr>) = (ch', out) \<and>
     snd (receive_data 4 Critical [0, 1] ch') = []"
proof -
  let ?ch = "(channel_new default_config ())\<lparr>next_seq := 20, last_contiguous := 3, send_buffer :=
          [\<lparr>bm_seq = 15, bm_priority = Critical, bm_encoded = encode_data (\<lambda>_. 5) 15 7 Critical [0, 9]\<rparr>]\<rparr>"
  obtain ch' out where h: "handle_resume (\<lambda>_. 5) (\<lambda>_. 0) 9 ?ch = (ch', out)" by fastforce
  have "last_contiguous ch' = 9 \<and> (\<forall>sq pri pl. sq \<le> 9 \<longrightarrow> snd (receive_data sq pri pl ch') = [])"
    by (rule resume_gap_discards_inbound [OF _ _ h])
       (simp_all add: resume_gap_def word_less_nat_alt)
  then have "snd (receive_data 4 Critical [0, 1] ch') = []" by (simp add: word_le_nat_alt)
  then show ?thesis using h by blast
qed

text \<open>
  A receiver keeps its reorder buffer over a reconnection, so a renumbered frame can meet an
  old one with its number: at position \<open>la\<close> with an old frame buffered at \<open>la + 2\<close>, the renumbered
  frame \<open>la + 1\<close> is delivered together with the old payload, and the renumbered frame \<open>la + 2\<close> is
  discarded as a duplicate.
\<close>

theorem renumbered_frame_meets_old_one:
  assumes "last_contiguous b = la" and "la < 0xFFFFFFFD"
    and "reorder_buffer b = [(la + 2, \<lparr>rm_payload = 0x00 # old, rm_seq = la + 2, rm_priority = p\<rparr>)]"
    and first: "receive_data (la + 1) Critical (0x00 # new1) b = (b1, ms1)"
    and second: "receive_data (la + 2) Critical (0x00 # new2) b1 = (b2, ms2)"
  shows "map rm_payload (ms1 @ ms2) = [new1, old]"
proof -
  have "la + 1 + 1 = la + 2" by simp
  have u: "unat (la + 1) = unat la + 1" "unat (la + 2) = unat la + 2"
  proof -
    have "unat la < 2 ^ 32 - 3" using assms(2) by (simp add: word_less_nat_alt)
    then show "unat (la + 1) = unat la + 1" "unat (la + 2) = unat la + 2"
      by (simp_all add: unat_word_ariths)
  qed
  then have gt: "\<not> la + 1 \<le> la" by (simp add: word_le_nat_alt)
  define c1 where "c1 = b\<lparr>ack_pending := True, last_contiguous := la + 1\<rparr>"
  define c2 where "c2 = c1\<lparr>reorder_buffer := [], last_contiguous := la + 2\<rparr>"
  have d2: "drain c2 = (c2, [])" by (rule drain_None) (simp add: c2_def)
  have "drain c1 = (c2, [\<lparr>rm_payload = old, rm_seq = la + 2, rm_priority = p\<rparr>] @ [])"
    by (rule drain_Some [OF _ _ d2])
       (simp add: c1_def assms(3) add.assoc, simp add: c1_def c2_def assms(3) map_remove_def add.assoc)
  then have "b1 = c2" "map rm_payload ms1 = [new1, old]"
    using first gt assms(1) by (simp_all add: receive_data_def c1_def) auto
  moreover from this(1) have "ms2 = []" using second by (simp add: receive_data_def c2_def)
  ultimately show ?thesis by simp
qed

theorem renumbered_frame_meets_old_one_witness:
  "\<exists>b1 ms1 b2 ms2.
     receive_data (5 + 1) Critical [0, 1] ((channel_new default_config ())\<lparr>last_contiguous := 5, reorder_buffer :=
         [(5 + 2, \<lparr>rm_payload = [0, 7], rm_seq = 5 + 2, rm_priority = BestEffort\<rparr>)]\<rparr>) = (b1, ms1) \<and>
     receive_data (5 + 2) Critical [0, 2] b1 = (b2, ms2) \<and> map rm_payload (ms1 @ ms2) = [[1], [7]]"
proof -
  let ?b = "(channel_new default_config ())\<lparr>last_contiguous := 5, reorder_buffer :=
         [(5 + 2, \<lparr>rm_payload = [0, 7], rm_seq = 5 + 2, rm_priority = BestEffort\<rparr>)]\<rparr>"
  obtain b1 ms1 where 1: "receive_data (5 + 1) Critical [0, 1] ?b = (b1, ms1)" by fastforce
  obtain b2 ms2 where 2: "receive_data (5 + 2) Critical [0, 2] b1 = (b2, ms2)" by fastforce
  have "map rm_payload (ms1 @ ms2) = [[1], [7]]"
    by (rule renumbered_frame_meets_old_one [OF _ _ _ 1 2]) (simp_all add: word_less_nat_alt)
  with 1 2 show ?thesis by (intro exI conjI)
qed


section \<open>The advertised window\<close>

text \<open>
  A tick acknowledges the contiguous position once, if data arrived since the last tick, with
  the free space of the reorder buffer as the window; when more frames are buffered than the limit
  (nothing bounds the reorder buffer) the \<open>usize\<close> subtraction wraps and the window is advertised as if
  it were nearly the whole 16-bit range.
\<close>

theorem tick_acknowledges:
  assumes "max_send_buffer (cfg ch) < 2 ^ 16" and "length (reorder_buffer ch) < 2 ^ 16"
    and "tick ch = (ch', out)"
  shows "\<not> ack_pending ch' \<and> tick ch' = (ch', []) \<and>
    (if ack_pending ch then
       \<exists>w. out = [encode_ack (last_contiguous ch) w] \<and>
         unat w = (if length (reorder_buffer ch) \<le> max_send_buffer (cfg ch)
                   then max_send_buffer (cfg ch) - length (reorder_buffer ch)
                   else 2 ^ 16 + max_send_buffer (cfg ch) - length (reorder_buffer ch))
     else out = [])"
proof -
  let ?m = "max_send_buffer (cfg ch)" and ?n = "length (reorder_buffer ch)"
  have "unat (tick_window ch) = (if ?n \<le> ?m then ?m - ?n else 2 ^ 16 + ?m - ?n)"
  proof (cases "?n \<le> ?m")
    case True
    then have "(of_nat ?m - of_nat ?n :: u64) = of_nat (?m - ?n)" by (simp add: of_nat_diff)
    then have "unat (of_nat ?m - of_nat ?n :: u64) = ?m - ?n"
      using assms(1) by (simp only: unat_of_nat) simp
    with True assms(1) show ?thesis
      by (simp add: tick_window_def unsigned_ucast_eq take_bit_eq_mod unat_of_nat)
  next
    case False
    have "(of_nat ?m - of_nat ?n :: u64) = of_nat (2 ^ 64 + ?m - ?n)"
      using assms(2) by (subst of_nat_diff) simp_all
    then have "unat (of_nat ?m - of_nat ?n :: u64) = (2 ^ 64 + ?m - ?n) mod 2 ^ 64"
      by (simp only: unat_of_nat) simp
    then have "unat (tick_window ch) = (2 ^ 64 + ?m - ?n) mod 2 ^ 64 mod 2 ^ 16"
      by (simp add: tick_window_def unsigned_ucast_eq take_bit_eq_mod)
    also have "\<dots> = (2 ^ 64 + ?m - ?n) mod 2 ^ 16"
      by (simp add: mod_mod_cancel)
    also have "2 ^ 64 + ?m - ?n = (2 ^ 16 + ?m - ?n) + (2 ^ 48 - 1) * 2 ^ 16"
      using assms(2) by simp
    also have "((2 ^ 16 + ?m - ?n) + (2 ^ 48 - 1) * 2 ^ 16) mod 2 ^ 16 = 2 ^ 16 + ?m - ?n"
      using False assms(2) by (simp only: mod_mult_self1) simp
    finally show ?thesis using False by simp
  qed
  then show ?thesis using assms(3) by (auto simp: tick_def split: if_splits)
qed

theorem tick_acknowledges_witness:
  "\<exists>w. snd (tick ((channel_new (default_config\<lparr>max_send_buffer := 1\<rparr>) ())
      \<lparr>ack_pending := True, reorder_buffer := map (\<lambda>n. (n, \<lparr>rm_payload = [], rm_seq = n, rm_priority = Critical\<rparr>)) [3, 4]\<rparr>))
     = [encode_ack 0 w] \<and> unat w = 65535"
proof -
  let ?ch = "(channel_new (default_config\<lparr>max_send_buffer := 1\<rparr>) ())
      \<lparr>ack_pending := True, reorder_buffer := map (\<lambda>n. (n, \<lparr>rm_payload = [], rm_seq = n, rm_priority = Critical\<rparr>)) [3, 4]\<rparr>"
  obtain ch' out where t: "tick ?ch = (ch', out)" by fastforce
  show ?thesis
    using tick_acknowledges [OF _ _ t] t by (simp add: channel_new_def default_config_def)
qed

end
