(* ===== verification/Multi.thy ===== *)
theory Multi
  imports Channel_Send
begin

text \<open>
  \<open>src/crates/b3-reliable/src/multi.rs\<close>: one reliable channel over several named transports. A sink's
  send closure is a handle; an operation returns the pairs of a handle and the bytes passed to it, in
  order. The closure inside the channel reads the shared list of sinks when it is called, so what the
  channel writes goes to the first sink of the list at that moment.
\<close>

section \<open>State and operations\<close>

record 'h transport_sink =
  sink_name :: string
  sink_priority :: u8
  send_fn :: 'h

record 'h multi_transport =
  sinks :: "'h transport_sink list"
  reliable :: "unit reliable_channel"

definition multi_new :: "config \<Rightarrow> 'h multi_transport" where
  "multi_new c = \<lparr>sinks = [], reliable = channel_new c ()\<rparr>"

definition route :: "'h transport_sink list \<Rightarrow> bytes list \<Rightarrow> ('h \<times> bytes) list" where
  "route ss out = (case ss of [] \<Rightarrow> [] | s # _ \<Rightarrow> map (\<lambda>w. (send_fn s, w)) out)"

definition multi_set_session_id :: "u64 \<Rightarrow> 'h multi_transport \<Rightarrow> 'h multi_transport" where
  "multi_set_session_id i m = m\<lparr>reliable := set_session_id i (reliable m)\<rparr>"

definition insert_sink :: "string \<Rightarrow> u8 \<Rightarrow> 'h \<Rightarrow> 'h transport_sink list \<Rightarrow> 'h transport_sink list" where
  "insert_sink name pri h ss =
     sort_key sink_priority
       (filter (\<lambda>s. sink_name s \<noteq> name) ss @ [\<lparr>sink_name = name, sink_priority = pri, send_fn = h\<rparr>])"

definition delete_sink :: "string \<Rightarrow> 'h transport_sink list \<Rightarrow> 'h transport_sink list" where
  "delete_sink name ss = filter (\<lambda>s. sink_name s \<noteq> name) ss"

definition add_transport ::
  "string \<Rightarrow> u8 \<Rightarrow> 'h \<Rightarrow> 'h multi_transport \<Rightarrow> 'h multi_transport \<times> ('h \<times> bytes) list" where
  "add_transport name pri h m =
     (let m' = m\<lparr>sinks := insert_sink name pri h (sinks m)\<rparr>
      in (m', route (sinks m') (flush_unacked (reliable m'))))"

definition remove_transport ::
  "string \<Rightarrow> 'h multi_transport \<Rightarrow> 'h multi_transport \<times> ('h \<times> bytes) list" where
  "remove_transport name m =
     (let m' = m\<lparr>sinks := delete_sink name (sinks m)\<rparr>
      in (m', route (sinks m') (flush_unacked (reliable m'))))"

definition multi_send ::
  "(bytes \<Rightarrow> u32) \<Rightarrow> (nat \<Rightarrow> u32) \<Rightarrow> bytes \<Rightarrow> priority \<Rightarrow> 'h multi_transport
     \<Rightarrow> ('h multi_transport \<times> ('h \<times> bytes) list) option" where
  "multi_send crc clk pl pri m =
     (case send crc clk pl pri (reliable m) of
        None \<Rightarrow> None
      | Some (ch, out) \<Rightarrow> Some (m\<lparr>reliable := ch\<rparr>, route (sinks m) out))"

definition multi_receive ::
  "(bytes \<Rightarrow> u32) \<Rightarrow> (nat \<Rightarrow> u32) \<Rightarrow> bytes \<Rightarrow> 'h multi_transport
     \<Rightarrow> 'h multi_transport \<times> received_message list \<times> ('h \<times> bytes) list" where
  "multi_receive crc clk data m =
     (let (ch, ms, out) = receive crc clk data (reliable m)
      in (m\<lparr>reliable := ch\<rparr>, ms, route (sinks m) out))"

definition multi_tick :: "'h multi_transport \<Rightarrow> 'h multi_transport \<times> ('h \<times> bytes) list" where
  "multi_tick m = (let (ch, out) = tick (reliable m) in (m\<lparr>reliable := ch\<rparr>, route (sinks m) out))"

definition sink_count :: "'h multi_transport \<Rightarrow> nat" where
  "sink_count m = length (sinks m)"

definition sink_names :: "'h multi_transport \<Rightarrow> string list" where
  "sink_names m = map sink_name (sinks m)"

definition has_transport :: "string \<Rightarrow> 'h multi_transport \<Rightarrow> bool" where
  "has_transport name m \<longleftrightarrow> list_ex (\<lambda>s. sink_name s = name) (sinks m)"

definition keepalive_all :: "'h multi_transport \<Rightarrow> ('h \<times> bytes) list" where
  "keepalive_all m =
     (let ack = encode_ack (last_contiguous_received (reliable m)) 0
      in map (\<lambda>s. (send_fn s, ack)) (sinks m))"

definition multi_send_resume :: "'h multi_transport \<Rightarrow> ('h \<times> bytes) list" where
  "multi_send_resume m = route (sinks m) (send_resume (reliable m))"

definition multi_reset :: "'h multi_transport \<Rightarrow> 'h multi_transport" where
  "multi_reset m = m\<lparr>reliable := channel_reset (reliable m)\<rparr>"

definition active_transport :: "'h multi_transport \<Rightarrow> string option" where
  "active_transport m = (case sinks m of [] \<Rightarrow> None | s # _ \<Rightarrow> Some (sink_name s))"

definition transport_names :: "'h multi_transport \<Rightarrow> (string \<times> u8) list" where
  "transport_names m = map (\<lambda>s. (sink_name s, sink_priority s)) (sinks m)"

definition multi_unacked_count :: "'h multi_transport \<Rightarrow> nat" where
  "multi_unacked_count m = unacked_count (reliable m)"

definition multi_reorder_count :: "'h multi_transport \<Rightarrow> nat" where
  "multi_reorder_count m = reorder_count (reliable m)"

definition multi_last_contiguous :: "'h multi_transport \<Rightarrow> u32" where
  "multi_last_contiguous m = last_contiguous_received (reliable m)"


section \<open>The table of sinks\<close>

text \<open>Sorted by priority, one sink per name; as a map from names to priorities and handles.\<close>

definition sinks_ok :: "'h transport_sink list \<Rightarrow> bool" where
  "sinks_ok ss \<longleftrightarrow> sorted (map sink_priority ss) \<and> distinct (map sink_name ss)"

definition sink_map :: "'h transport_sink list \<Rightarrow> string \<Rightarrow> (u8 \<times> 'h) option" where
  "sink_map ss = map_of (map (\<lambda>s. (sink_name s, (sink_priority s, send_fn s))) ss)"

lemma sinks_ok_Nil [simp]: "sinks_ok []"
  by (simp add: sinks_ok_def)

lemma sinks_ok_delete: "sinks_ok ss \<Longrightarrow> sinks_ok (delete_sink name ss)"
  by (simp add: sinks_ok_def delete_sink_def sorted_filter distinct_map_filter)

lemma sinks_ok_insert: "sinks_ok ss \<Longrightarrow> sinks_ok (insert_sink name pri h ss)"
proof -
  assume "sinks_ok ss"
  then have "distinct (map sink_name (filter (\<lambda>s. sink_name s \<noteq> name) ss @
      [\<lparr>sink_name = name, sink_priority = pri, send_fn = h\<rparr>]))"
    by (auto simp: sinks_ok_def distinct_map_filter)
  then show ?thesis
    by (simp add: sinks_ok_def insert_sink_def distinct_map)
qed

lemma sink_map_Some:
  assumes "sinks_ok ss"
  shows "sink_map ss n = Some (p, h) \<longleftrightarrow> \<lparr>sink_name = n, sink_priority = p, send_fn = h\<rparr> \<in> set ss"
proof -
  have "distinct (map fst (map (\<lambda>s. (sink_name s, (sink_priority s, send_fn s))) ss))"
    using assms by (simp add: sinks_ok_def comp_def)
  then have "sink_map ss n = Some (p, h) \<longleftrightarrow> (\<exists>s \<in> set ss. n = sink_name s \<and> p = sink_priority s \<and> h = send_fn s)"
    by (simp add: sink_map_def map_of_eq_Some_iff image_iff)
  also have "\<dots> \<longleftrightarrow> \<lparr>sink_name = n, sink_priority = p, send_fn = h\<rparr> \<in> set ss"
    by (metis transport_sink.select_convs transport_sink.surjective old.unit.exhaust)
  finally show ?thesis .
qed

lemma sink_map_ext:
  assumes "sinks_ok ss" and "\<And>n p h. m n = Some (p, h) \<longleftrightarrow> \<lparr>sink_name = n, sink_priority = p, send_fn = h\<rparr> \<in> set ss"
  shows "sink_map ss = m"
proof
  fix n
  have "sink_map ss n = Some x \<longleftrightarrow> m n = Some x" for x
    using assms(2) sink_map_Some [OF assms(1)] by (cases x) simp
  then show "sink_map ss n = m n" by (metis option.exhaust)
qed

lemma sink_map_insert: "sinks_ok ss \<Longrightarrow> sink_map (insert_sink name pri h ss) = (sink_map ss)(name \<mapsto> (pri, h))"
  by (rule sink_map_ext [OF sinks_ok_insert]) (auto simp: insert_sink_def sink_map_Some)

lemma sink_map_delete: "sinks_ok ss \<Longrightarrow> sink_map (delete_sink name ss) = (sink_map ss)(name := None)"
  by (rule sink_map_ext [OF sinks_ok_delete]) (auto simp: delete_sink_def sink_map_Some)

interpretation sink_table: registry sink_map "\<lambda>n (p, h). insert_sink n p h" delete_sink sinks_ok
  by unfold_locales (auto simp: sink_map_insert sink_map_delete sinks_ok_insert sinks_ok_delete)


section \<open>Failover\<close>

lemma route_best:
  "ss \<noteq> [] \<Longrightarrow> route ss out = map (\<lambda>w. (send_fn (hd ss), w)) out"
  by (cases ss) (simp_all add: route_def)

text \<open>The first sink is a best one, and the one added last among equals comes last.\<close>

lemma sinks_ok_best: "sinks_ok ss \<Longrightarrow> s \<in> set ss \<Longrightarrow> sink_priority (hd ss) \<le> sink_priority s"
  by (cases ss) (auto simp: sinks_ok_def)

text \<open>
  Adding a transport: the table gains the name (replacing a sink of that name) and stays sorted
  with one sink per name; everything unacknowledged and Critical is written again, in order, to the
  best transport, and the reliable channel itself is unchanged, so no number is skipped or reused.
\<close>

theorem add_transport_flushes_to_best:
  assumes "sinks_ok (sinks m)" and "add_transport name pri h m = (m', out)"
  shows "sinks_ok (sinks m') \<and> sink_map (sinks m') = (sink_map (sinks m))(name \<mapsto> (pri, h)) \<and>
    reliable m' = reliable m \<and>
    (\<exists>best. active_transport m' = Some (sink_name best) \<and> best \<in> set (sinks m') \<and>
       (\<forall>s \<in> set (sinks m'). sink_priority best \<le> sink_priority s) \<and>
       out = map (\<lambda>w. (send_fn best, w)) (flush_unacked (reliable m)))"
proof -
  have m': "sinks m' = insert_sink name pri h (sinks m)" "reliable m' = reliable m"
    and out: "out = route (sinks m') (flush_unacked (reliable m'))"
    using assms(2) by (auto simp: add_transport_def Let_def)
  have ok: "sinks_ok (sinks m')" using m'(1) sinks_ok_insert [OF assms(1)] by simp
  have "length (sinks m') \<noteq> 0" using m'(1) by (simp add: insert_sink_def)
  then have ne: "sinks m' \<noteq> []" by simp
  have "active_transport m' = Some (sink_name (hd (sinks m')))" "hd (sinks m') \<in> set (sinks m')"
    using ne by (cases "sinks m'"; simp add: active_transport_def)+
  then show ?thesis
    using ok m' sink_table.find_add [OF assms(1), of name "(pri, h)"] out route_best [OF ne] sinks_ok_best [OF ok]
    by auto
qed

theorem add_transport_flushes_to_best_witness:
  "active_transport (fst (add_transport ''rtc'' 0 (7 :: nat) (fst (add_transport ''ws'' 1 8 (multi_new default_config)))))
     = Some ''rtc''"
proof -
  let ?m1 = "fst (add_transport ''ws'' 1 8 (multi_new default_config))"
  have ok: "sinks_ok (sinks ?m1)"
    by (simp add: add_transport_def multi_new_def Let_def sinks_ok_insert)
  obtain m2 out where m2: "add_transport ''rtc'' 0 (7 :: nat) ?m1 = (m2, out)" by fastforce
  from add_transport_flushes_to_best [OF ok m2] obtain best where
    b: "active_transport m2 = Some (sink_name best)" "best \<in> set (sinks m2)"
    "\<forall>s \<in> set (sinks m2). sink_priority best \<le> sink_priority s" by blast
  have "sinks m2 = [\<lparr>sink_name = ''rtc'', sink_priority = 0, send_fn = 7\<rparr>,
      \<lparr>sink_name = ''ws'', sink_priority = 1, send_fn = 8\<rparr>]"
    using m2 by (auto simp: add_transport_def insert_sink_def multi_new_def)
  with b show ?thesis using m2 by auto
qed

text \<open>
  Removing a transport: the name is gone, the other sinks stay, and everything unacknowledged
  and Critical is written again to the best remaining transport, or nowhere if none is left; it then
  stays in the send buffer.
\<close>

theorem remove_transport_flushes_to_rest:
  assumes "sinks_ok (sinks m)" and "remove_transport name m = (m', out)"
  shows "\<not> has_transport name m' \<and> sink_map (sinks m') = (sink_map (sinks m))(name := None) \<and>
    sinks_ok (sinks m') \<and> reliable m' = reliable m \<and>
    (if sinks m' = [] then out = []
     else out = map (\<lambda>w. (send_fn (hd (sinks m')), w)) (flush_unacked (reliable m)) \<and>
          (\<forall>s \<in> set (sinks m'). sink_priority (hd (sinks m')) \<le> sink_priority s))"
proof -
  have m': "sinks m' = delete_sink name (sinks m)" "reliable m' = reliable m"
    and out: "out = route (sinks m') (flush_unacked (reliable m'))"
    using assms(2) by (auto simp: remove_transport_def Let_def)
  have ok: "sinks_ok (sinks m')" using m'(1) sinks_ok_delete [OF assms(1)] by simp
  have "\<not> has_transport name m'"
    using m'(1) by (auto simp: has_transport_def delete_sink_def list_ex_iff)
  then show ?thesis
    using ok m' sink_table.find_del [OF assms(1), of name] out route_best [of "sinks m'"] sinks_ok_best [OF ok]
    by (auto simp: route_def)
qed

theorem remove_transport_flushes_to_rest_witness:
  "\<not> has_transport ''ws'' (fst (remove_transport ''ws'' (fst (add_transport ''ws'' 1 (8 :: nat) (multi_new default_config)))))"
proof -
  let ?m1 = "fst (add_transport ''ws'' 1 (8 :: nat) (multi_new default_config))"
  have ok: "sinks_ok (sinks ?m1)"
    by (simp add: add_transport_def multi_new_def Let_def sinks_ok_insert)
  obtain m2 out where m2: "remove_transport ''ws'' ?m1 = (m2, out)" by fastforce
  from remove_transport_flushes_to_rest [OF ok m2] show ?thesis by (simp add: m2)
qed


section \<open>Any sequence of operations\<close>

datatype 'h multi_event =
    M_Send bytes priority "nat \<Rightarrow> u32"
  | M_Receive bytes "nat \<Rightarrow> u32"
  | M_Tick
  | M_Keepalive
  | M_Send_Resume
  | M_Reset
  | M_Add string u8 'h
  | M_Remove string
  | M_Set_Session_Id u64

fun multi_apply ::
  "(bytes \<Rightarrow> u32) \<Rightarrow> 'h multi_event \<Rightarrow> 'h multi_transport
     \<Rightarrow> ('h multi_transport \<times> received_message list \<times> ('h \<times> bytes) list) option" where
  "multi_apply crc (M_Send pl pri clk) m =
     (case multi_send crc clk pl pri m of None \<Rightarrow> None | Some (m', out) \<Rightarrow> Some (m', [], out))"
| "multi_apply crc (M_Receive data clk) m = Some (multi_receive crc clk data m)"
| "multi_apply crc M_Tick m = (let (m', out) = multi_tick m in Some (m', [], out))"
| "multi_apply crc M_Keepalive m = Some (m, [], keepalive_all m)"
| "multi_apply crc M_Send_Resume m = Some (m, [], multi_send_resume m)"
| "multi_apply crc M_Reset m = Some (multi_reset m, [], [])"
| "multi_apply crc (M_Add n p h) m = (let (m', out) = add_transport n p h m in Some (m', [], out))"
| "multi_apply crc (M_Remove n) m = (let (m', out) = remove_transport n m in Some (m', [], out))"
| "multi_apply crc (M_Set_Session_Id i) m = Some (multi_set_session_id i m, [], [])"

definition multi_step ::
  "(bytes \<Rightarrow> u32) \<Rightarrow> 'h multi_transport option \<Rightarrow> 'h multi_event \<Rightarrow> 'h multi_transport option" where
  "multi_step crc s e = Option.bind s (\<lambda>m. map_option fst (multi_apply crc e m))"

definition multi_inv :: "(bytes \<Rightarrow> u32) \<Rightarrow> 'h multi_transport \<Rightarrow> bool" where
  "multi_inv crc m \<longleftrightarrow> chan_inv crc (reliable m) \<and> sinks_ok (sinks m)"

lemma chan_inv_events:
  assumes "chan_inv crc ch"
  shows "chan_inv crc (set_session_id i ch)" and "chan_inv crc (channel_reset ch)" and "tick ch = (ch', out) \<Longrightarrow> chan_inv crc ch'"
  using assms chan_apply_inv [OF assms, of "Ev_Set_Session_Id i"] chan_apply_inv [OF assms, of Ev_Reset]
    chan_apply_inv [OF assms, of Ev_Tick] by simp_all

lemma multi_apply_inv:
  assumes "multi_inv crc m"
  shows "\<exists>m' ms out. multi_apply crc e m = Some (m', ms, out) \<and> multi_inv crc m'"
proof (cases e)
  case (M_Send pl pri clk)
  then show ?thesis
    using assms send_inv [of crc "reliable m" clk pl pri] by (auto simp: multi_inv_def multi_send_def)
next
  case (M_Receive data clk)
  then show ?thesis
    using assms receive_inv [of crc "reliable m" clk data]
    by (cases "receive crc clk data (reliable m)") (auto simp: multi_inv_def multi_receive_def)
next
  case M_Tick
  then show ?thesis
    using assms by (cases "tick (reliable m)") (auto simp: multi_inv_def multi_tick_def dest: chan_inv_events(3))
next
  case (M_Add n p h)
  then show ?thesis using assms by (auto simp: multi_inv_def add_transport_def sinks_ok_insert)
next
  case (M_Remove n)
  then show ?thesis using assms by (auto simp: multi_inv_def remove_transport_def sinks_ok_delete)
qed (use assms chan_inv_events in \<open>auto simp: multi_inv_def multi_reset_def multi_set_session_id_def\<close>)

interpretation multi_machine: machine "multi_step crc"
  "\<lambda>s. case s of None \<Rightarrow> False | Some m \<Rightarrow> multi_inv crc m" for crc
proof
  fix s :: "'a multi_transport option" and e :: "'a multi_event"
  assume "case s of None \<Rightarrow> False | Some m \<Rightarrow> multi_inv crc m"
  then obtain m where "s = Some m" "multi_inv crc m" by (cases s) auto
  then show "case multi_step crc s e of None \<Rightarrow> False | Some m \<Rightarrow> multi_inv crc m"
    using multi_apply_inv [of crc m e] by (auto simp: multi_step_def)
qed

lemma multi_inv_new: "config_ok c \<Longrightarrow> multi_inv crc (multi_new c)"
  by (simp add: multi_inv_def multi_new_def chan_inv_def channel_new_def reorder_ok_def)

text \<open>
  \<^bold>\<open>C6\<close>. A fresh multi-transport and any sequence of operations: transports hot-added and removed
  under any names, messages sent, any bytes received. No operation panics, the channel keeps its
  invariant, and the sinks stay sorted by priority with one sink per name.
\<close>

theorem multi_invariant:
  assumes "config_ok c"
  shows "\<exists>m. foldl (multi_step crc) (Some (multi_new c)) es = Some m \<and> multi_inv crc m"
proof -
  have "case foldl (multi_step crc) (Some (multi_new c)) es of None \<Rightarrow> False | Some m \<Rightarrow> multi_inv crc m"
    by (rule multi_machine.inv_run) (simp add: multi_inv_new [OF assms])
  then show ?thesis by (auto split: option.splits)
qed

theorem multi_invariant_witness:
  "\<exists>m. foldl (multi_step (\<lambda>_. 5)) (Some (multi_new default_config))
     [M_Add ''ws'' 1 (8 :: nat), M_Send [1, 2] Critical (\<lambda>_. 3), M_Add ''rtc'' 0 7, M_Remove ''ws''] = Some m \<and>
     multi_inv (\<lambda>_. 5) m"
  by (rule multi_invariant) (simp add: config_ok_def default_config_def)

end
