(* ===== verification/Session.thy ===== *)
theory Session
  imports Multi
begin

text \<open>
  \<open>src/crates/b3-reliable/src/session.rs\<close> and \<open>bridge.rs\<close>: per-client sessions, their tasks, the
  session manager, and the bridge loop that feeds a session's transport. Tasks and channels have
  names (natural numbers): spawning a task or opening a channel takes a fresh name as an argument,
  and an operation returns the names of the tasks it aborted. A session is shared by reference in the
  code; here the manager's map holds it, and an operation on a session updates it there.
\<close>

section \<open>Sessions\<close>

record 'h session =
  sess_id :: u64
  multi :: "'h multi_transport"
  sent_offset :: u64
  rtc_active :: bool
  backend_tx :: nat
  bridge_task :: "nat option"
  event_task :: "nat option"

text \<open>\<open>Session::new\<close>: the session and the receiver of its channel \<open>chan\<close>.\<close>

definition session_new :: "u64 \<Rightarrow> config \<Rightarrow> nat \<Rightarrow> 'h session \<times> nat" where
  "session_new i c chan =
     (\<lparr>sess_id = i, multi = multi_set_session_id i (multi_new c), sent_offset = 0, rtc_active = False,
       backend_tx = chan, bridge_task = None, event_task = None\<rparr>, chan)"

definition start_bridge :: "nat \<Rightarrow> 'h session \<Rightarrow> 'h session" where
  "start_bridge task s = s\<lparr>bridge_task := Some task\<rparr>"

definition opt_list :: "'a option \<Rightarrow> 'a list" where
  "opt_list x = (case x of None \<Rightarrow> [] | Some a \<Rightarrow> [a])"

definition restart_bridge :: "nat \<Rightarrow> nat \<Rightarrow> 'h session \<Rightarrow> 'h session \<times> nat list" where
  "restart_bridge task chan s = (s\<lparr>bridge_task := Some task, backend_tx := chan\<rparr>, opt_list (bridge_task s))"

definition set_event_task :: "nat \<Rightarrow> 'h session \<Rightarrow> 'h session \<times> nat list" where
  "set_event_task task s = (s\<lparr>event_task := Some task\<rparr>, opt_list (event_task s))"

definition session_destroy :: "'h session \<Rightarrow> 'h session \<times> nat list" where
  "session_destroy s =
     (s\<lparr>bridge_task := None, event_task := None\<rparr>, opt_list (bridge_task s) @ opt_list (event_task s))"


section \<open>The manager\<close>

record 'h session_manager =
  sessions :: "(u64, 'h session) rmap"
  next_session_id :: u64

definition manager_new :: "'h session_manager" where
  "manager_new = \<lparr>sessions = [], next_session_id = 1\<rparr>"

definition next_id :: "'h session_manager \<Rightarrow> 'h session_manager \<times> u64" where
  "next_id sm = (sm\<lparr>next_session_id := next_session_id sm + 1\<rparr>, next_session_id sm)"

definition create_with_id ::
  "u64 \<Rightarrow> config \<Rightarrow> nat \<Rightarrow> 'h session_manager \<Rightarrow> 'h session_manager \<times> 'h session \<times> nat" where
  "create_with_id i c chan sm =
     (let (s, rx) = session_new i c chan
      in (sm\<lparr>sessions := map_insert i s (sessions sm)\<rparr>, s, rx))"

definition create ::
  "config \<Rightarrow> nat \<Rightarrow> 'h session_manager \<Rightarrow> 'h session_manager \<times> 'h session \<times> nat" where
  "create c chan sm =
     (let (sm1, i) = next_id sm;
          (s, rx) = session_new i c chan
      in (sm1\<lparr>sessions := map_insert i s (sessions sm1)\<rparr>, s, rx))"

definition get_session :: "u64 \<Rightarrow> 'h session_manager \<Rightarrow> 'h session option" where
  "get_session i sm = map_of (sessions sm) i"

text \<open>\<open>max_by_key\<close>: the last of the values with the greatest id.\<close>

definition most_recent :: "'h session_manager \<Rightarrow> 'h session option" where
  "most_recent sm =
     foldl (\<lambda>acc s. case acc of None \<Rightarrow> Some s
        | Some b \<Rightarrow> if sess_id b \<le> sess_id s then Some s else Some b) None (map snd (sessions sm))"

definition all_sessions :: "'h session_manager \<Rightarrow> 'h session list" where
  "all_sessions sm = map snd (sessions sm)"

definition remove_session :: "u64 \<Rightarrow> 'h session_manager \<Rightarrow> 'h session_manager \<times> nat list" where
  "remove_session i sm =
     (case map_of (sessions sm) i of
        None \<Rightarrow> (sm, [])
      | Some s \<Rightarrow> (sm\<lparr>sessions := map_remove i (sessions sm)\<rparr>, snd (session_destroy s)))"

definition reconnect_or_create ::
  "u64 option \<Rightarrow> config \<Rightarrow> nat \<Rightarrow> 'h session_manager \<Rightarrow> 'h session_manager \<times> 'h session \<times> nat option" where
  "reconnect_or_create client_id c chan sm =
     (let existing = (case client_id of Some cid \<Rightarrow> get_session cid sm | None \<Rightarrow> most_recent sm)
      in case existing of
           Some s \<Rightarrow> (sm, s, None)
         | None \<Rightarrow>
             (let (sm', s, rx) =
                (case client_id of Some cid \<Rightarrow> create_with_id cid c chan sm | None \<Rightarrow> create c chan sm)
              in (sm', s, Some rx)))"

definition session_count :: "'h session_manager \<Rightarrow> nat" where
  "session_count sm = length (sessions sm)"

definition session_ids :: "'h session_manager \<Rightarrow> u64 list" where
  "session_ids sm = map fst (sessions sm)"

text \<open>A change of the shared session with id \<open>i\<close>.\<close>

definition with_session ::
  "u64 \<Rightarrow> ('h session \<Rightarrow> 'h session) \<Rightarrow> 'h session_manager \<Rightarrow> 'h session_manager" where
  "with_session i f sm =
     (case map_of (sessions sm) i of
        None \<Rightarrow> sm
      | Some s \<Rightarrow> sm\<lparr>sessions := map_insert i (f s) (sessions sm)\<rparr>)"


section \<open>The session table\<close>

definition manager_ok :: "'h session_manager \<Rightarrow> bool" where
  "manager_ok sm \<longleftrightarrow> map_wf (sessions sm) \<and> (\<forall>i s. map_of (sessions sm) i = Some s \<longrightarrow> sess_id s = i)"

lemma manager_ok_new: "manager_ok manager_new"
  by (simp add: manager_ok_def manager_new_def)

lemma create_with_id_eq:
  "create_with_id i c chan sm =
     (sm\<lparr>sessions := map_insert i (fst (session_new i c chan)) (sessions sm)\<rparr>, fst (session_new i c chan), chan)"
  by (simp add: create_with_id_def session_new_def)

lemma create_eq:
  "create c chan sm =
     (let i = next_session_id sm
      in (sm\<lparr>next_session_id := i + 1, sessions := map_insert i (fst (session_new i c chan)) (sessions sm)\<rparr>,
          fst (session_new i c chan), chan))"
  by (simp add: create_def next_id_def session_new_def Let_def)

lemma sess_id_new [simp]: "sess_id (fst (session_new i c chan)) = i"
  by (simp add: session_new_def)

lemma manager_ok_create_with_id: "manager_ok sm \<Longrightarrow> manager_ok (fst (create_with_id i c chan sm))"
  by (auto simp: manager_ok_def create_with_id_eq)

lemma manager_ok_create: "manager_ok sm \<Longrightarrow> manager_ok (fst (create c chan sm))"
  by (auto simp: manager_ok_def create_eq Let_def)

lemma manager_ok_remove: "manager_ok sm \<Longrightarrow> manager_ok (fst (remove_session i sm))"
  by (auto simp: manager_ok_def remove_session_def split: option.splits if_splits)


text \<open>\<open>most_recent\<close>: the fold keeps the greatest id seen.\<close>

lemma max_fold:
  "foldl (\<lambda>acc s. case acc of None \<Rightarrow> Some s
      | Some b \<Rightarrow> if sess_id b \<le> sess_id s then Some s else Some b) (Some b) ss = Some m \<Longrightarrow>
   m \<in> insert b (set ss) \<and> (\<forall>s \<in> insert b (set ss). sess_id s \<le> sess_id m)"
  by (induction ss arbitrary: b) (fastforce split: if_splits)+

lemma most_recent_None [simp]: "most_recent sm = None \<longleftrightarrow> sessions sm = []"
proof -
  have "foldl (\<lambda>acc s. case acc of None \<Rightarrow> Some s
      | Some b \<Rightarrow> if sess_id b \<le> sess_id s then Some s else Some b) (Some b) ss \<noteq> None" for b :: "'a session" and ss
    by (induction ss arbitrary: b) auto
  then show ?thesis by (cases "sessions sm") (auto simp: most_recent_def)
qed

lemma most_recent_max:
  assumes "manager_ok sm" and "most_recent sm = Some s"
  shows "get_session (sess_id s) sm = Some s \<and> (\<forall>i t. get_session i sm = Some t \<longrightarrow> i \<le> sess_id s)"
proof (cases "map snd (sessions sm)")
  case Nil
  with assms(2) show ?thesis by (simp add: most_recent_def)
next
  case (Cons b ss)
  with assms(2) have "s \<in> set (map snd (sessions sm)) \<and> (\<forall>t \<in> set (map snd (sessions sm)). sess_id t \<le> sess_id s)"
    using max_fold [of b ss s] by (simp add: most_recent_def)
  moreover have "map_of (sessions sm) i = Some t \<longleftrightarrow> (i, t) \<in> set (sessions sm)" for i t
    using assms(1) by (simp add: manager_ok_def map_wf_def map_of_eq_Some_iff)
  ultimately show ?thesis
    using assms(1) by (force simp: manager_ok_def get_session_def)
qed

lemma reconnect_props:
  assumes ok: "manager_ok sm" and run: "reconnect_or_create client_id c chan sm = (sm', s, rx)"
  shows "manager_ok sm' \<and> get_session (sess_id s) sm' = Some s \<and>
    (\<forall>i t. get_session i sm = Some t \<longrightarrow> get_session i sm' = Some t) \<and>
    (case rx of
       None \<Rightarrow> sm' = sm \<and> (case client_id of Some i \<Rightarrow> sess_id s = i
                 | None \<Rightarrow> \<forall>i t. get_session i sm = Some t \<longrightarrow> i \<le> sess_id s)
     | Some r \<Rightarrow> r = chan \<and> s = fst (session_new (case client_id of Some i \<Rightarrow> i | None \<Rightarrow> next_session_id sm) c chan))"
proof (cases client_id)
  case (Some cid)
  show ?thesis
  proof (cases "get_session cid sm")
    case None
    with run Some have "sm' = fst (create_with_id cid c chan sm)" "s = fst (session_new cid c chan)" "rx = Some chan"
      by (auto simp: reconnect_or_create_def create_with_id_eq)
    then show ?thesis
      using None Some manager_ok_create_with_id [OF ok, of cid c chan]
      by (auto simp: get_session_def create_with_id_eq)
  next
    case (Some t)
    with run \<open>client_id = Some cid\<close> have "sm' = sm" "s = t" "rx = None"
      by (auto simp: reconnect_or_create_def)
    then show ?thesis
      using Some \<open>client_id = Some cid\<close> ok by (auto simp: manager_ok_def get_session_def)
  qed
next
  case None
  show ?thesis
  proof (cases "most_recent sm")
    case None
    with run \<open>client_id = None\<close> have "sm' = fst (create c chan sm)"
        "s = fst (session_new (next_session_id sm) c chan)" "rx = Some chan" and "sessions sm = []"
      by (auto simp: reconnect_or_create_def create_eq Let_def)
    then show ?thesis
      using \<open>client_id = None\<close> manager_ok_create [OF ok, of c chan]
      by (auto simp: get_session_def create_eq Let_def)
  next
    case (Some t)
    with run \<open>client_id = None\<close> have "sm' = sm" "s = t" "rx = None"
      by (auto simp: reconnect_or_create_def)
    then show ?thesis
      using \<open>client_id = None\<close> ok most_recent_max [OF ok Some] by auto
  qed
qed

text \<open>
  Reconnection to a session. The manager's table stays well formed; a client that names an
  existing session, or names none while sessions exist, gets that session (the most recent one) with
  its channel and send buffer untouched and the whole table unchanged; otherwise a fresh session is
  registered under the client's id or the next free number, and no other session is replaced.
\<close>

theorem reconnect_keeps_sessions:
  assumes ok: "manager_ok sm" and run: "reconnect_or_create client_id c chan sm = (sm', s, rx)"
  shows "manager_ok sm' \<and> get_session (sess_id s) sm' = Some s \<and>
    (\<forall>i t. get_session i sm = Some t \<longrightarrow> get_session i sm' = Some t) \<and>
    (case rx of
       None \<Rightarrow> sm' = sm \<and> (case client_id of Some i \<Rightarrow> sess_id s = i
                 | None \<Rightarrow> \<forall>i t. get_session i sm = Some t \<longrightarrow> i \<le> sess_id s)
     | Some r \<Rightarrow> r = chan \<and> s = fst (session_new (case client_id of Some i \<Rightarrow> i | None \<Rightarrow> next_session_id sm) c chan))"
  by (rule reconnect_props [OF assms])

theorem reconnect_keeps_sessions_witness:
  "get_session 7 (fst (reconnect_or_create (Some 9) default_config 4
     (fst (create_with_id 7 default_config 3 (manager_new :: nat session_manager)))))
   = Some (fst (session_new 7 default_config 3))"
proof -
  let ?sm = "fst (create_with_id 7 default_config 3 (manager_new :: nat session_manager))"
  obtain sm' s rx where r: "reconnect_or_create (Some 9) default_config 4 ?sm = (sm', s, rx)"
    by (cases "reconnect_or_create (Some 9) default_config 4 ?sm")
  have "get_session 7 ?sm = Some (fst (session_new 7 default_config 3))"
    by (simp add: get_session_def create_with_id_eq)
  then show ?thesis
    using reconnect_keeps_sessions [OF manager_ok_create_with_id [OF manager_ok_new] r] by (simp add: r)
qed


section \<open>Tasks\<close>

text \<open>
  The tasks of one session against the tasks that run. Connections of one client share the session and
  call its operations in any order: a connection that created the session starts its bridge, but a
  second one may have restarted it meanwhile (\<open>ws_handler\<close> of the daemon awaits between the two calls).
  A task may also end by itself; its handle stays.
\<close>

datatype task_event =
    Bridge_Started nat
  | Bridge_Restarted nat nat
  | Events_Set nat
  | Destroyed
  | Task_Ended nat

fun task_step :: "task_event \<Rightarrow> 'h session \<times> nat set \<Rightarrow> 'h session \<times> nat set" where
  "task_step (Bridge_Started t) (s, run) = (start_bridge t s, insert t run)"
| "task_step (Bridge_Restarted t chan) (s, run) =
     (let (s', aborted) = restart_bridge t chan s in (s', insert t (run - set aborted)))"
| "task_step (Events_Set t) (s, run) =
     (let (s', aborted) = set_event_task t s in (s', insert t (run - set aborted)))"
| "task_step Destroyed (s, run) = (let (s', aborted) = session_destroy s in (s', run - set aborted))"
| "task_step (Task_Ended t) (s, run) = (s, run - {t})"

definition task_run :: "task_event list \<Rightarrow> 'h session \<Rightarrow> 'h session \<times> nat set" where
  "task_run es s = fold task_step es (s, {})"

definition tasks_of :: "'h session \<Rightarrow> nat list" where
  "tasks_of s = opt_list (bridge_task s) @ opt_list (event_task s)"

text \<open>The tasks named by the events, and the bridges followed by a start: read off the events alone.\<close>

fun spawned :: "task_event list \<Rightarrow> nat list" where
  "spawned [] = []"
| "spawned (Bridge_Started t # es) = t # spawned es"
| "spawned (Bridge_Restarted t chan # es) = t # spawned es"
| "spawned (Events_Set t # es) = t # spawned es"
| "spawned (e # es) = spawned es"

fun overwritten :: "nat option \<Rightarrow> task_event list \<Rightarrow> nat set" where
  "overwritten b [] = {}"
| "overwritten b (Bridge_Started t # es) = set_option b \<union> overwritten (Some t) es"
| "overwritten b (Bridge_Restarted t chan # es) = overwritten (Some t) es"
| "overwritten b (Destroyed # es) = overwritten None es"
| "overwritten b (e # es) = overwritten b es"

lemma set_opt_list [simp]: "set (opt_list x) = set_option x"
  by (cases x) (simp_all add: opt_list_def)

lemma distinct_opt_list [simp]: "distinct (opt_list x)"
  by (cases x) (simp_all add: opt_list_def)

lemmas task_ops = tasks_of_def start_bridge_def restart_bridge_def set_event_task_def session_destroy_def

text \<open>
  \<open>L\<close> are the tasks whose handle is lost, \<open>E\<close> those that end by themselves at some time: a task runs
  only if it is held or lost, and such a task runs unless it ended.
\<close>

definition tasks_ok :: "nat set \<Rightarrow> nat set \<Rightarrow> 'h session \<times> nat set \<Rightarrow> bool" where
  "tasks_ok E L = (\<lambda>(s, run).
     run \<subseteq> set (tasks_of s) \<union> L \<and> (set (tasks_of s) \<union> L) - E \<subseteq> run \<and>
     set (tasks_of s) \<inter> L = {} \<and> distinct (tasks_of s))"

lemma tasks_ok_step:
  assumes "tasks_ok E L (s, run)" and "set (spawned [e]) \<inter> (set (tasks_of s) \<union> L) = {}" and "\<forall>t. e = Task_Ended t \<longrightarrow> t \<in> E"
  shows "tasks_ok E (L \<union> overwritten (bridge_task s) [e]) (task_step e (s, run)) \<and>
    set (tasks_of (fst (task_step e (s, run)))) \<subseteq> set (tasks_of s) \<union> set (spawned [e])"
  using assms by (cases e) (auto simp: tasks_ok_def task_ops)

lemma overwritten_Cons: "overwritten (bridge_task s) (e # es) =
    overwritten (bridge_task s) [e] \<union> overwritten (bridge_task (fst (task_step e (s, run)))) es"
  by (cases e) (auto simp: task_ops)

lemma overwritten_named: "overwritten b es \<subseteq> set_option b \<union> set (spawned es)"
  by (induction b es rule: overwritten.induct) auto

lemma spawned_Cons: "spawned (e # es) = spawned [e] @ spawned es"
  by (cases e) simp_all

lemma tasks_ok_run:
  assumes "tasks_ok E L (s, run)" and "distinct (spawned es)"
    and "set (spawned es) \<inter> (set (tasks_of s) \<union> L) = {}" and "\<forall>t. Task_Ended t \<in> set es \<longrightarrow> t \<in> E"
  shows "tasks_ok E (L \<union> overwritten (bridge_task s) es) (fold task_step es (s, run))"
  using assms
proof (induction es arbitrary: L s run)
  case (Cons e es)
  obtain s' run' where step: "task_step e (s, run) = (s', run')" by force
  let ?L = "L \<union> overwritten (bridge_task s) [e]"
  have ok: "tasks_ok E ?L (s', run')" and T: "set (tasks_of s') \<subseteq> set (tasks_of s) \<union> set (spawned [e])"
    using tasks_ok_step [of E L s run e] Cons.prems by (auto simp: step spawned_Cons [of e es])
  have "overwritten (bridge_task s) [e] \<subseteq> set (tasks_of s) \<union> set (spawned [e])"
    using overwritten_named [of "bridge_task s" "[e]"] by (auto simp: tasks_of_def)
  then have "set (spawned es) \<inter> (set (tasks_of s') \<union> ?L) = {}"
    using T Cons.prems(2,3) by (auto simp: spawned_Cons [of e es])
  from Cons.IH [OF ok _ this] Cons.prems(2,4)
  have "tasks_ok E (?L \<union> overwritten (bridge_task s') es) (fold task_step es (s', run'))"
    by (simp add: spawned_Cons [of e es])
  then show ?case
    by (simp add: step overwritten_Cons [of s e es run] Un_assoc)
qed simp

lemma card_tasks_of: "A \<subseteq> set (tasks_of s) \<Longrightarrow> card A \<le> 2"
proof -
  assume "A \<subseteq> set (tasks_of s)"
  then have "card A \<le> card (set (tasks_of s))" by (simp add: card_mono)
  also have "\<dots> \<le> length (tasks_of s)" by (rule card_length)
  also have "\<dots> \<le> 2" by (simp add: tasks_of_def opt_list_def split: option.splits)
  finally show ?thesis .
qed

lemma fold_snoc_destroyed: "tasks_of (fst (task_step Destroyed x)) = []"
  by (cases x) (simp add: task_ops opt_list_def)

lemma overwritten_destroyed: "overwritten b (es @ [Destroyed]) = overwritten b es"
  by (induction b es rule: overwritten.induct) simp_all

text \<open>
  \<^bold>\<open>C7\<close>. The tasks of a session. Bridges started and restarted, event consumers replaced, the session
  destroyed, tasks ending by themselves, all in any order and under fresh names: a task that runs is one
  the session holds a handle of, at most one bridge and one event consumer, or a bridge whose handle a
  later \<open>start_bridge\<close> overwrote without aborting it, before a restart or destruction. Such a bridge, as
  any task held, runs until it ends by itself: destroying the session then stops all tasks except
  the overwritten bridges that have not ended.
\<close>

theorem tasks_accounted:
  fixes s s' :: "'h session"
  assumes "distinct (spawned es)" and "task_run es (fst (session_new i c chan)) = (s, run)"
    and "task_run (es @ [Destroyed]) (fst (session_new i c chan)) = (s', run')"
  shows "run \<subseteq> set (tasks_of s) \<union> overwritten None es \<and> card (run - overwritten None es) \<le> 2 \<and>
    (\<forall>t \<in> set (tasks_of s) \<union> overwritten None es. Task_Ended t \<notin> set es \<longrightarrow> t \<in> run) \<and>
    run' \<subseteq> overwritten None es \<and>
    (\<forall>t \<in> overwritten None es. Task_Ended t \<notin> set es \<longrightarrow> t \<in> run')"
proof -
  let ?E = "{t. Task_Ended t \<in> set es}" and ?O = "overwritten None es"
  obtain s0 :: "'h session" where s0: "s0 = fst (session_new i c chan)" by simp
  have new: "bridge_task s0 = None" "tasks_of s0 = []"
    by (simp_all add: s0 session_new_def tasks_of_def opt_list_def)
  then have "tasks_ok ?E {} (s0, {})" by (simp add: tasks_ok_def)
  from tasks_ok_run [OF this, of es] assms(1,2) new
  have ok: "tasks_ok ?E ?O (s, run)" by (simp add: task_run_def s0)
  have last: "task_step Destroyed (s, run) = (s', run')"
    using assms(2,3) by (simp add: task_run_def)
  have dest: "tasks_ok ?E ?O (s', run')" "tasks_of s' = []"
    using tasks_ok_step [OF ok, of Destroyed] fold_snoc_destroyed [of "(s, run)"] unfolding last by simp_all
  have "card (run - ?O) \<le> 2" by (rule card_tasks_of [of _ s]) (use ok in \<open>auto simp: tasks_ok_def\<close>)
  then show ?thesis using ok dest by (auto simp: tasks_ok_def subset_iff)
qed

text \<open>
  Two connections of one client: the second restarts the bridge before the first one starts it. The
  bridge of the second is not aborted and survives the session.
\<close>

theorem tasks_accounted_witness:
  "6 \<in> snd (task_run [Bridge_Restarted 6 1, Bridge_Started 5, Destroyed] (fst (session_new 1 default_config 0 :: nat session \<times> nat)))"
proof -
  let ?es = "[Bridge_Restarted 6 1, Bridge_Started 5]" and ?new = "fst (session_new 1 default_config 0 :: nat session \<times> nat)"
  have "distinct (spawned ?es)" by simp
  from tasks_accounted [OF this prod.collapse [symmetric] prod.collapse [symmetric], of 1 default_config 0]
  have "\<forall>t \<in> overwritten None ?es. Task_Ended t \<notin> set ?es \<longrightarrow> t \<in> snd (task_run (?es @ [Destroyed]) ?new)"
    by blast
  then show ?thesis by simp
qed

end
