(* ===== verification/Bridge.thy ===== *)
theory Bridge
  imports Session
begin

text \<open>
  \<open>src/crates/b3-reliable/src/bridge.rs\<close>: the loop between a backend and the browser. One round of the
  loop is an event: a timer fired, or the backend channel yielded a message or was closed. The reading
  \<open>clk n\<close> is the clock of the \<open>n\<close>-th event.
\<close>

section \<open>The loop\<close>

record outbound_message =
  om_payload :: bytes
  om_priority :: priority

record bridge_counters =
  bridge_recvs :: u64
  bridge_sends :: u64

datatype bridge_event = Tick_Interval | Keepalive_Interval | Backend "outbound_message option"

record 'h bridge =
  br_multi :: "'h multi_transport"
  msg_count :: u64
  counters :: "bridge_counters option"

text \<open>The result: the state, what was written, whether the loop has ended; \<open>None\<close> for a panic.\<close>

fun backend_to_browser ::
  "(bytes \<Rightarrow> u32) \<Rightarrow> (nat \<Rightarrow> nat \<Rightarrow> u32) \<Rightarrow> nat \<Rightarrow> bridge_event list \<Rightarrow> 'h bridge
     \<Rightarrow> ('h bridge \<times> ('h \<times> bytes) list \<times> bool) option" where
  "backend_to_browser crc clk n [] b = Some (b, [], False)"
| "backend_to_browser crc clk n (Tick_Interval # es) b =
     (let (m, out) = multi_tick (br_multi b) in
      case backend_to_browser crc clk (Suc n) es (b\<lparr>br_multi := m\<rparr>) of
        None \<Rightarrow> None | Some (b', out', fin) \<Rightarrow> Some (b', out @ out', fin))"
| "backend_to_browser crc clk n (Keepalive_Interval # es) b =
     (case backend_to_browser crc clk (Suc n) es b of
        None \<Rightarrow> None | Some (b', out', fin) \<Rightarrow> Some (b', keepalive_all (br_multi b) @ out', fin))"
| "backend_to_browser crc clk n (Backend None # es) b = Some (b, [], True)"
| "backend_to_browser crc clk n (Backend (Some msg) # es) b =
     (let b1 = b\<lparr>msg_count := msg_count b + 1,
                 counters := map_option (\<lambda>c. c\<lparr>bridge_recvs := bridge_recvs c + 1\<rparr>) (counters b)\<rparr> in
      case multi_send crc (clk n) (om_payload msg) (om_priority msg) (br_multi b1) of
        None \<Rightarrow> None
      | Some (m, out) \<Rightarrow>
          (case backend_to_browser crc clk (Suc n) es
                  (b1\<lparr>br_multi := m,
                      counters := map_option (\<lambda>c. c\<lparr>bridge_sends := bridge_sends c + 1\<rparr>) (counters b1)\<rparr>) of
             None \<Rightarrow> None | Some (b', out', fin) \<Rightarrow> Some (b', out @ out', fin)))"


section \<open>What the loop forwards\<close>

text \<open>The messages before the backend channel closed.\<close>

fun forwarded :: "bridge_event list \<Rightarrow> (bytes \<times> priority) list" where
  "forwarded [] = []"
| "forwarded (Backend None # es) = []"
| "forwarded (Backend (Some m) # es) = (om_payload m, om_priority m) # forwarded es"
| "forwarded (e # es) = forwarded es"

definition is_data :: "'h \<times> bytes \<Rightarrow> bool" where
  "is_data hw \<longleftrightarrow> snd hw ! 1 = 0x01"

lemma is_data_encode [simp]:
  "is_data (h, encode_data crc sq ts pri pl)" "\<not> is_data (h, encode_ack a w)"
  by (simp_all add: is_data_def encode_data_def encode_ack_def magics Let_def)

lemma no_data_tick: "multi_tick m = (m', out) \<Longrightarrow> filter is_data out = []"
  by (auto simp: multi_tick_def tick_def route_def Let_def split: if_splits list.splits)

lemma no_data_keepalive: "filter is_data (keepalive_all m) = []"
  by (auto simp: keepalive_all_def filter_empty_conv)

lemma wire_is_data: "wire_of crc sq ps out \<Longrightarrow> filter is_data (map (\<lambda>w. (h, w)) out) = map (\<lambda>w. (h, w)) out"
proof (rule filter_True, rule ballI)
  fix x
  assume "wire_of crc sq ps out" and "x \<in> set (map (\<lambda>w. (h, w)) out)"
  then obtain sq' ts pri pl where "x = (h, encode_data crc sq' ts pri pl)"
    by (fastforce simp: wire_of_def list_all2_conv_all_nth in_set_conv_nth split_def)
  then show "is_data x" by simp
qed

lemma send_wire:
  assumes "send crc clk pl pri ch = Some (ch', out)"
  shows "wire_of crc (next_seq ch) (frames_of (max_frame_payload (cfg ch)) [(pl, pri)]) out \<and>
    next_seq ch' = next_seq ch + of_nat (length (frames_of (max_frame_payload (cfg ch)) [(pl, pri)])) \<and>
    cfg ch' = cfg ch"
  using assms by (auto simp: send_def dest!: send_framed_wire split: option.splits)

lemma tick_keeps: "multi_tick m = (m', out) \<Longrightarrow> sinks m' = sinks m \<and>
    next_seq (reliable m') = next_seq (reliable m) \<and> cfg (reliable m') = cfg (reliable m)"
  by (auto simp: multi_tick_def tick_def Let_def split: if_splits)

definition bump :: "nat \<Rightarrow> bridge_counters option \<Rightarrow> bridge_counters option" where
  "bump k = map_option (\<lambda>c. c\<lparr>bridge_recvs := bridge_recvs c + of_nat k, bridge_sends := bridge_sends c + of_nat k\<rparr>)"

text \<open>
  The bridge loop over any events, with at least one transport. The data frames it writes are, in
  order and all to the best transport, exactly the numbered frames of the messages the backend yielded
  before it closed; the loop ends exactly when the backend channel is closed; and both telemetry
  counters advance by the number of messages.
\<close>

theorem bridge_forwards_in_order:
  assumes "sinks (br_multi b) = s # ss"
    and "backend_to_browser crc clk n es b = Some (b', out, fin)"
  shows "\<exists>ws. filter is_data out = map (\<lambda>w. (send_fn s, w)) ws \<and>
    wire_of crc (next_seq (reliable (br_multi b)))
      (frames_of (max_frame_payload (cfg (reliable (br_multi b)))) (forwarded es)) ws \<and>
    (fin \<longleftrightarrow> Backend None \<in> set es) \<and>
    counters b' = bump (length (forwarded es)) (counters b) \<and>
    msg_count b' = msg_count b + of_nat (length (forwarded es))"
  using assms
proof (induction crc clk n es b arbitrary: b' out fin rule: backend_to_browser.induct)
  case (1 crc clk n b)
  then show ?case by (auto simp: bump_def option.map_ident)
next
  case (2 crc clk n es b)
  obtain m o1 where t: "multi_tick (br_multi b) = (m, o1)" by fastforce
  obtain o2 where r: "backend_to_browser crc clk (Suc n) es (b\<lparr>br_multi := m\<rparr>) = Some (b', o2, fin)" "out = o1 @ o2"
    using "2.prems"(2) t by (auto split: option.splits)
  from "2.IH" [OF t [symmetric] refl _ r(1)] "2.prems"(1) tick_keeps [OF t] no_data_tick [OF t] r(2)
  show ?case by auto
next
  case (3 crc clk n es b)
  then obtain o2 where r: "backend_to_browser crc clk (Suc n) es b = Some (b', o2, fin)"
      "out = keepalive_all (br_multi b) @ o2" by (auto split: option.splits)
  from "3.IH" [OF "3.prems"(1) r(1)] r(2) no_data_keepalive [of "br_multi b"] show ?case by auto
next
  case (4 crc clk n es b)
  then show ?case by (auto simp: bump_def option.map_ident)
next
  case (5 crc clk n msg es b)
  let ?b1 = "b\<lparr>msg_count := msg_count b + 1,
      counters := map_option (\<lambda>c. c\<lparr>bridge_recvs := bridge_recvs c + 1\<rparr>) (counters b)\<rparr>"
  let ?mx = "max_frame_payload (cfg (reliable (br_multi b)))"
  obtain m o1 where ms: "multi_send crc (clk n) (om_payload msg) (om_priority msg) (br_multi ?b1) = Some (m, o1)"
    using "5.prems"(2) by (auto simp: Let_def split: option.splits)
  let ?b2 = "?b1\<lparr>br_multi := m, counters := map_option (\<lambda>c. c\<lparr>bridge_sends := bridge_sends c + 1\<rparr>) (counters ?b1)\<rparr>"
  obtain o2 where r: "backend_to_browser crc clk (Suc n) es ?b2 = Some (b', o2, fin)" "out = o1 @ o2"
    using "5.prems"(2) ms by (auto simp: Let_def split: option.splits)
  obtain ch ws where snd: "send crc (clk n) (om_payload msg) (om_priority msg) (reliable (br_multi b)) = Some (ch, ws)"
      and m: "m = (br_multi b)\<lparr>reliable := ch\<rparr>" and o1: "o1 = route (sinks (br_multi b)) ws"
    using ms by (auto simp: multi_send_def split: option.splits)
  note w = send_wire [OF snd]
  obtain ws2 where ih: "filter is_data o2 = map (\<lambda>w. (send_fn s, w)) ws2"
    "wire_of crc (next_seq ch) (frames_of ?mx (forwarded es)) ws2" "fin \<longleftrightarrow> Backend None \<in> set es"
    "counters b' = bump (length (forwarded es)) (counters ?b2)"
    "msg_count b' = msg_count b + 1 + of_nat (length (forwarded es))"
    using "5.IH" [OF refl ms refl _ r(1)] "5.prems"(1) m w by auto
  have fs: "frames_of ?mx (forwarded (Backend (Some msg) # es)) =
      frames_of ?mx [(om_payload msg, om_priority msg)] @ frames_of ?mx (forwarded es)"
    by simp
  have o1': "filter is_data o1 = map (\<lambda>w. (send_fn s, w)) ws"
    using wire_is_data [OF conjunct1 [OF w]] "5.prems"(1) by (simp add: o1 route_def)
  have "filter is_data out = map (\<lambda>w. (send_fn s, w)) (ws @ ws2)" using o1' ih(1) r(2) by simp
  moreover have "wire_of crc (next_seq (reliable (br_multi b))) (frames_of ?mx (forwarded (Backend (Some msg) # es))) (ws @ ws2)"
    unfolding fs by (rule wire_of_append) (use w ih(2) in auto)
  moreover have "counters b' = bump (length (forwarded (Backend (Some msg) # es))) (counters b)"
    using ih(4) by (cases "counters b") (simp_all add: bump_def)
  moreover have "fin \<longleftrightarrow> Backend None \<in> set (Backend (Some msg) # es)" using ih(3) by simp
  moreover have "msg_count b' = msg_count b + of_nat (length (forwarded (Backend (Some msg) # es)))"
    using ih(5) by simp
  ultimately show ?case by blast
qed

theorem bridge_forwards_in_order_witness:
  "\<exists>b' out fin ws.
     backend_to_browser (\<lambda>_. 5) (\<lambda>_ _. 7) 0
       [Tick_Interval, Backend (Some \<lparr>om_payload = [1, 2], om_priority = Critical\<rparr>), Keepalive_Interval, Backend None]
       \<lparr>br_multi = (multi_new default_config)\<lparr>sinks := [\<lparr>sink_name = ''ws'', sink_priority = 1, send_fn = 8\<rparr>]\<rparr>,
        msg_count = 0, counters = Some \<lparr>bridge_recvs = 0, bridge_sends = 0\<rparr>\<rparr> = Some (b', out, fin) \<and>
     filter is_data out = map (\<lambda>w. (8 :: nat, w)) ws \<and> fin \<and>
     counters b' = Some \<lparr>bridge_recvs = 1, bridge_sends = 1\<rparr>"
proof -
  let ?b = "\<lparr>br_multi = (multi_new default_config)\<lparr>sinks := [\<lparr>sink_name = ''ws'', sink_priority = 1, send_fn = 8 :: nat\<rparr>]\<rparr>,
        msg_count = 0, counters = Some \<lparr>bridge_recvs = 0, bridge_sends = 0\<rparr>\<rparr>"
  let ?es = "[Tick_Interval, Backend (Some \<lparr>om_payload = [1, 2], om_priority = Critical\<rparr>), Keepalive_Interval, Backend None]"
  have "max_frame_payload (cfg (reliable (br_multi ?b))) = 32768"
    by (simp add: multi_new_def channel_new_def default_config_def)
  then obtain b' out fin where r: "backend_to_browser (\<lambda>_. 5) (\<lambda>_ _. 7) 0 ?es ?b = Some (b', out, fin)"
    by (simp add: multi_send_def send_def frame_payloads_def multi_tick_def tick_def multi_new_def channel_new_def
        default_config_def Let_def split_def)
  from bridge_forwards_in_order [OF _ r] obtain ws where
    "filter is_data out = map (\<lambda>w. (8, w)) ws" "fin" "counters b' = bump 1 (counters ?b)"
    by auto
  then show ?thesis using r by (auto simp: bump_def)
qed

end
