(* ===== verification/Json.thy ===== *)
theory Json
  imports B3_Prelude
begin

text \<open>
  What the program uses of the \<open>serde_json\<close> crate, as a parameter of the model: a record of the
  functions it calls on a JSON value (parsing, printing, member lookup, and the \<open>as_\<dots>\<close> accessors). Nothing is
  assumed of them. \<open>json_tree\<close> is one concrete instance, with which the theorems are evaluated.
  A 64-bit float is its bit pattern.
\<close>

record 'v json_lib =
  json_parse :: "bytes \<Rightarrow> 'v option"
  json_get :: "'v \<Rightarrow> string \<Rightarrow> 'v option"
  json_str :: "'v \<Rightarrow> string option"
  json_array :: "'v \<Rightarrow> 'v list option"
  json_bool :: "'v \<Rightarrow> bool option"
  json_u64 :: "'v \<Rightarrow> u64 option"
  json_f64 :: "'v \<Rightarrow> u64 option"
  json_print :: "'v \<Rightarrow> bytes option"

text \<open>\<open>v.get(k).and_then(|x| x.as_\<dots>())\<close>.\<close>

definition get_str :: "'v json_lib \<Rightarrow> 'v \<Rightarrow> string \<Rightarrow> string option" where
  "get_str J v k = Option.bind (json_get J v k) (json_str J)"

definition get_u64 :: "'v json_lib \<Rightarrow> 'v \<Rightarrow> string \<Rightarrow> u64 option" where
  "get_u64 J v k = Option.bind (json_get J v k) (json_u64 J)"

definition get_bool :: "'v json_lib \<Rightarrow> 'v \<Rightarrow> string \<Rightarrow> bool option" where
  "get_bool J v k = Option.bind (json_get J v k) (json_bool J)"

definition get_f64 :: "'v json_lib \<Rightarrow> 'v \<Rightarrow> string \<Rightarrow> u64 option" where
  "get_f64 J v k = Option.bind (json_get J v k) (json_f64 J)"

definition get_array :: "'v json_lib \<Rightarrow> 'v \<Rightarrow> string \<Rightarrow> 'v list option" where
  "get_array J v k = Option.bind (json_get J v k) (json_array J)"

lemmas json_access = get_str_def get_u64_def get_bool_def get_f64_def get_array_def


section \<open>A concrete instance\<close>

datatype json_tree =
    JNull | JBool bool | JNum u64 | JFloat u64 | JStr string
  | JArr "json_tree list" | JObj "(string \<times> json_tree) list"

definition tree_lib :: "(bytes \<Rightarrow> json_tree option) \<Rightarrow> json_tree json_lib" where
  "tree_lib parse =
     \<lparr>json_parse = parse,
      json_get = (\<lambda>v k. case v of JObj m \<Rightarrow> map_of m k | _ \<Rightarrow> None),
      json_str = (\<lambda>v. case v of JStr s \<Rightarrow> Some s | _ \<Rightarrow> None),
      json_array = (\<lambda>v. case v of JArr xs \<Rightarrow> Some xs | _ \<Rightarrow> None),
      json_bool = (\<lambda>v. case v of JBool b \<Rightarrow> Some b | _ \<Rightarrow> None),
      json_u64 = (\<lambda>v. case v of JNum n \<Rightarrow> Some n | _ \<Rightarrow> None),
      json_f64 = (\<lambda>v. case v of JFloat x \<Rightarrow> Some x | _ \<Rightarrow> None),
      json_print = (\<lambda>v. case v of JBool True \<Rightarrow> Some [116] | JBool False \<Rightarrow> Some [102] | _ \<Rightarrow> None)\<rparr>"

text \<open>ASCII text as bytes.\<close>

definition ascii :: "string \<Rightarrow> bytes" where
  "ascii s = map (\<lambda>c. of_nat (of_char c)) s"

lemma length_ascii [simp]: "length (ascii s) = length s"
  by (simp add: ascii_def)

definition of_bytes :: "bytes \<Rightarrow> string" where
  "of_bytes bs = map (\<lambda>b. char_of (unat b)) bs"

lemma ascii_of_bytes [simp]: "ascii (of_bytes bs) = bs"
proof -
  have "of_nat (of_char (char_of (unat b) :: char)) = b" for b :: u8
  proof -
    have "unat b < 2 ^ LENGTH(8)" by (rule unsigned_less)
    then show ?thesis by (simp add: of_char_of)
  qed
  then show ?thesis by (simp add: ascii_def of_bytes_def comp_def)
qed

lemma of_bytes_ascii [simp]: "of_bytes (ascii s) = s"
proof -
  have "(of_char c :: nat) < 2 ^ 8" for c :: char
    using mod_less_divisor [of 256 "of_char c :: nat"] by simp
  then show ?thesis by (simp add: of_bytes_def ascii_def comp_def unat_of_nat take_bit_eq_mod)
qed

end
