(* ===== verification/Encrypted.thy ===== *)
theory Encrypted
  imports Channel_Send Json
begin

text \<open>
  \<open>src/crates/b3-reliable/src/crypto.rs\<close>: the encrypted channel. The cryptographic crates (x25519, HKDF,
  AES-GCM, base64) and \<open>serde_json\<close> are parameters; a cipher is its key. The state that the code shares
  between the channel and the transport closure inside it (the send cipher and its counter) are fields of
  the channel, because every operation that replaces the one replaces the other. What the transport
  closure writes to the raw transport is an output.
\<close>

section \<open>Parameters and state\<close>

record crypto_lib =
  pub_of :: "bytes \<Rightarrow> bytes"
  dh :: "bytes \<Rightarrow> bytes \<Rightarrow> bytes"
  hkdf :: "bytes \<Rightarrow> bytes \<Rightarrow> bytes \<Rightarrow> nat \<Rightarrow> bytes option"
  aead_enc :: "bytes \<Rightarrow> bytes \<Rightarrow> bytes \<Rightarrow> bytes option"
  aead_dec :: "bytes \<Rightarrow> bytes \<Rightarrow> bytes \<Rightarrow> bytes option"
  b64_enc :: "bytes \<Rightarrow> string"
  b64_dec :: "string \<Rightarrow> bytes option"

definition HKDF_SALT :: bytes where "HKDF_SALT = ascii ''b3-daemon-proxy''"
definition HKDF_INFO :: bytes where "HKDF_INFO = ascii ''b3-daemon-proxy-v1''"
definition NONCE_LEN :: nat where "NONCE_LEN = 12"
definition TAG_LEN :: nat where "TAG_LEN = 16"

datatype encrypted_state = Handshaking | Ready

record 'h encrypted_channel =
  ec_state :: encrypted_state
  long_term_secret :: bytes
  long_term_pub :: bytes
  inner :: "unit reliable_channel"
  raw_tx :: 'h
  send_cipher :: "bytes option"
  send_counter :: u64
  recv_cipher :: "bytes option"
  version :: "string option"

definition encrypted_new :: "crypto_lib \<Rightarrow> config \<Rightarrow> bytes \<Rightarrow> 'h \<Rightarrow> 'h encrypted_channel" where
  "encrypted_new K c secret tx =
     \<lparr>ec_state = Handshaking, long_term_secret = secret, long_term_pub = pub_of K secret,
      inner = channel_new c (), raw_tx = tx, send_cipher = None, send_counter = 0,
      recv_cipher = None, version = None\<rparr>"

definition set_version :: "string \<Rightarrow> 'h encrypted_channel \<Rightarrow> 'h encrypted_channel" where
  "set_version v ec = ec\<lparr>version := Some v\<rparr>"

definition public_key_b64 :: "crypto_lib \<Rightarrow> 'h encrypted_channel \<Rightarrow> string" where
  "public_key_b64 K ec = b64_enc K (long_term_pub ec)"

definition counter_nonce :: "u64 \<Rightarrow> bytes" where
  "counter_nonce c = replicate 4 0 @ to_le 8 c"


section \<open>Operations\<close>

text \<open>The transport closure of the inner channel, on one frame and on the frames of one operation.\<close>

definition seal ::
  "crypto_lib \<Rightarrow> bytes \<Rightarrow> 'h encrypted_channel \<Rightarrow> 'h encrypted_channel \<times> ('h \<times> bytes) list" where
  "seal K data ec =
     (case send_cipher ec of
        None \<Rightarrow> (ec, [])
      | Some key \<Rightarrow>
          (let ec1 = ec\<lparr>send_counter := send_counter ec + 1\<rparr>;
               nonce = counter_nonce (send_counter ec1)
           in case aead_enc K key nonce data of
                Some ct \<Rightarrow> (ec1, [(raw_tx ec1, nonce @ ct)])
              | None \<Rightarrow> (ec1, [])))"

fun seal_all ::
  "crypto_lib \<Rightarrow> bytes list \<Rightarrow> 'h encrypted_channel \<Rightarrow> 'h encrypted_channel \<times> ('h \<times> bytes) list" where
  "seal_all K [] ec = (ec, [])"
| "seal_all K (w # ws) ec =
     (let (ec1, out1) = seal K w ec; (ec2, out2) = seal_all K ws ec1 in (ec2, out1 @ out2))"

definition handshake_ok :: "string option \<Rightarrow> bytes" where
  "handshake_ok v =
     (case v of
        Some s \<Rightarrow> ascii (''{\"type\":\"handshake_ok\",\"version\":\"'' @ s @ ''\"}'')
      | None \<Rightarrow> ascii ''{\"type\":\"handshake_ok\"}'')"

definition handle_handshake ::
  "crypto_lib \<Rightarrow> 'v json_lib \<Rightarrow> bytes \<Rightarrow> 'h encrypted_channel \<Rightarrow> 'h encrypted_channel \<times> ('h \<times> bytes) list" where
  "handle_handshake K J data ec =
     (case json_parse J data of
        None \<Rightarrow> (ec, [])
      | Some frame \<Rightarrow>
          if get_str J frame ''type'' \<noteq> Some ''handshake'' then (ec, [])
          else case get_str J frame ''pubkey'' of
            None \<Rightarrow> (ec, [])
          | Some pubkey_b64 \<Rightarrow>
              (case b64_dec K pubkey_b64 of
                 None \<Rightarrow> (ec, [])
               | Some pubkey \<Rightarrow>
                   if length pubkey \<noteq> 32 then (ec, [])
                   else case hkdf K HKDF_SALT (dh K (long_term_secret ec) pubkey) HKDF_INFO 64 of
                     None \<Rightarrow> (ec, [])
                   | Some okm \<Rightarrow>
                       (ec\<lparr>recv_cipher := Some (take 32 okm), send_cipher := Some (take 32 (drop 32 okm)),
                           send_counter := 0, ec_state := Ready\<rparr>,
                        [(raw_tx ec, handshake_ok (version ec))])))"

definition decrypt_frame :: "crypto_lib \<Rightarrow> bytes \<Rightarrow> 'h encrypted_channel \<Rightarrow> bytes option" where
  "decrypt_frame K data ec =
     (if length data < NONCE_LEN + TAG_LEN then None
      else case recv_cipher ec of
             None \<Rightarrow> None
           | Some key \<Rightarrow> aead_dec K key (take NONCE_LEN data) (drop NONCE_LEN data))"

definition encrypted_receive ::
  "crypto_lib \<Rightarrow> 'v json_lib \<Rightarrow> (bytes \<Rightarrow> u32) \<Rightarrow> (nat \<Rightarrow> u32) \<Rightarrow> bytes \<Rightarrow> 'h encrypted_channel
     \<Rightarrow> 'h encrypted_channel \<times> received_message list \<times> ('h \<times> bytes) list" where
  "encrypted_receive K J crc clk data ec =
     (case ec_state ec of
        Handshaking \<Rightarrow> (let (ec', out) = handle_handshake K J data ec in (ec', [], out))
      | Ready \<Rightarrow>
          (case decrypt_frame K data ec of
             None \<Rightarrow> (ec, [], [])
           | Some plain \<Rightarrow>
               (let (ch, ms, frames) = receive crc clk plain (inner ec);
                    (ec', out) = seal_all K frames (ec\<lparr>inner := ch\<rparr>)
                in (ec', ms, out))))"

definition is_ready :: "'h encrypted_channel \<Rightarrow> bool" where
  "is_ready ec \<longleftrightarrow> ec_state ec = Ready"

text \<open>\<open>None\<close> is the panic of the assertion, or of the inner \<open>send\<close>.\<close>

definition encrypted_send ::
  "crypto_lib \<Rightarrow> (bytes \<Rightarrow> u32) \<Rightarrow> (nat \<Rightarrow> u32) \<Rightarrow> bytes \<Rightarrow> priority \<Rightarrow> 'h encrypted_channel
     \<Rightarrow> ('h encrypted_channel \<times> ('h \<times> bytes) list) option" where
  "encrypted_send K crc clk pl pri ec =
     (if \<not> is_ready ec then None
      else case send crc clk pl pri (inner ec) of
             None \<Rightarrow> None
           | Some (ch, frames) \<Rightarrow> Some (seal_all K frames (ec\<lparr>inner := ch\<rparr>)))"

definition encrypted_tick :: "crypto_lib \<Rightarrow> 'h encrypted_channel \<Rightarrow> 'h encrypted_channel \<times> ('h \<times> bytes) list" where
  "encrypted_tick K ec =
     (let (ch, frames) = tick (inner ec) in seal_all K frames (ec\<lparr>inner := ch\<rparr>))"

definition reset_for_reconnect :: "'h \<Rightarrow> 'h encrypted_channel \<Rightarrow> 'h encrypted_channel" where
  "reset_for_reconnect tx ec =
     ec\<lparr>inner := channel_reset (set_transport () (inner ec)), send_cipher := None, send_counter := 0,
        raw_tx := tx, recv_cipher := None, ec_state := Handshaking\<rparr>"


section \<open>Nonces\<close>

lemma counter_nonce_inj: "counter_nonce a = counter_nonce b \<longleftrightarrow> a = b"
proof
  assume "counter_nonce a = counter_nonce b"
  then have "to_le 8 a = to_le 8 b" by (simp add: counter_nonce_def)
  then have "(from_le (to_le 8 a) :: u64) = from_le (to_le 8 b)" by simp
  then show "a = b" by simp
qed simp

lemma length_counter_nonce [simp]: "length (counter_nonce c) = 12"
  by (simp add: counter_nonce_def)

lemma seal_keeps:
  "seal K w ec = (ec', out) \<Longrightarrow>
     inner ec' = inner ec \<and> ec_state ec' = ec_state ec \<and> send_cipher ec' = send_cipher ec \<and>
     recv_cipher ec' = recv_cipher ec \<and> raw_tx ec' = raw_tx ec \<and>
     send_counter ec' = send_counter ec + (if send_cipher ec = None then 0 else 1)"
  by (auto simp: seal_def Let_def split: option.splits)

lemma seal_all_keeps:
  "seal_all K ws ec = (ec', out) \<Longrightarrow>
     inner ec' = inner ec \<and> ec_state ec' = ec_state ec \<and> send_cipher ec' = send_cipher ec \<and>
     recv_cipher ec' = recv_cipher ec \<and> raw_tx ec' = raw_tx ec \<and>
     send_counter ec' = send_counter ec + (if send_cipher ec = None then 0 else of_nat (length ws))"
proof (induction K ws ec arbitrary: ec' out rule: seal_all.induct)
  case (2 K w ws ec)
  obtain ec1 o1 where s1: "seal K w ec = (ec1, o1)" by fastforce
  obtain ec2 o2 where s2: "seal_all K ws ec1 = (ec2, o2)" by fastforce
  from "2.IH" [OF s1 [symmetric] refl s2] "2.prems" seal_keeps [OF s1] s1 s2 show ?case
    by (auto simp: Let_def)
qed simp

text \<open>The frames sealed in one cipher epoch carry the counters \<open>c + 1, \<dots>\<close>, each at most once.\<close>

lemma seal_all_nonces:
  "seal_all K ws ec = (ec', out) \<Longrightarrow>
     \<exists>is. sorted_wrt (<) is \<and> set is \<subseteq> {..< length ws} \<and>
       map (\<lambda>p. take NONCE_LEN (snd p)) out = map (\<lambda>i. counter_nonce (send_counter ec + 1 + of_nat i)) is"
proof (induction K ws ec arbitrary: ec' out rule: seal_all.induct)
  case (1 K ec)
  then show ?case by (intro exI [of _ "[]"]) auto
next
  case (2 K w ws ec)
  obtain ec1 o1 where s1: "seal K w ec = (ec1, o1)" by fastforce
  obtain ec2 o2 where s2: "seal_all K ws ec1 = (ec2, o2)" by fastforce
  obtain js where js: "sorted_wrt (<) js" "set js \<subseteq> {..< length ws}"
    "map (\<lambda>p. take NONCE_LEN (snd p)) o2 = map (\<lambda>i. counter_nonce (send_counter ec1 + 1 + of_nat i)) js"
    using "2.IH" [OF s1 [symmetric] refl s2] by blast
  have out: "out = o1 @ o2" using "2.prems" s1 s2 by simp
  show ?case
  proof (cases "send_cipher ec")
    case None
    then have "o1 = []" "ec1 = ec" using s1 by (auto simp: seal_def)
    moreover from this None have "o2 = []"
    proof -
      have "seal_all K us e = (e', o') \<Longrightarrow> send_cipher e = None \<Longrightarrow> o' = []" for us and e e' :: "'a encrypted_channel" and o'
        by (induction us arbitrary: e e' o') (auto simp: seal_def)
      then show ?thesis using s2 None \<open>ec1 = ec\<close> by blast
    qed
    ultimately show ?thesis using out by (intro exI [of _ "[]"]) auto
  next
    case (Some key)
    then have c: "send_counter ec1 = send_counter ec + 1" using seal_keeps [OF s1] by simp
    have "map (\<lambda>p. take NONCE_LEN (snd p)) o1 = [] \<or>
        map (\<lambda>p. take NONCE_LEN (snd p)) o1 = [counter_nonce (send_counter ec + 1 + of_nat 0)]"
      using s1 Some by (auto simp: seal_def NONCE_LEN_def Let_def split: option.splits)
    moreover have sh: "sorted_wrt (<) (map Suc js)" "set (map Suc js) \<subseteq> {..< length (w # ws)}" "0 \<notin> set (map Suc js)"
      using js by (auto simp: sorted_wrt_map)
    moreover have "map (\<lambda>p. take NONCE_LEN (snd p)) o2 = map (\<lambda>i. counter_nonce (send_counter ec + 1 + of_nat i)) (map Suc js)"
      using js(3) c by (simp add: add_ac)
    ultimately show ?thesis
    proof (elim disjE)
      assume "map (\<lambda>p. take NONCE_LEN (snd p)) o1 = [counter_nonce (send_counter ec + 1 + of_nat 0)]"
        "map (\<lambda>p. take NONCE_LEN (snd p)) o2 = map (\<lambda>i. counter_nonce (send_counter ec + 1 + of_nat i)) (map Suc js)"
      then show ?thesis using out sh by (intro exI [of _ "0 # map Suc js"]) (auto simp: comp_def)
    next
      assume "map (\<lambda>p. take NONCE_LEN (snd p)) o1 = []"
        "map (\<lambda>p. take NONCE_LEN (snd p)) o2 = map (\<lambda>i. counter_nonce (send_counter ec + 1 + of_nat i)) (map Suc js)"
      then show ?thesis using out sh by (intro exI [of _ "map Suc js"]) (auto simp: comp_def)
    qed
  qed
qed

text \<open>Sealing depends on the cipher, its counter and the transport only.\<close>

lemma seal_inner:
  "seal K w (ec\<lparr>inner := ch\<rparr>) = (fst (seal K w ec)\<lparr>inner := ch\<rparr>, snd (seal K w ec))"
  by (auto simp: seal_def Let_def split: option.splits)

lemma seal_all_inner:
  "seal_all K ws (ec\<lparr>inner := ch\<rparr>) = (fst (seal_all K ws ec)\<lparr>inner := ch\<rparr>, snd (seal_all K ws ec))"
  by (induction ws arbitrary: ec) (simp_all add: seal_inner Let_def split_def)

lemma seal_all_append:
  "seal_all K (us @ vs) ec =
     (let (ec1, o1) = seal_all K us ec; (ec2, o2) = seal_all K vs ec1 in (ec2, o1 @ o2))"
  by (induction us arbitrary: ec) (simp_all add: Let_def split_def)

datatype encrypted_event =
    E_Send bytes priority "nat \<Rightarrow> u32"
  | E_Receive bytes "nat \<Rightarrow> u32"
  | E_Tick

text \<open>The frames the inner channel hands to the transport closure in one operation, with its new state.\<close>

fun inner_step ::
  "crypto_lib \<Rightarrow> (bytes \<Rightarrow> u32) \<Rightarrow> encrypted_event \<Rightarrow> 'h encrypted_channel \<Rightarrow> (unit reliable_channel \<times> bytes list) option" where
  "inner_step K crc (E_Send pl pri clk) ec = send crc clk pl pri (inner ec)"
| "inner_step K crc (E_Receive data clk) ec =
     (case decrypt_frame K data ec of None \<Rightarrow> Some (inner ec, [])
      | Some plain \<Rightarrow> (let (ch, ms, frames) = receive crc clk plain (inner ec) in Some (ch, frames)))"
| "inner_step K crc E_Tick ec = Some (tick (inner ec))"

fun encrypted_apply ::
  "crypto_lib \<Rightarrow> 'v json_lib \<Rightarrow> (bytes \<Rightarrow> u32) \<Rightarrow> encrypted_event \<Rightarrow> 'h encrypted_channel
     \<Rightarrow> ('h encrypted_channel \<times> ('h \<times> bytes) list) option" where
  "encrypted_apply K J crc (E_Send pl pri clk) ec = encrypted_send K crc clk pl pri ec"
| "encrypted_apply K J crc (E_Receive data clk) ec =
     (let (ec', ms, out) = encrypted_receive K J crc clk data ec in Some (ec', out))"
| "encrypted_apply K J crc E_Tick ec = Some (encrypted_tick K ec)"

text \<open>A run: the state, the plaintext frames the inner channel handed over, and what was written.\<close>

fun encrypted_run ::
  "crypto_lib \<Rightarrow> 'v json_lib \<Rightarrow> (bytes \<Rightarrow> u32) \<Rightarrow> encrypted_event list \<Rightarrow> 'h encrypted_channel
     \<Rightarrow> ('h encrypted_channel \<times> bytes list \<times> ('h \<times> bytes) list) option" where
  "encrypted_run K J crc [] ec = Some (ec, [], [])"
| "encrypted_run K J crc (e # es) ec =
     (case (encrypted_apply K J crc e ec, inner_step K crc e ec) of
        (Some (ec1, out1), Some (_, ws1)) \<Rightarrow>
          (case encrypted_run K J crc es ec1 of
             None \<Rightarrow> None | Some (ec2, ws2, out2) \<Rightarrow> Some (ec2, ws1 @ ws2, out1 @ out2))
      | _ \<Rightarrow> None)"

lemma encrypted_apply_ready:
  assumes "ec_state ec = Ready" and "encrypted_apply K J crc e ec = Some (ec', out)"
  shows "\<exists>ch ws. inner_step K crc e ec = Some (ch, ws) \<and> seal_all K ws (ec\<lparr>inner := ch\<rparr>) = (ec', out)"
proof (cases e)
  case (E_Send pl pri clk)
  with assms show ?thesis by (auto simp: encrypted_send_def is_ready_def split: option.splits if_splits)
next
  case (E_Receive data clk)
  with assms show ?thesis
    by (cases "decrypt_frame K data ec") (auto simp: encrypted_receive_def split: prod.splits)
next
  case E_Tick
  with assms show ?thesis by (auto simp: encrypted_tick_def split: prod.splits)
qed

lemma encrypted_run_sealed:
  "encrypted_run K J crc es ec = Some (ec', ws, out) \<Longrightarrow> ec_state ec = Ready \<Longrightarrow>
     \<exists>ch. seal_all K ws (ec\<lparr>inner := ch\<rparr>) = (ec', out)"
proof (induction es arbitrary: ec ws out)
  case Nil
  then show ?case by (intro exI [of _ "inner ec"]) simp
next
  case (Cons e es)
  then obtain ec1 o1 ch1 ws1 o2 ws2 where r: "encrypted_apply K J crc e ec = Some (ec1, o1)"
    "inner_step K crc e ec = Some (ch1, ws1)"
    "encrypted_run K J crc es ec1 = Some (ec', ws2, o2)" "out = o1 @ o2" "ws = ws1 @ ws2"
    by (auto split: option.splits prod.splits)
  have s1: "seal_all K ws1 (ec\<lparr>inner := ch1\<rparr>) = (ec1, o1)"
    using encrypted_apply_ready [OF Cons.prems(2) r(1)] r(2) by auto
  have "ec_state ec1 = Ready" using seal_all_keeps [OF s1] Cons.prems(2) by simp
  then obtain ch' where "seal_all K ws2 (ec1\<lparr>inner := ch'\<rparr>) = (ec', o2)"
    using Cons.IH [OF r(3)] by blast
  then have "seal_all K (ws1 @ ws2) (ec\<lparr>inner := ch'\<rparr>) = (ec', out)"
    using s1 r(4) by (auto simp: seal_all_append seal_all_inner Let_def split_def)
  then show ?case using r(5) by blast
qed

text \<open>
  \<^bold>\<open>C8\<close>. Nonces are never reused under one key. From the moment a channel is ready, over any sequence
  of sends, ticks and received bytes (no reset), the frames written carry the nonces of the counters
  \<open>c + 1 + i\<close> for strictly growing \<open>i\<close> below the number of frames handed over, where \<open>c\<close> is the counter at
  the start; so every frame has a nonce of its own as long as there are at most \<open>2 ^ 64\<close> of them.
\<close>

theorem nonces_never_reused:
  assumes "ec_state ec = Ready" and "encrypted_run K J crc es ec = Some (ec', ws, out)" and "length ws \<le> 2 ^ 64"
  shows "distinct (map (\<lambda>p. take NONCE_LEN (snd p)) out) \<and>
    (\<exists>is. map (\<lambda>p. take NONCE_LEN (snd p)) out = map (\<lambda>i. counter_nonce (send_counter ec + 1 + of_nat i)) is \<and>
       sorted_wrt (<) is \<and> (\<forall>i \<in> set is. i < length ws))"
proof -
  obtain ch where s: "seal_all K ws (ec\<lparr>inner := ch\<rparr>) = (ec', out)"
    using encrypted_run_sealed [OF assms(2,1)] by blast
  obtain js where js: "sorted_wrt (<) js" "set js \<subseteq> {..< length ws}"
      "map (\<lambda>p. take NONCE_LEN (snd p)) out = map (\<lambda>i. counter_nonce (send_counter ec + 1 + of_nat i)) js"
    using seal_all_nonces [OF s] by auto
  have "inj_on (\<lambda>i. counter_nonce (send_counter ec + 1 + of_nat i)) (set js)"
  proof (rule inj_onI)
    fix i j assume ij: "i \<in> set js" "j \<in> set js"
      and "counter_nonce (send_counter ec + 1 + of_nat i) = counter_nonce (send_counter ec + 1 + of_nat j)"
    then have "(of_nat i :: u64) = of_nat j" by (simp add: counter_nonce_inj)
    moreover have "i < 2 ^ 64" "j < 2 ^ 64" using ij js(2) assms(3) by auto
    ultimately show "i = j" by (simp add: word_unat_eq_iff unat_of_nat)
  qed
  moreover have "distinct js" using js(1) by (simp add: strict_sorted_iff)
  ultimately have "distinct (map (\<lambda>p. take NONCE_LEN (snd p)) out)" unfolding js(3) by (simp add: distinct_map)
  then show ?thesis using js by auto
qed

text \<open>A toy AEAD for evaluation: it appends a tag of 16 bytes that depends on key and nonce.\<close>

definition toy_crypto :: crypto_lib where
  "toy_crypto =
     \<lparr>pub_of = (\<lambda>s. s), dh = (\<lambda>s p. s @ p), hkdf = (\<lambda>salt ikm info n. Some (take n (ikm @ replicate n 1))),
      aead_enc = (\<lambda>k n p. Some (p @ replicate 16 (hd (k @ [0])))),
      aead_dec = (\<lambda>k n c. if 16 \<le> length c \<and> drop (length c - 16) c = replicate 16 (hd (k @ [0]))
                         then Some (take (length c - 16) c) else None),
      b64_enc = (\<lambda>b. []), b64_dec = (\<lambda>s. Some (replicate 32 9))\<rparr>"

definition toy_ready :: "nat encrypted_channel" where
  "toy_ready = (encrypted_new toy_crypto default_config [1] 8)
     \<lparr>ec_state := Ready, send_cipher := Some [4], recv_cipher := Some [5]\<rparr>"

theorem nonces_never_reused_witness:
  "\<exists>ec' ws out. encrypted_run toy_crypto (tree_lib (\<lambda>_. None)) (\<lambda>_. 3)
      [E_Send [1] Critical (\<lambda>_. 0), E_Tick, E_Send [2] Critical (\<lambda>_. 0)] toy_ready = Some (ec', ws, out) \<and>
    length out = 2 \<and> distinct (map (\<lambda>p. take NONCE_LEN (snd p)) out)"
proof -
  have ready: "ec_state toy_ready = Ready" by (simp add: toy_ready_def encrypted_new_def)
  obtain ec' ws out where r: "encrypted_run toy_crypto (tree_lib (\<lambda>_. None)) (\<lambda>_. 3)
      [E_Send [1] Critical (\<lambda>_. 0), E_Tick, E_Send [2] Critical (\<lambda>_. 0)] toy_ready = Some (ec', ws, out)"
    and len: "length ws = 2" "length out = 2"
    by (simp add: toy_ready_def encrypted_new_def encrypted_send_def is_ready_def send_def frame_payloads_def
        send_one_def encrypted_tick_def tick_def channel_new_def default_config_def Let_def seal_def toy_crypto_def)
  have "distinct (map (\<lambda>p. take NONCE_LEN (snd p)) out)"
    using nonces_never_reused [OF ready r] len(1) by simp
  then show ?thesis using r len(2) by blast
qed


section \<open>Transparency\<close>

text \<open>
  What the code relies on of AES-GCM under one key: encryption of a frame succeeds, adds a tag of 16
  bytes, and decryption with the same nonce gives the frame back.
\<close>

definition aead_law :: "crypto_lib \<Rightarrow> bytes \<Rightarrow> bool" where
  "aead_law K key \<longleftrightarrow>
     (\<forall>n p. \<exists>c. aead_enc K key n p = Some c \<and> length c = length p + 16 \<and> aead_dec K key n c = Some p)"

fun encrypted_receive_all ::
  "crypto_lib \<Rightarrow> 'v json_lib \<Rightarrow> (bytes \<Rightarrow> u32) \<Rightarrow> (nat \<Rightarrow> u32) \<Rightarrow> bytes list \<Rightarrow> 'h encrypted_channel
     \<Rightarrow> 'h encrypted_channel \<times> received_message list" where
  "encrypted_receive_all K J crc clk [] ec = (ec, [])"
| "encrypted_receive_all K J crc clk (w # ws) ec =
     (let (ec1, ms1, _) = encrypted_receive K J crc clk w ec;
          (ec2, ms2) = encrypted_receive_all K J crc clk ws ec1
      in (ec2, ms1 @ ms2))"

text \<open>A sealed frame opens to the plaintext.\<close>

lemma seal_opens:
  assumes "aead_law K key" and "send_cipher a = Some key" and "seal K w a = (a', out)"
  shows "\<exists>n c. out = [(raw_tx a, n @ c)] \<and> length n = NONCE_LEN \<and> TAG_LEN \<le> length c \<and> aead_dec K key n c = Some w"
proof -
  obtain c where "aead_enc K key (counter_nonce (send_counter a + 1)) w = Some c" "length c = length w + 16"
    "aead_dec K key (counter_nonce (send_counter a + 1)) c = Some w"
    using assms(1) unfolding aead_law_def by blast
  with assms(2,3) show ?thesis
    by (intro exI [of _ "counter_nonce (send_counter a + 1)"] exI [of _ c])
       (auto simp: seal_def Let_def NONCE_LEN_def TAG_LEN_def)
qed

definition opens :: "crypto_lib \<Rightarrow> bytes \<Rightarrow> bytes \<Rightarrow> bytes \<Rightarrow> bool" where
  "opens K key x w \<longleftrightarrow>
     (\<exists>n c. x = n @ c \<and> length n = NONCE_LEN \<and> TAG_LEN \<le> length c \<and> aead_dec K key n c = Some w)"

lemma seal_all_opens:
  "aead_law K key \<Longrightarrow> send_cipher a = Some key \<Longrightarrow> seal_all K ws a = (a', out) \<Longrightarrow>
     list_all2 (\<lambda>(h, x) w. h = raw_tx a \<and> opens K key x w) out ws"
proof (induction ws arbitrary: a a' out)
  case (Cons w ws)
  obtain a1 o1 where s1: "seal K w a = (a1, o1)" by fastforce
  obtain a2 o2 where s2: "seal_all K ws a1 = (a2, o2)" by fastforce
  obtain n c where o1: "o1 = [(raw_tx a, n @ c)]" "length n = NONCE_LEN" "TAG_LEN \<le> length c" "aead_dec K key n c = Some w"
    using seal_opens [OF Cons.prems(1,2) s1] by blast
  have "send_cipher a1 = Some key" "raw_tx a1 = raw_tx a" using seal_keeps [OF s1] Cons.prems(2) by simp_all
  with Cons.IH [OF Cons.prems(1) _ s2] have "list_all2 (\<lambda>(h, x) w. h = raw_tx a \<and> opens K key x w) o2 ws" by simp
  moreover have "opens K key (n @ c) w" using o1 unfolding opens_def by blast
  moreover have "out = (raw_tx a, n @ c) # o2" using Cons.prems(3) s1 s2 o1(1) by simp
  ultimately show ?case by simp
qed simp

lemma decrypt_opens:
  "opens K key x w \<Longrightarrow> recv_cipher ec = Some key \<Longrightarrow> decrypt_frame K x ec = Some w"
  by (auto simp: opens_def decrypt_frame_def)

lemma encrypted_receive_opens:
  assumes "opens K key x w" and "recv_cipher ec = Some key" and "ec_state ec = Ready"
    and "encrypted_receive K J crc clk x ec = (ec', ms, out)"
  shows "\<exists>frames. receive crc clk w (inner ec) = (inner ec', ms, frames) \<and>
    recv_cipher ec' = Some key \<and> ec_state ec' = Ready"
proof -
  obtain ch rs frames where r: "receive crc clk w (inner ec) = (ch, rs, frames)"
    by (cases "receive crc clk w (inner ec)")
  obtain e o2 where s: "seal_all K frames (ec\<lparr>inner := ch\<rparr>) = (e, o2)" by fastforce
  have "ec' = e" "ms = rs"
    using assms(3,4) decrypt_opens [OF assms(1,2)] r s by (auto simp: encrypted_receive_def)
  then show ?thesis using r seal_all_keeps [OF s] assms(2,3) by auto
qed

lemma encrypted_receive_all_opens:
  "list_all2 (opens K key) xs ws \<Longrightarrow> recv_cipher ec = Some key \<Longrightarrow> ec_state ec = Ready \<Longrightarrow>
     encrypted_receive_all K J crc clk xs ec = (ec', ms) \<Longrightarrow>
     receive_all crc clk ws (inner ec) = (inner ec', ms)"
proof (induction xs arbitrary: ws ec ms)
  case Nil
  then show ?case by simp
next
  case (Cons x xs)
  then obtain w ws' where ws: "ws = w # ws'" "opens K key x w" "list_all2 (opens K key) xs ws'"
    by (auto simp: list_all2_Cons1)
  obtain ec1 ms1 o1 where r1: "encrypted_receive K J crc clk x ec = (ec1, ms1, o1)"
    by (cases "encrypted_receive K J crc clk x ec")
  obtain ms2 where r2: "encrypted_receive_all K J crc clk xs ec1 = (ec', ms2)" and ms: "ms = ms1 @ ms2"
    using Cons.prems(4) r1 by (auto split: prod.splits)
  from encrypted_receive_opens [OF ws(2) Cons.prems(2,3) r1] obtain frames where
    f: "receive crc clk w (inner ec) = (inner ec1, ms1, frames)" "recv_cipher ec1 = Some key" "ec_state ec1 = Ready"
    by blast
  from Cons.IH [OF ws(3) f(2,3) r2] show ?case using ws(1) f(1) ms by simp
qed

text \<open>
  \<^bold>\<open>C9\<close>. Encryption is transparent. One end seals the frames \<open>ws\<close> of its inner channel under a key, the
  other end is ready and holds the same key to receive. Whatever selection of the sealed frames arrives,
  in whatever order (the indices \<open>js\<close>), the receiving end behaves exactly as its inner channel does on
  the plaintext frames, so everything proved of the reliable channel holds through the encryption.
\<close>

theorem encryption_transparent:
  assumes "aead_law K key" and "send_cipher a = Some key" and sealed: "seal_all K ws a = (a', out)"
    and "recv_cipher b = Some key" and "ec_state b = Ready"
    and "\<forall>j \<in> set js. j < length ws"
    and "encrypted_receive_all K J crc clk (map (\<lambda>j. snd (out ! j)) js) b = (b', ms)"
  shows "length out = length ws \<and> receive_all crc clk (map ((!) ws) js) (inner b) = (inner b', ms)"
proof -
  note all = seal_all_opens [OF assms(1,2) sealed]
  have len: "length out = length ws" using all by (rule list_all2_lengthD)
  have "list_all2 (opens K key) (map (\<lambda>j. snd (out ! j)) js) (map ((!) ws) js)"
    unfolding list_all2_map1 list_all2_map2 list_all2_same
  proof
    fix j assume "j \<in> set js"
    then have "j < length out" using assms(6) len by simp
    then show "opens K key (snd (out ! j)) (ws ! j)"
      using list_all2_nthD [OF all] by (simp add: split_def)
  qed
  then show ?thesis using encrypted_receive_all_opens [OF _ assms(4,5,7)] len by blast
qed

lemma toy_law: "aead_law toy_crypto key"
  by (simp add: aead_law_def toy_crypto_def)

theorem encryption_transparent_witness:
  "\<exists>out b' ms. seal_all toy_crypto [encode_data (\<lambda>_. 3) 1 0 Critical [0, 9]] toy_ready = out \<and>
     encrypted_receive_all toy_crypto (tree_lib (\<lambda>_. None)) (\<lambda>_. 3) (\<lambda>_. 0) [snd (snd out ! 0), snd (snd out ! 0)]
       (toy_ready\<lparr>recv_cipher := Some [4]\<rparr>) = (b', ms) \<and>
     receive_all (\<lambda>_. 3) (\<lambda>_. 0) (replicate 2 (encode_data (\<lambda>_. 3) 1 0 Critical [0, 9])) (channel_new default_config ()) = (inner b', ms)"
proof -
  let ?w = "encode_data (\<lambda>_. 3) 1 0 Critical [0, 9]"
  let ?b = "toy_ready\<lparr>recv_cipher := Some [4]\<rparr>"
  obtain a' out where s: "seal_all toy_crypto [?w] toy_ready = (a', out)" by fastforce
  obtain b' ms where r: "encrypted_receive_all toy_crypto (tree_lib (\<lambda>_. None)) (\<lambda>_. 3) (\<lambda>_. 0)
      (map (\<lambda>j. snd (out ! j)) [0, 0]) ?b = (b', ms)" by fastforce
  have "length out = length [?w] \<and> receive_all (\<lambda>_. 3) (\<lambda>_. 0) (map ((!) [?w]) [0, 0]) (inner ?b) = (inner b', ms)"
    by (rule encryption_transparent [OF toy_law _ s _ _ _ r]) (simp_all add: toy_ready_def encrypted_new_def)
  then have "receive_all (\<lambda>_. 3) (\<lambda>_. 0) (replicate 2 ?w) (channel_new default_config ()) = (inner b', ms)"
    by (simp add: toy_ready_def encrypted_new_def numeral_2_eq_2 del: receive_all.simps)
  then show ?thesis using s r by (intro exI [of _ "(a', out)"] exI [of _ b'] exI [of _ ms]) simp
qed


section \<open>Handshake and reset\<close>

text \<open>The conditions of \<^const>\<open>handle_handshake\<close>, with the key material it derives.\<close>

definition handshake_okm :: "crypto_lib \<Rightarrow> 'v json_lib \<Rightarrow> bytes \<Rightarrow> bytes \<Rightarrow> bytes option" where
  "handshake_okm K J secret data =
     Option.bind (json_parse J data) (\<lambda>frame.
       if get_str J frame ''type'' = Some ''handshake''
       then Option.bind (Option.bind (get_str J frame ''pubkey'') (b64_dec K)) (\<lambda>pub.
         if length pub = 32 then hkdf K HKDF_SALT (dh K secret pub) HKDF_INFO 64 else None)
       else None)"

text \<open>
  \<^bold>\<open>C10\<close>. The handshake is all or nothing. Before it, whatever bytes arrive deliver nothing; bytes that
  are not a handshake (no JSON, wrong type, missing or malformed key, key derivation failed) change
  nothing and are not answered; a handshake installs both keys from the two halves of the key material,
  zeroes the counter, makes the channel ready and is answered by exactly one plaintext frame.
\<close>

theorem handshake_all_or_nothing:
  assumes "ec_state ec = Handshaking" and "encrypted_receive K J crc clk data ec = (ec', ms, out)"
  shows "ms = [] \<and>
    (case handshake_okm K J (long_term_secret ec) data of
       None \<Rightarrow> ec' = ec \<and> out = []
     | Some okm \<Rightarrow> ec_state ec' = Ready \<and> recv_cipher ec' = Some (take 32 okm) \<and>
         send_cipher ec' = Some (take 32 (drop 32 okm)) \<and> send_counter ec' = 0 \<and> inner ec' = inner ec \<and>
         out = [(raw_tx ec, handshake_ok (version ec))])"
  using assms
  by (auto simp: encrypted_receive_def handle_handshake_def handshake_okm_def Let_def
      split: option.splits if_splits)

definition toy_json :: "json_tree json_lib" where
  "toy_json = tree_lib (\<lambda>bs. if bs = [7] then Some (JObj [(''type'', JStr ''handshake''), (''pubkey'', JStr ''k'')]) else None)"

theorem handshake_all_or_nothing_witness:
  "\<exists>ec' out. encrypted_receive toy_crypto toy_json (\<lambda>_. 3) (\<lambda>_. 0) [7] (encrypted_new toy_crypto default_config [1] (8 :: nat)) = (ec', [], out) \<and>
     ec_state ec' = Ready \<and> out = [(8, handshake_ok None)]"
proof -
  let ?ec = "encrypted_new toy_crypto default_config [1] (8 :: nat)"
  obtain ec' ms out where r: "encrypted_receive toy_crypto toy_json (\<lambda>_. 3) (\<lambda>_. 0) [7] ?ec = (ec', ms, out)"
    by (cases "encrypted_receive toy_crypto toy_json (\<lambda>_. 3) (\<lambda>_. 0) [7] ?ec")
  have "\<exists>okm. handshake_okm toy_crypto toy_json (long_term_secret ?ec) [7] = Some okm"
    by (simp add: handshake_okm_def toy_json_def tree_lib_def toy_crypto_def json_access)
  with handshake_all_or_nothing [OF _ r] show ?thesis
    using r by (auto simp: encrypted_new_def)
qed

text \<open>
  A reset starts over. Whatever the channel held, after \<^const>\<open>reset_for_reconnect\<close> both keys are
  gone: no send is possible, a tick writes nothing, no earlier frame is decrypted, and the inner channel
  is a fresh one with the same configuration and session id.
\<close>

theorem reset_starts_over:
  "(let ec' = reset_for_reconnect tx ec in
      encrypted_send K crc clk pl pri ec' = None \<and> encrypted_tick K ec' = (ec', []) \<and>
      decrypt_frame K data ec' = None \<and> \<not> is_ready ec' \<and> raw_tx ec' = tx \<and>
      inner ec' = set_session_id (session_id (inner ec)) (channel_new (cfg (inner ec)) ()))"
  by (simp add: reset_for_reconnect_def encrypted_send_def is_ready_def encrypted_tick_def tick_def
      channel_reset_def decrypt_frame_def channel_new_def set_session_id_def set_transport_def Let_def)

end
