(* ===== verification/Backoff.thy ===== *)
theory Backoff
  imports B3_Prelude
begin

text \<open>
  \<open>src/crates/b3-common/src/backoff.rs\<close>, \<open>limits.rs\<close> and \<open>errors.rs\<close>: the exponential backoff every
  retry loop shares, the limits with their compile-time assertions, and the classification of HTTP
  results. A \<open>Duration\<close> is its number of nanoseconds; multiplying it panics beyond its range.
\<close>

section \<open>Limits\<close>

definition MAX_BUFFER_BYTES :: nat where "MAX_BUFFER_BYTES = 256 * 1024"
definition SERVER_BODY_LIMIT :: nat where "SERVER_BODY_LIMIT = 15 * 1024 * 1024"
definition SSE_KEEPALIVE_INTERVAL :: nat where "SSE_KEEPALIVE_INTERVAL = 15"
definition SSE_TIMEOUT :: nat where "SSE_TIMEOUT = 60"
definition MIN_PUSH_INTERVAL_MS :: nat where "MIN_PUSH_INTERVAL_MS = 100"
definition FAILURE_LOG_INTERVAL :: u32 where "FAILURE_LOG_INTERVAL = 50"
definition MAX_DELTA_BYTES :: nat where "MAX_DELTA_BYTES = MAX_BUFFER_BYTES"

text \<open>The assertions the compiler checks.\<close>

definition limits_asserted :: bool where
  "limits_asserted \<longleftrightarrow>
     MAX_BUFFER_BYTES * 4 div 3 + 1024 < SERVER_BODY_LIMIT \<and>
     SERVER_BODY_LIMIT < 25 * 1024 * 1024 \<and>
     SSE_TIMEOUT \<ge> SSE_KEEPALIVE_INTERVAL * 3"


section \<open>Results of operations\<close>

datatype 'a op_result =
    Op_Ok 'a
  | Permanent_Failure string "u16 option"
  | Transient_Failure string "u16 option"
  | Network_Error string

definition op_is_ok :: "'a op_result \<Rightarrow> bool" where
  "op_is_ok r = (case r of Op_Ok _ \<Rightarrow> True | _ \<Rightarrow> False)"

definition op_is_permanent :: "'a op_result \<Rightarrow> bool" where
  "op_is_permanent r = (case r of Permanent_Failure _ _ \<Rightarrow> True | _ \<Rightarrow> False)"

definition from_http_status :: "u16 \<Rightarrow> unit op_result" where
  "from_http_status status =
     (if 200 \<le> status \<and> status \<le> 299 then Op_Ok ()
      else if status \<in> {400, 401, 403, 404, 413, 422}
           then Permanent_Failure (''HTTP '' @ show_nat (unat status)) (Some status)
      else Transient_Failure (''HTTP '' @ show_nat (unat status)) (Some status))"


section \<open>Backoff\<close>

definition DURATION_MAX :: nat where "DURATION_MAX = (2 ^ 64 - 1) * 10 ^ 9 + 999999999"

definition duration_mul :: "nat \<Rightarrow> nat \<Rightarrow> nat option" where
  "duration_mul d k = (if d * k \<le> DURATION_MAX then Some (d * k) else None)"

record backoff =
  bo_base :: nat
  bo_max :: nat
  bo_current :: nat
  consecutive_failures :: u32

definition backoff_new :: "nat \<Rightarrow> nat \<Rightarrow> backoff" where
  "backoff_new base mx = \<lparr>bo_base = base, bo_max = mx, bo_current = base, consecutive_failures = 0\<rparr>"

definition next_delay :: "backoff \<Rightarrow> (backoff \<times> nat) option" where
  "next_delay b =
     (case duration_mul (bo_current b) 2 of
        None \<Rightarrow> None
      | Some d \<Rightarrow> Some (b\<lparr>consecutive_failures := consecutive_failures b + 1, bo_current := min d (bo_max b)\<rparr>, bo_current b))"

definition next_delay_max :: "backoff \<Rightarrow> backoff \<times> nat" where
  "next_delay_max b =
     (b\<lparr>consecutive_failures := consecutive_failures b + 1, bo_current := bo_max b\<rparr>, bo_max b)"

definition current_delay :: "backoff \<Rightarrow> nat" where
  "current_delay b = bo_current b"

definition backoff_reset :: "backoff \<Rightarrow> backoff" where
  "backoff_reset b = b\<lparr>consecutive_failures := 0, bo_current := bo_base b\<rparr>"

definition should_log :: "backoff \<Rightarrow> bool" where
  "should_log b \<longleftrightarrow>
     consecutive_failures b > 0 \<and>
     (consecutive_failures b = 1 \<or> consecutive_failures b mod FAILURE_LOG_INTERVAL = 0)"

text \<open>A run of consecutive failures, each asking for the next delay.\<close>

fun delays :: "nat \<Rightarrow> backoff \<Rightarrow> (backoff \<times> nat list) option" where
  "delays 0 b = Some (b, [])"
| "delays (Suc n) b =
     (case next_delay b of
        None \<Rightarrow> None
      | Some (b1, d) \<Rightarrow> (case delays n b1 of None \<Rightarrow> None | Some (b2, ds) \<Rightarrow> Some (b2, d # ds)))"

definition backoff_ok :: "backoff \<Rightarrow> bool" where
  "backoff_ok b \<longleftrightarrow> bo_base b \<le> bo_max b \<and> bo_current b \<le> bo_max b \<and> bo_max b * 2 \<le> DURATION_MAX"

lemma next_delay_ok:
  "backoff_ok b \<Longrightarrow> next_delay b = Some
     (b\<lparr>consecutive_failures := consecutive_failures b + 1, bo_current := min (bo_current b * 2) (bo_max b)\<rparr>, bo_current b)"
  by (simp add: backoff_ok_def next_delay_def duration_mul_def)

lemma backoff_ok_events:
  assumes "backoff_ok b"
  shows "backoff_ok (backoff_reset b)" and "backoff_ok (fst (next_delay_max b))"
    and "next_delay b = Some (b', d) \<Longrightarrow> backoff_ok b'"
  using assms by (auto simp: next_delay_ok) (auto simp: backoff_ok_def backoff_reset_def next_delay_max_def)

lemma delays_ok:
  "backoff_ok b \<Longrightarrow>
     \<exists>b'. delays n b = Some (b', map (\<lambda>k. min (bo_current b * 2 ^ k) (bo_max b)) [0..<n]) \<and> backoff_ok b' \<and>
       bo_base b' = bo_base b \<and> bo_current b' = min (bo_current b * 2 ^ n) (bo_max b) \<and>
       consecutive_failures b' = consecutive_failures b + of_nat n"
proof (induction n arbitrary: b)
  case 0
  then show ?case by (simp add: backoff_ok_def)
next
  case (Suc n)
  let ?b1 = "b\<lparr>consecutive_failures := consecutive_failures b + 1, bo_current := min (bo_current b * 2) (bo_max b)\<rparr>"
  have ok: "backoff_ok ?b1" using Suc.prems by (auto simp: backoff_ok_def)
  have mins: "min (min (c * 2) m * 2 ^ k) m = min (c * 2 ^ Suc k) m" if "c \<le> m" for c m k :: nat
  proof (cases "c * 2 \<le> m")
    case False
    have one: "(1 :: nat) \<le> 2 ^ k" by simp
    have "m \<le> m * 2 ^ k" using mult_le_mono2 [OF one, of m] by simp
    moreover have "m \<le> c * 2 ^ Suc k"
      using mult_le_mono [of m "c * 2" 1 "2 ^ k"] False one by (simp add: mult.assoc)
    ultimately show ?thesis using False by (metis linorder_not_le min.absorb2 min.absorb4)
  qed (simp add: mult.assoc)
  have le: "bo_current b \<le> bo_max b" using Suc.prems by (simp add: backoff_ok_def)
  have hd: "map (\<lambda>k. min (bo_current b * 2 ^ k) (bo_max b)) [0..<Suc n] =
      bo_current b # map (\<lambda>k. min (bo_current b * 2 ^ Suc k) (bo_max b)) [0..<n]"
    using le unfolding map_upt_Suc by simp
  from Suc.IH [OF ok] obtain b' where
    b': "delays n ?b1 = Some (b', map (\<lambda>k. min (bo_current b * 2 ^ Suc k) (bo_max b)) [0..<n])" "backoff_ok b'"
      "bo_base b' = bo_base b" "bo_current b' = min (bo_current b * 2 ^ Suc n) (bo_max b)"
      "consecutive_failures b' = consecutive_failures b + 1 + of_nat n"
    using mins [OF le] by (auto simp del: power_Suc)
  have "delays (Suc n) b = Some (b', map (\<lambda>k. min (bo_current b * 2 ^ k) (bo_max b)) [0..<Suc n])"
    unfolding hd by (simp add: next_delay_ok [OF Suc.prems] b'(1) del: power_Suc)
  with b'(2-5) show ?case by (intro exI [of _ b']) (simp del: power_Suc upt_Suc)
qed

lemma next_delay_max_field: "next_delay b = Some (b', d) \<Longrightarrow> bo_max b' = bo_max b"
  by (auto simp: next_delay_def split: option.splits)

lemma delays_max: "delays n b = Some (b', ds) \<Longrightarrow> bo_max b' = bo_max b"
proof (induction n arbitrary: b ds)
  case (Suc n)
  then obtain b1 d ds' where "next_delay b = Some (b1, d)" and "delays n b1 = Some (b', ds')"
    by (auto split: option.splits)
  with Suc.IH show ?case using next_delay_max_field by metis
qed simp

lemma should_log_iff:
  assumes "unat (consecutive_failures b) = n"
  shows "should_log b \<longleftrightarrow> n = 1 \<or> 0 < n \<and> n mod 50 = 0"
proof -
  have "consecutive_failures b mod 50 = 0 \<longleftrightarrow> n mod 50 = 0"
    unfolding word_unat_eq_iff unat_mod_distrib assms by simp
  moreover have "consecutive_failures b > 0 \<longleftrightarrow> n > 0" unfolding word_less_nat_alt assms by simp
  moreover have "consecutive_failures b = 1 \<longleftrightarrow> n = 1" unfolding word_unat_eq_iff assms by simp
  ultimately show ?thesis by (auto simp: should_log_def FAILURE_LOG_INTERVAL_def)
qed

lemma sorted_min_map: "sorted (map (\<lambda>k. min (base * 2 ^ k) (mx :: nat)) [0..<n])"
proof -
  have "base * 2 ^ i \<le> base * 2 ^ j" if "i \<le> j" for i j :: nat
    using power_increasing [OF that, of "2 :: nat"] by (intro mult_le_mono2) simp
  then have "min (base * 2 ^ i) mx \<le> min (base * 2 ^ j) mx" if "i \<le> j" for i j :: nat
    using that by (meson min.mono order.refl)
  then show ?thesis by (simp add: sorted_iff_nth_mono)
qed

text \<open>
  The backoff of \<open>n\<close> consecutive failures: no panic, the \<open>k\<close>-th delay is the base doubled \<open>k\<close> times
  and capped, so the delays never decrease and never exceed the cap, the failure counter is \<open>n\<close>, a log
  line is due exactly at the first and every 50th failure, and a reset gives the base delay again.
\<close>

theorem backoff_doubles_up_to_cap:
  assumes "base \<le> mx" and "mx * 2 \<le> DURATION_MAX" and "n < 2 ^ 32"
  shows "\<exists>b. delays n (backoff_new base mx) = Some (b, map (\<lambda>k. min (base * 2 ^ k) mx) [0..<n]) \<and>
    unat (consecutive_failures b) = n \<and> (should_log b \<longleftrightarrow> n = 1 \<or> 0 < n \<and> n mod 50 = 0) \<and>
    current_delay (backoff_reset b) = base \<and> consecutive_failures (backoff_reset b) = 0 \<and>
    snd (next_delay_max b) = mx \<and> sorted (map (\<lambda>k. min (base * 2 ^ k) mx) [0..<n])"
proof -
  have "backoff_ok (backoff_new base mx)" using assms by (simp add: backoff_ok_def backoff_new_def)
  from delays_ok [OF this, of n] obtain b where
    b: "delays n (backoff_new base mx) = Some (b, map (\<lambda>k. min (base * 2 ^ k) mx) [0..<n])"
      "bo_base b = base" "consecutive_failures b = of_nat n" by (auto simp: backoff_new_def)
  have ok: "bo_max b = mx" using delays_max [OF b(1)] by (simp add: backoff_new_def)
  have u: "unat (consecutive_failures b) = n" using b(3) assms(3) by (simp only: unat_of_nat_u32)
  have "sorted (map (\<lambda>k. min (base * 2 ^ k) mx) [0..<n])"
    by (intro sorted_min_map)
  then show ?thesis
    using b(1) b(2) u ok should_log_iff [OF u]
    by (intro exI [of _ b]) (simp add: current_delay_def backoff_reset_def next_delay_max_def)
qed

theorem backoff_doubles_up_to_cap_witness:
  "\<exists>b. delays 7 (backoff_new 1000000000 30000000000) =
     Some (b, map ((*) 1000000000) [1, 2, 4, 8, 16, 30, 30])"
  using backoff_doubles_up_to_cap [of 1000000000 30000000000 7]
  by (auto simp: DURATION_MAX_def upt_conv_Cons)

end
