(* ===== verification/Health.thy ===== *)
theory Health
  imports B3_Prelude
begin

text \<open>
  \<open>src/crates/b3-common/src/health.rs\<close>: the registry in which every subsystem reports success and failure.
  The registry is shared behind a lock, every operation takes the lock once, so an execution is a sequence
  of whole operations. A handle is its index; an \<open>Instant\<close> is a number of nanoseconds, and
  \<open>duration_since\<close> saturates at zero.
\<close>

record subsystem_state =
  ss_name :: string
  ss_healthy :: bool
  ss_last_success :: "nat option"
  ss_last_failure :: "nat option"
  ss_failures :: u32
  ss_detail :: string

record subsystem_health =
  sh_name :: string
  sh_healthy :: bool
  sh_last_success :: "nat option"
  sh_last_failure :: "nat option"
  sh_failures :: u32
  sh_detail :: string

type_synonym health_registry = "subsystem_state list"

definition as_secs :: "nat \<Rightarrow> nat" where
  "as_secs d = d div 10 ^ 9"

definition snapshot :: "nat \<Rightarrow> subsystem_state \<Rightarrow> subsystem_health" where
  "snapshot now s =
     \<lparr>sh_name = ss_name s, sh_healthy = ss_healthy s,
      sh_last_success = map_option (\<lambda>t. as_secs (now - t)) (ss_last_success s),
      sh_last_failure = map_option (\<lambda>t. as_secs (now - t)) (ss_last_failure s),
      sh_failures = ss_failures s, sh_detail = ss_detail s\<rparr>"

definition registry_new :: health_registry where
  "registry_new = []"

definition register :: "string \<Rightarrow> health_registry \<Rightarrow> health_registry \<times> nat" where
  "register name subs =
     (subs @ [\<lparr>ss_name = name, ss_healthy = True, ss_last_success = None, ss_last_failure = None,
               ss_failures = 0, ss_detail = ''registered, no activity yet''\<rparr>], length subs)"

text \<open>The clock is read once per subsystem: \<open>now\<close> gives the reading at each index.\<close>

definition health_report :: "(nat \<Rightarrow> nat) \<Rightarrow> health_registry \<Rightarrow> subsystem_health list" where
  "health_report now subs = map (\<lambda>i. snapshot (now i) (subs ! i)) [0..<length subs]"

definition is_healthy :: "health_registry \<Rightarrow> bool" where
  "is_healthy subs = list_all ss_healthy subs"

text \<open>\<open>if let Some(state) = subs.get_mut(i)\<close>.\<close>

definition update_sub :: "nat \<Rightarrow> (subsystem_state \<Rightarrow> subsystem_state) \<Rightarrow> health_registry \<Rightarrow> health_registry" where
  "update_sub i f subs = (if i < length subs then subs[i := f (subs ! i)] else subs)"

definition record_success :: "nat \<Rightarrow> nat \<Rightarrow> health_registry \<Rightarrow> health_registry" where
  "record_success i now =
     update_sub i (\<lambda>s. s\<lparr>ss_healthy := True, ss_last_success := Some now, ss_failures := 0, ss_detail := ''ok''\<rparr>)"

definition record_failure :: "nat \<Rightarrow> nat \<Rightarrow> string \<Rightarrow> health_registry \<Rightarrow> health_registry" where
  "record_failure i now detail =
     update_sub i (\<lambda>s.
       let s1 = s\<lparr>ss_last_failure := Some now, ss_failures := ss_failures s + 1, ss_detail := detail\<rparr>
       in if ss_failures s1 \<ge> 3 then s1\<lparr>ss_healthy := False\<rparr> else s1)"

definition set_detail :: "nat \<Rightarrow> string \<Rightarrow> health_registry \<Rightarrow> health_registry" where
  "set_detail i detail = update_sub i (\<lambda>s. s\<lparr>ss_detail := detail\<rparr>)"


section \<open>Executions\<close>

datatype health_event =
    Register string
  | Record_Success nat nat
  | Record_Failure nat nat string
  | Set_Detail nat string

definition health_step :: "health_registry \<Rightarrow> health_event \<Rightarrow> health_registry" where
  "health_step subs e =
     (case e of
        Register name \<Rightarrow> fst (register name subs)
      | Record_Success i now \<Rightarrow> record_success i now subs
      | Record_Failure i now d \<Rightarrow> record_failure i now d subs
      | Set_Detail i d \<Rightarrow> set_detail i d subs)"

text \<open>What a reader of the events expects: the failures of subsystem \<open>i\<close> since its last success.\<close>

definition succeeds :: "nat \<Rightarrow> health_event \<Rightarrow> bool" where
  "succeeds i e = (case e of Record_Success j _ \<Rightarrow> i = j | _ \<Rightarrow> False)"

definition fails :: "nat \<Rightarrow> health_event \<Rightarrow> bool" where
  "fails i e = (case e of Record_Failure j _ _ \<Rightarrow> i = j | _ \<Rightarrow> False)"

definition failure_streak :: "nat \<Rightarrow> health_event list \<Rightarrow> nat" where
  "failure_streak i es = length (filter (fails i) (takeWhile (\<lambda>e. \<not> succeeds i e) (rev es)))"

definition is_register :: "health_event \<Rightarrow> bool" where
  "is_register e = (case e of Register _ \<Rightarrow> True | _ \<Rightarrow> False)"

lemma streak_simps [simp]:
  "failure_streak i [] = 0"
  "failure_streak i (es @ [e]) =
     (if succeeds i e then 0 else if fails i e then Suc (failure_streak i es) else failure_streak i es)"
  by (simp_all add: failure_streak_def)

lemmas health_defs = health_step_def register_def record_success_def record_failure_def set_detail_def update_sub_def

lemma length_step [simp]:
  "length (health_step subs e) = (if is_register e then Suc (length subs) else length subs)"
  by (cases e) (simp_all add: health_defs is_register_def)

lemma length_run: "length (foldl health_step subs es) = length subs + length (filter is_register es)"
  by (induction es arbitrary: subs) simp_all

text \<open>
  The counter is the streak modulo \<open>2 ^ 32\<close>; the flag is exact even when the counter wraps, because it is
  cleared once and set again by a success only.
\<close>

definition tracks :: "nat \<Rightarrow> subsystem_state \<Rightarrow> bool" where
  "tracks n s \<longleftrightarrow> ss_failures s = of_nat n \<and> (ss_healthy s \<longleftrightarrow> n < 3)"

lemma three_le_of_nat: "n < 3 \<Longrightarrow> (3 :: u32) \<le> of_nat n + 1 \<longleftrightarrow> n = 2"
proof -
  assume "n < 3"
  then consider "n = 0" | "n = 1" | "n = 2" by linarith
  then show ?thesis by cases (simp_all add: word_le_nat_alt)
qed

lemma tracks_step:
  assumes "i < length subs" and "tracks n (subs ! i)"
  shows "tracks (if succeeds i e then 0 else if fails i e then Suc n else n) (health_step subs e ! i)"
proof (cases "n < 3")
  case True
  then show ?thesis using assms three_le_of_nat [OF True]
    by (cases e) (auto simp: tracks_def health_defs succeeds_def fails_def nth_append nth_list_update Let_def add.commute)
next
  case False
  then show ?thesis using assms
    by (cases e) (auto simp: tracks_def health_defs succeeds_def fails_def nth_append nth_list_update Let_def)
qed

lemma tracks_run:
  assumes "i < length subs" and "tracks 0 (subs ! i)"
  shows "tracks (failure_streak i es) (foldl health_step subs es ! i)"
proof (induction es rule: rev_induct)
  case (snoc e es)
  have "i < length (foldl health_step subs es)" using assms(1) by (simp add: length_run)
  from tracks_step [OF this snoc.IH, of e] show ?case by simp
qed (simp add: assms)

lemma name_run:
  "i < length subs \<Longrightarrow> ss_name (foldl health_step subs es ! i) = ss_name (subs ! i)"
proof (induction es arbitrary: subs)
  case (Cons e es)
  have "ss_name (health_step subs e ! i) = ss_name (subs ! i)"
    using Cons.prems by (cases e) (auto simp: health_defs nth_append nth_list_update Let_def)
  with Cons show ?case by simp
qed simp

text \<open>
  Health is what the events say. Register a subsystem and let any events follow, of any subsystem in
  any interleaving: its entry keeps its name, its counter is the number of its own failures since its last
  success (modulo the width), and it is healthy exactly if these are fewer than three; the snapshot says so.
\<close>

theorem health_is_the_streak:
  assumes "i = length (filter is_register es1)"
  shows "let subs = foldl health_step registry_new (es1 @ Register name # es2);
             h = health_report now subs ! i
         in i < length subs \<and> sh_name h = name \<and> sh_failures h = of_nat (failure_streak i es2) \<and>
            (sh_healthy h \<longleftrightarrow> failure_streak i es2 < 3) \<and>
            (is_healthy subs \<longleftrightarrow> (\<forall>h \<in> set (health_report now subs). sh_healthy h))"
proof -
  let ?s0 = "foldl health_step registry_new es1" and ?subs = "foldl health_step registry_new (es1 @ Register name # es2)"
  have i: "length ?s0 = i" using assms by (simp add: length_run registry_new_def)
  let ?s1 = "health_step ?s0 (Register name)"
  have fresh: "i < length ?s1" "tracks 0 (?s1 ! i)" "ss_name (?s1 ! i) = name"
    using i by (simp_all add: health_defs tracks_def is_register_def nth_append)
  have len: "i < length ?subs" using fresh(1) by (simp add: length_run)
  have "tracks (failure_streak i es2) (?subs ! i)" "ss_name (?subs ! i) = name"
    using tracks_run [OF fresh(1,2), of es2] name_run [OF fresh(1), of es2] fresh(3) by simp_all
  moreover have "is_healthy ?subs \<longleftrightarrow> (\<forall>h \<in> set (health_report now ?subs). sh_healthy h)"
    by (auto simp: is_healthy_def health_report_def snapshot_def list_all_length)
  ultimately show ?thesis
    using len by (simp add: Let_def health_report_def snapshot_def tracks_def)
qed

theorem health_is_the_streak_witness:
  "sh_healthy (health_report (\<lambda>_. 9) (foldl health_step registry_new
     [Register ''a'', Record_Failure 0 1 ''x'', Register ''b'', Record_Failure 1 2 ''y'', Record_Failure 0 3 ''x'',
      Record_Failure 1 4 ''y'', Record_Success 1 5, Record_Failure 1 6 ''y'', Record_Failure 0 7 ''x'']) ! 1)"
  using health_is_the_streak [of 1 "[Register ''a'', Record_Failure 0 1 ''x'']" "''b''"
    "[Record_Failure 1 2 ''y'', Record_Failure 0 3 ''x'',
      Record_Failure 1 4 ''y'', Record_Success 1 5, Record_Failure 1 6 ''y'', Record_Failure 0 7 ''x'']" "\<lambda>_. 9"]
  by (simp add: is_register_def failure_streak_def succeeds_def fails_def Let_def)

end
