(* ===== verification/Base64.thy ===== *)
theory Base64
  imports B3_Prelude
begin

text \<open>
  The two hand-written halves of base64: the encoder of \<open>src/crates/b3-webrtc/src/signaling.rs\<close>, which
  pads, and the decoder of \<open>src/crates/b3-common/src/tts.rs\<close>, which takes the padding as optional. Text
  is its UTF-8 bytes.
\<close>

section \<open>Encoder\<close>

definition B64_CHARS :: bytes where
  "B64_CHARS = map of_nat ([65..<91] @ [97..<123] @ [48..<58] @ [43, 47])"

definition b64_triple :: "bytes \<Rightarrow> u32" where
  "b64_triple chunk =
     (let b0 = ucast (chunk ! 0);
          b1 = (if 1 < length chunk then ucast (chunk ! 1) else 0);
          b2 = (if 2 < length chunk then ucast (chunk ! 2) else 0)
      in push_bit 16 b0 OR push_bit 8 b1 OR b2)"

definition b64_char :: "u32 \<Rightarrow> u8" where
  "b64_char w = B64_CHARS ! unat (w AND 0x3F)"

definition b64_group :: "bytes \<Rightarrow> bytes" where
  "b64_group chunk =
     (let triple = b64_triple chunk
      in [b64_char (drop_bit 18 triple), b64_char (drop_bit 12 triple),
          if length chunk > 1 then b64_char (drop_bit 6 triple) else 61,
          if length chunk > 2 then b64_char triple else 61])"

definition base64_encode :: "bytes \<Rightarrow> bytes" where
  "base64_encode data = concat (map b64_group (chunks 3 data))"


section \<open>Decoder\<close>

definition B64_TABLE :: bytes where
  "B64_TABLE =
     (let t = fold (\<lambda>i t. t[65 + i := of_nat i, 97 + i := of_nat (i + 26)]) [0..<26] (replicate 128 255);
          t = fold (\<lambda>d t. t[48 + d := of_nat (d + 52)]) [0..<10] t
      in t[43 := 62, 47 := 63])"

definition table_get :: "u8 \<Rightarrow> u8 option" where
  "table_get c = (if unat c < 128 then Some (B64_TABLE ! unat c) else None)"

text \<open>\<open>trim_end_matches('=')\<close>.\<close>

definition trim_end :: "u8 \<Rightarrow> bytes \<Rightarrow> bytes" where
  "trim_end c s = rev (dropWhile (\<lambda>x. x = c) (rev s))"

text \<open>The lookups come first, then the test of all their results.\<close>

definition lookups :: "bytes \<Rightarrow> string + u8 list" where
  "lookups cs =
     (if \<exists>c \<in> set cs. table_get c = None then Inl ''invalid''
      else if \<exists>c \<in> set cs. table_get c = Some 255 then Inl ''invalid base64 character''
      else Inr (map (\<lambda>c. the (table_get c)) cs))"

fun b64_loop :: "bytes \<Rightarrow> string + bytes" where
  "b64_loop (x0 # x1 # x2 # x3 # rest) =
     (case lookups [x0, x1, x2, x3] of
        Inl e \<Rightarrow> Inl e
      | Inr v \<Rightarrow>
          (let n = push_bit 18 (ucast (v ! 0) :: u32) OR push_bit 12 (ucast (v ! 1)) OR
                   push_bit 6 (ucast (v ! 2)) OR ucast (v ! 3)
           in case b64_loop rest of
                Inl e \<Rightarrow> Inl e
              | Inr out \<Rightarrow> Inr (ucast (drop_bit 16 n) # ucast (drop_bit 8 n) # ucast n # out)))"
| "b64_loop [x0, x1] =
     (case lookups [x0, x1] of
        Inl e \<Rightarrow> Inl e
      | Inr v \<Rightarrow> Inr [ucast (push_bit 2 (ucast (v ! 0) :: u32) OR drop_bit 4 (ucast (v ! 1)))])"
| "b64_loop [x0, x1, x2] =
     (case lookups [x0, x1, x2] of
        Inl e \<Rightarrow> Inl e
      | Inr v \<Rightarrow> Inr [ucast (push_bit 2 (ucast (v ! 0) :: u32) OR drop_bit 4 (ucast (v ! 1))),
                     ucast (push_bit 4 (ucast (v ! 1) :: u32) OR drop_bit 2 (ucast (v ! 2)))])"
| "b64_loop [] = Inr []"
| "b64_loop [x0] = Inr []"

definition base64_decode :: "bytes \<Rightarrow> string + bytes" where
  "base64_decode input = b64_loop (trim_end 61 input)"


section \<open>The round trip\<close>

text \<open>The alphabet and the table are inverse.\<close>

lemma B64_CHARS_eval: "B64_CHARS = [
   65, 66, 67, 68, 69, 70, 71, 72, 73, 74, 75, 76, 77, 78, 79, 80, 81, 82, 83, 84, 85, 86, 87, 88, 89, 90,
   97, 98, 99, 100, 101, 102, 103, 104, 105, 106, 107, 108, 109, 110, 111, 112, 113, 114, 115, 116, 117, 118,
   119, 120, 121, 122, 48, 49, 50, 51, 52, 53, 54, 55, 56, 57, 43, 47]"
  by (simp add: B64_CHARS_def upt_conv_Cons)

lemma B64_TABLE_eval: "B64_TABLE = [
   255, 255, 255, 255, 255, 255, 255, 255, 255, 255, 255, 255, 255, 255, 255, 255, 255, 255, 255, 255, 255,
   255, 255, 255, 255, 255, 255, 255, 255, 255, 255, 255, 255, 255, 255, 255, 255, 255, 255, 255, 255, 255,
   255, 62, 255, 255, 255, 63, 52, 53, 54, 55, 56, 57, 58, 59, 60, 61, 255, 255, 255, 255, 255, 255, 255, 0,
   1, 2, 3, 4, 5, 6, 7, 8, 9, 10, 11, 12, 13, 14, 15, 16, 17, 18, 19, 20, 21, 22, 23, 24, 25, 255, 255, 255,
   255, 255, 255, 26, 27, 28, 29, 30, 31, 32, 33, 34, 35, 36, 37, 38, 39, 40, 41, 42, 43, 44, 45, 46, 47, 48,
   49, 50, 51, 255, 255, 255, 255, 255]"
  by code_simp

lemma table_chars_eval:
  "list_all (\<lambda>k. unat (B64_CHARS ! k) < 128 \<and> B64_CHARS ! k \<noteq> 61 \<and> B64_TABLE ! unat (B64_CHARS ! k) = of_nat k) [0..<64]"
  unfolding B64_CHARS_eval B64_TABLE_eval by code_simp

lemma table_get_char:
  assumes "unat (w AND 0x3F) = k"
  shows "table_get (b64_char w) = Some (of_nat k)" and "b64_char w \<noteq> 61"
proof -
  have "w AND 0x3F = take_bit 6 w"
    by (simp add: take_bit_eq_mask mask_eq_exp_minus_1)
  then have "unat (w AND 0x3F) < 64"
    using take_bit_nat_less_exp [of 6 "unat w"] by (simp add: unsigned_take_bit_eq)
  then have "k \<in> set [0..<64]" using assms by simp
  with table_chars_eval have "unat (B64_CHARS ! k) < 128 \<and> B64_CHARS ! k \<noteq> 61 \<and> B64_TABLE ! unat (B64_CHARS ! k) = of_nat k"
    unfolding list_all_iff by blast
  with assms show "table_get (b64_char w) = Some (of_nat k)" and "b64_char w \<noteq> 61"
    by (simp_all add: table_get_def b64_char_def)
qed

definition sextet :: "u32 \<Rightarrow> u8" where
  "sextet w = ucast (take_bit 6 w)"

lemma table_get_sextet: "table_get (b64_char w) = Some (sextet w)" and sextet_not_pad [simp]: "b64_char w \<noteq> 61"
  and sextet_valid: "sextet w \<noteq> 255"
proof -
  have m: "w AND 0x3F = take_bit 6 w" by (simp add: take_bit_eq_mask mask_eq_exp_minus_1)
  show "table_get (b64_char w) = Some (sextet w)"
    using table_get_char(1) [OF refl, of w] by (simp add: m sextet_def unsigned_ucast_eq of_nat_unat)
  show "b64_char w \<noteq> 61" using table_get_char(2) [OF refl, of w] .
  have "\<not> bit (sextet w) 7" by (simp add: sextet_def bit_simps)
  moreover have "bit (255 :: u8) 7" by simp
  ultimately show "sextet w \<noteq> 255" by metis
qed

lemma lookups_chars: "lookups (map b64_char ws) = Inr (map sextet ws)"
proof -
  have "\<not> (\<exists>c \<in> set (map b64_char ws). table_get c = None)"
    and "\<not> (\<exists>c \<in> set (map b64_char ws). table_get c = Some 255)"
    using table_get_sextet sextet_valid by fastforce+
  moreover have "map (\<lambda>c. the (table_get c)) (map b64_char ws) = map sextet ws"
    by (simp only: map_map comp_def table_get_sextet option.sel)
  ultimately show ?thesis unfolding lookups_def by simp
qed

text \<open>The bytes of a group, from its sextets.\<close>

lemma bit_triple:
  "bit (b64_triple [a, b, c]) n \<longleftrightarrow>
     (if n < 8 then bit c n else if n < 16 then bit b (n - 8) else n < 32 \<and> bit a (n - 16))"
  "bit (b64_triple [a, b]) n \<longleftrightarrow>
     8 \<le> n \<and> (if n < 16 then bit b (n - 8) else n < 32 \<and> bit a (n - 16))"
  "bit (b64_triple [a]) n \<longleftrightarrow> 16 \<le> n \<and> n < 32 \<and> bit a (n - 16)"
  by (auto simp: b64_triple_def bit_simps not_less dest: bit_imp_le_length)

lemma unsextet:
  fixes w :: u32
  defines "v0 \<equiv> ucast (sextet (drop_bit 18 w)) :: u32" and "v1 \<equiv> ucast (sextet (drop_bit 12 w)) :: u32"
    and "v2 \<equiv> ucast (sextet (drop_bit 6 w)) :: u32" and "v3 \<equiv> ucast (sextet w) :: u32"
  shows "push_bit 18 v0 OR push_bit 12 v1 OR push_bit 6 v2 OR v3 = take_bit 24 w"
    and "(ucast (push_bit 2 v0 OR drop_bit 4 v1) :: u8) = ucast (drop_bit 16 w)"
    and "(ucast (push_bit 4 v1 OR drop_bit 2 v2) :: u8) = ucast (drop_bit 8 w)"
proof -
  show "push_bit 18 v0 OR push_bit 12 v1 OR push_bit 6 v2 OR v3 = take_bit 24 w"
  proof (rule bit_word_eqI)
    fix n assume "n < LENGTH(32)"
    consider "n < 6" | "6 \<le> n" "n < 12" | "12 \<le> n" "n < 18" | "18 \<le> n" "n < 24" | "24 \<le> n" by linarith
    then show "bit (push_bit 18 v0 OR push_bit 12 v1 OR push_bit 6 v2 OR v3) n \<longleftrightarrow> bit (take_bit 24 w) n"
      by cases (auto simp: v0_def v1_def v2_def v3_def sextet_def bit_simps)
  qed
  show "(ucast (push_bit 2 v0 OR drop_bit 4 v1) :: u8) = ucast (drop_bit 16 w)"
    by (rule bit_word_eqI) (auto simp: v0_def v1_def sextet_def bit_simps)
  show "(ucast (push_bit 4 v1 OR drop_bit 2 v2) :: u8) = ucast (drop_bit 8 w)"
    by (rule bit_word_eqI) (auto simp: v1_def v2_def sextet_def bit_simps)
qed

lemma triple_bytes:
  "(ucast (drop_bit 16 (b64_triple (a # r))) :: u8) = a"
  "(ucast (drop_bit 8 (b64_triple (a # b # r))) :: u8) = b"
  "(ucast (b64_triple [a, b, c]) :: u8) = c"
  by (rule bit_word_eqI; auto simp: b64_triple_def bit_simps dest: bit_imp_le_length)+

text \<open>An encoding without its padding, and the number of padding characters.\<close>

fun b64_body :: "bytes \<Rightarrow> bytes" where
  "b64_body (a # b # c # rest) =
     map (\<lambda>k. b64_char (drop_bit k (b64_triple [a, b, c]))) [18, 12, 6, 0] @ b64_body rest"
| "b64_body [a, b] = map (\<lambda>k. b64_char (drop_bit k (b64_triple [a, b]))) [18, 12, 6]"
| "b64_body [a] = map (\<lambda>k. b64_char (drop_bit k (b64_triple [a]))) [18, 12]"
| "b64_body [] = []"

definition b64_pads :: "bytes \<Rightarrow> nat" where
  "b64_pads data = (3 - length data mod 3) mod 3"

lemma base64_encode_body: "base64_encode data = b64_body data @ replicate (b64_pads data) 61"
proof (induction data rule: b64_body.induct)
  case (1 a b c rest)
  have "chunks 3 (a # b # c # rest) = [a, b, c] # chunks 3 rest" by (simp add: chunks_step)
  moreover have "b64_pads (a # b # c # rest) = b64_pads rest" by (simp add: b64_pads_def)
  ultimately show ?case using 1 by (simp add: base64_encode_def b64_group_def Let_def)
qed (simp_all add: base64_encode_def b64_group_def chunks_step b64_pads_def Let_def numeral_2_eq_2)

lemma body_no_pad: "x \<in> set (b64_body data) \<Longrightarrow> x \<noteq> 61"
  by (induction data rule: b64_body.induct) auto

lemma trim_end_replicate: "\<forall>x \<in> set s. x \<noteq> c \<Longrightarrow> trim_end c (s @ replicate n c) = s"
proof -
  assume s: "\<forall>x \<in> set s. x \<noteq> c"
  have "dropWhile (\<lambda>x. x = c) (rev s) = rev s" using s by (cases "rev s") (auto simp: dropWhile_eq_self_iff)
  then show ?thesis by (simp add: trim_end_def dropWhile_append)
qed

lemma length_base64: "length (base64_encode data) = 4 * ((length data + 2) div 3)"
proof -
  have "length (concat (map b64_group cs)) = 4 * length cs" for cs
    by (induction cs) (simp_all add: b64_group_def Let_def)
  then show ?thesis by (simp add: base64_encode_def length_chunks)
qed

lemma b64_char_drop_0: "b64_char w = b64_char (drop_bit 0 w)"
  by simp

lemma loop_body: "b64_loop (b64_body data) = Inr data"
proof (induction data rule: b64_body.induct)
  case (1 a b c rest)
  let ?w = "b64_triple [a, b, c]"
  have l: "lookups [b64_char (drop_bit 18 ?w), b64_char (drop_bit 12 ?w), b64_char (drop_bit 6 ?w), b64_char ?w] =
      Inr [sextet (drop_bit 18 ?w), sextet (drop_bit 12 ?w), sextet (drop_bit 6 ?w), sextet ?w]"
    using lookups_chars [of "[drop_bit 18 ?w, drop_bit 12 ?w, drop_bit 6 ?w, ?w]"] by simp
  have t: "take_bit 24 ?w = ?w"
    by (rule bit_word_eqI) (auto simp: bit_triple bit_simps dest: bit_imp_le_length)
  show ?case
    using 1 by (simp add: l unsextet t triple_bytes Let_def)
next
  case (2 a b)
  let ?w = "b64_triple [a, b]"
  have "lookups [b64_char (drop_bit 18 ?w), b64_char (drop_bit 12 ?w), b64_char (drop_bit 6 ?w)] =
      Inr [sextet (drop_bit 18 ?w), sextet (drop_bit 12 ?w), sextet (drop_bit 6 ?w)]"
    using lookups_chars [of "[drop_bit 18 ?w, drop_bit 12 ?w, drop_bit 6 ?w]"] by simp
  then show ?case by (simp add: unsextet triple_bytes)
next
  case (3 a)
  let ?w = "b64_triple [a]"
  have "lookups [b64_char (drop_bit 18 ?w), b64_char (drop_bit 12 ?w)] =
      Inr [sextet (drop_bit 18 ?w), sextet (drop_bit 12 ?w)]"
    using lookups_chars [of "[drop_bit 18 ?w, drop_bit 12 ?w]"] by simp
  then show ?case by (simp add: unsextet triple_bytes)
qed simp

lemma decode_encode: "base64_decode (base64_encode data @ replicate n 61) = Inr data"
  "base64_decode (b64_body data @ replicate n 61) = Inr data"
proof -
  have "trim_end 61 (b64_body data @ replicate m 61) = b64_body data" for m
    by (rule trim_end_replicate) (auto dest: body_no_pad)
  then show "base64_decode (b64_body data @ replicate n 61) = Inr data" for n
    by (simp add: base64_decode_def loop_body)
  then show "base64_decode (base64_encode data @ replicate n 61) = Inr data"
    by (simp add: base64_encode_body append_assoc replicate_add [symmetric])
qed

text \<open>A character outside the alphabet is an error wherever a group or a tail of two or more looks at it.\<close>

lemma lookups_error: "c \<in> set cs \<Longrightarrow> table_get c \<in> {None, Some 255} \<Longrightarrow> \<exists>e. lookups cs = Inl e"
  by (auto simp: lookups_def)

lemma length_four: "length (x0 # x1 # x2 # x3 # rest) = length rest + 4" and length_three: "length (x0 # x1 # x2 # rest) = length rest + 3"
  by simp_all

lemma loop_error:
  "c \<in> set cs \<Longrightarrow> table_get c \<in> {None, Some 255} \<Longrightarrow> length cs mod 4 \<noteq> 1 \<Longrightarrow> \<exists>e. b64_loop cs = Inl e"
proof (induction cs rule: b64_loop.induct)
  case (1 x0 x1 x2 x3 rest)
  show ?case
  proof (cases "\<exists>e. lookups [x0, x1, x2, x3] = Inl e")
    case True
    then show ?thesis by auto
  next
    case False
    then obtain v where v: "lookups [x0, x1, x2, x3] = Inr v" by (cases "lookups [x0, x1, x2, x3]") auto
    then have "c \<notin> set [x0, x1, x2, x3]" using "1.prems"(2) lookups_error [of c "[x0, x1, x2, x3]"] by force
    with "1.prems"(1) have "c \<in> set rest" by auto
    moreover have "length rest mod 4 \<noteq> 1" using "1.prems"(3) by (simp only: length_four mod_add_self2 not_False_eq_True)
    ultimately obtain e where "b64_loop rest = Inl e" using "1.IH" [OF v refl] "1.prems"(2) by metis
    with v show ?thesis by (simp add: Let_def)
  qed
next
  case (2 x0 x1)
  then obtain e where "lookups [x0, x1] = Inl e" using lookups_error by blast
  then show ?case by simp
next
  case (3 x0 x1 x2)
  then obtain e where "lookups [x0, x1, x2] = Inl e" using lookups_error by blast
  then show ?case by simp
qed simp_all

text \<open>One character left over after full groups is not looked at.\<close>

lemma loop_lone: "length cs mod 4 = 0 \<Longrightarrow> b64_loop (cs @ [x]) = b64_loop cs"
proof (induction cs rule: b64_loop.induct)
  case (1 x0 x1 x2 x3 rest)
  have "length rest mod 4 = 0" using "1.prems" by (simp only: length_four mod_add_self2)
  with "1.IH" show ?case by (cases "lookups [x0, x1, x2, x3]") (simp_all add: Let_def)
qed simp_all

lemma body_groups: "length data mod 3 = 0 \<Longrightarrow> length (b64_body data) mod 4 = 0"
proof (induction data rule: b64_body.induct)
  case (1 a b c rest)
  have "length rest mod 3 = 0" using "1.prems" by (simp only: length_three mod_add_self2)
  moreover have "length (b64_body (a # b # c # rest)) = length (b64_body rest) + 4" by simp
  ultimately show ?case using "1.IH" by (simp only: mod_add_self2)
qed simp_all

lemma decode_lone:
  assumes "length data mod 3 = 0" and "x \<noteq> 61"
  shows "base64_decode (base64_encode data @ [x]) = Inr data"
proof -
  have "b64_pads data = 0" using assms(1) by (simp add: b64_pads_def)
  then have "base64_encode data = b64_body data" by (simp add: base64_encode_body)
  moreover have "trim_end 61 ((b64_body data @ [x]) @ replicate 0 61) = b64_body data @ [x]"
    using assms(2) by (intro trim_end_replicate) (auto dest: body_no_pad)
  ultimately show ?thesis
    using loop_lone [OF body_groups [OF assms(1)], of x] by (simp add: base64_decode_def loop_body)
qed

text \<open>
  \<^bold>\<open>C14\<close>. Base64 round trip: the decoder gives back what the encoder was given, with its padding, with
  extra padding, or with none; the encoding has 4 characters per started group of three bytes; and a
  character outside the alphabet is an error. The exception is a single character left over after the
  last full group: the decoder never looks at it and accepts the input.
\<close>

theorem base64_roundtrip:
  assumes "length whole mod 3 = 0" and "x \<noteq> 61"
    and "c \<in> set (trim_end 61 input)" and "table_get c \<in> {None, Some 255}" and "length (trim_end 61 input) mod 4 \<noteq> 1"
  shows "base64_decode (base64_encode data @ replicate n 61) = Inr data \<and>
    base64_decode (trim_end 61 (base64_encode data)) = Inr data \<and>
    length (base64_encode data) = 4 * ((length data + 2) div 3) \<and>
    base64_decode (base64_encode whole @ [x]) = Inr whole \<and>
    (\<exists>e. base64_decode input = Inl e)"
proof -
  have "trim_end 61 (base64_encode data) = b64_body data"
    unfolding base64_encode_body by (rule trim_end_replicate) (auto dest: body_no_pad)
  then show ?thesis
    using decode_encode(1) [of data n] decode_encode(2) [of data 0] length_base64 [of data]
      decode_lone [OF assms(1,2)] loop_error [OF assms(3-5)]
    by (simp add: base64_decode_def)
qed

theorem base64_roundtrip_witness:
  "base64_decode (base64_encode [1, 2, 255, 4, 5] @ replicate 1 61) = Inr [1, 2, 255, 4, 5]"
proof (rule conjunct1 [OF base64_roundtrip])
  show "length [7 :: u8, 8, 9] mod 3 = 0" "(200 :: u8) \<noteq> 61" by simp_all
  show "(33 :: u8) \<in> set (trim_end 61 [65, 33])" by code_simp
  show "table_get 33 \<in> {None, Some 255}" by code_simp
  show "length (trim_end 61 [65, 33 :: u8]) mod 4 \<noteq> 1" by code_simp
qed

end
