(* ===== verification/Turn.thy ===== *)
theory Turn
  imports Base64 Json
begin

text \<open>
  \<open>src/crates/b3-webrtc/src/signaling.rs\<close>: the time-limited TURN credentials, with the SHA-1 and the
  HMAC-SHA1 written there. Arrays of the code are lists of their length.
\<close>

section \<open>SHA-1\<close>

definition to_be :: "nat \<Rightarrow> 'a::len word \<Rightarrow> bytes" where
  "to_be n w = rev (to_le n w)"

definition from_be :: "bytes \<Rightarrow> 'a::len word" where
  "from_be bs = from_le (rev bs)"

text \<open>\<open>while padded.len() % 64 != 56 { padded.push(0) }\<close>.\<close>

definition zeros_needed :: "nat \<Rightarrow> nat" where
  "zeros_needed l = (if l mod 64 \<le> 56 then 56 - l mod 64 else 120 - l mod 64)"

lemma zeros_needed_step: "l mod 64 \<noteq> 56 \<Longrightarrow> zeros_needed l = Suc (zeros_needed (Suc l))"
  using mod_less_divisor [of 64 l] by (auto simp: zeros_needed_def mod_Suc)

function pad_zeros :: "bytes \<Rightarrow> bytes" where
  "pad_zeros xs = (if length xs mod 64 = 56 then xs else pad_zeros (xs @ [0]))"
  by pat_completeness auto
termination
  by (relation "measure (\<lambda>xs. zeros_needed (length xs))") (auto simp: zeros_needed_step)

declare pad_zeros.simps [simp del]

definition sha1_padded :: "bytes \<Rightarrow> bytes" where
  "sha1_padded data =
     (let bit_len = (of_nat (length data) :: u64) * 8
      in pad_zeros (data @ [0x80]) @ to_be 8 bit_len)"

definition chunks_exact :: "nat \<Rightarrow> 'a list \<Rightarrow> 'a list list" where
  "chunks_exact n xs = filter (\<lambda>c. length c = n) (chunks n xs)"

definition sha1_schedule :: "bytes \<Rightarrow> u32 list" where
  "sha1_schedule block =
     (let w = map (\<lambda>i. from_be [block ! (i * 4), block ! (i * 4 + 1), block ! (i * 4 + 2), block ! (i * 4 + 3)]) [0..<16]
              @ replicate 64 0
      in fold (\<lambda>i w. w[i := word_rotl 1 (w ! (i - 3) XOR w ! (i - 8) XOR w ! (i - 14) XOR w ! (i - 16))]) [16..<80] w)"

type_synonym sha1_state = "u32 \<times> u32 \<times> u32 \<times> u32 \<times> u32"

definition sha1_fk :: "nat \<Rightarrow> u32 \<Rightarrow> u32 \<Rightarrow> u32 \<Rightarrow> u32 \<times> u32" where
  "sha1_fk i b c d =
     (if i \<le> 19 then ((b AND c) OR (NOT b AND d), 0x5A827999)
      else if i \<le> 39 then (b XOR c XOR d, 0x6ED9EBA1)
      else if i \<le> 59 then ((b AND c) OR (b AND d) OR (c AND d), 0x8F1BBCDC)
      else (b XOR c XOR d, 0xCA62C1D6))"

definition sha1_round :: "u32 list \<Rightarrow> nat \<Rightarrow> sha1_state \<Rightarrow> sha1_state" where
  "sha1_round w i = (\<lambda>(a, b, c, d, e).
     let (f, k) = sha1_fk i b c d;
         temp = word_rotl 5 a + f + e + k + w ! i
     in (temp, a, word_rotl 30 b, c, d))"

definition sha1_block :: "bytes \<Rightarrow> sha1_state \<Rightarrow> sha1_state" where
  "sha1_block block = (\<lambda>(h0, h1, h2, h3, h4).
     let (a, b, c, d, e) = fold (sha1_round (sha1_schedule block)) [0..<80] (h0, h1, h2, h3, h4)
     in (h0 + a, h1 + b, h2 + c, h3 + d, h4 + e))"

definition sha1_init :: sha1_state where
  "sha1_init = (0x67452301, 0xEFCDAB89, 0x98BADCFE, 0x10325476, 0xC3D2E1F0)"

definition sha1_bytes :: "sha1_state \<Rightarrow> bytes" where
  "sha1_bytes = (\<lambda>(h0, h1, h2, h3, h4). to_be 4 h0 @ to_be 4 h1 @ to_be 4 h2 @ to_be 4 h3 @ to_be 4 h4)"

definition sha1 :: "bytes \<Rightarrow> bytes" where
  "sha1 data = sha1_bytes (fold sha1_block (chunks_exact 64 (sha1_padded data)) sha1_init)"


section \<open>HMAC and credentials\<close>

definition hmac_key_block :: "bytes \<Rightarrow> bytes" where
  "hmac_key_block key =
     (if length key > 64 then sha1 key @ replicate 44 0 else key @ replicate (64 - length key) 0)"

definition hmac_sha1_base64 :: "bytes \<Rightarrow> bytes \<Rightarrow> bytes" where
  "hmac_sha1_base64 key data =
     (let key_block = hmac_key_block key;
          inner_hash = sha1 (map (\<lambda>b. b XOR 0x36) key_block @ data);
          result = sha1 (map (\<lambda>b. b XOR 0x5c) key_block @ inner_hash)
      in base64_encode result)"

text \<open>\<open>now\<close> is the clock in seconds since the epoch.\<close>

definition generate_turn_credentials :: "u64 \<Rightarrow> bytes \<Rightarrow> u64 \<Rightarrow> string \<times> bytes" where
  "generate_turn_credentials now shared_secret ttl_secs =
     (let username = show_nat (unat (now + ttl_secs)) @ '':b3''
      in (username, hmac_sha1_base64 shared_secret (ascii username)))"

section \<open>The reference\<close>

text \<open>
  RFC 3174, written from the RFC and not from the code: the circular shift \<open>S^n\<close> by its definition with
  two shifts, the functions \<open>f(t)\<close>, the constants \<open>K(t)\<close> and the initial \<open>H\<close> as the RFC lists them, the
  message followed by the bit 1, by the least number of zeros that leaves 64 bits of the last block and
  by its length in bits, \<open>W(t)\<close> as a recursion, the variables \<open>A\<close> to \<open>E\<close> after \<open>t\<close> steps and \<open>H\<close> after
  \<open>i\<close> blocks by recursion on the number, and bytes read and written as digits to the base 256.
\<close>

definition rfc_S :: "nat \<Rightarrow> u32 \<Rightarrow> u32" where
  "rfc_S n X = push_bit n X OR drop_bit (32 - n) X"

definition rfc_f :: "nat \<Rightarrow> u32 \<Rightarrow> u32 \<Rightarrow> u32 \<Rightarrow> u32" where
  "rfc_f t B C D =
     (if t < 20 then (B AND C) OR (NOT B AND D)
      else if t < 40 then B XOR C XOR D
      else if t < 60 then (B AND C) OR (B AND D) OR (C AND D)
      else B XOR C XOR D)"

definition rfc_K :: "nat \<Rightarrow> u32" where
  "rfc_K t = [0x5A827999, 0x6ED9EBA1, 0x8F1BBCDC, 0xCA62C1D6] ! (t div 20)"

definition rfc_H :: "u32 \<times> u32 \<times> u32 \<times> u32 \<times> u32" where
  "rfc_H = (0x67452301, 0xEFCDAB89, 0x98BADCFE, 0x10325476, 0xC3D2E1F0)"

definition rfc_number :: "bytes \<Rightarrow> nat" where
  "rfc_number = foldl (\<lambda>n b. 256 * n + unat b) 0"

definition rfc_octets :: "nat \<Rightarrow> nat \<Rightarrow> bytes" where
  "rfc_octets k n = map (\<lambda>i. of_nat (n div 256 ^ (k - 1 - i))) [0..<k]"

definition rfc_padded :: "bytes \<Rightarrow> bytes" where
  "rfc_padded data =
     data @ [0x80] @ replicate ((119 - length data mod 64) mod 64) 0 @ rfc_octets 8 (8 * length data)"

fun rfc_w :: "bytes \<Rightarrow> nat \<Rightarrow> u32" where
  "rfc_w M t =
     (if t < 16 then of_nat (rfc_number (take 4 (drop (4 * t) M)))
      else rfc_S 1 (rfc_w M (t - 3) XOR rfc_w M (t - 8) XOR rfc_w M (t - 14) XOR rfc_w M (t - 16)))"

declare rfc_w.simps [simp del]

primrec rfc_steps :: "bytes \<Rightarrow> u32 \<times> u32 \<times> u32 \<times> u32 \<times> u32 \<Rightarrow> nat \<Rightarrow> u32 \<times> u32 \<times> u32 \<times> u32 \<times> u32" where
  "rfc_steps M H 0 = H"
| "rfc_steps M H (Suc t) =
     (let (A, B, C, D, E) = rfc_steps M H t
      in (rfc_S 5 A + rfc_f t B C D + E + rfc_w M t + rfc_K t, A, rfc_S 30 B, C, D))"

primrec rfc_blocks :: "bytes \<Rightarrow> nat \<Rightarrow> u32 \<times> u32 \<times> u32 \<times> u32 \<times> u32" where
  "rfc_blocks p 0 = rfc_H"
| "rfc_blocks p (Suc i) =
     (let (H0, H1, H2, H3, H4) = rfc_blocks p i;
          (A, B, C, D, E) = rfc_steps (take 64 (drop (64 * i) p)) (H0, H1, H2, H3, H4) 80
      in (H0 + A, H1 + B, H2 + C, H3 + D, H4 + E))"

definition rfc_sha1 :: "bytes \<Rightarrow> bytes" where
  "rfc_sha1 data =
     (let p = rfc_padded data;
          (H0, H1, H2, H3, H4) = rfc_blocks p (length p div 64)
      in concat (map (\<lambda>H. rfc_octets 4 (unat H)) [H0, H1, H2, H3, H4]))"

text \<open>The code's rotations, byte orders, round functions and constants are those of the RFC.\<close>

lemma word_rotl_rfc: "n < 32 \<Longrightarrow> word_rotl n (w :: u32) = rfc_S n w"
proof (rule bit_word_eqI)
  fix m :: nat
  assume n: "n < 32" and "m < LENGTH(32)"
  then have m: "m < 32" by simp
  have len: "LENGTH(32) = 32" by simp
  have "(m + (32 - n mod 32)) mod 32 = (if n \<le> m then m - n else m + (32 - n))"
    using m n by (auto simp: mod_if)
  moreover have "\<not> bit w (m + (32 - n))" if "n \<le> m"
    using that m n bit_imp_le_length [of w "m + (32 - n)"] by auto
  ultimately show "bit (word_rotl n w) m = bit (rfc_S n w) m"
    unfolding rfc_S_def bit_word_rotl_iff bit_or_iff bit_push_bit_iff bit_drop_bit_eq o_def len
    using m bit_imp_le_length [of w] by (auto simp only: possible_bit_word len add.commute split: if_splits)
qed

lemma to_le_digits: "to_le n (w :: 'a::len word) = map (\<lambda>i. of_nat (unat w div 256 ^ i)) [0..<n]"
proof (induction n arbitrary: w)
  case (Suc n)
  have "of_nat (unat (drop_bit 8 w) div 256 ^ i) = (of_nat (unat w div 256 ^ Suc i) :: u8)" for i
    unfolding power_Suc div_mult2_eq unat_drop_bit_eq by (simp only: drop_bit_eq_div power_numeral) simp
  then have "to_le n (drop_bit 8 w) = map (\<lambda>i. of_nat (unat w div 256 ^ Suc i)) [0..<n]"
    unfolding Suc.IH by simp
  moreover have "ucast w = (of_nat (unat w div 256 ^ 0) :: u8)" by simp
  ultimately show ?case by (simp only: to_le.simps map_upt_Suc)
qed (simp only: to_le.simps upt_0 list.map)

lemma to_be_octets: "to_be n (w :: 'a::len word) = rfc_octets n (unat w)"
  unfolding to_be_def to_le_digits rfc_octets_def
  by (rule nth_equalityI) (simp_all add: rev_nth)

lemma octets_mod: "rfc_octets 8 (n mod 2 ^ 64) = rfc_octets 8 n"
proof -
  have "(of_nat (n mod 2 ^ 64 div 256 ^ (7 - i)) :: u8) = of_nat (n div 256 ^ (7 - i))" if "i < 8" for i
  proof -
    have p: "(256 :: nat) ^ (7 - i) = 2 ^ (8 * (7 - i))" by (simp add: power_mult)
    have "take_bit 8 (drop_bit (8 * (7 - i)) (take_bit 64 n)) = take_bit 8 (drop_bit (8 * (7 - i)) n)"
      using that by (auto simp: bit_eq_iff bit_simps)
    then show ?thesis
      by (simp add: p word_of_nat_eq_iff take_bit_eq_mod drop_bit_eq_div)
  qed
  then show ?thesis unfolding rfc_octets_def by simp
qed

lemma from_be_number: "from_be [a, b, c, d] = (of_nat (rfc_number [a, b, c, d]) :: u32)"
proof -
  have "from_le bs = (of_nat (foldr (\<lambda>b n. 256 * n + unat b) bs 0) :: u32)" for bs
  proof (induction bs)
    case (Cons x bs)
    have "push_bit 8 w AND ucast x = (0 :: u32)" for w :: u32
      by (rule bit_word_eqI) (auto simp: bit_simps dest: bit_imp_le_length)
    then have "ucast x OR push_bit 8 w = ucast x + push_bit 8 (w :: u32)" for w
      by (intro disjunctive_add_eq_or [symmetric]) (simp add: and.commute)
    moreover have "push_bit 8 w = 256 * (w :: u32)" for w by (simp add: push_bit_eq_mult mult.commute)
    ultimately show ?case unfolding from_le.simps Cons by simp
  qed (simp only: from_le.simps foldr.simps id_apply semiring_1_class.of_nat_0)
  then show ?thesis unfolding from_be_def rfc_number_def foldl_conv_foldr by simp
qed

lemma sha1_fk_rfc: "t < 80 \<Longrightarrow> sha1_fk t b c d = (rfc_f t b c d, rfc_K t)"
proof -
  assume "t < 80"
  then consider "t < 20" "t div 20 = 0" | "20 \<le> t" "t < 40" "t div 20 = 1"
    | "40 \<le> t" "t < 60" "t div 20 = 2" | "60 \<le> t" "t div 20 = 3" by linarith
  then show ?thesis by cases (simp_all add: sha1_fk_def rfc_f_def rfc_K_def)
qed

lemma pad_zeros_replicate: "pad_zeros xs = xs @ replicate (zeros_needed (length xs)) 0"
proof (induction xs rule: pad_zeros.induct)
  case (1 xs)
  show ?case
  proof (cases "length xs mod 64 = 56")
    case True
    then show ?thesis by (simp add: pad_zeros.simps [of xs] zeros_needed_def)
  next
    case False
    with "1.IH" [OF False] show ?thesis by (simp add: pad_zeros.simps [of xs] zeros_needed_step)
  qed
qed

lemma pad_count: "(119 - l mod 64) mod 64 = (if l mod 64 \<le> 55 then 55 - l mod 64 else 119 - l mod 64)" for l :: nat
proof (cases "l mod 64 \<le> 55")
  case True
  then have "119 - l mod 64 = (55 - l mod 64) + 64" by simp
  then have "(119 - l mod 64) mod 64 = (55 - l mod 64) mod 64" by (metis mod_add_self2)
  with True show ?thesis by simp
next
  case False
  then show ?thesis by simp
qed

lemma sha1_padded_rfc: "sha1_padded data = rfc_padded data"
proof -
  have "zeros_needed (length data + 1) = (119 - length data mod 64) mod 64"
    using pad_count [of "length data"] by (simp add: zeros_needed_def mod_Suc)
  moreover have "to_be 8 (of_nat (length data) * 8 :: u64) = rfc_octets 8 (8 * length data)"
    unfolding to_be_octets using octets_mod [of "8 * length data"]
    by (simp add: unat_word_ariths unat_of_nat mod_mult_right_eq mult.commute)
  ultimately show ?thesis
    unfolding sha1_padded_def rfc_padded_def Let_def pad_zeros_replicate by simp
qed

lemma length_rfc_padded: "64 dvd length (rfc_padded data)"
proof -
  define q m where "q = length data div 64" and "m = length data mod 64"
  then have l: "length data = 64 * q + m" by simp
  have "m + 9 + (119 - m) mod 64 = 64 \<or> m + 9 + (119 - m) mod 64 = 128"
    using pad_count [of "length data"] mod_less_divisor [of 64 "length data"] unfolding m_def [symmetric] by (auto simp: le_Suc_eq)
  moreover have "length (rfc_padded data) = 64 * q + (m + 9 + (119 - m) mod 64)"
    using l unfolding rfc_padded_def rfc_octets_def m_def [symmetric] by simp
  moreover have "64 dvd 64 * q + r" if "r = 64 \<or> r = 128" for r
    using that by (elim disjE) (simp_all add: dvd_add)
  ultimately show ?thesis by simp
qed

lemma chunks_positions:
  "length xs = n * k \<Longrightarrow> 0 < n \<Longrightarrow> chunks n xs = map (\<lambda>i. take n (drop (n * i) xs)) [0..<k]"
proof (induction k arbitrary: xs)
  case (Suc k)
  then have "xs \<noteq> []" "length (drop n xs) = n * k" by auto
  then have "chunks n xs = take n xs # map (\<lambda>i. take n (drop (n * i) (drop n xs))) [0..<k]"
    using Suc.IH [of "drop n xs"] Suc.prems(2) by (simp add: chunks_step)
  then show ?case by (simp add: map_upt_Suc add.commute del: upt_Suc)
qed simp

lemma chunks_exact_positions:
  assumes "n dvd length xs" and "0 < n"
  shows "chunks_exact n xs = map (\<lambda>i. take n (drop (n * i) xs)) [0..<length xs div n]"
proof -
  have l: "length xs = n * (length xs div n)" using assms(1) by simp
  have "length (take n (drop (n * i) xs)) = n" if "i < length xs div n" for i
  proof -
    have "n * Suc i \<le> n * (length xs div n)" using that by (intro mult_le_mono2) simp
    then show ?thesis using l by simp
  qed
  then show ?thesis
    unfolding chunks_exact_def chunks_positions [OF l assms(2)] by (simp add: filter_id_conv)
qed

text \<open>The loop that fills the schedule computes the recursion.\<close>

lemma schedule_loop:
  assumes "length w = 80" and "\<forall>t < 16. w ! t = rfc_w M t" and "n \<le> 64"
  shows "let v = fold (\<lambda>i w. w[i := word_rotl 1 (w ! (i - 3) XOR w ! (i - 8) XOR w ! (i - 14) XOR w ! (i - 16))]) [16..<16 + n] w
         in length v = 80 \<and> (\<forall>t < 16 + n. v ! t = rfc_w M t)"
  using assms(3)
proof (induction n)
  case (Suc n)
  let ?v = "fold (\<lambda>i w. w[i := word_rotl 1 (w ! (i - 3) XOR w ! (i - 8) XOR w ! (i - 14) XOR w ! (i - 16))]) [16..<16 + n] w"
  have v: "length ?v = 80" "\<And>t. t < 16 + n \<Longrightarrow> ?v ! t = rfc_w M t" using Suc by (auto simp: Let_def)
  have "word_rotl 1 (?v ! (16 + n - 3) XOR ?v ! (16 + n - 8) XOR ?v ! (16 + n - 14) XOR ?v ! (16 + n - 16)) = rfc_w M (16 + n)"
    unfolding rfc_w.simps [of M "16 + n"] using v(2) by (simp add: word_rotl_rfc)
  moreover have "[16..<16 + Suc n] = [16..<16 + n] @ [16 + n]"
    unfolding add_Suc_right by (rule upt_Suc_append) simp
  ultimately show ?case using v Suc.prems by (auto simp: Let_def nth_list_update less_Suc_eq simp del: upt_Suc)
qed (use assms in \<open>simp add: Let_def\<close>)

lemma sha1_schedule_rfc: "length M = 64 \<Longrightarrow> sha1_schedule M = map (rfc_w M) [0..<80]"
proof -
  assume len: "length M = 64"
  let ?w = "map (\<lambda>i. from_be [M ! (i * 4), M ! (i * 4 + 1), M ! (i * 4 + 2), M ! (i * 4 + 3)]) [0..<16] @ replicate 64 (0 :: u32)"
  have four: "take 4 (drop (4 * t) M) = [M ! (t * 4), M ! (t * 4 + 1), M ! (t * 4 + 2), M ! (t * 4 + 3)]" if "t < 16" for t
  proof -
    have "length (drop (4 * t) M) \<ge> 4" using that len by simp
    then obtain a b c d r where r: "drop (4 * t) M = a # b # c # d # r"
      unfolding numeral_eq_Suc pred_numeral_simps BitM.simps by (auto simp only: Suc_le_length_iff)
    have "M ! (t * 4 + k) = (a # b # c # d # r) ! k" for k using that len by (simp flip: r add: mult.commute)
    from this [of 0] this [of 1] this [of 2] this [of 3] show ?thesis by (simp add: r)
  qed
  have ref: "rfc_w M t = from_be (take 4 (drop (4 * t) M))" if "t < 16" for t
    by (subst rfc_w.simps) (simp only: that if_True four [OF that] from_be_number)
  have arr: "?w ! t = from_be [M ! (t * 4), M ! (t * 4 + 1), M ! (t * 4 + 2), M ! (t * 4 + 3)]" if "t < 16" for t
    using that by (simp add: nth_append)
  have "?w ! t = rfc_w M t" if "t < 16" for t
    unfolding arr [OF that] ref [OF that] four [OF that] by (rule refl)
  then have "\<forall>t < 16. ?w ! t = rfc_w M t" by blast
  have bound: "(16 :: nat) + 64 = 80" by simp
  have "length ?w = 80" by simp
  from schedule_loop [OF this \<open>\<forall>t < 16. ?w ! t = rfc_w M t\<close> order.refl, unfolded bound]
  have v: "length (sha1_schedule M) = 80" "\<And>t. t < 80 \<Longrightarrow> sha1_schedule M ! t = rfc_w M t"
    unfolding sha1_schedule_def Let_def by blast+
  show ?thesis by (rule nth_equalityI) (simp_all only: v length_map length_upt diff_zero nth_map nth_upt add_0)
qed

text \<open>The loop over the rounds and the loop over the blocks.\<close>

lemma sha1_rounds_rfc: "n \<le> 80 \<Longrightarrow> fold (sha1_round (map (rfc_w M) [0..<80])) [0..<n] h = rfc_steps M h n"
proof (induction n)
  case (Suc n)
  then have "n < 80" "map (rfc_w M) [0..<80] ! n = rfc_w M n" by simp_all
  with Suc show ?case
    by (simp add: sha1_round_def sha1_fk_rfc word_rotl_rfc Let_def add_ac split: prod.splits)
qed simp

lemma sha1_block_rfc:
  "length M = 64 \<Longrightarrow> sha1_block M (h0, h1, h2, h3, h4) =
     (let (A, B, C, D, E) = rfc_steps M (h0, h1, h2, h3, h4) 80 in (h0 + A, h1 + B, h2 + C, h3 + D, h4 + E))"
  by (simp only: sha1_block_def sha1_schedule_rfc sha1_rounds_rfc order.refl prod.case)

lemma sha1_blocks_rfc:
  "64 * n \<le> length p \<Longrightarrow> fold sha1_block (map (\<lambda>i. take 64 (drop (64 * i) p)) [0..<n]) sha1_init = rfc_blocks p n"
proof (induction n)
  case 0
  show ?case by (simp add: sha1_init_def rfc_H_def)
next
  case (Suc n)
  then have "fold sha1_block (map (\<lambda>i. take 64 (drop (64 * i) p)) [0..<n]) sha1_init = rfc_blocks p n"
    and "length (take 64 (drop (64 * n) p)) = 64" by simp_all
  then show ?case
    by (simp add: sha1_block_rfc del: rfc_steps.simps split: prod.splits)
qed

lemma length_octets [simp]: "length (rfc_octets n k) = n"
  by (simp add: rfc_octets_def)

lemma sha1_rfc: "sha1 data = rfc_sha1 data" "length (rfc_sha1 data) = 20"
proof -
  let ?p = "rfc_padded data"
  have "64 * (length ?p div 64) \<le> length ?p" by simp
  note blocks = sha1_blocks_rfc [OF this]
  show "sha1 data = rfc_sha1 data"
    unfolding sha1_def rfc_sha1_def Let_def sha1_padded_rfc
      chunks_exact_positions [OF length_rfc_padded zero_less_numeral] blocks
    by (cases "rfc_blocks ?p (length ?p div 64)") (simp add: sha1_bytes_def to_be_octets)
  show "length (rfc_sha1 data) = 20"
    by (simp add: rfc_sha1_def Let_def split: prod.splits)
qed

text \<open>
  \<^bold>\<open>C15\<close>. The hand-written SHA-1 is the SHA-1 of RFC 3174: the padding loop, the rotations, the round
  functions and constants, the initial state, the schedule filled in place, the iteration over exact
  chunks and the byte order of the digest compute the reference, which shares none of these with the
  code, on every input; the digest has 20 bytes.
\<close>

theorem sha1_is_rfc3174:
  "sha1 data = rfc_sha1 data \<and> length (sha1 data) = 20"
  using sha1_rfc [of data] by simp

text \<open>
  TURN credentials: as long as the expiry fits 64 bits, the username is the decimal expiry, readable
  before the first colon, and \<open>b3\<close>; the credential is 28 characters that decode to the 20 bytes of the
  HMAC (RFC 2104) of the username, with a secret of more than a block replaced by its hash.
\<close>

theorem turn_credentials:
  assumes "unat now + unat ttl < 2 ^ 64" and "generate_turn_credentials now secret ttl = (username, credential)"
  shows "username = takeWhile (\<lambda>c. c \<noteq> CHR '':'') username @ '':b3'' \<and>
    parse_nat (takeWhile (\<lambda>c. c \<noteq> CHR '':'') username) = unat now + unat ttl \<and>
    length credential = 28 \<and>
    (let k = (if length secret > 64 then rfc_sha1 secret else secret);
         k64 = k @ replicate (64 - length k) 0
     in base64_decode credential =
          Inr (rfc_sha1 (map (\<lambda>b. b XOR 0x5c) k64 @ rfc_sha1 (map (\<lambda>b. b XOR 0x36) k64 @ ascii username))))"
proof -
  have sum: "unat (now + ttl) = unat now + unat ttl" using assms(1) by (simp add: unat_word_ariths)
  have u: "username = show_nat (unat now + unat ttl) @ '':b3''" and c: "credential = hmac_sha1_base64 secret (ascii username)"
    using assms(2) by (auto simp: generate_turn_credentials_def Let_def sum)
  have "\<forall>c \<in> set (show_nat n). c \<noteq> CHR '':''" for n
    using show_nat_digits [of n] by (auto simp: list_all_iff is_digit_def)
  then have t: "takeWhile (\<lambda>c. c \<noteq> CHR '':'') username = show_nat (unat now + unat ttl)"
    by (simp add: u takeWhile_append)
  note sha = sha1_rfc
  have "hmac_key_block secret = (let k = if length secret > 64 then rfc_sha1 secret else secret in k @ replicate (64 - length k) 0)"
    by (simp add: hmac_key_block_def Let_def sha)
  then show ?thesis
    using decode_encode(1) [where n = 0] t u
    by (simp add: c hmac_sha1_base64_def Let_def sha length_base64)
qed

theorem turn_credentials_witness:
  "length (snd (generate_turn_credentials 1700000000 (ascii ''secret'') 86400)) = 28"
  using turn_credentials [of 1700000000 86400 "ascii ''secret''"
    "fst (generate_turn_credentials 1700000000 (ascii ''secret'') 86400)"
    "snd (generate_turn_credentials 1700000000 (ascii ''secret'') 86400)"] by simp

end
