(* ===== verification/Utf8.thy ===== *)
theory Utf8
  imports B3_Prelude
begin

text \<open>
  \<open>std::str\<close>: a \<open>String\<close> of the program is its bytes, which are well-formed UTF-8 (the table of well-formed
  byte sequences of the Unicode standard, which \<open>String::from_utf8\<close> checks).
\<close>

definition cont :: "u8 \<Rightarrow> bool" where
  "cont b \<longleftrightarrow> 0x80 \<le> b \<and> b \<le> 0xBF"

text \<open>Whether \<open>b\<close> may follow the lead byte \<open>a\<close>.\<close>

definition second_ok :: "u8 \<Rightarrow> u8 \<Rightarrow> bool" where
  "second_ok a b \<longleftrightarrow>
     (if a = 0xE0 then 0xA0 \<le> b \<and> b \<le> 0xBF
      else if a = 0xED then 0x80 \<le> b \<and> b \<le> 0x9F
      else if a = 0xF0 then 0x90 \<le> b \<and> b \<le> 0xBF
      else if a = 0xF4 then 0x80 \<le> b \<and> b \<le> 0x8F
      else 0xC2 \<le> a \<and> a \<le> 0xF4 \<and> cont b)"

text \<open>The number of bytes of the character a sequence starts with, 0 if it is ill-formed.\<close>

fun utf8_len :: "bytes \<Rightarrow> nat" where
  "utf8_len [] = 0"
| "utf8_len (a # r) =
     (if a \<le> 0x7F then 1
      else if 0xC2 \<le> a \<and> a \<le> 0xDF then (case r of b # _ \<Rightarrow> if second_ok a b then 2 else 0 | _ \<Rightarrow> 0)
      else if 0xE0 \<le> a \<and> a \<le> 0xEF then
        (case r of b # c # _ \<Rightarrow> if second_ok a b \<and> cont c then 3 else 0 | _ \<Rightarrow> 0)
      else if 0xF0 \<le> a \<and> a \<le> 0xF4 then
        (case r of b # c # d # _ \<Rightarrow> if second_ok a b \<and> cont c \<and> cont d then 4 else 0 | _ \<Rightarrow> 0)
      else 0)"

function utf8_valid :: "bytes \<Rightarrow> bool" where
  "utf8_valid bs =
     (if bs = [] then True else if utf8_len bs = 0 then False else utf8_valid (drop (utf8_len bs) bs))"
  by pat_completeness auto
termination
  by (relation "measure length") auto

declare utf8_valid.simps [simp del] utf8_len.simps(2) [simp del]

lemma utf8_valid_Nil [simp]: "utf8_valid []"
  by (simp add: utf8_valid.simps)

lemma utf8_valid_ascii_Cons: "a \<le> 0x7F \<Longrightarrow> utf8_valid (a # r) \<longleftrightarrow> utf8_valid r"
  by (simp add: utf8_valid.simps [of "a # r"] utf8_len.simps(2))

lemma utf8_valid_ascii: "list_all (\<lambda>b. b \<le> 0x7F) bs \<Longrightarrow> utf8_valid bs"
  by (induction bs) (simp_all add: utf8_valid_ascii_Cons)

text \<open>\<open>String::from_utf8_lossy\<close>: every maximal prefix of a character that is not completed becomes U+FFFD.\<close>

definition bad_len :: "bytes \<Rightarrow> nat" where
  "bad_len bs =
     (case bs of
        a # b # r \<Rightarrow>
          (if 0xE0 \<le> a \<and> second_ok a b
           then (case r of c # _ \<Rightarrow> if 0xF0 \<le> a \<and> cont c then 3 else 2 | [] \<Rightarrow> 2)
           else 1)
      | _ \<Rightarrow> 1)"

lemma bad_len_pos: "0 < bad_len bs"
  by (simp add: bad_len_def split: list.splits)

function utf8_lossy :: "bytes \<Rightarrow> bytes" where
  "utf8_lossy bs =
     (if bs = [] then []
      else if utf8_len bs = 0 then [0xEF, 0xBF, 0xBD] @ utf8_lossy (drop (bad_len bs) bs)
      else take (utf8_len bs) bs @ utf8_lossy (drop (utf8_len bs) bs))"
  by pat_completeness auto
termination
  by (relation "measure length") (auto simp: bad_len_pos)

declare utf8_lossy.simps [simp del]

lemma utf8_lossy_valid: "utf8_valid bs \<Longrightarrow> utf8_lossy bs = bs"
proof (induction bs rule: utf8_valid.induct)
  case (1 bs)
  show ?case
  proof (cases "bs = []")
    case True
    then show ?thesis by (simp add: utf8_lossy.simps)
  next
    case False
    then have "utf8_len bs \<noteq> 0" "utf8_valid (drop (utf8_len bs) bs)"
      using "1.prems" by (simp_all add: utf8_valid.simps [of bs] split: if_splits)
    with False "1.IH" show ?thesis by (simp add: utf8_lossy.simps [of bs])
  qed
qed


section \<open>Searching\<close>

definition starts_with :: "bytes \<Rightarrow> bytes \<Rightarrow> bool" where
  "starts_with s p \<longleftrightarrow> take (length p) s = p"

fun str_find :: "bytes \<Rightarrow> bytes \<Rightarrow> nat option" where
  "str_find key [] = (if key = [] then Some 0 else None)"
| "str_find key (b # r) = (if starts_with (b # r) key then Some 0 else map_option Suc (str_find key r))"

definition str_contains :: "bytes \<Rightarrow> bytes \<Rightarrow> bool" where
  "str_contains key s \<longleftrightarrow> str_find key s \<noteq> None"

definition strip_prefix :: "bytes \<Rightarrow> bytes \<Rightarrow> bytes option" where
  "strip_prefix p s = (if starts_with s p then Some (drop (length p) s) else None)"

lemma starts_with_append [simp]: "starts_with (p @ s) p"
  by (simp add: starts_with_def)

lemma str_find_first: "b \<notin> set s \<Longrightarrow> str_find [b] (s @ b # r) = Some (length s)"
  by (induction s) (auto simp: starts_with_def)

text \<open>The first occurrence: the key is there, and at no earlier position.\<close>

lemma str_find_at:
  "(\<And>i. i < length pre \<Longrightarrow> \<not> starts_with (drop i (pre @ key @ r)) key) \<Longrightarrow> key \<noteq> [] \<Longrightarrow>
   str_find key (pre @ key @ r) = Some (length pre)"
proof (induction pre)
  case Nil
  then show ?case by (cases key) (simp_all add: starts_with_def)
next
  case (Cons b pre)
  have "\<not> starts_with (drop i (pre @ key @ r)) key" if "i < length pre" for i
    using Cons.prems(1) [of "Suc i"] that by simp
  with Cons have "str_find key (pre @ key @ r) = Some (length pre)" by blast
  moreover have "\<not> starts_with (b # pre @ key @ r) key" using Cons.prems(1) [of 0] by simp
  ultimately show ?case by simp
qed


section \<open>Trimming\<close>

text \<open>\<open>str::trim\<close> removes Unicode white space, here as the byte sequences of these characters.\<close>

definition white_space :: "bytes list" where
  "white_space =
     [[9], [10], [11], [12], [13], [32], [0xC2, 0x85], [0xC2, 0xA0], [0xE1, 0x9A, 0x80]] @
     map (\<lambda>k. [0xE2, 0x80, 0x80 + of_nat k]) [0..<11] @
     [[0xE2, 0x80, 0xA8], [0xE2, 0x80, 0xA9], [0xE2, 0x80, 0xAF], [0xE2, 0x81, 0x9F], [0xE3, 0x80, 0x80]]"

function strip_seqs :: "bytes list \<Rightarrow> bytes \<Rightarrow> bytes" where
  "strip_seqs ws s =
     (case find (\<lambda>w. w \<noteq> [] \<and> starts_with s w) ws of
        None \<Rightarrow> s
      | Some w \<Rightarrow> strip_seqs ws (drop (length w) s))"
  by pat_completeness auto
termination
  by (relation "measure (\<lambda>(ws, s). length s)") (auto simp: find_Some_iff starts_with_def intro!: diff_less)

declare strip_seqs.simps [simp del]

definition str_trim :: "bytes \<Rightarrow> bytes" where
  "str_trim s = rev (strip_seqs (map rev white_space) (rev (strip_seqs white_space s)))"

lemma strip_seqs_id: "list_all (\<lambda>w. w = [] \<or> hd w \<noteq> b) ws \<Longrightarrow> strip_seqs ws (b # s) = b # s"
proof -
  assume ws: "list_all (\<lambda>w. w = [] \<or> hd w \<noteq> b) ws"
  have "find (\<lambda>w. w \<noteq> [] \<and> starts_with (b # s) w) ws = None"
    unfolding find_None_iff using ws by (auto simp: list_all_iff starts_with_def neq_Nil_conv)
  then show ?thesis by (simp add: strip_seqs.simps [of ws "b # s"])
qed

lemma strip_seqs_Nil [simp]: "strip_seqs ws [] = []"
proof -
  have "find (\<lambda>w. w \<noteq> [] \<and> starts_with [] w) ws = None"
    unfolding find_None_iff by (auto simp: starts_with_def)
  then show ?thesis by (simp add: strip_seqs.simps [of ws "[]"])
qed

end
