(* ===== verification/Protocol.thy ===== *)
theory Protocol
  imports Utf8
begin

text \<open>
  \<open>src/crates/b3-cli/src/daemon/protocol.rs\<close>: the messages between the daemon and its clients over a Unix
  socket. A reader is the bytes still to come until the end of the stream; \<open>read_exact\<close> and the fixed-size
  reads fail with \<open>UnexpectedEof\<close> when fewer bytes come.
\<close>

definition MSG_INPUT :: u8 where "MSG_INPUT = 0x01"
definition MSG_RESIZE :: u8 where "MSG_RESIZE = 0x02"
definition MSG_DETACH :: u8 where "MSG_DETACH = 0x03"
definition MSG_STOP :: u8 where "MSG_STOP = 0x04"
definition MSG_STATUS :: u8 where "MSG_STATUS = 0x05"
definition MSG_OUTPUT :: u8 where "MSG_OUTPUT = 0x81"
definition MSG_EXITED :: u8 where "MSG_EXITED = 0x82"
definition MSG_STATUS_RESP :: u8 where "MSG_STATUS_RESP = 0x83"
definition MSG_WELCOME :: u8 where "MSG_WELCOME = 0x84"

lemmas msg_tags = MSG_INPUT_def MSG_RESIZE_def MSG_DETACH_def MSG_STOP_def MSG_STATUS_def MSG_OUTPUT_def
  MSG_EXITED_def MSG_STATUS_RESP_def MSG_WELCOME_def

datatype message =
    Input bytes
  | Resize u16 u16
  | Detach
  | Stop
  | Status
  | Output bytes
  | Exited u32
  | StatusResp bytes
  | Welcome u16 u16

datatype io_error = Unexpected_Eof | Invalid_Data string

definition read_exact :: "nat \<Rightarrow> bytes \<Rightarrow> io_error + (bytes \<times> bytes)" where
  "read_exact n bs = (if length bs < n then Inl Unexpected_Eof else Inr (take n bs, drop n bs))"

definition parse_message :: "u8 \<Rightarrow> bytes \<Rightarrow> io_error + message" where
  "parse_message tag payload =
     (if tag = MSG_INPUT then Inr (Input payload)
      else if tag = MSG_RESIZE then
        (if length payload \<noteq> 4 then Inl (Invalid_Data ''bad resize'')
         else Inr (Resize (from_le [payload ! 0, payload ! 1]) (from_le [payload ! 2, payload ! 3])))
      else if tag = MSG_DETACH then Inr Detach
      else if tag = MSG_STOP then Inr Stop
      else if tag = MSG_STATUS then Inr Status
      else if tag = MSG_OUTPUT then Inr (Output payload)
      else if tag = MSG_EXITED then
        (if length payload \<noteq> 4 then Inl (Invalid_Data ''bad exited'')
         else Inr (Exited (from_le [payload ! 0, payload ! 1, payload ! 2, payload ! 3])))
      else if tag = MSG_STATUS_RESP then
        (if utf8_valid payload then Inr (StatusResp payload) else Inl (Invalid_Data ''bad utf8''))
      else if tag = MSG_WELCOME then
        (if length payload \<noteq> 4 then Inl (Invalid_Data ''bad welcome'')
         else Inr (Welcome (from_le [payload ! 0, payload ! 1]) (from_le [payload ! 2, payload ! 3])))
      else Inl (Invalid_Data ''unknown message type''))"

definition read_message :: "bytes \<Rightarrow> io_error + (message \<times> bytes)" where
  "read_message bs =
     (case read_exact 4 bs of
        Inl e \<Rightarrow> Inl e
      | Inr (l, bs1) \<Rightarrow>
          let len = from_le l :: u32
          in if len = 0 then Inl (Invalid_Data ''empty message'')
             else if len > 4 * 1024 * 1024 then Inl (Invalid_Data ''message too large'')
             else (case read_exact 1 bs1 of
                     Inl e \<Rightarrow> Inl e
                   | Inr (t, bs2) \<Rightarrow>
                       (case read_exact (unat (len - 1)) bs2 of
                          Inl e \<Rightarrow> Inl e
                        | Inr (payload, rest) \<Rightarrow>
                            (case parse_message (t ! 0) payload of
                               Inl e \<Rightarrow> Inl e
                             | Inr m \<Rightarrow> Inr (m, rest)))))"

definition message_parts :: "message \<Rightarrow> u8 \<times> bytes" where
  "message_parts msg =
     (case msg of
        Input d \<Rightarrow> (MSG_INPUT, d)
      | Resize rows cols \<Rightarrow> (MSG_RESIZE, to_le 2 rows @ to_le 2 cols)
      | Detach \<Rightarrow> (MSG_DETACH, [])
      | Stop \<Rightarrow> (MSG_STOP, [])
      | Status \<Rightarrow> (MSG_STATUS, [])
      | Output d \<Rightarrow> (MSG_OUTPUT, d)
      | Exited code \<Rightarrow> (MSG_EXITED, to_le 4 code)
      | StatusResp s \<Rightarrow> (MSG_STATUS_RESP, s)
      | Welcome rows cols \<Rightarrow> (MSG_WELCOME, to_le 2 rows @ to_le 2 cols))"

definition write_message :: "message \<Rightarrow> bytes" where
  "write_message msg =
     (let (tag, payload) = message_parts msg;
          len = (of_nat (1 + length payload) :: u32)
      in to_le 4 len @ [tag] @ (if payload \<noteq> [] then payload else []))"


section \<open>Reading back\<close>

text \<open>The client's loop: messages until the first error.\<close>

lemma read_exact_less [dest]: "read_exact n bs = Inr (a, r) \<Longrightarrow> bs = a @ r \<and> length a = n"
  by (auto simp: read_exact_def split: if_splits)

lemma read_message_less: "read_message bs = Inr (m, rest) \<Longrightarrow> length rest < length bs"
  by (auto simp: read_message_def Let_def split: sum.splits prod.splits if_splits dest!: read_exact_less)

function read_loop :: "bytes \<Rightarrow> message list \<times> io_error" where
  "read_loop bs =
     (case read_message bs of
        Inl e \<Rightarrow> ([], e)
      | Inr (m, rest) \<Rightarrow> (let (ms, e) = read_loop rest in (m # ms, e)))"
  by pat_completeness auto
termination
  by (relation "measure length") (auto dest: read_message_less)

declare read_loop.simps [simp del]

definition MAX_MESSAGE :: nat where "MAX_MESSAGE = 4 * 1024 * 1024"

definition message_wf :: "message \<Rightarrow> bool" where
  "message_wf m \<longleftrightarrow> 1 + length (snd (message_parts m)) \<le> MAX_MESSAGE \<and>
     (case m of StatusResp s \<Rightarrow> utf8_valid s | _ \<Rightarrow> True)"

lemma to_le_nth: "[to_le 2 w ! 0, to_le 2 w ! Suc 0] = to_le 2 (w :: u16)"
  by (simp add: to_le_2)

lemma parse_parts:
  "(case m of StatusResp s \<Rightarrow> utf8_valid s | _ \<Rightarrow> True) \<Longrightarrow>
   parse_message (fst (message_parts m)) (snd (message_parts m)) = Inr m"
  by (cases m) (simp_all add: message_parts_def parse_message_def msg_tags to_le_2 to_le_4 le_simps)

lemma write_message_eq:
  "write_message m = to_le 4 (of_nat (1 + length (snd (message_parts m))) :: u32) @ fst (message_parts m) # snd (message_parts m)"
  by (simp add: write_message_def split: prod.splits)

lemma len_word:
  assumes "n < 2 ^ 32 - 1"
  shows "unat (of_nat (1 + n) :: u32) = 1 + n" and "unat (of_nat (1 + n) - 1 :: u32) = n" and "(of_nat (1 + n) :: u32) \<noteq> 0"
proof -
  show u: "unat (of_nat (1 + n) :: u32) = 1 + n" using assms by (intro unat_of_nat_u32) simp
  then show "(of_nat (1 + n) :: u32) \<noteq> 0" by auto
  have "(of_nat (1 + n) - 1 :: u32) = of_nat n" by simp
  moreover have "unat (of_nat n :: u32) = n" using assms by (intro unat_of_nat_u32) simp
  ultimately show "unat (of_nat (1 + n) - 1 :: u32) = n" by simp
qed

text \<open>What the reader sees of the first \<open>k\<close> bytes of an encoding with \<open>rest\<close> behind it.\<close>

lemma read_write:
  assumes "message_wf m"
  shows "read_message (write_message m @ rest) = Inr (m, rest)"
proof -
  let ?p = "snd (message_parts m)" and ?t = "fst (message_parts m)"
  let ?l = "of_nat (1 + length ?p) :: u32"
  have n: "length ?p < 2 ^ 32 - 1" and big: "1 + length ?p \<le> 4194304"
    and s: "case m of StatusResp s \<Rightarrow> utf8_valid s | _ \<Rightarrow> True"
    using assms by (simp_all add: message_wf_def MAX_MESSAGE_def)
  note len = len_word [OF n]
  have ok: "\<not> ?l > 4 * 1024 * 1024" using big len(1) by (simp add: word_less_nat_alt)
  have "from_le (to_le 4 ?l) = ?l" by (rule from_le_to_le) simp
  with len ok parse_parts [OF s] show ?thesis
    unfolding write_message_eq read_message_def read_exact_def by (simp add: Let_def del: of_nat_add of_nat_Suc)
qed

lemma read_truncated:
  assumes "message_wf m" and "k < length (write_message m)"
  shows "read_message (take k (write_message m)) = Inl Unexpected_Eof"
proof -
  let ?p = "snd (message_parts m)" and ?t = "fst (message_parts m)"
  let ?l = "of_nat (1 + length ?p) :: u32"
  have n: "length ?p < 2 ^ 32 - 1" and big: "1 + length ?p \<le> 4194304"
    using assms by (simp_all add: message_wf_def MAX_MESSAGE_def)
  note len = len_word [OF n]
  have ok: "\<not> ?l > 4 * 1024 * 1024" using big len(1) by (simp add: word_less_nat_alt)
  have f: "from_le (to_le 4 ?l) = ?l" by (rule from_le_to_le) simp
  have k: "k < 5 + length ?p" using assms(2) by (simp add: write_message_eq)
  consider "k < 4" | "k = 4" | j where "k = 5 + j" "j < length ?p"
    using k by (metis add.commute add_less_cancel_left le_Suc_ex linorder_not_less nat_less_le Suc_leI eval_nat_numeral(3) add_Suc)
  then show ?thesis
  proof cases
    case 1
    then show ?thesis by (simp add: write_message_eq read_message_def read_exact_def)
  next
    case 2
    then have "take k (write_message m) = to_le 4 ?l" by (simp add: write_message_eq)
    then show ?thesis using f len ok by (simp add: read_message_def read_exact_def Let_def del: of_nat_add of_nat_Suc)
  next
    case 3
    then have "take k (write_message m) = to_le 4 ?l @ ?t # take j ?p" by (simp add: write_message_eq)
    then show ?thesis using f len ok 3(2) by (simp add: read_message_def read_exact_def Let_def del: of_nat_add of_nat_Suc)
  qed
qed

lemma read_too_large:
  assumes "MAX_MESSAGE < 1 + length (snd (message_parts m))" and "length (snd (message_parts m)) < 2 ^ 32 - 1"
  shows "read_message (write_message m @ rest) = Inl (Invalid_Data ''message too large'')"
proof -
  let ?l = "of_nat (1 + length (snd (message_parts m))) :: u32"
  note len = len_word [OF assms(2)]
  have "?l > 4 * 1024 * 1024" using assms(1) len(1) by (simp add: word_less_nat_alt MAX_MESSAGE_def)
  moreover have "from_le (to_le 4 ?l) = ?l" by (rule from_le_to_le) simp
  ultimately show ?thesis
    using len(3) unfolding write_message_eq read_message_def read_exact_def by (simp add: Let_def del: of_nat_add of_nat_Suc)
qed

interpretation ipc: stream_codec write_message read_message message_wf
  by unfold_locales (rule read_write, assumption, simp add: write_message_eq)

lemma read_loop_write:
  "\<forall>m \<in> set ms. message_wf m \<Longrightarrow> read_loop (concat (map write_message ms) @ rest) = (ms @ fst (read_loop rest), snd (read_loop rest))"
proof (induction ms)
  case (Cons m ms)
  have "read_message (write_message m @ concat (map write_message ms) @ rest) = Inr (m, concat (map write_message ms) @ rest)"
    using Cons.prems by (intro ipc.read_enc) simp
  with Cons show ?case by (subst read_loop.simps) (simp add: Let_def)
qed simp

text \<open>
  \<^bold>\<open>C13\<close>. The IPC stream: whatever messages are written, a peer that reads until the first error gets exactly
  these messages in order; a connection cut anywhere inside the next message is an end-of-stream error,
  never another message; and a message over 4 MiB, which the writer does send, is refused by the reader.
\<close>

theorem ipc_stream:
  assumes "\<forall>m \<in> set ms. message_wf m" and "message_wf m" and "k < length (write_message m)"
    and "MAX_MESSAGE < 1 + length (snd (message_parts big))" and "length (snd (message_parts big)) < 2 ^ 32 - 1"
  shows "read_loop (concat (map write_message ms) @ take k (write_message m)) = (ms, Unexpected_Eof) \<and>
    read_loop (concat (map write_message ms) @ write_message big @ rest) = (ms, Invalid_Data ''message too large'')"
proof -
  have "read_loop (take k (write_message m)) = ([], Unexpected_Eof)"
    using read_truncated [OF assms(2,3)] by (simp add: read_loop.simps [of "take k (write_message m)"])
  moreover have "read_loop (write_message big @ rest) = ([], Invalid_Data ''message too large'')"
    using read_too_large [OF assms(4,5), of rest] by (simp add: read_loop.simps [of "write_message big @ rest"])
  ultimately show ?thesis using read_loop_write [OF assms(1)] by simp
qed

theorem ipc_stream_witness:
  "read_loop (concat (map write_message [Resize 40 120, Input [104, 105], Detach]) @ take 3 (write_message Stop)) =
     ([Resize 40 120, Input [104, 105], Detach], Unexpected_Eof)"
proof (rule conjunct1 [OF ipc_stream])
  show "\<forall>m \<in> set [Resize 40 120, Input [104, 105], Detach]. message_wf m"
    by (simp add: message_wf_def message_parts_def MAX_MESSAGE_def)
  show "message_wf Stop" "3 < length (write_message Stop)"
    by (simp_all add: message_wf_def message_parts_def MAX_MESSAGE_def write_message_eq)
  show "MAX_MESSAGE < 1 + length (snd (message_parts (Output (replicate 4194304 0))))"
    "length (snd (message_parts (Output (replicate 4194304 0)))) < 2 ^ 32 - 1"
    by (simp_all add: message_parts_def MAX_MESSAGE_def)
qed

end
