(* ===== verification/Rtc_Channel.thy ===== *)
theory Rtc_Channel
  imports Json
begin

text \<open>
  \<open>src/crates/b3-webrtc/src/channel.rs\<close>, the framed messages over a WebRTC data channel, and the handler of
  incoming frames in \<open>src/crates/b3-webrtc/src/peer.rs\<close>. The text of a JSON error is left out.
\<close>

definition MAX_CHUNK_SIZE :: nat where "MAX_CHUNK_SIZE = 16 * 1024"
definition CHUNK_HEADER_SIZE :: nat where "CHUNK_HEADER_SIZE = 9"
definition FRAME_HEADER_SIZE :: nat where "FRAME_HEADER_SIZE = 5"
definition CHUNK_PAYLOAD_SIZE :: nat where
  "CHUNK_PAYLOAD_SIZE = MAX_CHUNK_SIZE - FRAME_HEADER_SIZE - CHUNK_HEADER_SIZE"
definition MAX_CHUNKS :: nat where "MAX_CHUNKS = 256"
definition TYPE_JSON :: u8 where "TYPE_JSON = 0x01"
definition TYPE_BINARY :: u8 where "TYPE_BINARY = 0x02"
definition TYPE_PING :: u8 where "TYPE_PING = 0x03"
definition TYPE_PONG :: u8 where "TYPE_PONG = 0x04"
definition TYPE_CHUNK :: u8 where "TYPE_CHUNK = 0x05"

lemmas rtc_types = TYPE_JSON_def TYPE_BINARY_def TYPE_PING_def TYPE_PONG_def TYPE_CHUNK_def

datatype 'v channel_message = Msg_Json 'v | Msg_Binary bytes | Msg_Ping | Msg_Pong

datatype 'v decode_result =
    Complete "'v channel_message"
  | Chunk nat nat u8 bytes

datatype decode_error =
    Too_Short
  | Truncated nat nat
  | Invalid_Json
  | Invalid_Chunk
  | Unknown_Type u8


section \<open>Encoding\<close>

definition encode_simple :: "u8 \<Rightarrow> bytes" where
  "encode_simple type_tag = type_tag # to_le 4 (0 :: u32)"

definition chunk_frame :: "u8 \<Rightarrow> nat \<Rightarrow> nat \<times> bytes \<Rightarrow> bytes" where
  "chunk_frame type_tag total_chunks = (\<lambda>(seq, chunk_data).
     let frame_len = CHUNK_HEADER_SIZE + length chunk_data
     in TYPE_CHUNK # to_le 4 (of_nat frame_len :: u32) @
        to_le 4 (of_nat seq :: u32) @ to_le 4 (of_nat total_chunks :: u32) @ [type_tag] @ chunk_data)"

definition encode_payload :: "u8 \<Rightarrow> bytes \<Rightarrow> bytes list" where
  "encode_payload type_tag payload =
     (let total_size = 1 + 4 + length payload
      in if total_size \<le> MAX_CHUNK_SIZE
         then [type_tag # to_le 4 (of_nat (length payload) :: u32) @ payload]
         else let total_chunks = (length payload + CHUNK_PAYLOAD_SIZE - 1) div CHUNK_PAYLOAD_SIZE
              in map (chunk_frame type_tag total_chunks) (enumerate 0 (chunks CHUNK_PAYLOAD_SIZE payload)))"

definition rtc_encode :: "'v json_lib \<Rightarrow> 'v channel_message \<Rightarrow> bytes list" where
  "rtc_encode J msg =
     (case msg of
        Msg_Json v \<Rightarrow> encode_payload TYPE_JSON (case json_print J v of Some p \<Rightarrow> p | None \<Rightarrow> [])
      | Msg_Binary d \<Rightarrow> encode_payload TYPE_BINARY d
      | Msg_Ping \<Rightarrow> [encode_simple TYPE_PING]
      | Msg_Pong \<Rightarrow> [encode_simple TYPE_PONG])"


section \<open>Decoding\<close>

definition decode_chunk :: "bytes \<Rightarrow> decode_error + 'v decode_result" where
  "decode_chunk payload =
     (if length payload < CHUNK_HEADER_SIZE then Inl Invalid_Chunk
      else let seq = unat (from_le (take 4 payload) :: u32);
               n_total = unat (from_le (take 4 (drop 4 payload)) :: u32)
           in if n_total > MAX_CHUNKS then Inl Invalid_Chunk
              else Inr (Chunk seq n_total (payload ! 8) (drop 9 payload)))"

definition rtc_decode :: "'v json_lib \<Rightarrow> bytes \<Rightarrow> decode_error + 'v decode_result" where
  "rtc_decode J data =
     (if length data < 5 then Inl Too_Short
      else let type_tag = data ! 0;
               len = unat (from_le (take 4 (drop 1 data)) :: u32)
           in if length data < 5 + len then Inl (Truncated (5 + len) (length data))
              else let payload = take len (drop 5 data)
                   in if type_tag = TYPE_JSON then
                        (case json_parse J payload of
                           None \<Rightarrow> Inl Invalid_Json
                         | Some v \<Rightarrow> Inr (Complete (Msg_Json v)))
                      else if type_tag = TYPE_BINARY then Inr (Complete (Msg_Binary payload))
                      else if type_tag = TYPE_PING then Inr (Complete Msg_Ping)
                      else if type_tag = TYPE_PONG then Inr (Complete Msg_Pong)
                      else if type_tag = TYPE_CHUNK then decode_chunk payload
                      else Inl (Unknown_Type type_tag))"


section \<open>Reassembly\<close>

record chunk_assembler =
  asm_chunks :: "bytes option list"
  asm_type :: u8
  asm_total :: nat
  asm_received :: nat

definition assembler_new :: "nat \<Rightarrow> u8 \<Rightarrow> chunk_assembler" where
  "assembler_new n_total original_type =
     (let capped = min n_total MAX_CHUNKS
      in \<lparr>asm_chunks = replicate capped None, asm_type = original_type, asm_total = capped, asm_received = 0\<rparr>)"

definition reassembled :: "'v json_lib \<Rightarrow> u8 \<Rightarrow> bytes \<Rightarrow> 'v channel_message option" where
  "reassembled J t payload =
     (if t = TYPE_JSON then map_option Msg_Json (json_parse J payload)
      else if t = TYPE_BINARY then Some (Msg_Binary payload)
      else None)"

definition assembler_store :: "nat \<Rightarrow> bytes \<Rightarrow> chunk_assembler \<Rightarrow> chunk_assembler" where
  "assembler_store seq data a =
     (let a1 = (if asm_chunks a ! seq = None then a\<lparr>asm_received := asm_received a + 1\<rparr> else a)
      in a1\<lparr>asm_chunks := (asm_chunks a1)[seq := Some data]\<rparr>)"

definition assembler_payload :: "chunk_assembler \<Rightarrow> bytes" where
  "assembler_payload a = concat (map (\<lambda>c. case c of Some d \<Rightarrow> d | None \<Rightarrow> []) (asm_chunks a))"

definition assembler_feed ::
  "'v json_lib \<Rightarrow> nat \<Rightarrow> bytes \<Rightarrow> chunk_assembler \<Rightarrow> chunk_assembler \<times> 'v channel_message option" where
  "assembler_feed J seq data a =
     (if seq \<ge> asm_total a then (a, None)
      else let a2 = assembler_store seq data a
           in if asm_received a2 < asm_total a2 then (a2, None)
              else (a2, reassembled J (asm_type a2) (assembler_payload a2)))"

definition is_b3_reliable_frame :: "bytes \<Rightarrow> bool" where
  "is_b3_reliable_frame data \<longleftrightarrow>
     length data \<ge> 2 \<and> data ! 0 = 0xB3 \<and> (data ! 1 = 0x01 \<or> data ! 1 = 0x02 \<or> data ! 1 = 0x03)"

text \<open>
  \<open>B3DcHandler::on_message\<close>: the state is the assembler, if any; the output is the message handed to the
  decoded queue, which drops it when it is full.
\<close>

definition on_message ::
  "'v json_lib \<Rightarrow> chunk_assembler option \<Rightarrow> bytes \<Rightarrow> chunk_assembler option \<times> 'v channel_message list" where
  "on_message J asm msg =
     (if is_b3_reliable_frame msg then (asm, [Msg_Binary msg])
      else case rtc_decode J msg of
             Inr (Complete m) \<Rightarrow> (asm, [m])
           | Inr (Chunk seq n_total original_type data) \<Rightarrow>
               (let a = (case asm of Some a \<Rightarrow> a | None \<Rightarrow> assembler_new n_total original_type)
                in case assembler_feed J seq data a of
                     (a', Some m) \<Rightarrow> (None, [m])
                   | (a', None) \<Rightarrow> (Some a', []))
           | Inl _ \<Rightarrow> (asm, []))"

fun on_messages ::
  "'v json_lib \<Rightarrow> chunk_assembler option \<Rightarrow> bytes list \<Rightarrow> chunk_assembler option \<times> 'v channel_message list" where
  "on_messages J asm [] = (asm, [])"
| "on_messages J asm (f # fs) =
     (let (asm1, ms) = on_message J asm f; (asm2, ms') = on_messages J asm1 fs in (asm2, ms @ ms'))"


section \<open>Sending\<close>

text \<open>
  The queue to the send loop closes when its receiver is gone: \<open>closed\<close> is what each push of a frame finds.
  The result is what was queued, and whether the call failed.
\<close>

datatype send_error = Channel_Closed | Channel_Dead

fun push_frames :: "bool list \<Rightarrow> bytes list \<Rightarrow> bytes list \<times> send_error option" where
  "push_frames closed [] = ([], None)"
| "push_frames closed (f # fs) =
     (if closed \<noteq> [] \<and> hd closed then ([], Some Channel_Closed)
      else let (q, r) = push_frames (tl closed) fs in (f # q, r))"

definition sender_send :: "'v json_lib \<Rightarrow> bool list \<Rightarrow> 'v channel_message \<Rightarrow> bytes list \<times> send_error option" where
  "sender_send J closed msg = push_frames closed (rtc_encode J msg)"

definition send_raw :: "bool \<Rightarrow> bool list \<Rightarrow> bytes \<Rightarrow> bytes list \<times> send_error option" where
  "send_raw alive closed data = (if \<not> alive then ([], Some Channel_Dead) else push_frames closed [data])"


section \<open>Frames through the handler\<close>

lemma on_messages_append:
  "on_messages J asm (fs @ gs) =
     (let (asm1, ms) = on_messages J asm fs; (asm2, ms') = on_messages J asm1 gs in (asm2, ms @ ms'))"
  by (induction fs arbitrary: asm) (simp_all add: Let_def split: prod.splits)

lemma payload_sizes: "CHUNK_PAYLOAD_SIZE = 16370"
  by (simp add: CHUNK_PAYLOAD_SIZE_def MAX_CHUNK_SIZE_def FRAME_HEADER_SIZE_def CHUNK_HEADER_SIZE_def)

lemma decode_frame:
  assumes "length payload < 2 ^ 32"
  shows "take (unat (from_le (take 4 (drop 1 (t # to_le 4 (of_nat (length payload) :: u32) @ payload))) :: u32))
           (drop 5 (t # to_le 4 (of_nat (length payload) :: u32) @ payload)) = payload"
    and "unat (from_le (take 4 (drop 1 (t # to_le 4 (of_nat (length payload) :: u32) @ payload))) :: u32) = length payload"
proof -
  have "from_le (to_le 4 (of_nat (length payload) :: u32)) = (of_nat (length payload) :: u32)" by (rule from_le_to_le) simp
  then show l: "unat (from_le (take 4 (drop 1 (t # to_le 4 (of_nat (length payload) :: u32) @ payload))) :: u32) = length payload"
    using assms by (simp add: unat_of_nat_u32)
  show "take (unat (from_le (take 4 (drop 1 (t # to_le 4 (of_nat (length payload) :: u32) @ payload))) :: u32))
           (drop 5 (t # to_le 4 (of_nat (length payload) :: u32) @ payload)) = payload"
    unfolding l by simp
qed

lemma not_reliable: "t \<noteq> 0xB3 \<Longrightarrow> \<not> is_b3_reliable_frame (t # r)"
  by (simp add: is_b3_reliable_frame_def)

lemma decode_simple:
  "length d < 2 ^ 32 \<Longrightarrow> rtc_decode J (TYPE_BINARY # to_le 4 (of_nat (length d) :: u32) @ d) = Inr (Complete (Msg_Binary d))"
  "length d < 2 ^ 32 \<Longrightarrow> json_parse J d = Some v \<Longrightarrow>
     rtc_decode J (TYPE_JSON # to_le 4 (of_nat (length d) :: u32) @ d) = Inr (Complete (Msg_Json v))"
  by (simp_all only: rtc_decode_def Let_def decode_frame) (simp_all add: rtc_types)

lemma decode_ping: "rtc_decode J (encode_simple TYPE_PING) = Inr (Complete Msg_Ping)"
  "rtc_decode J (encode_simple TYPE_PONG) = Inr (Complete Msg_Pong)"
  using decode_frame [of "[]"] by (simp_all add: rtc_decode_def encode_simple_def rtc_types)

lemma decode_chunk_frame:
  assumes "seq < 2 ^ 32" and "n < 2 ^ 32" and "length d + 9 < 2 ^ 32"
  shows "rtc_decode J (chunk_frame t n (seq, d)) = (if n \<le> MAX_CHUNKS then Inr (Chunk seq n t d) else Inl Invalid_Chunk)"
proof -
  let ?p = "to_le 4 (of_nat seq :: u32) @ to_le 4 (of_nat n :: u32) @ [t] @ d"
  have len: "length ?p = CHUNK_HEADER_SIZE + length d" by (simp add: CHUNK_HEADER_SIZE_def)
  have small: "length ?p < 2 ^ 32" using assms(3) by simp
  have f: "chunk_frame t n (seq, d) = TYPE_CHUNK # to_le 4 (of_nat (length ?p) :: u32) @ ?p"
    unfolding chunk_frame_def len by simp
  have le: "from_le (to_le 4 w) = w" for w :: u32 by (rule from_le_to_le) simp
  have "(to_le 4 (of_nat seq :: u32) @ to_le 4 (of_nat n :: u32) @ [t] @ d) ! 8 = t"
    by (simp add: nth_append)
  then have "decode_chunk ?p = (if n \<le> MAX_CHUNKS then Inr (Chunk seq n t d) else Inl Invalid_Chunk)"
    using assms(1,2) by (simp add: decode_chunk_def Let_def CHUNK_HEADER_SIZE_def le unat_of_nat_u32)
  then show ?thesis
    unfolding f by (simp only: rtc_decode_def Let_def decode_frame [OF small]) (simp add: rtc_types)
qed


section \<open>Chunks in any order\<close>

text \<open>The assembler of a message of chunks \<open>cs\<close> of which those with numbers in \<open>S\<close> have arrived.\<close>

definition asm_at :: "u8 \<Rightarrow> bytes list \<Rightarrow> nat set \<Rightarrow> chunk_assembler" where
  "asm_at t cs S =
     \<lparr>asm_chunks = map (\<lambda>i. if i \<in> S then Some (cs ! i) else None) [0..<length cs], asm_type = t,
      asm_total = length cs, asm_received = card S\<rparr>"

lemma asm_at_new: "length cs \<le> MAX_CHUNKS \<Longrightarrow> assembler_new (length cs) t = asm_at t cs {}"
  by (simp add: assembler_new_def asm_at_def map_replicate_const min_absorb1 Let_def)

lemma feed_at:
  assumes "S \<subseteq> {..<length cs}" and "i < length cs"
  shows "assembler_feed J i (cs ! i) (asm_at t cs S) =
    (asm_at t cs (insert i S), if insert i S = {..<length cs} then reassembled J t (concat cs) else None)"
proof -
  let ?I = "insert i S"
  have fin: "finite S" using assms(1) by (rule finite_subset) simp
  have upd: "(map (\<lambda>j. if j \<in> S then Some (cs ! j) else None) [0..<length cs])[i := Some (cs ! i)] =
      map (\<lambda>j. if j \<in> ?I then Some (cs ! j) else None) [0..<length cs]"
    using assms(2) by (intro nth_equalityI) (auto simp: nth_list_update)
  have st: "assembler_store i (cs ! i) (asm_at t cs S) = asm_at t cs ?I"
  proof (cases "i \<in> S")
    case True
    then have "asm_chunks (asm_at t cs S) ! i \<noteq> None" using assms(2) by (simp add: asm_at_def)
    with True upd show ?thesis by (simp add: assembler_store_def insert_absorb) (simp add: asm_at_def)
  next
    case False
    then have "asm_chunks (asm_at t cs S) ! i = None" using assms(2) by (simp add: asm_at_def)
    with False upd fin show ?thesis by (simp add: assembler_store_def) (simp add: asm_at_def)
  qed
  have sub: "?I \<subseteq> {..<length cs}" using assms by auto
  have full: "card ?I < length cs \<longleftrightarrow> ?I \<noteq> {..<length cs}"
    using card_subset_eq [OF finite_lessThan sub] card_mono [OF finite_lessThan sub] by (metis card_lessThan nat_less_le)
  have cat: "assembler_payload (asm_at t cs ?I) = concat cs" if "?I = {..<length cs}"
  proof -
    have "map (\<lambda>i. case if i \<in> ?I then Some (cs ! i) else None of None \<Rightarrow> [] | Some d \<Rightarrow> d) [0..<length cs] = cs"
      using that by (intro nth_equalityI) auto
    then show ?thesis by (simp only: assembler_payload_def asm_at_def map_map comp_def chunk_assembler.select_convs)
  qed
  have fields: "asm_total (asm_at t cs T) = length cs" "asm_received (asm_at t cs T) = card T" "asm_type (asm_at t cs T) = t" for T
    by (simp_all add: asm_at_def)
  show ?thesis
    unfolding assembler_feed_def st Let_def fields using assms(2) full cat by (cases "?I = {..<length cs}") simp_all
qed

definition chunk_frames :: "u8 \<Rightarrow> bytes list \<Rightarrow> bytes list" where
  "chunk_frames t cs = map (chunk_frame t (length cs)) (enumerate 0 cs)"

definition chunks_ok :: "bytes list \<Rightarrow> bool" where
  "chunks_ok cs \<longleftrightarrow> length cs \<le> MAX_CHUNKS \<and> (\<forall>c \<in> set cs. length c + 9 < 2 ^ 32)"

lemma length_chunk_frames [simp]: "length (chunk_frames t cs) = length cs"
  by (simp add: chunk_frames_def)

lemma chunk_frame_nth: "i < length cs \<Longrightarrow> chunk_frames t cs ! i = chunk_frame t (length cs) (i, cs ! i)"
  by (simp add: chunk_frames_def nth_enumerate_eq)

lemma not_reliable_chunk: "\<not> is_b3_reliable_frame (chunk_frame t n p)"
  by (cases p) (simp add: chunk_frame_def not_reliable rtc_types Let_def)

lemma on_chunk:
  assumes "chunks_ok cs" and "S \<subseteq> {..<length cs}" and "i < length cs" and "asm = None \<and> S = {} \<or> asm = Some (asm_at t cs S)"
  shows "on_message J asm (chunk_frames t cs ! i) =
    (if insert i S = {..<length cs}
     then (case reassembled J t (concat cs) of Some m \<Rightarrow> (None, [m]) | None \<Rightarrow> (Some (asm_at t cs (insert i S)), []))
     else (Some (asm_at t cs (insert i S)), []))"
proof -
  have n: "length cs \<le> MAX_CHUNKS" "length cs < 2 ^ 32" and d: "length (cs ! i) + 9 < 2 ^ 32"
    using assms(1,3) by (auto simp: chunks_ok_def MAX_CHUNKS_def)
  have "rtc_decode J (chunk_frames t cs ! i) = Inr (Chunk i (length cs) t (cs ! i))"
    unfolding chunk_frame_nth [OF assms(3)] using decode_chunk_frame [OF _ n(2) d, of i] assms(3) n by simp
  moreover have "(case asm of Some a \<Rightarrow> a | None \<Rightarrow> assembler_new (length cs) t) = asm_at t cs S"
    using assms(4) asm_at_new [OF n(1)] by auto
  moreover have "\<not> is_b3_reliable_frame (chunk_frames t cs ! i)"
    unfolding chunk_frame_nth [OF assms(3)] by (rule not_reliable_chunk)
  ultimately show ?thesis
    using feed_at [OF assms(2,3), of J t] by (simp add: on_message_def Let_def split: option.splits)
qed

text \<open>Before the last missing chunk nothing is delivered; with it, the message.\<close>

lemma chunks_partial:
  assumes "chunks_ok cs" and "S \<subseteq> {..<length cs}" and "asm = None \<and> S = {} \<or> asm = Some (asm_at t cs S)"
    and "set js \<subseteq> {..<length cs}" and "S \<union> set js \<noteq> {..<length cs}"
  shows "on_messages J asm (map ((!) (chunk_frames t cs)) js) =
    (if js = [] then asm else Some (asm_at t cs (S \<union> set js)), [])"
  using assms(2-5)
proof (induction js arbitrary: S asm)
  case (Cons j js)
  then have j: "j < length cs" and sub: "insert j S \<subseteq> {..<length cs}" and ne: "insert j S \<noteq> {..<length cs}" by auto
  have "on_message J asm (chunk_frames t cs ! j) = (Some (asm_at t cs (insert j S)), [])"
    using on_chunk [OF assms(1) Cons.prems(1) j Cons.prems(2)] ne by simp
  moreover have "on_messages J (Some (asm_at t cs (insert j S))) (map ((!) (chunk_frames t cs)) js) =
      (if js = [] then Some (asm_at t cs (insert j S)) else Some (asm_at t cs (insert j S \<union> set js)), [])"
    using Cons.IH [OF sub] Cons.prems by simp
  ultimately show ?case by (simp add: Let_def)
qed simp

lemma chunks_complete:
  assumes "chunks_ok cs" and "set (js @ [j]) = {..<length cs}" and "j \<notin> set js" and "reassembled J t (concat cs) = Some m"
  shows "on_messages J None (map ((!) (chunk_frames t cs)) (js @ [j])) = (None, [m])"
proof -
  have js: "set js \<subseteq> {..<length cs}" "{} \<union> set js \<noteq> {..<length cs}" and j: "j < length cs" and all: "insert j (set js) = {..<length cs}"
    using assms(2,3) by auto
  let ?asm = "if js = [] then None else Some (asm_at t cs (set js))"
  have "on_messages J None (map ((!) (chunk_frames t cs)) js) = (?asm, [])"
    using chunks_partial [OF assms(1) _ _ js, of None t J] by simp
  moreover have "on_message J ?asm (chunk_frames t cs ! j) = (None, [m])"
    using on_chunk [OF assms(1) js(1) j, of ?asm t J] assms(4) all by simp
  ultimately show ?thesis by (simp add: on_messages_append)
qed


section \<open>Streams of messages\<close>

text \<open>The payload and the tag of a message; the messages a channel can carry.\<close>

fun msg_payload :: "'v json_lib \<Rightarrow> 'v channel_message \<Rightarrow> u8 \<times> bytes" where
  "msg_payload J (Msg_Json v) = (TYPE_JSON, case json_print J v of Some p \<Rightarrow> p | None \<Rightarrow> [])"
| "msg_payload J (Msg_Binary d) = (TYPE_BINARY, d)"
| "msg_payload J Msg_Ping = (TYPE_PING, [])"
| "msg_payload J Msg_Pong = (TYPE_PONG, [])"

definition carried :: "'v json_lib \<Rightarrow> 'v channel_message \<Rightarrow> bool" where
  "carried J m \<longleftrightarrow> length (snd (msg_payload J m)) \<le> MAX_CHUNKS * CHUNK_PAYLOAD_SIZE \<and>
     (case m of Msg_Json v \<Rightarrow> json_parse J (snd (msg_payload J m)) = Some v | _ \<Rightarrow> True)"

lemma ceil_le_256: "l \<le> 256 * 16370 \<Longrightarrow> (l + 16370 - 1) div 16370 \<le> (256 :: nat)"
  by (simp add: div_le_mono [of "l + 16370 - 1" "256 * 16370 + 16370 - 1" 16370, simplified])

lemma ceil_gt_256: "256 * 16370 < l \<Longrightarrow> (256 :: nat) < (l + 16370 - 1) div 16370"
  using div_le_mono [of "256 * 16370 + 16370" "l + 16370 - 1" 16370] by simp

definition is_big :: "bytes \<Rightarrow> bool" where
  "is_big payload \<longleftrightarrow> MAX_CHUNK_SIZE < 5 + length payload"

lemma encode_big: "is_big payload \<Longrightarrow> encode_payload t payload = chunk_frames t (chunks CHUNK_PAYLOAD_SIZE payload)"
  by (simp add: encode_payload_def is_big_def chunk_frames_def Let_def length_chunks payload_sizes)

lemma encode_small: "\<not> is_big payload \<Longrightarrow> encode_payload t payload = [t # to_le 4 (of_nat (length payload) :: u32) @ payload]"
  by (simp add: encode_payload_def is_big_def Let_def)

lemma chunks_ok_payload: "length payload \<le> MAX_CHUNKS * CHUNK_PAYLOAD_SIZE \<Longrightarrow> chunks_ok (chunks CHUNK_PAYLOAD_SIZE payload)"
  using chunks_bounds [of _ CHUNK_PAYLOAD_SIZE payload] ceil_le_256 [of "length payload"]
  by (fastforce simp: chunks_ok_def length_chunks payload_sizes MAX_CHUNKS_def)

lemma reassembled_json: "reassembled J TYPE_JSON p = map_option Msg_Json (json_parse J p)"
  and reassembled_binary: "reassembled J TYPE_BINARY p = Some (Msg_Binary p)"
  by (simp_all add: reassembled_def rtc_types)

lemma ping_frames: "\<not> is_b3_reliable_frame (encode_simple TYPE_PING)" "\<not> is_b3_reliable_frame (encode_simple TYPE_PONG)"
  by (simp_all add: encode_simple_def not_reliable rtc_types)

text \<open>One message, its frames in any order, each exactly once or repeated before the last missing one.\<close>

lemma message_any_order:
  assumes "carried J m" and "set (js @ [j]) = {..<length (rtc_encode J m)}" and "j \<notin> set js"
  shows "on_messages J None (map ((!) (rtc_encode J m)) (js @ [j])) = (None, [m])"
proof -
  have single: "on_messages J None (map ((!) (rtc_encode J m)) (js @ [j])) = (None, [m])"
    if "rtc_encode J m = [f]" "on_message J None f = (None, [m])" for f
  proof -
    have one: "set (js @ [j]) = {0}" using assms(2) unfolding that(1) by auto
    then have "js = []" "j = 0" using assms(3) by (cases js; auto)+
    then show ?thesis by (simp add: that)
  qed
  have chunked: "on_messages J None (map ((!) (encode_payload t p)) (js @ [j])) = (None, [m])"
    if enc: "rtc_encode J m = encode_payload t p" and p: "length p \<le> MAX_CHUNKS * CHUNK_PAYLOAD_SIZE"
      and r: "reassembled J t p = Some m" and s: "rtc_decode J (t # to_le 4 (of_nat (length p) :: u32) @ p) = Inr (Complete m)"
      and t: "t \<noteq> 0xB3" for t p
  proof (cases "is_big p")
    case True
    note e = encode_big [OF this, of t]
    have "concat (chunks CHUNK_PAYLOAD_SIZE p) = p" by (simp add: payload_sizes)
    moreover have "set (js @ [j]) = {..<length (chunks CHUNK_PAYLOAD_SIZE p)}" using assms(2) unfolding enc e by simp
    ultimately show ?thesis
      unfolding e by (intro chunks_complete [OF chunks_ok_payload [OF p]] assms(3)) (simp_all add: r)
  next
    case False
    note e = encode_small [OF this, of t]
    have one: "set (js @ [j]) = {0}" using assms(2) unfolding enc e by auto
    then have "js = []" "j = 0" using assms(3) by (cases js; auto)+
    then show ?thesis unfolding e by (simp add: on_message_def not_reliable t s)
  qed
  show ?thesis
  proof (cases m)
    case (Msg_Json v)
    let ?p = "case json_print J v of Some p \<Rightarrow> p | None \<Rightarrow> []"
    have p: "length ?p \<le> MAX_CHUNKS * CHUNK_PAYLOAD_SIZE" "json_parse J ?p = Some v"
      using assms(1) Msg_Json by (simp_all add: carried_def)
    have "length ?p < 2 ^ 32" using p(1) by (simp add: MAX_CHUNKS_def payload_sizes)
    note dec = decode_simple(2) [OF this p(2)]
    have enc: "rtc_encode J m = encode_payload TYPE_JSON ?p" by (simp add: rtc_encode_def Msg_Json)
    have "reassembled J TYPE_JSON ?p = Some m" by (simp only: reassembled_json p(2) Msg_Json option.map)
    moreover have "TYPE_JSON \<noteq> 0xB3" by (simp add: rtc_types)
    ultimately show ?thesis unfolding enc using chunked [OF enc p(1)] dec [folded Msg_Json] by blast
  next
    case (Msg_Binary d)
    have p: "length d \<le> MAX_CHUNKS * CHUNK_PAYLOAD_SIZE" using assms(1) Msg_Binary by (simp add: carried_def)
    then have "length d < 2 ^ 32" by (simp add: MAX_CHUNKS_def payload_sizes)
    note dec = decode_simple(1) [OF this, of J]
    have enc: "rtc_encode J m = encode_payload TYPE_BINARY d" by (simp add: rtc_encode_def Msg_Binary)
    have "reassembled J TYPE_BINARY d = Some m" by (simp only: reassembled_binary Msg_Binary)
    moreover have "TYPE_BINARY \<noteq> 0xB3" by (simp add: rtc_types)
    ultimately show ?thesis unfolding enc using chunked [OF enc p] dec [folded Msg_Binary] by blast
  next
    case Msg_Ping
    show ?thesis by (rule single [of "encode_simple TYPE_PING"])
        (simp_all only: rtc_encode_def Msg_Ping channel_message.case on_message_def decode_ping ping_frames if_False sum.case decode_result.case)
  next
    case Msg_Pong
    show ?thesis by (rule single [of "encode_simple TYPE_PONG"])
        (simp_all only: rtc_encode_def Msg_Pong channel_message.case on_message_def decode_ping ping_frames if_False sum.case decode_result.case)
  qed
qed

lemma encode_nonempty: "rtc_encode J m \<noteq> []"
proof -
  have "chunk_frames t (chunks CHUNK_PAYLOAD_SIZE p) \<noteq> []" if "is_big p" for t p
  proof -
    have "p \<noteq> []" using that by (auto simp: is_big_def MAX_CHUNK_SIZE_def)
    then have "chunks CHUNK_PAYLOAD_SIZE p \<noteq> []" by (simp add: payload_sizes)
    then show ?thesis by (simp add: chunk_frames_def enumerate_eq_zip)
  qed
  then have "encode_payload t p \<noteq> []" for t p
    by (cases "is_big p") (simp_all add: encode_big encode_small)
  then show ?thesis by (cases m) (simp_all add: rtc_encode_def)
qed

lemma message_in_order: "carried J m \<Longrightarrow> on_messages J None (rtc_encode J m) = (None, [m])"
proof -
  assume m: "carried J m"
  let ?n = "length (rtc_encode J m) - 1"
  have n: "Suc ?n = length (rtc_encode J m)" using encode_nonempty [of J m] by simp
  have "on_messages J None (map ((!) (rtc_encode J m)) ([0..<?n] @ [?n])) = (None, [m])"
    by (rule message_any_order [OF m]) (use n in auto)
  moreover have "[0..<?n] @ [?n] = [0..<length (rtc_encode J m)]" using n by (metis upt_Suc_append zero_le)
  ultimately show ?thesis by (simp only: map_nth)
qed

text \<open>
  \<^bold>\<open>C11\<close>. The data channel carries messages: any sequence of messages, each of at most 256 chunks and, for
  JSON, printed to text that parses back, sent one after the other, comes out of the handler as exactly
  these messages in order, and leaves no half-assembled one behind.
\<close>

theorem rtc_stream:
  assumes "\<forall>m \<in> set ms. carried J m"
  shows "on_messages J None (concat (map (\<lambda>m. fst (sender_send J [] m)) ms)) = (None, ms)"
proof -
  have push: "push_frames [] fs = (fs, None)" for fs by (induction fs) simp_all
  show ?thesis using assms
    by (induction ms) (simp_all add: sender_send_def push on_messages_append message_in_order)
qed

theorem rtc_stream_witness:
  "on_messages (tree_lib (\<lambda>p. if p = [116] then Some (JBool True) else None)) None
     (concat (map (\<lambda>m. fst (sender_send (tree_lib (\<lambda>p. if p = [116] then Some (JBool True) else None)) [] m))
       [Msg_Ping, Msg_Json (JBool True), Msg_Binary (replicate 40000 7)])) =
   (None, [Msg_Ping, Msg_Json (JBool True), Msg_Binary (replicate 40000 7)])"
  by (rule rtc_stream) (simp add: carried_def tree_lib_def MAX_CHUNKS_def payload_sizes)

lemma big_payload:
  assumes "1 < length (rtc_encode J m)"
  shows "\<exists>t. is_big (snd (msg_payload J m)) \<and> rtc_encode J m = encode_payload t (snd (msg_payload J m))"
proof -
  have "length (encode_payload t p) = 1" if "\<not> is_big p" for t p using encode_small [OF that, of t] by simp
  then have "is_big p" if "1 < length (encode_payload t p)" for t p using that by force
  with assms show ?thesis by (cases m) (auto simp: rtc_encode_def)
qed

text \<open>
  Reassembly does not depend on the order: the frames of a message may arrive in any order and
  repeated; nothing is delivered before the last missing one, and with it the message is delivered, once.
\<close>

theorem rtc_any_order:
  assumes "carried J m" and "set (js @ [j]) = {..<length (rtc_encode J m)}" and "j \<notin> set js"
  shows "snd (on_messages J None (map ((!) (rtc_encode J m)) js)) = [] \<and>
    on_messages J None (map ((!) (rtc_encode J m)) (js @ [j])) = (None, [m])"
proof -
  have all: "on_messages J None (map ((!) (rtc_encode J m)) (js @ [j])) = (None, [m])"
    by (rule message_any_order [OF assms])
  moreover have "snd (on_messages J None (map ((!) (rtc_encode J m)) js)) = []"
  proof (cases js)
    case (Cons k ks)
    have "k \<in> {..<length (rtc_encode J m)}" "j \<in> {..<length (rtc_encode J m)}" unfolding assms(2) [symmetric] using Cons by simp_all
    moreover have "k \<noteq> j" using Cons assms(3) by auto
    ultimately have "1 < length (rtc_encode J m)" by simp
    from big_payload [OF this] assms(1)
    obtain t p where tp: "is_big p" "rtc_encode J m = encode_payload t p" "length p \<le> MAX_CHUNKS * CHUNK_PAYLOAD_SIZE"
      unfolding carried_def by blast
    note e = encode_big [OF tp(1), of t]
    have "set js \<subseteq> {..<length (chunks CHUNK_PAYLOAD_SIZE p)}" "{} \<union> set js \<noteq> {..<length (chunks CHUNK_PAYLOAD_SIZE p)}"
      using assms(2,3) unfolding tp(2) e by auto
    from chunks_partial [OF chunks_ok_payload [OF tp(3)] _ _ this, of None t J] show ?thesis unfolding tp(2) e by simp
  qed simp
  ultimately show ?thesis by simp
qed

theorem rtc_any_order_witness:
  "on_messages (tree_lib (\<lambda>_. None)) None (map ((!) (rtc_encode (tree_lib (\<lambda>_. None)) (Msg_Binary (replicate 40000 7)))) ([2, 0, 2] @ [1])) =
   (None, [Msg_Binary (replicate 40000 7)])"
proof (rule conjunct2 [OF rtc_any_order])
  show "carried (tree_lib (\<lambda>_. None)) (Msg_Binary (replicate 40000 7))"
    by (simp add: carried_def MAX_CHUNKS_def payload_sizes)
  have "length (rtc_encode (tree_lib (\<lambda>_. None)) (Msg_Binary (replicate 40000 7))) = 3"
    by (simp add: rtc_encode_def encode_big is_big_def MAX_CHUNK_SIZE_def length_chunks payload_sizes)
  then show "set ([2, 0, 2] @ [1 :: nat]) = {..<length (rtc_encode (tree_lib (\<lambda>_. None)) (Msg_Binary (replicate 40000 7)))}"
    by auto
qed simp

text \<open>An assembler that waits for no chunks never completes and is never replaced.\<close>

lemma wedged_step:
  assumes "asm_total a = 0" and "rtc_decode J f = Inr (Chunk i n t d)" and "\<not> is_b3_reliable_frame f"
  shows "on_message J (Some a) f = (Some a, [])"
  using assms by (simp add: on_message_def assembler_feed_def Let_def)

lemma chunk_not_complete: "rtc_decode J (TYPE_CHUNK # r) \<noteq> Inr (Complete m)"
proof -
  have c: "decode_chunk p \<noteq> Inr (Complete m)" for p by (simp add: decode_chunk_def Let_def)
  have tags: "TYPE_CHUNK \<noteq> TYPE_JSON" "TYPE_CHUNK \<noteq> TYPE_BINARY" "TYPE_CHUNK \<noteq> TYPE_PING" "TYPE_CHUNK \<noteq> TYPE_PONG"
    by (simp_all add: rtc_types)
  show ?thesis
    unfolding rtc_decode_def Let_def nth_Cons_0 by (simp only: tags if_False simp_thms c split: if_split) simp
qed

lemma wedged_frames:
  assumes "asm_total a = 0"
  shows "on_messages J (Some a) (map (\<lambda>(i, d). chunk_frame t n (i, d)) ids) = (Some a, [])"
proof (induction ids)
  case (Cons id ids)
  obtain i d where id: "id = (i, d)" by (cases id)
  have "on_message J (Some a) (chunk_frame t n (i, d)) = (Some a, [])"
  proof (cases "\<exists>i' n' t' d'. rtc_decode J (chunk_frame t n id) = Inr (Chunk i' n' t' d')")
    case True
    then obtain i' n' t' d' where "rtc_decode J (chunk_frame t n id) = Inr (Chunk i' n' t' d')" by blast
    from wedged_step [OF assms this not_reliable_chunk] show ?thesis by (simp add: id)
  next
    case False
    have "rtc_decode J (chunk_frame t n id) \<noteq> Inr (Complete m)" for m
      using chunk_not_complete by (simp add: chunk_frame_def id Let_def)
    with False have "rtc_decode J (chunk_frame t n id) = Inr r \<Longrightarrow> False" for r by (cases r) auto
    then obtain e where "rtc_decode J (chunk_frame t n id) = Inl e" by (cases "rtc_decode J (chunk_frame t n id)") auto
    then show ?thesis by (simp add: on_message_def not_reliable_chunk id)
  qed
  with Cons id show ?case by simp
qed simp

text \<open>
  Where the data channel fails. A message over 256 chunks is sent without an error, but every one of
  its frames is rejected, so nothing of it is delivered. And one frame that announces zero chunks wedges the
  handler: it keeps an assembler that cannot complete, and every chunked message after it is lost.
\<close>

theorem rtc_failures:
  assumes "MAX_CHUNKS * CHUNK_PAYLOAD_SIZE < length d" and "length d < 2 ^ 31"
  shows "snd (sender_send J [] (Msg_Binary d)) = None \<and>
    on_messages J asm (rtc_encode J (Msg_Binary d)) = (asm, []) \<and>
    (\<exists>a. on_message J None (chunk_frame t 0 (0, [])) = (Some a, []) \<and>
       (\<forall>e. is_big e \<longrightarrow> on_messages J (Some a) (rtc_encode J (Msg_Binary e)) = (Some a, [])))"
proof (intro conjI)
  have "push_frames [] fs = (fs, None)" for fs by (induction fs) simp_all
  then show "snd (sender_send J [] (Msg_Binary d)) = None" by (simp add: sender_send_def)
  let ?cs = "chunks CHUNK_PAYLOAD_SIZE d"
  have big: "is_big d" using assms(1) by (simp add: is_big_def MAX_CHUNK_SIZE_def MAX_CHUNKS_def payload_sizes)
  have n: "MAX_CHUNKS < length ?cs" using ceil_gt_256 [of "length d"] assms(1)
    by (simp add: MAX_CHUNKS_def payload_sizes length_chunks)
  have m: "length ?cs < 2 ^ 32"
    using assms(2) div_le_dividend [of "length d + 16369" 16370] by (simp add: payload_sizes length_chunks)
  have rej: "on_message J asm f = (asm, [])" if "f \<in> set (chunk_frames TYPE_BINARY ?cs)" for f
  proof -
    from that obtain i where i1: "i < length ?cs" and "chunk_frames TYPE_BINARY ?cs ! i = f"
      unfolding in_set_conv_nth length_chunk_frames by blast
    then have i2: "f = chunk_frame TYPE_BINARY (length ?cs) (i, ?cs ! i)" using chunk_frame_nth [OF i1] by simp
    note i = i1 i2
    have "length (?cs ! i) \<le> CHUNK_PAYLOAD_SIZE" using chunks_bounds i(1) nth_mem by blast
    then have "rtc_decode J f = Inl Invalid_Chunk"
      unfolding i(2) using decode_chunk_frame [of i "length ?cs" "?cs ! i" J TYPE_BINARY] i(1) m n by (simp add: payload_sizes)
    then show ?thesis unfolding on_message_def i(2) using not_reliable_chunk by auto
  qed
  have "on_messages J asm fs = (asm, [])" if "\<forall>f \<in> set fs. on_message J asm f = (asm, [])" for fs
    using that by (induction fs) simp_all
  then show "on_messages J asm (rtc_encode J (Msg_Binary d)) = (asm, [])"
    using rej by (simp add: rtc_encode_def encode_big [OF big])
  let ?a = "assembler_new 0 t"
  have "on_message J None (chunk_frame t 0 (0, [])) = (Some ?a, [])"
    using decode_chunk_frame [of 0 0 "[]" J t] not_reliable_chunk [of t 0 "(0, [])"]
    by (simp add: on_message_def Let_def assembler_feed_def) (simp add: assembler_new_def)
  moreover have "on_messages J (Some ?a) (rtc_encode J (Msg_Binary e)) = (Some ?a, [])" if "is_big e" for e
    using wedged_frames [of ?a J TYPE_BINARY "length (chunks CHUNK_PAYLOAD_SIZE e)" "enumerate 0 (chunks CHUNK_PAYLOAD_SIZE e)"] that
    by (simp add: rtc_encode_def encode_big chunk_frames_def assembler_new_def case_prod_unfold)
  ultimately show "\<exists>a. on_message J None (chunk_frame t 0 (0, [])) = (Some a, []) \<and>
       (\<forall>e. is_big e \<longrightarrow> on_messages J (Some a) (rtc_encode J (Msg_Binary e)) = (Some a, []))" by blast
qed

theorem rtc_failures_witness:
  "on_messages (tree_lib (\<lambda>_. None)) None (rtc_encode (tree_lib (\<lambda>_. None)) (Msg_Binary (replicate 5000000 7))) = (None, [])"
  using rtc_failures [of "replicate 5000000 7" "tree_lib (\<lambda>_. None)" None 1]
  by (simp add: MAX_CHUNKS_def payload_sizes)

end
