(* ===== verification/Tts.thy ===== *)
theory Tts
  imports Base64 Json
begin

text \<open>
  \<open>src/crates/b3-common/src/tts.rs\<close>: the request to the GPU worker, the parser of its stream responses, and
  the stitching of WAV chunks. A 64-bit float is its bit pattern; the floating-point interpolation of the
  resampler is a parameter. A body that can panic returns \<open>None\<close> for the panic.
\<close>

section \<open>The request\<close>

definition DEFAULT_TEMPERATURE :: u64 where "DEFAULT_TEMPERATURE = 0x3FE999999999999A"
definition DEFAULT_REPETITION_PENALTY :: u64 where "DEFAULT_REPETITION_PENALTY = 0x3FF3333333333333"
definition DEFAULT_MIN_P :: u64 where "DEFAULT_MIN_P = 0x3FA999999999999A"
definition DEFAULT_TOP_P :: u64 where "DEFAULT_TOP_P = 0x3FF0000000000000"
definition DEFAULT_EXAGGERATION :: u64 where "DEFAULT_EXAGGERATION = 0x3FE0000000000000"
definition DEFAULT_CFG_WEIGHT :: u64 where "DEFAULT_CFG_WEIGHT = 0x3FE0000000000000"
definition DEFAULT_SPLIT_CHARS :: string where "DEFAULT_SPLIT_CHARS = ''.!?''"
definition DEFAULT_MIN_CHUNK_CHARS :: nat where "DEFAULT_MIN_CHUNK_CHARS = 80"

definition build_tts_payload :: "string \<Rightarrow> string \<Rightarrow> string \<Rightarrow> string \<Rightarrow> string \<Rightarrow> u64 \<Rightarrow> json_tree" where
  "build_tts_payload txt voice msg_id conditionals_b64 split_chars min_chunk_chars =
     (let payload =
        [(''action'', JStr ''synthesize_stream''), (''text'', JStr txt), (''voice'', JStr voice), (''msg_id'', JStr msg_id),
         (''exaggeration'', JFloat DEFAULT_EXAGGERATION), (''cfg_weight'', JFloat DEFAULT_CFG_WEIGHT),
         (''temperature'', JFloat DEFAULT_TEMPERATURE), (''repetition_penalty'', JFloat DEFAULT_REPETITION_PENALTY),
         (''min_p'', JFloat DEFAULT_MIN_P), (''top_p'', JFloat DEFAULT_TOP_P)];
          payload = (if split_chars \<noteq> [] then map_insert ''split_chars'' (JStr split_chars) payload else payload);
          payload = (if min_chunk_chars > 0 then map_insert ''min_chunk_chars'' (JNum min_chunk_chars) payload else payload);
          payload = (if conditionals_b64 \<noteq> [] then map_insert ''conditionals_b64'' (JStr conditionals_b64) payload else payload)
      in JObj payload)"


section \<open>Stream responses\<close>

record audio_chunk =
  chunk_index :: u64
  audio_bytes :: bytes
  sample_rate :: u32
  duration_sec :: u64

record stream_parse_result =
  spr_chunks :: "audio_chunk list"
  spr_done :: bool
  spr_total_chunks :: "u64 option"

definition stream_outputs :: "'v json_lib \<Rightarrow> 'v \<Rightarrow> 'v list option" where
  "stream_outputs J body =
     (case get_array J body ''stream'' of Some xs \<Rightarrow> Some xs | None \<Rightarrow> json_array J body)"

definition parse_item :: "'v json_lib \<Rightarrow> 'v \<Rightarrow> stream_parse_result \<Rightarrow> stream_parse_result" where
  "parse_item J item r =
     (let chunk = (case json_get J item ''output'' of Some c \<Rightarrow> c | None \<Rightarrow> item)
      in if (case get_bool J chunk ''done'' of Some b \<Rightarrow> b | None \<Rightarrow> False)
         then r\<lparr>spr_done := True, spr_total_chunks := get_u64 J chunk ''total_chunks''\<rparr>
         else if json_get J chunk ''progress'' \<noteq> None then r
         else case get_str J chunk ''audio_b64'' of
                None \<Rightarrow> r
              | Some audio_b64 \<Rightarrow>
                  (case base64_decode (ascii audio_b64) of
                     Inl _ \<Rightarrow> r
                   | Inr bs \<Rightarrow> r\<lparr>spr_chunks := spr_chunks r @
                       [\<lparr>chunk_index = (case get_u64 J chunk ''chunk_index'' of Some n \<Rightarrow> n | None \<Rightarrow> 0),
                         audio_bytes = bs,
                         sample_rate = (case get_u64 J chunk ''sample_rate'' of Some n \<Rightarrow> ucast n | None \<Rightarrow> 24000),
                         duration_sec = (case get_f64 J chunk ''duration_sec'' of Some x \<Rightarrow> x | None \<Rightarrow> 0)\<rparr>]\<rparr>))"

definition parse_stream_response :: "'v json_lib \<Rightarrow> 'v \<Rightarrow> stream_parse_result" where
  "parse_stream_response J body =
     (let empty = \<lparr>spr_chunks = [], spr_done = False, spr_total_chunks = None\<rparr>
      in case stream_outputs J body of
           None \<Rightarrow> empty
         | Some items \<Rightarrow> fold (parse_item J) items empty)"


section \<open>WAV files\<close>

definition TARGET_SAMPLE_RATE :: u32 where "TARGET_SAMPLE_RATE = 24000"
definition HEADER_SIZE :: nat where "HEADER_SIZE = 44"

definition wav_sample_rate :: "bytes \<Rightarrow> u32" where
  "wav_sample_rate chunk =
     (if length chunk < 28 then TARGET_SAMPLE_RATE
      else from_le [chunk ! 24, chunk ! 25, chunk ! 26, chunk ! 27])"

text \<open>
  The floating-point part of the resampler: the input position of output sample \<open>i\<close>, rounded down, and
  the rounded interpolation between the two samples there.
\<close>

record resampler =
  src_index :: "nat \<Rightarrow> u32 \<Rightarrow> u32 \<Rightarrow> nat"
  interpolate :: "nat \<Rightarrow> u32 \<Rightarrow> u32 \<Rightarrow> u16 \<Rightarrow> u16 \<Rightarrow> u16"

definition resample_pcm :: "resampler \<Rightarrow> bytes \<Rightarrow> u32 \<Rightarrow> u32 \<Rightarrow> bytes option" where
  "resample_pcm R pcm src_rate dst_rate =
     (if src_rate = dst_rate \<or> length pcm < 2 then Some pcm
      else if src_rate = 0 then None
      else let sample_count = length pcm div 2;
               dst_samples = unat ((of_nat sample_count * ucast dst_rate :: u64) div ucast src_rate);
               sample = (\<lambda>j. from_le [pcm ! (j * 2), pcm ! (j * 2 + 1)] :: u16);
               out = (\<lambda>i. let src_i = src_index R i src_rate dst_rate;
                               s0 = (if src_i < sample_count then sample src_i else 0);
                               s1 = (if src_i + 1 < sample_count then sample (src_i + 1) else s0)
                           in to_le 2 (interpolate R i src_rate dst_rate s0 s1))
           in Some (concat (map out [0..<dst_samples])))"

text \<open>\<open>v[i..i + ys.len()].copy_from_slice(ys)\<close>.\<close>

definition splice :: "nat \<Rightarrow> bytes \<Rightarrow> bytes \<Rightarrow> bytes" where
  "splice i ys xs = take i xs @ ys @ drop (i + length ys) xs"

definition patch_wav_header :: "bytes \<Rightarrow> nat \<Rightarrow> bytes" where
  "patch_wav_header wav pcm_len =
     splice 40 (to_le 4 (of_nat pcm_len :: u32)) (splice 4 (to_le 4 (of_nat (36 + pcm_len) :: u32)) wav)"

fun pcm_parts :: "resampler \<Rightarrow> bytes list \<Rightarrow> bytes list option" where
  "pcm_parts R [] = Some []"
| "pcm_parts R (chunk # wavs) =
     (if length chunk \<le> HEADER_SIZE then pcm_parts R wavs
      else let src_rate = wav_sample_rate chunk;
               raw_pcm = drop HEADER_SIZE chunk
           in case (if src_rate = TARGET_SAMPLE_RATE then Some raw_pcm
                    else resample_pcm R raw_pcm src_rate TARGET_SAMPLE_RATE) of
                None \<Rightarrow> None
              | Some p \<Rightarrow> (case pcm_parts R wavs of None \<Rightarrow> None | Some ps \<Rightarrow> Some (p # ps)))"

definition stitch_wav_chunks :: "resampler \<Rightarrow> bytes list \<Rightarrow> bytes option option" where
  "stitch_wav_chunks R wavs =
     (case wavs of
        [] \<Rightarrow> Some None
      | [c] \<Rightarrow>
          (let src_rate = wav_sample_rate c
           in if src_rate = TARGET_SAMPLE_RATE \<or> length c \<le> HEADER_SIZE then Some (Some c)
              else case resample_pcm R (drop HEADER_SIZE c) src_rate TARGET_SAMPLE_RATE of
                     None \<Rightarrow> None
                   | Some pcm \<Rightarrow> Some (Some (patch_wav_header (take HEADER_SIZE c) (length pcm) @ pcm)))
      | c # _ \<Rightarrow>
          (case pcm_parts R wavs of
             None \<Rightarrow> None
           | Some parts \<Rightarrow>
               (if parts = [] then Some None
                else let total_pcm = sum_list (map length parts)
                     in if length c < HEADER_SIZE then Some None
                        else let combined = take HEADER_SIZE c;
                                 combined = splice 24 (to_le 4 TARGET_SAMPLE_RATE) combined;
                                 combined = splice 28 (to_le 4 (TARGET_SAMPLE_RATE * 2)) combined
                             in Some (Some (patch_wav_header combined total_pcm @ concat parts)))))"


section \<open>Stitching is concatenation\<close>

lemma length_splice [simp]: "i + length ys \<le> length xs \<Longrightarrow> length (splice i ys xs) = length xs"
  by (simp add: splice_def)

lemma nth_splice:
  "i + length ys \<le> length xs \<Longrightarrow> j < length xs \<Longrightarrow>
   splice i ys xs ! j = (if i \<le> j \<and> j < i + length ys then ys ! (j - i) else xs ! j)"
  by (auto simp: splice_def nth_append)

text \<open>The four bytes of a field.\<close>

definition field :: "nat \<Rightarrow> bytes \<Rightarrow> u32" where
  "field i w = from_le [w ! i, w ! (i + 1), w ! (i + 2), w ! (i + 3)]"

lemma field_splice:
  "i + 4 \<le> length xs \<Longrightarrow> field i (splice i (to_le 4 v) xs) = v"
  by (simp add: field_def nth_splice to_le_4 le_simps)

lemma field_splice_other:
  "j + 4 \<le> length xs \<Longrightarrow> i + 4 \<le> length xs \<Longrightarrow> i + 4 \<le> j \<or> j + 4 \<le> i \<Longrightarrow> field i (splice j (to_le 4 v) xs) = field i xs"
  by (auto simp: field_def nth_splice)

lemma field_append: "i + 4 \<le> length xs \<Longrightarrow> field i (xs @ ys) = field i xs"
  by (simp add: field_def nth_append)

lemma wav_rate_field: "28 \<le> length w \<Longrightarrow> wav_sample_rate w = field 24 w"
  by (simp add: wav_sample_rate_def field_def)

text \<open>Chunks at the target rate contribute their bytes after the header.\<close>

definition at_target :: "bytes \<Rightarrow> bool" where
  "at_target c \<longleftrightarrow> length c \<le> HEADER_SIZE \<or> wav_sample_rate c = TARGET_SAMPLE_RATE"

lemma pcm_parts_target:
  "\<forall>c \<in> set cs. at_target c \<Longrightarrow>
   pcm_parts R cs = Some (map (drop HEADER_SIZE) (filter (\<lambda>c. HEADER_SIZE < length c) cs))"
  by (induction cs) (auto simp: at_target_def)

lemma concat_long: "concat (map (drop HEADER_SIZE) (filter (\<lambda>c. HEADER_SIZE < length c) cs)) = concat (map (drop HEADER_SIZE) cs)"
  by (induction cs) simp_all

lemma sum_lengths: "sum_list (map length xss) = length (concat xss)"
  by (induction xss) simp_all

text \<open>
  Stitching. Two or more WAV chunks at 24 kHz, of which one has samples: the result is the first
  chunk's header with the rate, the byte rate and both sizes set to the truth, followed by the samples of
  all chunks in order. A single chunk at another rate is resampled too, but its header keeps declaring the
  source rate; and a rate of zero panics, for one chunk as for several.
\<close>

theorem wav_stitch:
  assumes "\<forall>c \<in> set (c0 # c1 # cs). at_target c" and "HEADER_SIZE \<le> length c0"
    and "concat (map (drop HEADER_SIZE) (c0 # c1 # cs)) \<noteq> []"
    and "length (concat (map (drop HEADER_SIZE) (c0 # c1 # cs))) + 36 < 2 ^ 32"
    and "HEADER_SIZE + 2 \<le> length s" and "wav_sample_rate s \<noteq> TARGET_SAMPLE_RATE"
    and "HEADER_SIZE + 2 \<le> length z" and "wav_sample_rate z = 0"
  shows "(\<exists>w. stitch_wav_chunks R (c0 # c1 # cs) = Some (Some w) \<and>
      drop HEADER_SIZE w = concat (map (drop HEADER_SIZE) (c0 # c1 # cs)) \<and>
      wav_sample_rate w = TARGET_SAMPLE_RATE \<and> field 28 w = 48000 \<and>
      unat (field 4 w) + 8 = length w \<and> unat (field 40 w) + HEADER_SIZE = length w) \<and>
    (\<forall>w. stitch_wav_chunks R [s] = Some (Some w) \<longrightarrow> wav_sample_rate w = wav_sample_rate s) \<and>
    stitch_wav_chunks R [z] = None \<and> stitch_wav_chunks R [z, c1] = None"
proof (intro conjI allI impI)
  let ?cs = "c0 # c1 # cs"
  let ?pcm = "concat (map (drop HEADER_SIZE) ?cs)"
  let ?parts = "map (drop HEADER_SIZE) (filter (\<lambda>c. HEADER_SIZE < length c) ?cs)"
  let ?h = "splice 28 (to_le 4 (TARGET_SAMPLE_RATE * 2)) (splice 24 (to_le 4 TARGET_SAMPLE_RATE) (take HEADER_SIZE c0))"
  let ?w = "patch_wav_header ?h (length ?pcm) @ ?pcm"
  have parts: "pcm_parts R ?cs = Some ?parts" by (rule pcm_parts_target [OF assms(1)])
  have cat: "concat ?parts = ?pcm" by (rule concat_long)
  then have ne: "?parts \<noteq> []" using assms(3) by auto
  have st: "stitch_wav_chunks R ?cs = Some (Some ?w)"
    unfolding stitch_wav_chunks_def list.case parts option.case Let_def sum_lengths cat
    using ne assms(2) by simp
  have lh: "length ?h = 44" using assms(2) by (simp add: HEADER_SIZE_def)
  have lp: "length (patch_wav_header ?h n) = 44" for n using lh by (simp add: patch_wav_header_def)
  have len: "length ?w = 44 + length ?pcm" using lp by simp
  have fields: "field 24 ?w = TARGET_SAMPLE_RATE" "field 28 ?w = TARGET_SAMPLE_RATE * 2"
    "field 4 ?w = of_nat (36 + length ?pcm)" "field 40 ?w = of_nat (length ?pcm)"
    using lh lp by (simp_all add: field_append patch_wav_header_def field_splice field_splice_other HEADER_SIZE_def assms(2) [unfolded HEADER_SIZE_def])
  have rate: "wav_sample_rate ?w = TARGET_SAMPLE_RATE" using wav_rate_field [of ?w] len fields(1) by simp
  have u: "unat (of_nat (36 + length ?pcm) :: u32) = 36 + length ?pcm"
      "unat (of_nat (length ?pcm) :: u32) = length ?pcm"
    using assms(4) by (intro unat_of_nat_u32, linarith)+
  have sizes: "unat (field 4 ?w) + 8 = length ?w" "unat (field 40 ?w) + HEADER_SIZE = length ?w"
    unfolding fields len u by (simp_all only: HEADER_SIZE_def)
  have data: "drop HEADER_SIZE ?w = ?pcm" using lp by (simp add: HEADER_SIZE_def)
  have byte_rate: "field 28 ?w = 48000" unfolding fields by (simp add: TARGET_SAMPLE_RATE_def)
  show "\<exists>w. stitch_wav_chunks R ?cs = Some (Some w) \<and> drop HEADER_SIZE w = ?pcm \<and>
      wav_sample_rate w = TARGET_SAMPLE_RATE \<and> field 28 w = 48000 \<and>
      unat (field 4 w) + 8 = length w \<and> unat (field 40 w) + HEADER_SIZE = length w"
    by (rule exI [of _ ?w]) (intro conjI st data rate byte_rate sizes)
next
  fix w assume w: "stitch_wav_chunks R [s] = Some (Some w)"
  have l: "28 \<le> length s" "\<not> length s \<le> HEADER_SIZE" "44 \<le> length s" using assms(5) by (simp_all add: HEADER_SIZE_def)
  from w assms(6) l(2) obtain pcm where e: "w = patch_wav_header (take HEADER_SIZE s) (length pcm) @ pcm"
    by (auto simp: stitch_wav_chunks_def Let_def split: option.splits)
  have t: "length (take HEADER_SIZE s) = 44" using l(3) by (simp add: HEADER_SIZE_def)
  have "field 24 w = field 24 (take HEADER_SIZE s)"
    unfolding e using t by (simp add: field_append patch_wav_header_def field_splice_other)
  also have "\<dots> = field 24 s" by (simp add: field_def HEADER_SIZE_def)
  finally show "wav_sample_rate w = wav_sample_rate s"
    using wav_rate_field [of s] wav_rate_field [of w] l(1) t by (simp add: e patch_wav_header_def)
next
  have z: "resample_pcm R (drop HEADER_SIZE z) 0 TARGET_SAMPLE_RATE = None" "\<not> length z \<le> HEADER_SIZE"
    using assms(7) by (simp_all add: resample_pcm_def TARGET_SAMPLE_RATE_def)
  then show "stitch_wav_chunks R [z] = None"
    by (simp add: stitch_wav_chunks_def assms(8) Let_def TARGET_SAMPLE_RATE_def)
  show "stitch_wav_chunks R [z, c1] = None"
    using z by (simp add: stitch_wav_chunks_def assms(8) Let_def TARGET_SAMPLE_RATE_def)
qed

definition toy_resampler :: resampler where
  "toy_resampler = \<lparr>src_index = (\<lambda>i s d. i), interpolate = (\<lambda>i s d a b. a)\<rparr>"

definition toy_wav :: "u32 \<Rightarrow> bytes \<Rightarrow> bytes" where
  "toy_wav rate pcm = replicate 24 0 @ to_le 4 rate @ replicate 16 0 @ pcm"

theorem wav_stitch_witness:
  "\<exists>w. stitch_wav_chunks toy_resampler [toy_wav 24000 [1, 2], toy_wav 24000 [3, 4]] = Some (Some w) \<and>
     drop HEADER_SIZE w = [1, 2, 3, 4]"
proof -
  have len: "length (toy_wav r p) = 44 + length p" for r p by (simp add: toy_wav_def)
  have rate: "wav_sample_rate (toy_wav r p) = r" for r p
    using len [of r p] by (simp add: wav_sample_rate_def toy_wav_def nth_append to_le_4 le_simps)
  have pcm: "drop HEADER_SIZE (toy_wav r p) = p" for r p by (simp add: toy_wav_def HEADER_SIZE_def)
  have "\<exists>w. stitch_wav_chunks toy_resampler [toy_wav 24000 [1, 2], toy_wav 24000 [3, 4]] = Some (Some w) \<and>
     drop HEADER_SIZE w = concat (map (drop HEADER_SIZE) [toy_wav 24000 [1, 2], toy_wav 24000 [3, 4]]) \<and>
     wav_sample_rate w = TARGET_SAMPLE_RATE \<and> field 28 w = 48000 \<and>
     unat (field 4 w) + 8 = length w \<and> unat (field 40 w) + HEADER_SIZE = length w"
    by (rule conjunct1 [OF wav_stitch [where s = "toy_wav 48000 [1, 2]" and z = "toy_wav 0 [1, 2]"]])
      (simp_all add: at_target_def rate pcm len TARGET_SAMPLE_RATE_def, simp_all add: HEADER_SIZE_def)
  then show ?thesis by (auto simp: pcm)
qed


section \<open>Parsing what a worker sends\<close>

text \<open>
  The response format the code documents: audio, progress, malformed and final items, each with or without
  the \<open>output\<close> wrapper, in an array that is the body or its \<open>stream\<close> member.
\<close>

datatype worker_item =
    Audio audio_chunk
  | Progress json_tree
  | Malformed string
  | Finished u64

definition item_object :: "worker_item \<Rightarrow> json_tree" where
  "item_object i =
     (case i of
        Audio c \<Rightarrow> JObj [(''chunk_index'', JNum (chunk_index c)), (''audio_b64'', JStr (of_bytes (base64_encode (audio_bytes c)))),
                        (''sample_rate'', JNum (ucast (sample_rate c))), (''duration_sec'', JFloat (duration_sec c))]
      | Progress v \<Rightarrow> JObj [(''progress'', v)]
      | Malformed s \<Rightarrow> JObj [(''audio_b64'', JStr s)]
      | Finished n \<Rightarrow> JObj [(''done'', JBool True), (''total_chunks'', JNum n)])"

definition wrap_item :: "bool \<times> worker_item \<Rightarrow> json_tree" where
  "wrap_item = (\<lambda>(wrapped, i). if wrapped then JObj [(''output'', item_object i)] else item_object i)"

definition wrap_body :: "bool \<Rightarrow> json_tree list \<Rightarrow> json_tree" where
  "wrap_body wrapped items = (if wrapped then JObj [(''stream'', JArr items)] else JArr items)"

definition audio_of :: "worker_item \<Rightarrow> audio_chunk list" where
  "audio_of i = (case i of Audio c \<Rightarrow> [c] | _ \<Rightarrow> [])"

definition total_of :: "worker_item \<Rightarrow> u64 list" where
  "total_of i = (case i of Finished n \<Rightarrow> [n] | _ \<Rightarrow> [])"

lemma decode_plain: "base64_decode (base64_encode d) = Inr d"
  using decode_encode(1) [of d 0] by simp

lemma parse_item_wrapped:
  assumes "\<forall>s. i = Malformed s \<longrightarrow> (\<exists>e. base64_decode (ascii s) = Inl e)"
  shows "parse_item (tree_lib p) (wrap_item (w, i)) r =
    r\<lparr>spr_chunks := spr_chunks r @ audio_of i, spr_done := spr_done r \<or> total_of i \<noteq> [],
      spr_total_chunks := (if total_of i = [] then spr_total_chunks r else Some (last (total_of i)))\<rparr>"
proof -
  have c: "(case json_get (tree_lib p) (wrap_item (w, i)) ''output'' of Some c \<Rightarrow> c | None \<Rightarrow> wrap_item (w, i)) = item_object i"
    by (cases i) (simp_all add: wrap_item_def tree_lib_def item_object_def)
  have narrow: "(ucast (ucast x :: u64) :: u32) = x" for x :: u32
    by (rule bit_word_eqI) (simp add: bit_simps)
  show ?thesis
  proof (cases i)
    case (Malformed s)
    then obtain e where "base64_decode (ascii s) = Inl e" using assms by blast
    then show ?thesis unfolding parse_item_def c
      by (simp add: Malformed item_object_def tree_lib_def json_access audio_of_def total_of_def Let_def)
  qed (unfold parse_item_def c, simp_all add: item_object_def tree_lib_def json_access audio_of_def total_of_def Let_def decode_plain narrow)
qed

lemma parse_items:
  assumes "\<forall>s. Malformed s \<in> snd ` set is \<longrightarrow> (\<exists>e. base64_decode (ascii s) = Inl e)"
  shows "fold (parse_item (tree_lib p)) (map wrap_item is) r =
    r\<lparr>spr_chunks := spr_chunks r @ concat (map (audio_of \<circ> snd) is),
      spr_done := spr_done r \<or> concat (map (total_of \<circ> snd) is) \<noteq> [],
      spr_total_chunks := (if concat (map (total_of \<circ> snd) is) = [] then spr_total_chunks r
                           else Some (last (concat (map (total_of \<circ> snd) is))))\<rparr>"
  using assms
proof (induction "is" arbitrary: r)
  case (Cons i "is")
  obtain w j where i: "i = (w, j)" by (cases i)
  have "\<forall>s. j = Malformed s \<longrightarrow> (\<exists>e. base64_decode (ascii s) = Inl e)" using Cons.prems i by force
  note step = parse_item_wrapped [OF this, of p w]
  have "\<forall>s. Malformed s \<in> snd ` set is \<longrightarrow> (\<exists>e. base64_decode (ascii s) = Inl e)" using Cons.prems by auto
  from Cons.IH [OF this] show ?case by (simp add: i step)
qed simp

text \<open>
  Parsing a poll of the GPU stream: whichever of the two formats the body and each item use, the
  chunks are exactly the audio items in order with their bytes, rate and duration, the progress items and
  items with malformed base64 leave no trace, the stream is done iff a final item came, and the total is
  that of the last one.
\<close>

theorem tts_stream_parsed:
  assumes "\<forall>s. Malformed s \<in> snd ` set is \<longrightarrow> (\<exists>e. base64_decode (ascii s) = Inl e)"
  shows "parse_stream_response (tree_lib p) (wrap_body b (map wrap_item is)) =
    \<lparr>spr_chunks = concat (map (audio_of \<circ> snd) is), spr_done = (concat (map (total_of \<circ> snd) is) \<noteq> []),
     spr_total_chunks = (let ts = concat (map (total_of \<circ> snd) is) in if ts = [] then None else Some (last ts))\<rparr>"
proof -
  have "stream_outputs (tree_lib p) (wrap_body b (map wrap_item is)) = Some (map wrap_item is)"
    by (simp add: stream_outputs_def wrap_body_def tree_lib_def json_access)
  then show ?thesis by (simp add: parse_stream_response_def parse_items [OF assms] Let_def)
qed

theorem tts_stream_parsed_witness:
  "spr_total_chunks (parse_stream_response (tree_lib (\<lambda>_. None)) (wrap_body True (map wrap_item
     [(True, Audio \<lparr>chunk_index = 0, audio_bytes = [1, 2], sample_rate = 24000, duration_sec = 0\<rparr>),
      (False, Malformed ''!!''), (True, Finished 1)]))) = Some 1"
proof -
  have "base64_decode (ascii ''!!'') = Inl ''invalid base64 character''" by code_simp
  then show ?thesis
    by (subst tts_stream_parsed) (auto simp: total_of_def Let_def)
qed

end
