(* ===== verification/Hive.thy ===== *)
theory Hive
  imports Encrypted Base64 Utf8 "HOL-Library.List_Lexorder" "HOL-Library.Char_ord"
begin

text \<open>
  \<open>src/crates/b3-cli/src/crypto/hive.rs\<close>: end-to-end encrypted messages between agents. The cryptographic
  crates are parameters as in \<open>Encrypted\<close>, extended by an AEAD with additional data; randomness (nonces,
  ephemeral secrets, room keys) is an argument. \<open>None\<close> is the panic of an \<open>expect\<close>.
\<close>

record hive_lib = crypto_lib +
  seal_aad :: "bytes \<Rightarrow> bytes \<Rightarrow> bytes \<Rightarrow> bytes \<Rightarrow> bytes option"
  open_aad :: "bytes \<Rightarrow> bytes \<Rightarrow> bytes \<Rightarrow> bytes \<Rightarrow> bytes option"

definition HIVE_SALT :: bytes where "HIVE_SALT = ascii ''b3-hive-v1''"

datatype key_type = Static | Ephemeral

record encrypted_envelope =
  env_encrypted :: bool
  env_version :: u8
  env_key_type :: key_type
  env_ephemeral_pub :: "string option"
  env_nonce :: string
  env_content :: string

record encrypted_room_key =
  rk_nonce :: string
  rk_encrypted_key :: string

datatype decrypt_error =
    Invalid_Nonce
  | Invalid_Content
  | Missing_Ephemeral_Key
  | Invalid_Ephemeral_Key
  | Decryption_Failed
  | Invalid_Room_Key

section \<open>Keys\<close>

definition derive_key :: "hive_lib \<Rightarrow> bytes \<Rightarrow> string \<Rightarrow> bytes option" where
  "derive_key H shared_secret ctx = hkdf H HIVE_SALT shared_secret (ascii ctx) 32"

definition dm_info :: "string \<Rightarrow> string \<Rightarrow> bool \<Rightarrow> string" where
  "dm_info a_id b_id ephemeral =
     (let (first, second) = (if a_id \<le> b_id then (a_id, b_id) else (b_id, a_id))
      in if ephemeral then ''dm-ephemeral:'' @ first @ '':'' @ second else ''dm:'' @ first @ '':'' @ second)"


section \<open>AEAD\<close>

definition encrypt_aead :: "hive_lib \<Rightarrow> bytes \<Rightarrow> bytes \<Rightarrow> bytes \<Rightarrow> bytes \<Rightarrow> (bytes \<times> bytes) option" where
  "encrypt_aead H nonce key plaintext aad =
     (case seal_aad H key nonce aad plaintext of None \<Rightarrow> None | Some c \<Rightarrow> Some (nonce, c))"

definition decrypt_aead :: "hive_lib \<Rightarrow> bytes \<Rightarrow> bytes \<Rightarrow> bytes \<Rightarrow> bytes \<Rightarrow> decrypt_error + bytes" where
  "decrypt_aead H key nonce_bytes ciphertext aad =
     (if length nonce_bytes \<noteq> 12 then Inl Invalid_Nonce
      else case open_aad H key nonce_bytes aad ciphertext of
             None \<Rightarrow> Inl Decryption_Failed
           | Some p \<Rightarrow> Inr p)"


section \<open>Direct messages\<close>

definition encrypt_dm ::
  "hive_lib \<Rightarrow> bytes \<Rightarrow> bytes \<Rightarrow> bytes \<Rightarrow> bytes \<Rightarrow> string \<Rightarrow> string \<Rightarrow> bytes \<Rightarrow> encrypted_envelope option" where
  "encrypt_dm H nonce plaintext my_key their_pub my_id their_id aad =
     Option.bind (derive_key H (dh H my_key their_pub) (dm_info my_id their_id False)) (\<lambda>enc_key.
     Option.bind (encrypt_aead H nonce enc_key plaintext aad) (\<lambda>(nonce_bytes, ciphertext).
       Some \<lparr>env_encrypted = True, env_version = 1, env_key_type = Static, env_ephemeral_pub = None,
             env_nonce = b64_enc H nonce_bytes, env_content = b64_enc H ciphertext\<rparr>))"

definition encrypt_dm_ephemeral ::
  "hive_lib \<Rightarrow> bytes \<Rightarrow> bytes \<Rightarrow> bytes \<Rightarrow> bytes \<Rightarrow> string \<Rightarrow> string \<Rightarrow> bytes \<Rightarrow> encrypted_envelope option" where
  "encrypt_dm_ephemeral H nonce ephemeral_secret plaintext their_pub my_id their_id aad =
     Option.bind (derive_key H (dh H ephemeral_secret their_pub) (dm_info my_id their_id True)) (\<lambda>enc_key.
     Option.bind (encrypt_aead H nonce enc_key plaintext aad) (\<lambda>(nonce_bytes, ciphertext).
       Some \<lparr>env_encrypted = True, env_version = 1, env_key_type = Ephemeral,
             env_ephemeral_pub = Some (b64_enc H (pub_of H ephemeral_secret)),
             env_nonce = b64_enc H nonce_bytes, env_content = b64_enc H ciphertext\<rparr>))"

text \<open>The key a recipient derives: \<open>None\<close> is a panic, \<open>Some (Inl e)\<close> an error.\<close>

definition dm_key ::
  "hive_lib \<Rightarrow> encrypted_envelope \<Rightarrow> bytes \<Rightarrow> bytes \<Rightarrow> string \<Rightarrow> string \<Rightarrow> (decrypt_error + bytes) option" where
  "dm_key H envelope my_key sender_pub my_id sender_id =
     (case env_key_type envelope of
        Static \<Rightarrow> map_option Inr (derive_key H (dh H my_key sender_pub) (dm_info my_id sender_id False))
      | Ephemeral \<Rightarrow>
          (case env_ephemeral_pub envelope of
             None \<Rightarrow> Some (Inl Missing_Ephemeral_Key)
           | Some eph_pub_b64 \<Rightarrow>
               (case b64_dec H eph_pub_b64 of
                  None \<Rightarrow> Some (Inl Invalid_Ephemeral_Key)
                | Some eph_pub \<Rightarrow>
                    (if length eph_pub \<noteq> 32 then Some (Inl Invalid_Ephemeral_Key)
                     else map_option Inr (derive_key H (dh H my_key eph_pub) (dm_info my_id sender_id True))))))"

definition decrypt_dm ::
  "hive_lib \<Rightarrow> encrypted_envelope \<Rightarrow> bytes \<Rightarrow> bytes \<Rightarrow> string \<Rightarrow> string \<Rightarrow> bytes \<Rightarrow> (decrypt_error + bytes) option" where
  "decrypt_dm H envelope my_key sender_pub my_id sender_id aad =
     (case b64_dec H (env_nonce envelope) of
        None \<Rightarrow> Some (Inl Invalid_Nonce)
      | Some nonce_bytes \<Rightarrow>
          (case b64_dec H (env_content envelope) of
             None \<Rightarrow> Some (Inl Invalid_Content)
           | Some ciphertext \<Rightarrow>
               (case dm_key H envelope my_key sender_pub my_id sender_id of
                  None \<Rightarrow> None
                | Some (Inl e) \<Rightarrow> Some (Inl e)
                | Some (Inr enc_key) \<Rightarrow> Some (decrypt_aead H enc_key nonce_bytes ciphertext aad))))"


section \<open>Rooms\<close>

definition encrypt_room_key :: "hive_lib \<Rightarrow> bytes \<Rightarrow> bytes \<Rightarrow> bytes \<Rightarrow> bytes \<Rightarrow> string \<Rightarrow> encrypted_room_key option" where
  "encrypt_room_key H nonce room_key my_key member_pub room_id =
     Option.bind (derive_key H (dh H my_key member_pub) (''room-key:'' @ room_id)) (\<lambda>enc_key.
     Option.bind (encrypt_aead H nonce enc_key room_key []) (\<lambda>(nonce_bytes, ciphertext).
       Some \<lparr>rk_nonce = b64_enc H nonce_bytes, rk_encrypted_key = b64_enc H ciphertext\<rparr>))"

definition decrypt_room_key ::
  "hive_lib \<Rightarrow> encrypted_room_key \<Rightarrow> bytes \<Rightarrow> bytes \<Rightarrow> string \<Rightarrow> (decrypt_error + bytes) option" where
  "decrypt_room_key H enc my_key creator_pub room_id =
     (case b64_dec H (rk_nonce enc) of
        None \<Rightarrow> Some (Inl Invalid_Nonce)
      | Some nonce_bytes \<Rightarrow>
          (case b64_dec H (rk_encrypted_key enc) of
             None \<Rightarrow> Some (Inl Invalid_Content)
           | Some ciphertext \<Rightarrow>
               (case derive_key H (dh H my_key creator_pub) (''room-key:'' @ room_id) of
                  None \<Rightarrow> None
                | Some enc_key \<Rightarrow>
                    Some (case decrypt_aead H enc_key nonce_bytes ciphertext [] of
                            Inl e \<Rightarrow> Inl e
                          | Inr plaintext \<Rightarrow> (if length plaintext = 32 then Inr plaintext else Inl Invalid_Room_Key)))))"

definition encrypt_room_message :: "hive_lib \<Rightarrow> bytes \<Rightarrow> bytes \<Rightarrow> bytes \<Rightarrow> encrypted_envelope option" where
  "encrypt_room_message H nonce plaintext room_key =
     Option.bind (encrypt_aead H nonce room_key plaintext []) (\<lambda>(nonce_bytes, ciphertext).
       Some \<lparr>env_encrypted = True, env_version = 1, env_key_type = Static, env_ephemeral_pub = None,
             env_nonce = b64_enc H nonce_bytes, env_content = b64_enc H ciphertext\<rparr>)"

definition decrypt_room_message :: "hive_lib \<Rightarrow> encrypted_envelope \<Rightarrow> bytes \<Rightarrow> decrypt_error + bytes" where
  "decrypt_room_message H envelope room_key =
     (case b64_dec H (env_nonce envelope) of
        None \<Rightarrow> Inl Invalid_Nonce
      | Some nonce_bytes \<Rightarrow>
          (case b64_dec H (env_content envelope) of
             None \<Rightarrow> Inl Invalid_Content
           | Some ciphertext \<Rightarrow> decrypt_aead H room_key nonce_bytes ciphertext []))"


section \<open>Key pinning\<close>

text \<open>
  The directory of known keys maps an agent's name to the contents of its file. Reading fails if the
  contents are not UTF-8; writing may fail, and its result is ignored. \<open>Inr True\<close> is a first contact,
  \<open>Inr False\<close> a match, \<open>Inl k\<close> a mismatch with the pinned key \<open>k\<close>.
\<close>

definition cached_key :: "hive_lib \<Rightarrow> bytes option \<Rightarrow> bytes option" where
  "cached_key H file =
     (case file of
        None \<Rightarrow> None
      | Some content \<Rightarrow>
          (if utf8_valid content
           then (case b64_dec H (of_bytes (str_trim content)) of
                   None \<Rightarrow> None
                 | Some k \<Rightarrow> (if length k = 32 then Some k else None))
           else None))"

definition pin_public_key ::
  "hive_lib \<Rightarrow> bool \<Rightarrow> string \<Rightarrow> bytes \<Rightarrow> (string \<Rightarrow> bytes option) \<Rightarrow> (string \<Rightarrow> bytes option) \<times> (bytes + bool)" where
  "pin_public_key H write_ok agent_name public_key files =
     (case cached_key H (files agent_name) of
        Some cached_pub \<Rightarrow> (files, if cached_pub = public_key then Inr False else Inl cached_pub)
      | None \<Rightarrow>
          (if write_ok then files(agent_name \<mapsto> ascii (b64_enc H public_key)) else files, Inr True))"


section \<open>What the code relies on\<close>

text \<open>
  Diffie-Hellman agrees, HKDF-SHA256 yields 32 bytes, base64 and the AEAD invert, a public key has 32
  bytes, and base64 text is ASCII without white space at its ends.
\<close>

definition hive_law :: "hive_lib \<Rightarrow> bool" where
  "hive_law H \<longleftrightarrow>
     (\<forall>a b. dh H a (pub_of H b) = dh H b (pub_of H a)) \<and>
     (\<forall>s i. \<exists>k. hkdf H HIVE_SALT s i 32 = Some k \<and> length k = 32) \<and>
     (\<forall>k n a p. length n = 12 \<longrightarrow> (\<exists>c. seal_aad H k n a p = Some c \<and> open_aad H k n a c = Some p)) \<and>
     (\<forall>x. b64_dec H (b64_enc H x) = Some x) \<and>
     (\<forall>a. length (pub_of H a) = 32) \<and>
     (\<forall>x. utf8_valid (ascii (b64_enc H x)) \<and> of_bytes (str_trim (ascii (b64_enc H x))) = b64_enc H x)"

lemma dm_info_sym: "dm_info a b e = dm_info b a e"
  by (auto simp: dm_info_def)

lemma encrypt_aead_law:
  assumes "hive_law H" and "length n = 12"
  obtains c where "encrypt_aead H n k p a = Some (n, c)" and "decrypt_aead H k n c a = Inr p"
proof -
  obtain c where "seal_aad H k n a p = Some c" "open_aad H k n a c = Some p"
    using assms unfolding hive_law_def by blast
  then show ?thesis using that assms(2) by (simp add: encrypt_aead_def decrypt_aead_def)
qed

lemma derive_key_law: "hive_law H \<Longrightarrow> \<exists>k. derive_key H s i = Some k"
  unfolding hive_law_def derive_key_def by blast

lemma hive_laws:
  "hive_law H \<Longrightarrow> dh H a (pub_of H b) = dh H b (pub_of H a)"
  "hive_law H \<Longrightarrow> b64_dec H (b64_enc H x) = Some x"
  "hive_law H \<Longrightarrow> length (pub_of H a) = 32"
  "hive_law H \<Longrightarrow> utf8_valid (ascii (b64_enc H x))"
  "hive_law H \<Longrightarrow> of_bytes (str_trim (ascii (b64_enc H x))) = b64_enc H x"
  unfolding hive_law_def by blast+

lemma hive_messages_facts:
  assumes "hive_law H" and "length nonce = 12"
  shows "\<exists>e. encrypt_dm H nonce p a (pub_of H b) ida idb aad = Some e \<and> env_encrypted e \<and>
      decrypt_dm H e b (pub_of H a) idb ida aad = Some (Inr p)"
    and "\<exists>e. encrypt_dm_ephemeral H nonce eph p (pub_of H b) ida idb aad = Some e \<and> env_encrypted e \<and>
      decrypt_dm H e b any_pub idb ida aad = Some (Inr p)"
    and "length room_key = 32 \<Longrightarrow> \<exists>e. encrypt_room_key H nonce room_key a (pub_of H b) room = Some e \<and>
      decrypt_room_key H e b (pub_of H a) room = Some (Inr room_key)"
    and "\<exists>e. encrypt_room_message H nonce p room_key = Some e \<and> env_encrypted e \<and> decrypt_room_message H e room_key = Inr p"
proof -
  note laws = hive_laws [OF assms(1)]
  note aead = encrypt_aead_law [OF assms]
  obtain k where k: "derive_key H (dh H a (pub_of H b)) (dm_info ida idb False) = Some k"
    using derive_key_law [OF assms(1)] by blast
  obtain c where "encrypt_aead H nonce k p aad = Some (nonce, c)" "decrypt_aead H k nonce c aad = Inr p" by (rule aead)
  then show "\<exists>e. encrypt_dm H nonce p a (pub_of H b) ida idb aad = Some e \<and> env_encrypted e \<and>
      decrypt_dm H e b (pub_of H a) idb ida aad = Some (Inr p)"
    using k by (simp add: encrypt_dm_def decrypt_dm_def dm_key_def laws(2) dm_info_sym [of idb ida] laws(1) [of b a])
  obtain k where k: "derive_key H (dh H eph (pub_of H b)) (dm_info ida idb True) = Some k"
    using derive_key_law [OF assms(1)] by blast
  obtain c where "encrypt_aead H nonce k p aad = Some (nonce, c)" "decrypt_aead H k nonce c aad = Inr p" by (rule aead)
  then show "\<exists>e. encrypt_dm_ephemeral H nonce eph p (pub_of H b) ida idb aad = Some e \<and> env_encrypted e \<and>
      decrypt_dm H e b any_pub idb ida aad = Some (Inr p)"
    using k by (simp add: encrypt_dm_ephemeral_def decrypt_dm_def dm_key_def laws(2,3) dm_info_sym [of idb ida] laws(1) [of b eph])
  obtain c where "encrypt_aead H nonce room_key p [] = Some (nonce, c)" "decrypt_aead H room_key nonce c [] = Inr p" by (rule aead)
  then show "\<exists>e. encrypt_room_message H nonce p room_key = Some e \<and> env_encrypted e \<and> decrypt_room_message H e room_key = Inr p"
    by (simp add: encrypt_room_message_def decrypt_room_message_def laws(2))
  assume len: "length room_key = 32"
  obtain k where k: "derive_key H (dh H a (pub_of H b)) (''room-key:'' @ room) = Some k"
    using derive_key_law [OF assms(1)] by blast
  obtain c where "encrypt_aead H nonce k room_key [] = Some (nonce, c)" "decrypt_aead H k nonce c [] = Inr room_key" by (rule aead)
  then show "\<exists>e. encrypt_room_key H nonce room_key a (pub_of H b) room = Some e \<and>
      decrypt_room_key H e b (pub_of H a) room = Some (Inr room_key)"
    using k len by (simp add: encrypt_room_key_def decrypt_room_key_def laws(2) laws(1) [of b a])
qed

text \<open>
  Encrypted messages reach their recipient. Between the holders of two key pairs, under the ids and the
  additional data both sides know, a direct message decrypts to its plaintext, in static mode with the
  sender's public key and in ephemeral mode with whatever key is given for the sender; a room key reaches a
  member, a room message every holder of the room key; and no step panics.
\<close>

theorem hive_messages_reach:
  assumes "hive_law H" and "length nonce = 12" and "length room_key = 32"
  shows "(\<exists>e. encrypt_dm H nonce p a (pub_of H b) ida idb aad = Some e \<and>
      decrypt_dm H e b (pub_of H a) idb ida aad = Some (Inr p)) \<and>
    (\<exists>e. encrypt_dm_ephemeral H nonce eph p (pub_of H b) ida idb aad = Some e \<and>
      decrypt_dm H e b any_pub idb ida aad = Some (Inr p)) \<and>
    (\<exists>e. encrypt_room_key H nonce room_key a (pub_of H b) room = Some e \<and>
      decrypt_room_key H e b (pub_of H a) room = Some (Inr room_key)) \<and>
    (\<exists>e. encrypt_room_message H nonce p room_key = Some e \<and> decrypt_room_message H e room_key = Inr p)"
  using hive_messages_facts(1) [OF assms(1,2), of p a b ida idb aad]
    hive_messages_facts(2) [OF assms(1,2), of eph p b ida idb aad any_pub]
    hive_messages_facts(3) [OF assms, of a b room] hive_messages_facts(4) [OF assms(1,2), of p room_key]
  by blast

text \<open>A toy instance for evaluation: exclusive or for the key agreement, a constant key, the base64 of \<open>Base64\<close>.\<close>

definition toy_hive :: hive_lib where
  "toy_hive =
     \<lparr>pub_of = (\<lambda>s. take 32 (s @ replicate 32 0)), dh = (\<lambda>s p. map2 (XOR) (take 32 (s @ replicate 32 0)) p),
      hkdf = (\<lambda>salt ikm ctx n. Some (replicate n 1)), aead_enc = (\<lambda>k n p. Some p), aead_dec = (\<lambda>k n c. Some c),
      b64_enc = (\<lambda>x. of_bytes (base64_encode x)),
      b64_dec = (\<lambda>s. case base64_decode (ascii s) of Inr x \<Rightarrow> Some x | Inl _ \<Rightarrow> None),
      seal_aad = (\<lambda>k n a p. Some (p @ a)),
      open_aad = (\<lambda>k n a c. if length a \<le> length c \<and> drop (length c - length a) c = a
                          then Some (take (length c - length a) c) else None)\<rparr>"

text \<open>The alphabet of base64 is ASCII and has no white space.\<close>

lemma b64_alphabet_eval: "list_all (\<lambda>c. 33 \<le> c \<and> c \<le> 0x7F) (61 # B64_CHARS)"
  unfolding B64_CHARS_eval by code_simp

lemma length_B64_CHARS: "length B64_CHARS = 64"
  by (simp add: B64_CHARS_eval)

lemma b64_alphabet: "c \<in> set (base64_encode d) \<Longrightarrow> 33 \<le> c \<and> c \<le> 0x7F"
proof -
  have ch: "33 \<le> b64_char w \<and> b64_char w \<le> 0x7F" for w
  proof -
    have "w AND 0x3F = take_bit 6 w" by (simp add: take_bit_eq_mask mask_eq_exp_minus_1)
    then have "unat (w AND 0x3F) < 64"
      using take_bit_nat_less_exp [of 6 "unat w"] by (simp add: unsigned_take_bit_eq)
    then have "b64_char w \<in> set B64_CHARS" unfolding b64_char_def by (intro nth_mem) (simp add: length_B64_CHARS)
    then show ?thesis using b64_alphabet_eval unfolding list_all_iff by auto
  qed
  assume "c \<in> set (base64_encode d)"
  then have "c = 61 \<or> (\<exists>w. c = b64_char w)"
    by (auto simp: base64_encode_def b64_group_def Let_def split: if_splits)
  then show ?thesis using ch by auto
qed

lemma ws_heads: "list_all (\<lambda>w. w \<noteq> [] \<and> (hd w \<le> 32 \<or> 0x7F < hd w)) white_space"
  "list_all (\<lambda>w. w \<noteq> [] \<and> (hd w \<le> 32 \<or> 0x7F < hd w)) (map rev white_space)"
  by code_simp+

lemma strip_ascii:
  assumes "list_all (\<lambda>w. w \<noteq> [] \<and> (hd w \<le> 32 \<or> 0x7F < hd w)) ws" and "\<forall>c \<in> set s. 33 \<le> c \<and> c \<le> (0x7F :: u8)"
  shows "strip_seqs ws s = s"
proof (cases s)
  case (Cons b r)
  then have b: "33 \<le> b" "b \<le> 0x7F" using assms(2) by auto
  have "hd w \<noteq> b" if "w \<in> set ws" for w
  proof -
    have "hd w \<le> 32 \<or> 0x7F < hd w" using that assms(1) unfolding list_all_iff by blast
    with b show ?thesis by (auto simp: word_le_nat_alt word_less_nat_alt)
  qed
  then have "list_all (\<lambda>w. w = [] \<or> hd w \<noteq> b) ws" unfolding list_all_iff by blast
  then show ?thesis unfolding Cons by (rule strip_seqs_id)
qed simp

lemma trim_b64: "str_trim (base64_encode d) = base64_encode d" and utf8_b64: "utf8_valid (base64_encode d)"
proof -
  have a: "\<forall>c \<in> set (base64_encode d). 33 \<le> c \<and> c \<le> 0x7F" using b64_alphabet by blast
  then have "strip_seqs (map rev white_space) (rev (base64_encode d)) = rev (base64_encode d)"
    by (intro strip_ascii [OF ws_heads(2)]) simp
  then show "str_trim (base64_encode d) = base64_encode d"
    unfolding str_trim_def strip_ascii [OF ws_heads(1) a] by simp
  show "utf8_valid (base64_encode d)" using a by (intro utf8_valid_ascii) (simp add: list_all_iff)
qed

lemma map2_xor_comm: "map2 (XOR) xs ys = map2 (XOR) ys (xs :: u8 list)"
  by (induction xs ys rule: list_induct2') (simp_all add: xor.commute)

lemma toy_hive_law: "hive_law toy_hive"
  unfolding hive_law_def
  using map2_xor_comm decode_encode(1) [where n = 0] trim_b64 utf8_b64
  by (auto simp: toy_hive_def min_def)

theorem hive_messages_reach_witness:
  "\<exists>e. encrypt_dm toy_hive (replicate 12 5) [1, 2, 3] [10] (pub_of toy_hive [20]) ''alice'' ''bob'' [7] = Some e \<and>
     decrypt_dm toy_hive e [20] (pub_of toy_hive [10]) ''bob'' ''alice'' [7] = Some (Inr [1, 2, 3])"
  using hive_messages_reach [OF toy_hive_law, of "replicate 12 5" "replicate 32 6"] by simp

text \<open>Any later calls, for any agents.\<close>

fun pin_all :: "hive_lib \<Rightarrow> (bool \<times> string \<times> bytes) list \<Rightarrow> (string \<Rightarrow> bytes option) \<Rightarrow> (string \<Rightarrow> bytes option)" where
  "pin_all H [] files = files"
| "pin_all H ((w, name, k) # cs) files = pin_all H cs (fst (pin_public_key H w name k files))"

lemma cached_pinned: "hive_law H \<Longrightarrow> length k = 32 \<Longrightarrow> cached_key H (Some (ascii (b64_enc H k))) = Some k"
  by (simp add: cached_key_def hive_laws)

lemma pin_all_keeps:
  "cached_key H (files name) = Some k \<Longrightarrow> pin_all H cs files name = files name"
proof (induction cs arbitrary: files)
  case (Cons c cs)
  obtain w n k' where c: "c = (w, n, k')" by (cases c)
  have "fst (pin_public_key H w n k' files) name = files name"
    using Cons.prems by (cases "n = name") (auto simp: pin_public_key_def split: option.splits)
  with Cons show ?case by (simp add: c)
qed simp

text \<open>
  Trust on first use. Once a key is pinned for an agent (first contact, and the write succeeded), no
  later call changes the file of any agent it is not about, nor this one: a call with the same key says
  it matches, a call with another key is refused with the pinned key. But a pinned file that cannot be read
  as a key, and a write that failed, are treated as a first contact: any key is accepted and pinned.
\<close>

theorem pinned_key_stays:
  assumes "hive_law H" and "length k = 32" and "length k2 = 32" and "k2 \<noteq> k"
    and "cached_key H (files name) = None"
  shows "let (files1, r) = pin_public_key H True name k files; files2 = pin_all H calls files1
    in r = Inr True \<and> snd (pin_public_key H w name k files2) = Inr False \<and>
       snd (pin_public_key H w name k2 files2) = Inl k \<and> files2 name = files1 name \<and>
       snd (pin_public_key H w name k2 (fst (pin_public_key H False name k files))) = Inr True"
proof -
  let ?f1 = "files(name \<mapsto> ascii (b64_enc H k))"
  have pin: "pin_public_key H True name k files = (?f1, Inr True)" "pin_public_key H False name k files = (files, Inr True)"
    using assms(5) by (simp_all add: pin_public_key_def)
  have c: "cached_key H (?f1 name) = Some k" using cached_pinned [OF assms(1,2)] by simp
  note keep = pin_all_keeps [of H ?f1 name k calls, OF c]
  then have "cached_key H (pin_all H calls ?f1 name) = Some k" using c by simp
  then show ?thesis
    using assms(4,5) keep by (auto simp: pin Let_def) (simp_all add: pin_public_key_def)
qed

theorem pinned_key_stays_witness:
  "snd (pin_public_key toy_hive True ''eve'' (replicate 32 2)
     (pin_all toy_hive [(True, ''bob'', replicate 32 3), (True, ''eve'', replicate 32 4)]
       (fst (pin_public_key toy_hive True ''eve'' (replicate 32 1) Map.empty)))) = Inl (replicate 32 1)"
  using pinned_key_stays [OF toy_hive_law, of "replicate 32 1" "replicate 32 2" Map.empty "''eve''"
      "[(True, ''bob'', replicate 32 3), (True, ''eve'', replicate 32 4)]" True]
  by (simp add: cached_key_def Let_def split: prod.splits)

end
