(* ===== verification/Relay.thy ===== *)
theory Relay
  imports Session Bridge Utf8 Json
begin

text \<open>
  \<open>src/crates/b3-gpu-relay/src/main.rs\<close>: the relay between browsers and the GPU worker. Modelled here: the text
  search on messages, the reader of the worker's messages that routes each response to the session that
  asked, the admission of a browser connection and the loop over its messages. Text is UTF-8 bytes. The
  pending requests are a \<open>HashMap\<close>, an association list in an arbitrary order.
\<close>

section \<open>Searching messages\<close>

definition quoted :: "string \<Rightarrow> bytes" where
  "quoted s = [0x22] @ ascii s @ [0x22]"

text \<open>\<open>text.contains("\"type\":\"v\"") || text.contains("\"type\": \"v\"")\<close>.\<close>

definition type_is :: "string \<Rightarrow> bytes \<Rightarrow> bool" where
  "type_is v txt \<longleftrightarrow>
     str_contains (quoted ''type'' @ ascii '':'' @ quoted v) txt \<or>
     str_contains (quoted ''type'' @ ascii '': '' @ quoted v) txt"

definition classify_priority :: "bytes \<Rightarrow> priority" where
  "classify_priority json_text =
     (if type_is ''progress'' json_text then BestEffort
      else if type_is ''ping'' json_text then BestEffort
      else Critical)"

definition trim_start :: "bytes \<Rightarrow> bytes" where
  "trim_start s = strip_seqs white_space s"

definition value_after :: "bytes \<Rightarrow> bytes option" where
  "value_after after_key =
     (case strip_prefix [0x3A] (trim_start after_key) of
        None \<Rightarrow> None
      | Some after_colon \<Rightarrow>
          (case strip_prefix [0x22] (trim_start after_colon) of
             None \<Rightarrow> None
           | Some after_quote \<Rightarrow>
               (case str_find [0x22] after_quote of
                  None \<Rightarrow> None
                | Some e \<Rightarrow> Some (take e after_quote))))"

fun search_keys :: "bytes list \<Rightarrow> bytes \<Rightarrow> bytes option" where
  "search_keys [] txt = None"
| "search_keys (key # keys) txt =
     (case str_find key txt of
        Some idx \<Rightarrow> value_after (drop (idx + length key) txt)
      | None \<Rightarrow> search_keys keys txt)"

definition extract_msg_id :: "bytes \<Rightarrow> bytes option" where
  "extract_msg_id payload =
     (if utf8_valid payload then search_keys [quoted ''job_id'', quoted ''stream_id'', quoted ''msg_id''] payload else None)"

definition is_final_response :: "bytes \<Rightarrow> bool" where
  "is_final_response payload \<longleftrightarrow>
     utf8_valid payload \<and> (type_is ''done'' payload \<or> type_is ''error'' payload \<or> type_is ''result'' payload)"


section \<open>From the worker to the browsers\<close>

datatype gpu_frame = Gpu_Text bytes | Gpu_Binary bytes | Gpu_Close | Gpu_Other | Gpu_Error | Gpu_End | Gpu_Timeout

type_synonym pending_requests = "(bytes, u64) rmap"

definition target_session :: "bytes option \<Rightarrow> pending_requests \<Rightarrow> u64 option" where
  "target_session msg_id pending =
     (case msg_id of
        None \<Rightarrow> None
      | Some i \<Rightarrow>
          (case map_of pending i of
             Some s \<Rightarrow> Some s
           | None \<Rightarrow> map_option snd (find (\<lambda>(k, _). starts_with i k) pending)))"

text \<open>
  One turn of \<open>gpu_ws_reader\<close>: the pending requests, what is sent on the backend queue of which session, and
  whether the loop goes on. \<open>lookup\<close> is \<open>session_manager.get\<close> followed by \<open>backend_tx\<close>.
\<close>

definition gpu_reader_step ::
  "'h session_manager \<Rightarrow> gpu_frame \<Rightarrow> pending_requests \<Rightarrow> pending_requests \<times> (u64 \<times> outbound_message) list \<times> bool" where
  "gpu_reader_step sm frame pending =
     (let forward = (\<lambda>payload prio.
        let outbound = \<lparr>om_payload = payload, om_priority = prio\<rparr>;
            msg_id = extract_msg_id payload;
            target = target_session msg_id pending;
            pending1 = (case msg_id of
                          Some i \<Rightarrow> (if is_final_response payload then map_remove i pending else pending)
                        | None \<Rightarrow> pending)
        in case target of
             Some s \<Rightarrow> (case get_session s sm of Some _ \<Rightarrow> (pending1, [(s, outbound)], True) | None \<Rightarrow> (pending1, [], True))
           | None \<Rightarrow> (pending1, [], True))
      in case frame of
           Gpu_Text t \<Rightarrow> forward t (classify_priority t)
         | Gpu_Binary d \<Rightarrow> forward d Critical
         | Gpu_Other \<Rightarrow> (pending, [], True)
         | _ \<Rightarrow> (pending, [], False))"


section \<open>Browser connections\<close>

text \<open>
  \<open>handle_browser_ws\<close> up to its loop: \<open>Inl\<close> is the rejection of a duplicate. \<open>chan\<close> names the backend queue and
  \<open>task\<close> the bridge task of a new session, \<open>h\<close> is the sink of this connection. The output is what is
  written to transports: the replay of unacknowledged frames, then the Resume frame.
\<close>

definition browser_connect ::
  "u64 option \<Rightarrow> config \<Rightarrow> nat \<Rightarrow> nat \<Rightarrow> 'h \<Rightarrow> 'h session_manager \<Rightarrow>
   'h session_manager \<times> u64 \<times> (unit + ('h \<times> bytes) list)" where
  "browser_connect sid_param c chan task h sm =
     (let (sm1, session, backend_rx) = reconnect_or_create sid_param c chan sm;
          client_id = sess_id session;
          sm2 = (case backend_rx of Some _ \<Rightarrow> with_session client_id (start_bridge task) sm1 | None \<Rightarrow> sm1)
      in if has_transport ''ws'' (multi session) then (sm2, client_id, Inl ())
         else let (m1, out1) = remove_transport ''ws'' (multi session);
                  (m2, out2) = add_transport ''ws'' 1 h m1;
                  out3 = multi_send_resume m2
              in (with_session client_id (\<lambda>s. s\<lparr>multi := m2\<rparr>) sm2, client_id, Inr (out1 @ out2 @ out3)))"

text \<open>The cleanup five minutes after the connection ended.\<close>

definition expire_session :: "u64 \<Rightarrow> 'h session_manager \<Rightarrow> 'h session_manager \<times> nat list" where
  "expire_session client_id sm =
     (case get_session client_id sm of
        Some s \<Rightarrow> (if sink_count (multi s) = 0 then remove_session client_id sm else (sm, []))
      | None \<Rightarrow> (sm, []))"

text \<open>
  The loop over the messages of a browser: the session's transports, its RTC flag and the pending requests
  are the state; the outputs are the frames to transports and the texts to the worker. \<open>gpu_ok i\<close> is
  whether the worker's socket accepts the \<open>i\<close>-th text. The result says whether the loop goes on.
\<close>

record 'h browser_loop =
  bl_multi :: "'h multi_transport"
  bl_rtc :: bool
  bl_pending :: pending_requests
  bl_to_browser :: "('h \<times> bytes) list"
  bl_to_gpu :: "bytes list"

datatype browser_message = Browser_Binary bytes | Browser_Text bytes | Browser_Close | Browser_Other

definition track :: "u64 \<Rightarrow> bytes \<Rightarrow> 'h browser_loop \<Rightarrow> 'h browser_loop" where
  "track client_id txt b =
     (case extract_msg_id txt of
        Some i \<Rightarrow> b\<lparr>bl_pending := map_insert i client_id (bl_pending b)\<rparr>
      | None \<Rightarrow> b)"

definition forward_to_gpu :: "(nat \<Rightarrow> bool) \<Rightarrow> bytes \<Rightarrow> 'h browser_loop \<Rightarrow> 'h browser_loop \<times> bool" where
  "forward_to_gpu gpu_ok txt b =
     (if gpu_ok (length (bl_to_gpu b)) then (b\<lparr>bl_to_gpu := bl_to_gpu b @ [txt]\<rparr>, True) else (b, False))"

fun browser_delivered ::
  "(bytes \<Rightarrow> u32) \<Rightarrow> (nat \<Rightarrow> nat \<Rightarrow> u32) \<Rightarrow> (nat \<Rightarrow> bool) \<Rightarrow> u64 \<Rightarrow> nat \<Rightarrow> received_message list \<Rightarrow> 'h browser_loop
     \<Rightarrow> ('h browser_loop \<times> bool) option" where
  "browser_delivered crc clk gpu_ok client_id n [] b = Some (b, True)"
| "browser_delivered crc clk gpu_ok client_id n (m # ms) b =
     (let txt = utf8_lossy (rm_payload m)
      in if type_is ''echo'' txt then
           (case multi_send crc (clk n) txt Critical (bl_multi b) of
              None \<Rightarrow> None
            | Some (mt, out) \<Rightarrow>
                browser_delivered crc clk gpu_ok client_id (Suc n) ms
                  (b\<lparr>bl_multi := mt, bl_to_browser := bl_to_browser b @ out\<rparr>))
         else if type_is ''pong'' txt then browser_delivered crc clk gpu_ok client_id (Suc n) ms b
         else let b1 = track client_id txt b
              in if type_is ''rtc_inactive'' txt then
                   (let (mt, out) = remove_transport ''rtc'' (bl_multi b1)
                    in browser_delivered crc clk gpu_ok client_id (Suc n) ms
                         (b1\<lparr>bl_rtc := False, bl_multi := mt, bl_to_browser := bl_to_browser b1 @ out\<rparr>))
                 else case forward_to_gpu gpu_ok txt b1 of
                        (b2, False) \<Rightarrow> Some (b2, False)
                      | (b2, True) \<Rightarrow> browser_delivered crc clk gpu_ok client_id (Suc n) ms b2)"

definition browser_step ::
  "(bytes \<Rightarrow> u32) \<Rightarrow> (nat \<Rightarrow> u32) \<Rightarrow> (nat \<Rightarrow> nat \<Rightarrow> u32) \<Rightarrow> (nat \<Rightarrow> bool) \<Rightarrow> u64 \<Rightarrow> browser_message \<Rightarrow> 'h browser_loop
     \<Rightarrow> ('h browser_loop \<times> bool) option" where
  "browser_step crc now clk gpu_ok client_id msg b =
     (case msg of
        Browser_Binary data \<Rightarrow>
          (if is_reliable data
           then let (mt, ms, out) = multi_receive crc now data (bl_multi b)
                in browser_delivered crc clk gpu_ok client_id 0 ms
                     (b\<lparr>bl_multi := mt, bl_to_browser := bl_to_browser b @ out\<rparr>)
           else Some (b, True))
      | Browser_Text txt \<Rightarrow> Some (forward_to_gpu gpu_ok txt (track client_id txt b))
      | Browser_Close \<Rightarrow> Some (b, False)
      | Browser_Other \<Rightarrow> Some (b, True))"

definition browser_cleanup :: "'h browser_loop \<Rightarrow> 'h browser_loop" where
  "browser_cleanup b =
     (let (mt, out) = remove_transport ''ws'' (bl_multi b)
      in b\<lparr>bl_multi := mt, bl_to_browser := bl_to_browser b @ out\<rparr>)"


section \<open>Routing\<close>

text \<open>What browsers ask and the worker answers, and who asked last for an id that is still open.\<close>

datatype relay_event = Asks u64 bytes | Answers bytes

definition relay_step :: "'h session_manager \<Rightarrow> relay_event \<Rightarrow> pending_requests \<Rightarrow> pending_requests" where
  "relay_step sm e pending =
     (case e of
        Asks s txt \<Rightarrow> (case extract_msg_id txt of Some i \<Rightarrow> map_insert i s pending | None \<Rightarrow> pending)
      | Answers payload \<Rightarrow> fst (gpu_reader_step sm (Gpu_Text payload) pending))"

definition owner_step :: "relay_event \<Rightarrow> (bytes \<Rightarrow> u64 option) \<Rightarrow> (bytes \<Rightarrow> u64 option)" where
  "owner_step e m =
     (case e of
        Asks s txt \<Rightarrow> (case extract_msg_id txt of Some i \<Rightarrow> m(i \<mapsto> s) | None \<Rightarrow> m)
      | Answers payload \<Rightarrow>
          (case extract_msg_id payload of
             Some i \<Rightarrow> (if is_final_response payload then m(i := None) else m)
           | None \<Rightarrow> m))"

lemma reader_pending:
  "fst (gpu_reader_step sm (Gpu_Text payload) pending) =
     (case extract_msg_id payload of
        Some i \<Rightarrow> (if is_final_response payload then map_remove i pending else pending)
      | None \<Rightarrow> pending)"
  by (simp add: gpu_reader_step_def Let_def split: option.splits)

lemma reader_output:
  "fst (snd (gpu_reader_step sm (Gpu_Text payload) pending)) =
     (case target_session (extract_msg_id payload) pending of
        Some s \<Rightarrow> (if get_session s sm = None then []
                   else [(s, \<lparr>om_payload = payload, om_priority = classify_priority payload\<rparr>)])
      | None \<Rightarrow> [])"
  by (simp add: gpu_reader_step_def Let_def split: option.splits)

lemma relay_refines: "map_of (fold (relay_step sm) es pending) = fold owner_step es (map_of pending)"
  by (induction es arbitrary: pending)
    (simp_all add: relay_step_def owner_step_def reader_pending split: relay_event.splits option.splits)

lemma target_exact: "map_of pending i = Some s \<Longrightarrow> target_session (Some i) pending = Some s"
  by (simp add: target_session_def)

lemma target_none:
  assumes "map_of pending i = None" and "\<forall>k. map_of pending k \<noteq> None \<longrightarrow> \<not> starts_with i k"
  shows "target_session (Some i) pending = None"
proof -
  have "\<not> (\<exists>x. x \<in> set pending \<and> (case x of (k, _) \<Rightarrow> starts_with i k))"
    using assms(2) by (force simp: map_of_eq_None_iff)
  then show ?thesis using assms(1) by (auto simp: target_session_def find_None_iff)
qed

text \<open>The fallback takes the owner of some open id that is a prefix.\<close>

lemma target_prefix:
  assumes "map_of pending i = None" and "map_wf pending" and "\<exists>k. map_of pending k \<noteq> None \<and> starts_with i k"
  shows "\<exists>k s. map_of pending k = Some s \<and> starts_with i k \<and> target_session (Some i) pending = Some s"
proof (cases "find (\<lambda>(k, _). starts_with i k) pending")
  case None
  then show ?thesis using assms(3) by (fastforce simp: find_None_iff dest: map_of_SomeD)
next
  case (Some x)
  then obtain n where "n < length pending" "case pending ! n of (k, _) \<Rightarrow> starts_with i k" "x = pending ! n"
    unfolding find_Some_iff by (elim exE conjE)
  then have "x \<in> set pending" "case x of (k, _) \<Rightarrow> starts_with i k" by simp_all
  then obtain k s where x: "x = (k, s)" "(k, s) \<in> set pending" "starts_with i k" by (cases x) auto
  then have "map_of pending k = Some s" using assms(2) by (simp add: map_wf_def)
  with x Some assms(1) show ?thesis by (auto simp: target_session_def)
qed

lemma map_wf_relay: "map_wf pending \<Longrightarrow> map_wf (fold (relay_step sm) es pending)"
proof (induction es arbitrary: pending)
  case (Cons e es)
  have "map_wf (relay_step sm e pending)"
    using Cons.prems by (cases e) (simp_all add: relay_step_def reader_pending split: option.splits)
  with Cons.IH show ?case by simp
qed simp


definition job_text :: "string \<Rightarrow> bytes" where
  "job_text i = quoted ''job_id'' @ [0x3A] @ quoted i"

lemma job_ids: "extract_msg_id (job_text ''job-1'') = Some (ascii ''job-1'')"
  "extract_msg_id (job_text ''job-10'') = Some (ascii ''job-10'')"
  by code_simp+

text \<open>A response for \<open>job-10\<close> that comes too late reaches the session that waits for \<open>job-1\<close>.\<close>

lemma late_response_misrouted:
  "fst (snd (gpu_reader_step (fst (create default_config 0 (manager_new :: nat session_manager))) (Gpu_Text (job_text ''job-10''))
     (fold (relay_step (fst (create default_config 0 (manager_new :: nat session_manager)))) [Asks 1 (job_text ''job-1'')] []))) =
   [(1, \<lparr>om_payload = job_text ''job-10'', om_priority = classify_priority (job_text ''job-10'')\<rparr>)]"
proof -
  let ?sm = "fst (create default_config 0 (manager_new :: nat session_manager))"
  have ne: "ascii ''job-10'' \<noteq> ascii ''job-1''" and st: "starts_with (ascii ''job-10'') (ascii ''job-1'')" by code_simp+
  have "fold (relay_step ?sm) [Asks 1 (job_text ''job-1'')] [] = [(ascii ''job-1'', 1)]"
    by (simp add: relay_step_def job_ids map_insert_def)
  moreover have "get_session 1 ?sm \<noteq> None" by (simp add: create_eq manager_new_def get_session_def Let_def)
  ultimately show ?thesis using ne st by (simp add: reader_output job_ids target_session_def)
qed


section \<open>Admission\<close>

text \<open>
  Admission of browser connections. A connection that finds a live WebSocket on its session is
  rejected, and an existing session is not touched by it. An admitted one replaces nothing but the
  session's table of transports: the channel with its send buffer, every other transport and every other
  session stay, the sink is registered under its name with priority 1, and the last frame written is the
  Resume of the channel's position, to the best transport.
\<close>

theorem browser_admission:
  assumes "manager_ok sm" and "reconnect_or_create sid_param c chan sm = (sm1, s, rx)" and "sinks_ok (sinks (multi s))"
    and "browser_connect sid_param c chan task h sm = (sm', cid, r)"
  shows "cid = sess_id s \<and> (r = Inl () \<longleftrightarrow> has_transport ''ws'' (multi s)) \<and>
    (has_transport ''ws'' (multi s) \<and> rx = None \<longrightarrow> sm' = sm) \<and>
    (\<forall>i. i \<noteq> cid \<longrightarrow> get_session i sm' = get_session i sm1) \<and>
    (\<not> has_transport ''ws'' (multi s) \<longrightarrow>
       (\<exists>s' out. get_session cid sm' = Some s' \<and> r = Inr out \<and> reliable (multi s') = reliable (multi s) \<and>
          sink_map (sinks (multi s')) = (sink_map (sinks (multi s)))(''ws'' \<mapsto> (1, h)) \<and>
          (\<exists>best. active_transport (multi s') = Some (sink_name best) \<and> best \<in> set (sinks (multi s')) \<and>
             last out = (send_fn best, encode_resume (last_contiguous (reliable (multi s)))))))"
proof -
  note rp = reconnect_props [OF assms(1,2)]
  have get: "get_session (sess_id s) sm1 = Some s" using rp by blast
  let ?sm2 = "case rx of Some _ \<Rightarrow> with_session (sess_id s) (start_bridge task) sm1 | None \<Rightarrow> sm1"
  have other: "get_session i (with_session j f x) = get_session i x" if "i \<noteq> j" for i j f and x :: "'a session_manager"
    using that by (simp add: with_session_def get_session_def split: option.splits)
  have o2: "get_session i ?sm2 = get_session i sm1" if "i \<noteq> sess_id s" for i using that other by (cases rx) auto
  obtain s2 where g2: "get_session (sess_id s) ?sm2 = Some s2"
    using get by (cases rx) (auto simp: with_session_def get_session_def)
  show ?thesis
  proof (cases "has_transport ''ws'' (multi s)")
    case True
    then have e: "sm' = ?sm2" "cid = sess_id s" "r = Inl ()"
      using assms(4) unfolding browser_connect_def assms(2) Let_def prod.case by auto
    moreover have "rx = None \<Longrightarrow> sm1 = sm" using rp by (auto split: option.splits)
    ultimately show ?thesis using True o2 by auto
  next
    case False
    let ?m1 = "fst (remove_transport ''ws'' (multi s))"
    let ?m2 = "fst (add_transport ''ws'' 1 h ?m1)"
    have e: "sm' = with_session (sess_id s) (\<lambda>s. s\<lparr>multi := ?m2\<rparr>) ?sm2" "cid = sess_id s"
      "\<exists>out. r = Inr (out @ multi_send_resume ?m2)"
      using assms(4) False unfolding browser_connect_def assms(2) Let_def prod.case by (auto simp: case_prod_unfold)
    then obtain out where out: "r = Inr (out @ multi_send_resume ?m2)" by blast
    have rel: "reliable ?m2 = reliable (multi s)"
      by (simp add: add_transport_def remove_transport_def Let_def split: if_splits)
    have sk: "sinks ?m2 = insert_sink ''ws'' 1 h (delete_sink ''ws'' (sinks (multi s)))"
      by (simp add: add_transport_def remove_transport_def Let_def split: if_splits)
    have map: "sink_map (sinks ?m2) = (sink_map (sinks (multi s)))(''ws'' \<mapsto> (1, h))"
      unfolding sk using assms(3) by (simp add: sink_map_insert sink_map_delete sinks_ok_delete)
    have "sinks ?m2 \<noteq> []"
    proof
      assume "sinks ?m2 = []"
      then have "sink_map (sinks ?m2) ''ws'' = None" by (simp add: sink_map_def)
      then show False by (simp add: map)
    qed
    then obtain best rest where best: "sinks ?m2 = best # rest" by (cases "sinks ?m2") auto
    have sr: "multi_send_resume ?m2 = [(send_fn best, encode_resume (last_contiguous (reliable (multi s))))]"
      by (simp add: multi_send_resume_def route_def best send_resume_def rel)
    have "get_session (sess_id s) sm' = Some (s2\<lparr>multi := ?m2\<rparr>)"
      using g2 by (simp add: e(1) with_session_def get_session_def)
    moreover have "\<exists>b. active_transport ?m2 = Some (sink_name b) \<and> b \<in> set (sinks ?m2) \<and>
        last (out @ multi_send_resume ?m2) = (send_fn b, encode_resume (last_contiguous (reliable (multi s))))"
      by (intro exI [of _ best]) (simp add: active_transport_def best sr)
    moreover have "\<forall>i. i \<noteq> cid \<longrightarrow> get_session i sm' = get_session i sm1" using e(1,2) other o2 by simp
    ultimately show ?thesis
      using False e(2) out rel map by simp
  qed
qed

theorem browser_admission_witness:
  "\<exists>sm2 cid r s'. browser_connect None default_config 0 1 (7 :: nat) manager_new = (sm2, cid, r) \<and>
     get_session 1 sm2 = Some s' \<and> sink_map (sinks (multi s')) ''ws'' = Some (1, 7)"
proof -
  let ?s0 = "fst (session_new 1 default_config 0)" and ?rs = "reconnect_or_create None default_config 0"
  let ?sm1 = "fst (create default_config 0 (manager_new :: nat session_manager))"
  have new: "?rs manager_new = (?sm1, ?s0, Some 0)"
  proof -
    have mr: "most_recent (manager_new :: nat session_manager) = None" by (simp add: manager_new_def)
    have "next_session_id (manager_new :: nat session_manager) = 1" by (simp add: manager_new_def)
    then show ?thesis unfolding reconnect_or_create_def option.case Let_def mr by (simp add: create_eq Let_def)
  qed
  have no: "\<not> has_transport ''ws'' (multi ?s0)" and ok0: "sinks_ok (sinks (multi ?s0))"
    by (simp_all add: session_new_def multi_set_session_id_def multi_new_def has_transport_def)
  obtain sm2 cid r where c1: "browser_connect None default_config 0 1 (7 :: nat) manager_new = (sm2, cid, r)"
    by (cases "browser_connect None default_config 0 1 (7 :: nat) manager_new")
  from browser_admission [OF manager_ok_new new ok0 c1] no have
    "\<exists>s'. get_session 1 sm2 = Some s' \<and> sink_map (sinks (multi s')) = (sink_map (sinks (multi ?s0)))(''ws'' \<mapsto> (1, 7))"
    by auto
  then show ?thesis using c1 by (metis fun_upd_same)
qed

end
