(* ===== verification/Gpu_Session.thy ===== *)
theory Gpu_Session
  imports Encrypted Utf8
begin

text \<open>
  \<open>src/crates/b3-gpu-relay/src/main.rs\<close>, \<open>run_gpu_session\<close> and \<open>handle_session_frame\<close>: one browser session
  dialled back through EC2. Frames from EC2 pass the encrypted channel, then the outer reliable channel,
  then go to the worker; the worker's messages go the other way. A connection to the worker and its reader
  task have one name; the outer channel writes to the queue \<open>gs_flush\<close>, which every turn drains. What the
  environment decides is part of the event: whether a connection attempt succeeds within its time and
  under which name, whether the worker's socket accepts the \<open>n\<close>-th message of the turn, the clock.
\<close>

record 'h gpu_session =
  gs_enc :: "'h encrypted_channel"
  gs_outer :: "unit reliable_channel"
  gs_flush :: "bytes list"
  gpu_writer :: "nat option"
  gpu_reader_handle :: "nat option"

datatype 'h session_output =
    To_Ec2 'h bytes
  | Gpu_Text bytes
  | Gpu_Binary bytes
  | Spawn_Reader nat
  | Abort_Reader nat

definition outer_config :: config where
  "outer_config = \<lparr>max_send_buffer = 1000, ack_interval_ms = 200, max_frame_payload = 262144\<rparr>"

definition gpu_session_start ::
  "crypto_lib \<Rightarrow> bytes \<Rightarrow> 'h \<Rightarrow> string \<Rightarrow> nat option \<Rightarrow> 'h gpu_session \<times> 'h session_output list" where
  "gpu_session_start K secret tx ver conn =
     (\<lparr>gs_enc = set_version ver (encrypted_new K default_config secret tx), gs_outer = channel_new outer_config (),
       gs_flush = [], gpu_writer = conn, gpu_reader_handle = conn\<rparr>,
      case conn of Some t \<Rightarrow> [Spawn_Reader t] | None \<Rightarrow> [])"

text \<open>The two places that connect on demand; the second aborts a reader left over.\<close>

definition connect_handshaking :: "nat option \<Rightarrow> 'h gpu_session \<Rightarrow> ('h gpu_session \<times> 'h session_output list) option" where
  "connect_handshaking conn s =
     (case gpu_writer s of
        Some _ \<Rightarrow> Some (s, [])
      | None \<Rightarrow>
          (case conn of
             None \<Rightarrow> None
           | Some t \<Rightarrow> Some (s\<lparr>gpu_writer := Some t, gpu_reader_handle := Some t\<rparr>, [Spawn_Reader t])))"

definition connect_ready :: "nat option \<Rightarrow> 'h gpu_session \<Rightarrow> ('h gpu_session \<times> 'h session_output list) option" where
  "connect_ready conn s =
     (case gpu_writer s of
        Some _ \<Rightarrow> Some (s, [])
      | None \<Rightarrow>
          (case conn of
             None \<Rightarrow> None
           | Some t \<Rightarrow>
               Some (s\<lparr>gpu_writer := Some t, gpu_reader_handle := Some t\<rparr>,
                     (case gpu_reader_handle s of Some old \<Rightarrow> [Abort_Reader old] | None \<Rightarrow> []) @ [Spawn_Reader t])))"

fun to_worker :: "(nat \<Rightarrow> bool) \<Rightarrow> nat \<Rightarrow> received_message list \<Rightarrow> 'h gpu_session \<Rightarrow> 'h gpu_session \<times> 'h session_output list \<times> nat" where
  "to_worker accepts n [] s = (s, [], n)"
| "to_worker accepts n (m # ms) s =
     (case gpu_writer s of
        None \<Rightarrow> to_worker accepts n ms s
      | Some _ \<Rightarrow>
          (if accepts n
           then let (s', out, n') = to_worker accepts (Suc n) ms s
                in (s', (if utf8_valid (rm_payload m) then Gpu_Text (rm_payload m) else Gpu_Binary (rm_payload m)) # out, n')
           else let s1 = s\<lparr>gpu_writer := None, gpu_reader_handle := None\<rparr>;
                    (s', out, n') = to_worker accepts (Suc n) ms s1
                in (s', (case gpu_reader_handle s of Some t \<Rightarrow> [Abort_Reader t] | None \<Rightarrow> []) @ out, n')))"

fun through_outer ::
  "(bytes \<Rightarrow> u32) \<Rightarrow> (nat \<Rightarrow> nat \<Rightarrow> u32) \<Rightarrow> (nat \<Rightarrow> bool) \<Rightarrow> nat \<Rightarrow> received_message list \<Rightarrow> 'h gpu_session
     \<Rightarrow> 'h gpu_session \<times> 'h session_output list" where
  "through_outer crc clk accepts n [] s = (s, [])"
| "through_outer crc clk accepts n (m # ms) s =
     (let (outer', delivered, frames) = receive crc (clk (length ms)) (rm_payload m) (gs_outer s);
          (s1, out1, n1) = to_worker accepts n delivered (s\<lparr>gs_outer := outer', gs_flush := gs_flush s @ frames\<rparr>);
          (s2, out2) = through_outer crc clk accepts n1 ms s1
      in (s2, out1 @ out2))"

definition ec2_out :: "('h \<times> bytes) list \<Rightarrow> 'h session_output list" where
  "ec2_out out = map (\<lambda>(h, w). To_Ec2 h w) out"

text \<open>\<open>while let Ok(outbound) = flush_rx.try_recv() { enc.send(outbound) }\<close>; \<open>None\<close> is a panic of \<open>send\<close>.\<close>

fun send_each ::
  "crypto_lib \<Rightarrow> (bytes \<Rightarrow> u32) \<Rightarrow> (nat \<Rightarrow> nat \<Rightarrow> u32) \<Rightarrow> bytes list \<Rightarrow> 'h encrypted_channel
     \<Rightarrow> ('h encrypted_channel \<times> ('h \<times> bytes) list) option" where
  "send_each K crc clk [] ec = Some (ec, [])"
| "send_each K crc clk (w # ws) ec =
     (case encrypted_send K crc (clk (length ws)) w Critical ec of
        None \<Rightarrow> None
      | Some (ec1, out1) \<Rightarrow>
          (case send_each K crc clk ws ec1 of None \<Rightarrow> None | Some (ec2, out2) \<Rightarrow> Some (ec2, out1 @ out2)))"

definition drain_flush ::
  "crypto_lib \<Rightarrow> (bytes \<Rightarrow> u32) \<Rightarrow> (nat \<Rightarrow> nat \<Rightarrow> u32) \<Rightarrow> 'h gpu_session \<Rightarrow> ('h gpu_session \<times> 'h session_output list) option" where
  "drain_flush K crc clk s =
     (case send_each K crc clk (gs_flush s) (gs_enc s) of
        None \<Rightarrow> None
      | Some (ec, out) \<Rightarrow> Some (s\<lparr>gs_enc := ec, gs_flush := []\<rparr>, ec2_out out))"

definition handle_session_frame ::
  "crypto_lib \<Rightarrow> 'v json_lib \<Rightarrow> (bytes \<Rightarrow> u32) \<Rightarrow> (nat \<Rightarrow> nat \<Rightarrow> u32) \<Rightarrow> (nat \<Rightarrow> nat \<Rightarrow> u32) \<Rightarrow> nat option \<Rightarrow> (nat \<Rightarrow> bool) \<Rightarrow> bytes
     \<Rightarrow> 'h gpu_session \<Rightarrow> ('h gpu_session \<times> 'h session_output list) option" where
  "handle_session_frame K J crc now clk conn accepts data s =
     (if \<not> is_ready (gs_enc s) then
        (case connect_handshaking conn s of
           None \<Rightarrow> Some (s, [])
         | Some (s1, out1) \<Rightarrow>
             (let (ec, ms, out2) = encrypted_receive K J crc (now 0) data (gs_enc s1)
              in Some (s1\<lparr>gs_enc := ec\<rparr>, out1 @ ec2_out out2)))
      else
        (case connect_ready conn s of
           None \<Rightarrow> Some (s, [])
         | Some (s1, out1) \<Rightarrow>
             (let (ec, ms, out2) = encrypted_receive K J crc (now 0) data (gs_enc s1);
                  (s2, out3) = through_outer crc (\<lambda>k. now (Suc k)) accepts 0 ms (s1\<lparr>gs_enc := ec\<rparr>)
              in case drain_flush K crc clk s2 of
                   None \<Rightarrow> None
                 | Some (s3, out4) \<Rightarrow> Some (s3, out1 @ ec2_out out2 @ out3 @ out4))))"

definition from_worker ::
  "crypto_lib \<Rightarrow> (bytes \<Rightarrow> u32) \<Rightarrow> (nat \<Rightarrow> u32) \<Rightarrow> (nat \<Rightarrow> nat \<Rightarrow> u32) \<Rightarrow> bytes
     \<Rightarrow> 'h gpu_session \<Rightarrow> ('h gpu_session \<times> 'h session_output list) option" where
  "from_worker K crc now clk data s =
     (if is_ready (gs_enc s) then
        (case send crc now data Critical (gs_outer s) of
           None \<Rightarrow> None
         | Some (outer', frames) \<Rightarrow> drain_flush K crc clk (s\<lparr>gs_outer := outer', gs_flush := gs_flush s @ frames\<rparr>))
      else Some (s, []))"

definition session_tick ::
  "crypto_lib \<Rightarrow> (bytes \<Rightarrow> u32) \<Rightarrow> (nat \<Rightarrow> nat \<Rightarrow> u32) \<Rightarrow> 'h gpu_session \<Rightarrow> ('h gpu_session \<times> 'h session_output list) option" where
  "session_tick K crc clk s =
     (if is_ready (gs_enc s) then
        (let (ec, out1) = encrypted_tick K (gs_enc s);
             (outer', frames) = tick (gs_outer s)
         in case drain_flush K crc clk (s\<lparr>gs_enc := ec, gs_outer := outer', gs_flush := gs_flush s @ frames\<rparr>) of
              None \<Rightarrow> None
            | Some (s', out2) \<Rightarrow> Some (s', ec2_out out1 @ out2))
      else Some (s, []))"

datatype gpu_session_event =
    From_Ec2 "nat \<Rightarrow> nat \<Rightarrow> u32" "nat \<Rightarrow> nat \<Rightarrow> u32" "nat option" "nat \<Rightarrow> bool" bytes
  | From_Worker "nat \<Rightarrow> u32" "nat \<Rightarrow> nat \<Rightarrow> u32" bytes
  | Session_Tick "nat \<Rightarrow> nat \<Rightarrow> u32"

fun gpu_session_step ::
  "crypto_lib \<Rightarrow> 'v json_lib \<Rightarrow> (bytes \<Rightarrow> u32) \<Rightarrow> gpu_session_event \<Rightarrow> 'h gpu_session
     \<Rightarrow> ('h gpu_session \<times> 'h session_output list) option" where
  "gpu_session_step K J crc (From_Ec2 now clk conn accepts data) s = handle_session_frame K J crc now clk conn accepts data s"
| "gpu_session_step K J crc (From_Worker now clk data) s = from_worker K crc now clk data s"
| "gpu_session_step K J crc (Session_Tick clk) s = session_tick K crc clk s"

fun gpu_session_run ::
  "crypto_lib \<Rightarrow> 'v json_lib \<Rightarrow> (bytes \<Rightarrow> u32) \<Rightarrow> gpu_session_event list \<Rightarrow> 'h gpu_session
     \<Rightarrow> ('h gpu_session \<times> 'h session_output list) option" where
  "gpu_session_run K J crc [] s = Some (s, [])"
| "gpu_session_run K J crc (e # es) s =
     (case gpu_session_step K J crc e s of
        None \<Rightarrow> None
      | Some (s1, out1) \<Rightarrow>
          (case gpu_session_run K J crc es s1 of None \<Rightarrow> None | Some (s2, out2) \<Rightarrow> Some (s2, out1 @ out2)))"

text \<open>The end of the session aborts the reader.\<close>

definition gpu_session_end :: "'h gpu_session \<Rightarrow> 'h session_output list" where
  "gpu_session_end s = (case gpu_reader_handle s of Some t \<Rightarrow> [Abort_Reader t] | None \<Rightarrow> [])"


section \<open>The invariant\<close>

text \<open>The reader tasks that run after some outputs.\<close>

fun readers :: "'h session_output list \<Rightarrow> nat list \<Rightarrow> nat list" where
  "readers [] run = run"
| "readers (Spawn_Reader t # out) run = readers out (t # run)"
| "readers (Abort_Reader t # out) run = readers out (filter (\<lambda>r. r \<noteq> t) run)"
| "readers (_ # out) run = readers out run"

definition gs_inv :: "(bytes \<Rightarrow> u32) \<Rightarrow> 'h gpu_session \<Rightarrow> bool" where
  "gs_inv crc s \<longleftrightarrow> chan_inv crc (inner (gs_enc s)) \<and> chan_inv crc (gs_outer s) \<and> gs_flush s = [] \<and>
     gpu_writer s = gpu_reader_handle s"

definition handle_list :: "'h gpu_session \<Rightarrow> nat list" where
  "handle_list s = (case gpu_reader_handle s of Some t \<Rightarrow> [t] | None \<Rightarrow> [])"

lemma readers_append: "readers (a @ b) run = readers b (readers a run)"
  by (induction a run rule: readers.induct) simp_all

lemma readers_ec2 [simp]: "readers (ec2_out out) run = run"
  by (induction out) (auto simp: ec2_out_def)

lemma receive_keeps: "chan_inv crc ch \<Longrightarrow> receive crc clk data ch = (ch', ms, out) \<Longrightarrow> chan_inv crc ch'"
  using chan_apply_inv [of crc ch "Ev_Receive data clk"] by auto

lemma send_total: "chan_inv crc ch \<Longrightarrow> \<exists>ch' out. send crc clk pl pri ch = Some (ch', out) \<and> chan_inv crc ch'"
  using chan_apply_inv [of crc ch "Ev_Send pl pri clk"] by (auto split: option.splits)

lemma tick_inv: "chan_inv crc ch \<Longrightarrow> tick ch = (ch', out) \<Longrightarrow> chan_inv crc ch'"
  using chan_apply_inv [of crc ch Ev_Tick] by auto

lemma encrypted_send_total:
  assumes "chan_inv crc (inner ec)" and "is_ready ec"
  shows "\<exists>ec' out. encrypted_send K crc clk w pri ec = Some (ec', out) \<and> chan_inv crc (inner ec') \<and> is_ready ec'"
proof -
  obtain ch frames where s: "send crc clk w pri (inner ec) = Some (ch, frames)" "chan_inv crc ch"
    using send_total [OF assms(1)] by blast
  obtain ec' out where e: "seal_all K frames (ec\<lparr>inner := ch\<rparr>) = (ec', out)" by fastforce
  with seal_all_keeps [OF e] s assms(2) show ?thesis by (simp add: encrypted_send_def is_ready_def)
qed

lemma send_each_total:
  "chan_inv crc (inner ec) \<Longrightarrow> is_ready ec \<Longrightarrow>
   \<exists>ec' out. send_each K crc clk ws ec = Some (ec', out) \<and> chan_inv crc (inner ec') \<and> is_ready ec'"
proof (induction ws arbitrary: ec)
  case (Cons w ws)
  obtain ec1 out1 where s1: "encrypted_send K crc (clk (length ws)) w Critical ec = Some (ec1, out1)"
    "chan_inv crc (inner ec1)" "is_ready ec1"
    using encrypted_send_total [OF Cons.prems] by blast
  from Cons.IH [OF s1(2,3)] s1(1) show ?case by fastforce
qed simp

lemma handle_handshake_inner:
  assumes "handle_handshake K J data ec = (ec', out)" and "ec_state ec = Handshaking"
  shows "inner ec' = inner ec \<and> (ec_state ec' = Ready \<longleftrightarrow> out \<noteq> [])"
  using assms unfolding handle_handshake_def by (simp split: option.splits if_splits) auto

lemma encrypted_receive_ready:
  assumes "chan_inv crc (inner ec)" and "ec_state ec = Ready" and "encrypted_receive K J crc clk data ec = (ec', ms, out)"
  shows "chan_inv crc (inner ec') \<and> ec_state ec' = Ready"
proof (cases "decrypt_frame K data ec")
  case None
  with assms show ?thesis by (simp add: encrypted_receive_def)
next
  case (Some plain)
  obtain ch ms' frames where r: "receive crc clk plain (inner ec) = (ch, ms', frames)"
    by (cases "receive crc clk plain (inner ec)")
  obtain ec1 out' where a: "seal_all K frames (ec\<lparr>inner := ch\<rparr>) = (ec1, out')"
    by (cases "seal_all K frames (ec\<lparr>inner := ch\<rparr>)")
  have "ec' = ec1" using assms(2,3) Some r a by (simp add: encrypted_receive_def)
  moreover have "inner ec1 = ch" and "ec_state ec1 = Ready" using seal_all_keeps [OF a] assms(2) by simp_all
  ultimately show ?thesis using receive_keeps [OF assms(1) r] by simp
qed

lemma encrypted_receive_inv:
  assumes "chan_inv crc (inner ec)" and "encrypted_receive K J crc clk data ec = (ec', ms, out)"
  shows "chan_inv crc (inner ec')" and "is_ready ec \<Longrightarrow> is_ready ec'" and "\<not> is_ready ec \<Longrightarrow> ms = [] \<and> (is_ready ec' \<longleftrightarrow> out \<noteq> [])"
proof -
  have h: "\<exists>out'. handle_handshake K J data ec = (ec', out) \<and> ms = []" if "ec_state ec = Handshaking"
    using assms(2) that by (simp add: encrypted_receive_def Let_def split: prod.splits)
  show "chan_inv crc (inner ec')"
    using h handle_handshake_inner [of K J data ec ec' out] encrypted_receive_ready [OF assms(1) _ assms(2)] assms(1)
    by (cases "ec_state ec") auto
  show "is_ready ec'" if "is_ready ec"
    using encrypted_receive_ready [OF assms(1) _ assms(2)] that by (simp add: is_ready_def)
  show "ms = [] \<and> (is_ready ec' \<longleftrightarrow> out \<noteq> [])" if "\<not> is_ready ec"
    using h handle_handshake_inner [of K J data ec ec' out] that by (cases "ec_state ec") (auto simp: is_ready_def)
qed

text \<open>Forwarding to the worker touches only the writer and its reader.\<close>

definition worker_forwarded :: "'h gpu_session \<Rightarrow> 'h session_output list \<Rightarrow> 'h gpu_session \<Rightarrow> bool" where
  "worker_forwarded s out s' \<longleftrightarrow> gpu_writer s' = gpu_reader_handle s' \<and> gs_enc s' = gs_enc s \<and> gs_outer s' = gs_outer s \<and>
     gs_flush s' = gs_flush s \<and> readers out (handle_list s) = handle_list s'"

lemma to_worker_inv:
  "gpu_writer s = gpu_reader_handle s \<Longrightarrow> to_worker accepts n ms s = (s', out, n') \<Longrightarrow> worker_forwarded s out s'"
proof (induction ms arbitrary: n s s' out n')
  case Nil
  then show ?case by (simp add: worker_forwarded_def)
next
  case (Cons m ms)
  show ?case
  proof (cases "gpu_writer s")
    case None
    with Cons show ?thesis by simp
  next
    case (Some t)
    show ?thesis
    proof (cases "accepts n")
      case True
      obtain s1 o1 n1 where r: "to_worker accepts (Suc n) ms s = (s1, o1, n1)" by (cases "to_worker accepts (Suc n) ms s")
      have "s' = s1" and "readers out (handle_list s) = readers o1 (handle_list s)"
        using Cons.prems(2) Some True r by auto
      with Cons.IH [OF Cons.prems(1) r] show ?thesis by (simp add: worker_forwarded_def)
    next
      case False
      let ?s = "s\<lparr>gpu_writer := None, gpu_reader_handle := None\<rparr>"
      obtain s1 o1 n1 where r: "to_worker accepts (Suc n) ms ?s = (s1, o1, n1)" by (cases "to_worker accepts (Suc n) ms ?s")
      have h: "gpu_reader_handle s = Some t" using Some Cons.prems(1) by simp
      have "s' = s1" and "out = Abort_Reader t # o1" using Cons.prems(2) Some h False r by simp_all
      moreover have "worker_forwarded ?s o1 s1" using Cons.IH [OF _ r] by simp
      ultimately show ?thesis using Some Cons.prems(1) by (simp add: worker_forwarded_def handle_list_def)
    qed
  qed
qed

lemma through_outer_inv:
  "chan_inv crc (gs_outer s) \<Longrightarrow> gpu_writer s = gpu_reader_handle s \<Longrightarrow>
   through_outer crc clk accepts n ms s = (s', out) \<Longrightarrow>
   chan_inv crc (gs_outer s') \<and> gpu_writer s' = gpu_reader_handle s' \<and> gs_enc s' = gs_enc s \<and>
   readers out (handle_list s) = handle_list s'"
proof (induction ms arbitrary: n s s' out)
  case (Cons m ms)
  obtain ch del frames where r: "receive crc (clk (length ms)) (rm_payload m) (gs_outer s) = (ch, del, frames)"
    by (cases "receive crc (clk (length ms)) (rm_payload m) (gs_outer s)")
  let ?s = "s\<lparr>gs_outer := ch, gs_flush := gs_flush s @ frames\<rparr>"
  obtain s1 o1 n1 where w: "to_worker accepts n del ?s = (s1, o1, n1)" by (cases "to_worker accepts n del ?s")
  obtain s2 o2 where t: "through_outer crc clk accepts n1 ms s1 = (s2, o2)" by fastforce
  have f: "worker_forwarded ?s o1 s1" using to_worker_inv [OF _ w] Cons.prems(2) by simp
  have "chan_inv crc (gs_outer s1)" and "gpu_writer s1 = gpu_reader_handle s1"
    using f receive_keeps [OF Cons.prems(1) r] by (simp_all add: worker_forwarded_def)
  from Cons.IH [OF this t] f have "chan_inv crc (gs_outer s2) \<and> gpu_writer s2 = gpu_reader_handle s2 \<and>
      gs_enc s2 = gs_enc s \<and> readers o2 (readers o1 (handle_list s)) = handle_list s2"
    by (simp add: worker_forwarded_def handle_list_def)
  moreover have "s' = s2" "out = o1 @ o2" using Cons.prems(3) r w t by (simp_all add: Let_def)
  ultimately show ?case by (simp add: readers_append)
qed simp

lemma drain_flush_total:
  assumes "chan_inv crc (inner (gs_enc s))" and "is_ready (gs_enc s)" and "chan_inv crc (gs_outer s)"
    and "gpu_writer s = gpu_reader_handle s"
  shows "\<exists>s' out. drain_flush K crc clk s = Some (s', out) \<and> gs_inv crc s' \<and> is_ready (gs_enc s') \<and>
    handle_list s' = handle_list s \<and> readers out run = run"
proof -
  obtain ec out where "send_each K crc clk (gs_flush s) (gs_enc s) = Some (ec, out)" "chan_inv crc (inner ec)" "is_ready ec"
    using send_each_total [OF assms(1,2)] by blast
  with assms show ?thesis by (auto simp: drain_flush_def gs_inv_def handle_list_def)
qed

text \<open>What every step keeps and ensures: \<open>s'\<close> and \<open>out\<close> follow from \<open>s\<close>.\<close>

definition good_step :: "(bytes \<Rightarrow> u32) \<Rightarrow> 'h gpu_session \<Rightarrow> 'h gpu_session \<Rightarrow> 'h session_output list \<Rightarrow> bool" where
  "good_step crc s s' out \<longleftrightarrow> gs_inv crc s' \<and> readers out (handle_list s) = handle_list s' \<and>
     (is_ready (gs_enc s) \<longrightarrow> is_ready (gs_enc s')) \<and>
     (\<not> is_ready (gs_enc s) \<longrightarrow>
        (\<forall>p. Gpu_Text p \<notin> set out \<and> Gpu_Binary p \<notin> set out) \<and>
        (is_ready (gs_enc s') \<longleftrightarrow> (\<exists>h w. To_Ec2 h w \<in> set out)) \<and>
        (is_ready (gs_enc s') \<longrightarrow> gpu_writer s' \<noteq> None))"

lemma connect_handshaking_inv:
  assumes "connect_handshaking conn s = Some (s1, out)" and "gpu_writer s = gpu_reader_handle s"
  shows "gs_enc s1 = gs_enc s \<and> gs_outer s1 = gs_outer s \<and> gs_flush s1 = gs_flush s \<and> gpu_writer s1 = gpu_reader_handle s1 \<and>
    gpu_writer s1 \<noteq> None \<and> readers out (handle_list s) = handle_list s1 \<and> set out \<subseteq> range Spawn_Reader"
  using assms unfolding connect_handshaking_def by (auto simp: handle_list_def split: option.splits)

lemma connect_ready_inv:
  assumes "connect_ready conn s = Some (s1, out)" and "gpu_writer s = gpu_reader_handle s"
  shows "gs_enc s1 = gs_enc s \<and> gs_outer s1 = gs_outer s \<and> gs_flush s1 = gs_flush s \<and> gpu_writer s1 = gpu_reader_handle s1 \<and>
    readers out (handle_list s) = handle_list s1"
  using assms unfolding connect_ready_def by (auto simp: handle_list_def split: option.splits)

lemma unchanged_good: "gs_inv crc s \<Longrightarrow> good_step crc s s []"
  by (auto simp: good_step_def)

lemma frame_handshaking_good:
  assumes "gs_inv crc s" and "\<not> is_ready (gs_enc s)"
  shows "\<exists>s' out. handle_session_frame K J crc now clk conn accepts data s = Some (s', out) \<and> good_step crc s s' out"
proof (cases "connect_handshaking conn s")
  case None
  with assms unchanged_good [OF assms(1)] show ?thesis by (simp add: handle_session_frame_def)
next
  case (Some p)
  obtain s1 out1 where p: "connect_handshaking conn s = Some (s1, out1)" using Some by (cases p) simp
  have c: "gs_enc s1 = gs_enc s" "gs_outer s1 = gs_outer s" "gs_flush s1 = gs_flush s" "gpu_writer s1 = gpu_reader_handle s1"
      "gpu_writer s1 \<noteq> None" "readers out1 (handle_list s) = handle_list s1" "set out1 \<subseteq> range Spawn_Reader"
    using connect_handshaking_inv [OF p] assms(1) unfolding gs_inv_def by blast+
  obtain ec ms out2 where e: "encrypted_receive K J crc (now 0) data (gs_enc s1) = (ec, ms, out2)"
    by (cases "encrypted_receive K J crc (now 0) data (gs_enc s1)")
  have i: "chan_inv crc (inner (gs_enc s1))" and n: "\<not> is_ready (gs_enc s1)" using assms c(1) by (simp_all add: gs_inv_def)
  have r: "chan_inv crc (inner ec)" "is_ready ec \<longleftrightarrow> out2 \<noteq> []"
    using encrypted_receive_inv [OF i e] n by simp_all
  let ?s = "s1\<lparr>gs_enc := ec\<rparr>"
  have "handle_session_frame K J crc now clk conn accepts data s = Some (?s, out1 @ ec2_out out2)"
    using assms(2) p e by (simp add: handle_session_frame_def)
  moreover have "gs_inv crc ?s" using r(1) c assms(1) by (simp add: gs_inv_def)
  moreover have "readers (out1 @ ec2_out out2) (handle_list s) = handle_list ?s"
    using c(6) by (simp add: readers_append handle_list_def)
  moreover have "(\<exists>h w. To_Ec2 h w \<in> set (out1 @ ec2_out out2)) \<longleftrightarrow> out2 \<noteq> []"
    using c(7) by (cases out2) (auto simp: ec2_out_def)
  moreover have "Gpu_Text p \<notin> set (out1 @ ec2_out out2) \<and> Gpu_Binary p \<notin> set (out1 @ ec2_out out2)" for p
    using c(7) by (auto simp: ec2_out_def)
  ultimately show ?thesis using assms(2) c(5) r(2) by (simp add: good_step_def)
qed

lemma frame_ready_good:
  assumes "gs_inv crc s" and "is_ready (gs_enc s)"
  shows "\<exists>s' out. handle_session_frame K J crc now clk conn accepts data s = Some (s', out) \<and> good_step crc s s' out"
proof (cases "connect_ready conn s")
  case None
  with assms unchanged_good [OF assms(1)] show ?thesis by (simp add: handle_session_frame_def)
next
  case (Some p)
  obtain s1 out1 where p: "connect_ready conn s = Some (s1, out1)" using Some by (cases p) simp
  have c: "gs_enc s1 = gs_enc s" "gs_outer s1 = gs_outer s" "gpu_writer s1 = gpu_reader_handle s1"
      "readers out1 (handle_list s) = handle_list s1"
    using connect_ready_inv [OF p] assms(1) by (simp_all add: gs_inv_def)
  obtain ec ms out2 where e: "encrypted_receive K J crc (now 0) data (gs_enc s1) = (ec, ms, out2)"
    by (cases "encrypted_receive K J crc (now 0) data (gs_enc s1)")
  let ?s = "s1\<lparr>gs_enc := ec\<rparr>"
  have i: "chan_inv crc (inner (gs_enc s1))" and n: "is_ready (gs_enc s1)" using assms c(1) by (simp_all add: gs_inv_def)
  have r: "chan_inv crc (inner ec)" "is_ready ec" using encrypted_receive_inv(1,2) [OF i e] n by simp_all
  obtain s2 out3 where t: "through_outer crc (\<lambda>k. now (Suc k)) accepts 0 ms ?s = (s2, out3)"
    by (cases "through_outer crc (\<lambda>k. now (Suc k)) accepts 0 ms ?s")
  have o: "chan_inv crc (gs_outer s2) \<and> gpu_writer s2 = gpu_reader_handle s2 \<and> gs_enc s2 = ec \<and>
      readers out3 (handle_list s1) = handle_list s2"
    using through_outer_inv [OF _ _ t] c assms(1) by (simp add: gs_inv_def handle_list_def)
  obtain s3 out4 where d: "drain_flush K crc clk s2 = Some (s3, out4)" "gs_inv crc s3" "is_ready (gs_enc s3)"
      "handle_list s3 = handle_list s2" "readers out4 (handle_list s2) = handle_list s2"
    using drain_flush_total [of crc s2 K clk "handle_list s2"] o r by auto
  have "handle_session_frame K J crc now clk conn accepts data s = Some (s3, out1 @ ec2_out out2 @ out3 @ out4)"
    using assms(2) p e t d(1) by (simp add: handle_session_frame_def)
  then show ?thesis using d o c(4) assms(2) by (auto simp: good_step_def readers_append)
qed

lemma from_worker_good:
  assumes "gs_inv crc s"
  shows "\<exists>s' out. from_worker K crc now clk data s = Some (s', out) \<and> good_step crc s s' out"
proof (cases "is_ready (gs_enc s)")
  case True
  obtain ch frames where s: "send crc now data Critical (gs_outer s) = Some (ch, frames)" "chan_inv crc ch"
    using send_total assms unfolding gs_inv_def by blast
  let ?s = "s\<lparr>gs_outer := ch, gs_flush := gs_flush s @ frames\<rparr>"
  obtain s' out where d: "drain_flush K crc clk ?s = Some (s', out)" "gs_inv crc s'" "is_ready (gs_enc s')"
      "handle_list s' = handle_list ?s" "readers out (handle_list s) = handle_list s"
    using drain_flush_total [of crc ?s K clk "handle_list s"] assms s True by (auto simp: gs_inv_def)
  then show ?thesis using True s by (simp add: from_worker_def good_step_def handle_list_def)
qed (use unchanged_good [OF assms] in \<open>simp add: from_worker_def\<close>)

lemma session_tick_good:
  assumes "gs_inv crc s"
  shows "\<exists>s' out. session_tick K crc clk s = Some (s', out) \<and> good_step crc s s' out"
proof (cases "is_ready (gs_enc s)")
  case True
  obtain ec out1 where e: "encrypted_tick K (gs_enc s) = (ec, out1)" by fastforce
  obtain ch0 fr0 where t0: "tick (inner (gs_enc s)) = (ch0, fr0)" by fastforce
  obtain ch frames where t: "tick (gs_outer s) = (ch, frames)" by fastforce
  have k: "seal_all K fr0 ((gs_enc s)\<lparr>inner := ch0\<rparr>) = (ec, out1)" using e t0 by (simp add: encrypted_tick_def)
  have ec: "chan_inv crc (inner ec)" "is_ready ec"
    using seal_all_keeps [OF k] tick_inv [OF _ t0] True assms by (simp_all add: gs_inv_def is_ready_def)
  let ?s = "s\<lparr>gs_enc := ec, gs_outer := ch, gs_flush := gs_flush s @ frames\<rparr>"
  obtain s' out where d: "drain_flush K crc clk ?s = Some (s', out)" "gs_inv crc s'" "is_ready (gs_enc s')"
      "handle_list s' = handle_list ?s" "readers out (handle_list s) = handle_list s"
    using drain_flush_total [of crc ?s K clk "handle_list s"] assms ec tick_inv [OF _ t] by (auto simp: gs_inv_def)
  then show ?thesis using True e t by (simp add: session_tick_def good_step_def handle_list_def readers_append)
qed (use unchanged_good [OF assms] in \<open>simp add: session_tick_def\<close>)

lemma gpu_session_step_good:
  "gs_inv crc s \<Longrightarrow> \<exists>s' out. gpu_session_step K J crc e s = Some (s', out) \<and> good_step crc s s' out"
  using frame_handshaking_good frame_ready_good from_worker_good session_tick_good
  by (cases e; cases "is_ready (gs_enc s)") (simp_all, blast+)

lemma gpu_session_run_good:
  "gs_inv crc s \<Longrightarrow> \<exists>s' out. gpu_session_run K J crc es s = Some (s', out) \<and> gs_inv crc s' \<and>
     readers out (handle_list s) = handle_list s'"
proof (induction es arbitrary: s)
  case (Cons e es)
  obtain s1 out1 where s1: "gpu_session_step K J crc e s = Some (s1, out1)" "good_step crc s s1 out1"
    using gpu_session_step_good [OF Cons.prems] by blast
  then have "gs_inv crc s1" by (simp add: good_step_def)
  from Cons.IH [OF this] s1 show ?case by (fastforce simp: good_step_def readers_append)
qed simp

lemma gpu_session_start_inv:
  assumes "gpu_session_start K secret tx ver conn = (s, out)"
  shows "gs_inv crc s \<and> readers out [] = handle_list s"
  using assms by (auto simp: gpu_session_start_def gs_inv_def handle_list_def chan_inv_def channel_new_def reorder_ok_def
      encrypted_new_def set_version_def outer_config_def default_config_def config_ok_def split: option.splits)


end
