(* ===== verification/Terminal.thy ===== *)
theory Terminal
  imports Json Backoff "HOL-Library.Sublist"
begin

text \<open>
  \<open>src/crates/b3-cli/src/daemon/web.rs\<close>: the terminal as the browsers see it. The pusher collects the bytes of
  the PTY in a buffer of bounded size and publishes it in the session store together with the number of
  bytes ever written; a browser gets an initial picture and then what is new since the offset it was sent
  last. Base64 (crate \<open>base64\<close>) is a parameter. Messages are \<open>json_tree\<close> values, as the code builds them.
\<close>

record session_buffer =
  terminal_data :: bytes
  sb_rows :: u16
  sb_cols :: u16
  write_offset :: u64

type_synonym session_store = "session_buffer option"

definition store_new :: session_store where
  "store_new = None"

definition session_update :: "bytes \<Rightarrow> u16 \<Rightarrow> u16 \<Rightarrow> u64 \<Rightarrow> session_store \<Rightarrow> session_store" where
  "session_update raw rows cols off st = Some \<lparr>terminal_data = raw, sb_rows = rows, sb_cols = cols, write_offset = off\<rparr>"

definition MAX_DELTA_CAP :: nat where "MAX_DELTA_CAP = 256 * 1024"

definition MAX_WS_INIT_BYTES :: nat where "MAX_WS_INIT_BYTES = 64 * 1024"

definition delta_json :: "(bytes \<Rightarrow> string) \<Rightarrow> bytes \<Rightarrow> json_tree" where
  "delta_json b64 raw = JObj [(''type'', JStr ''delta''), (''data'', JStr (b64 raw))]"

definition screen_json :: "(bytes \<Rightarrow> string) \<Rightarrow> string \<Rightarrow> bytes \<Rightarrow> u16 \<Rightarrow> u16 \<Rightarrow> json_tree" where
  "screen_json b64 ty raw rows cols =
     JObj [(''type'', JStr ty), (''terminal_data'', JStr (b64 raw)), (''rows'', JNum (ucast rows)), (''cols'', JNum (ucast cols))]"

text \<open>\<open>SessionStore::delta_msg\<close>. \<open>None\<close> on a slice out of range cannot occur: \<open>capped \<le> new_bytes \<le> buf_len\<close>.\<close>

definition delta_msg :: "(bytes \<Rightarrow> string) \<Rightarrow> u64 \<Rightarrow> session_store \<Rightarrow> (json_tree \<times> u64) option" where
  "delta_msg b64 prev_offset st =
     (case st of
        None \<Rightarrow> None
      | Some buf \<Rightarrow>
          (let raw = terminal_data buf;
               cur_offset = write_offset buf;
               buf_len = of_nat (length raw) :: u64
           in if cur_offset \<le> prev_offset then None
              else
                let new_bytes = cur_offset - prev_offset;
                    msg = (if new_bytes \<le> buf_len then
                             let capped = min new_bytes (of_nat MAX_DELTA_CAP);
                                 start = unat (buf_len - capped)
                             in delta_json b64 (drop start raw)
                           else
                             let cap = min MAX_DELTA_CAP (length raw);
                                 start = length raw - cap
                             in screen_json b64 ''full'' (drop start raw) (sb_rows buf) (sb_cols buf))
                in Some (msg, cur_offset)))"

text \<open>The initial picture: for a WebSocket of the daemon at most the last 64 KB, for a session through EC2 all of it.\<close>

definition ws_init :: "(bytes \<Rightarrow> string) \<Rightarrow> u64 \<Rightarrow> session_store \<Rightarrow> u64 \<times> json_tree list" where
  "ws_init b64 sent st =
     (case st of
        None \<Rightarrow> (sent, [])
      | Some buf \<Rightarrow>
          (let raw = terminal_data buf;
               init_bytes = (if length raw > MAX_WS_INIT_BYTES then drop (length raw - MAX_WS_INIT_BYTES) raw else raw)
           in (write_offset buf, [screen_json b64 ''init'' init_bytes (sb_rows buf) (sb_cols buf)])))"

definition ec2_init :: "(bytes \<Rightarrow> string) \<Rightarrow> u64 \<Rightarrow> session_store \<Rightarrow> u64 \<times> json_tree list" where
  "ec2_init b64 sent st =
     (case st of
        None \<Rightarrow> (sent, [])
      | Some buf \<Rightarrow> (write_offset buf, [screen_json b64 ''init'' (terminal_data buf) (sb_rows buf) (sb_cols buf)]))"

definition session_read :: "(bytes \<Rightarrow> string) \<Rightarrow> string \<Rightarrow> session_store \<Rightarrow> json_tree" where
  "session_read b64 agent_id st =
     (case st of
        Some buf \<Rightarrow>
          JObj [(''agent_id'', JStr agent_id), (''terminal_data'', JStr (b64 (terminal_data buf))),
                (''rows'', JNum (ucast (sb_rows buf))), (''cols'', JNum (ucast (sb_cols buf)))]
      | None \<Rightarrow>
          JObj [(''agent_id'', JStr agent_id), (''terminal_data'', JStr []), (''rows'', JNum 24), (''cols'', JNum 80)])"


section \<open>The pusher\<close>

text \<open>
  One turn of the loop: what \<open>recv\<close> returns, with the chunks \<open>try_recv\<close> finds after the debounce. The
  result is the size announced by \<open>SessionUpdated\<close>, or \<open>Inl\<close> when the task ends.
\<close>

record local_pusher =
  accumulated :: bytes
  push_offset :: u64

datatype pty_recv = Pty_Bytes bytes "bytes list" | Pty_Lagged u64 | Pty_Closed

definition pusher_new :: local_pusher where
  "pusher_new = \<lparr>accumulated = [], push_offset = 0\<rparr>"

fun push_chunks :: "bytes list \<Rightarrow> local_pusher \<Rightarrow> local_pusher" where
  "push_chunks [] p = p"
| "push_chunks (b # bs) p =
     push_chunks bs (p\<lparr>push_offset := push_offset p + of_nat (length b), accumulated := accumulated p @ b\<rparr>)"

definition cap_buffer :: "bytes \<Rightarrow> bytes" where
  "cap_buffer acc = (if length acc > MAX_BUFFER_BYTES then drop (length acc - MAX_BUFFER_BYTES) acc else acc)"

fun pusher_turn ::
  "pty_recv \<Rightarrow> u16 \<times> u16 \<Rightarrow> local_pusher \<times> session_store \<Rightarrow> (local_pusher \<times> session_store) \<times> (unit + nat option)" where
  "pusher_turn Pty_Closed sz (p, st) = ((p, st), Inl ())"
| "pusher_turn (Pty_Lagged n) sz (p, st) = ((p, st), Inr None)"
| "pusher_turn (Pty_Bytes b coalesced) sz (p, st) =
     (let p1 = push_chunks (b # coalesced) p
      in if accumulated p1 = [] then ((p1, st), Inr None)
         else
           let acc = cap_buffer (accumulated p1);
               p2 = p1\<lparr>accumulated := acc\<rparr>
           in ((p2, session_update acc (fst sz) (snd sz) (push_offset p2) st), Inr (Some (length acc))))"


section \<open>What a browser shows\<close>

text \<open>
  One browser: the offset it was sent last and the bytes it shows. An \<open>init\<close> or \<open>full\<close> message replaces them,
  a \<open>delta\<close> is appended.
\<close>

record terminal =
  term_pusher :: local_pusher
  term_store :: session_store
  term_sent :: u64
  term_view :: bytes

datatype terminal_event = Push pty_recv "u16 \<times> u16" | Ws_Open | Ec2_Open | Updated

definition terminal_start :: terminal where
  "terminal_start = \<lparr>term_pusher = pusher_new, term_store = store_new, term_sent = 0, term_view = []\<rparr>"

definition show_message :: "(string \<Rightarrow> bytes) \<Rightarrow> json_tree \<Rightarrow> bytes \<Rightarrow> bytes" where
  "show_message unb64 msg v =
     (let text_of = (\<lambda>k. case msg of JObj m \<Rightarrow> (case map_of m k of Some (JStr x) \<Rightarrow> x | _ \<Rightarrow> []) | _ \<Rightarrow> [])
      in if text_of ''type'' = ''delta'' then v @ unb64 (text_of ''data'') else unb64 (text_of ''terminal_data''))"

fun terminal_step :: "(bytes \<Rightarrow> string) \<Rightarrow> (string \<Rightarrow> bytes) \<Rightarrow> terminal \<Rightarrow> terminal_event \<Rightarrow> terminal" where
  "terminal_step b64 unb64 t (Push r sz) =
     (let ((p, st), _) = pusher_turn r sz (term_pusher t, term_store t) in t\<lparr>term_pusher := p, term_store := st\<rparr>)"
| "terminal_step b64 unb64 t Ws_Open =
     (let (off, out) = ws_init b64 (term_sent t) (term_store t)
      in t\<lparr>term_sent := off, term_view := fold (show_message unb64) out (term_view t)\<rparr>)"
| "terminal_step b64 unb64 t Ec2_Open =
     (let (off, out) = ec2_init b64 (term_sent t) (term_store t)
      in t\<lparr>term_sent := off, term_view := fold (show_message unb64) out (term_view t)\<rparr>)"
| "terminal_step b64 unb64 t Updated =
     (case delta_msg b64 (term_sent t) (term_store t) of
        None \<Rightarrow> t
      | Some (msg, off) \<Rightarrow> t\<lparr>term_sent := off, term_view := show_message unb64 msg (term_view t)\<rparr>)"

definition last_bytes :: "nat \<Rightarrow> bytes \<Rightarrow> bytes" where
  "last_bytes n bs = drop (length bs - n) bs"

text \<open>
  The terminal after the bytes \<open>out\<close>: the browser shows a piece of \<open>out\<close> that ends at its offset and has at least
  the bytes of an initial picture, if there are as many.
\<close>

definition terminal_rel :: "bytes \<Rightarrow> terminal \<Rightarrow> bool" where
  "terminal_rel out t \<longleftrightarrow>
     accumulated (term_pusher t) = last_bytes MAX_BUFFER_BYTES out \<and> push_offset (term_pusher t) = of_nat (length out) \<and>
     (case term_store t of
        None \<Rightarrow> out = []
      | Some buf \<Rightarrow> out \<noteq> [] \<and> terminal_data buf = last_bytes MAX_BUFFER_BYTES out \<and> write_offset buf = of_nat (length out)) \<and>
     unat (term_sent t) \<le> length out \<and>
     (\<exists>p \<le> unat (term_sent t) - MAX_WS_INIT_BYTES. term_view t = drop p (take (unat (term_sent t)) out))"

lemma last_bytes_append: "last_bytes n (last_bytes n a @ b) = last_bytes n (a @ b)"
  by (cases "length a \<le> n") (simp_all add: last_bytes_def add.commute)

lemma length_last_bytes [simp]: "length (last_bytes n bs) = min n (length bs)"
  by (simp add: last_bytes_def)

lemma cap_buffer_last: "cap_buffer acc = last_bytes MAX_BUFFER_BYTES acc"
  by (simp add: cap_buffer_def last_bytes_def)

lemma push_chunks_eq:
  "push_chunks bs p = p\<lparr>push_offset := push_offset p + of_nat (length (concat bs)), accumulated := accumulated p @ concat bs\<rparr>"
  by (induction bs arbitrary: p) (simp_all add: algebra_simps)

lemma last_bytes_Nil [simp]: "last_bytes n bs = [] \<longleftrightarrow> n = 0 \<or> bs = []"
  by (cases bs) (auto simp: last_bytes_def)

lemma last_bytes_last_bytes: "m \<le> n \<Longrightarrow> last_bytes m (last_bytes n bs) = last_bytes m bs"
  by (cases "length bs \<le> n") (simp_all add: last_bytes_def)

lemma show_delta [simp]: "show_message u (delta_json b64 raw) v = v @ u (b64 raw)"
  by (simp add: show_message_def delta_json_def)

lemma show_screen [simp]: "ty \<noteq> ''delta'' \<Longrightarrow> show_message u (screen_json b64 ty raw rows cols) v = u (b64 raw)"
  by (simp add: show_message_def screen_json_def)

lemma unat_of_nat_u64: "n < 2 ^ 64 \<Longrightarrow> unat (of_nat n :: u64) = n"
  by (simp add: unat_of_nat take_bit_nat_eq_self)

lemma extend_view:
  assumes "n \<le> length out" and "p \<le> n - k"
  shows "\<exists>q \<le> length out - k. drop p (take n out) @ drop n out = drop q out"
proof -
  have "drop p out = drop p (take n out @ drop n out)" by simp
  also have "\<dots> = drop p (take n out) @ drop n out" using assms by (subst drop_append) simp
  finally have "drop p (take n out) @ drop n out = drop p out" by simp
  moreover have "p \<le> length out - k" using assms by linarith
  ultimately show ?thesis by blast
qed

lemma last_bytes_from: "m \<ge> k \<Longrightarrow> \<exists>p \<le> length out - k. last_bytes m out = drop p out"
  by (intro exI [of _ "length out - m"]) (simp add: last_bytes_def diff_le_mono2)

text \<open>What \<^const>\<open>delta_msg\<close> gives a browser at offset \<open>prev\<close>: exactly the missing bytes, or all that is kept.\<close>

lemma delta_msg_out:
  assumes "terminal_data buf = last_bytes MAX_BUFFER_BYTES out" and "write_offset buf = of_nat (length out)"
    and "length out < 2 ^ 64" and "unat prev \<le> length out"
  shows "delta_msg b64 prev (Some buf) =
    (if unat prev = length out then None
     else if length out - unat prev \<le> MAX_BUFFER_BYTES then Some (delta_json b64 (drop (unat prev) out), of_nat (length out))
     else Some (screen_json b64 ''full'' (last_bytes MAX_BUFFER_BYTES out) (sb_rows buf) (sb_cols buf), of_nat (length out)))"
proof (cases "unat prev = length out")
  case True
  then have "prev = of_nat (length out)" by (metis of_nat_unat ucast_id)
  then show ?thesis using assms(2) True by (simp add: delta_msg_def)
next
  case False
  let ?L = "length out" let ?w = "of_nat (length out) :: u64"
  have less: "\<not> ?w \<le> prev" using False assms(3,4) by (simp add: word_le_nat_alt unat_of_nat_u64)
  have new: "unat (?w - prev) = ?L - unat prev"
    using assms(3,4) by (subst unat_sub) (simp_all add: word_le_nat_alt unat_of_nat_u64)
  have buf_len: "unat (of_nat (min MAX_BUFFER_BYTES ?L) :: u64) = min MAX_BUFFER_BYTES ?L"
    by (rule unat_of_nat_u64) (simp add: MAX_BUFFER_BYTES_def)
  have le: "?w - prev \<le> of_nat (min MAX_BUFFER_BYTES ?L) \<longleftrightarrow> ?L - unat prev \<le> MAX_BUFFER_BYTES"
    by (subst word_le_nat_alt) (simp only: new buf_len, auto)
  show ?thesis
  proof (cases "?L - unat prev \<le> MAX_BUFFER_BYTES")
    case True
    have capw: "unat (of_nat MAX_DELTA_CAP :: u64) = MAX_BUFFER_BYTES"
      by (subst unat_of_nat_u64) (simp_all add: MAX_DELTA_CAP_def MAX_BUFFER_BYTES_def)
    have capped: "min (?w - prev) (of_nat MAX_DELTA_CAP) = ?w - prev"
      by (rule min_absorb1) (simp only: word_le_nat_alt new capw True)
    have start: "unat (of_nat (min MAX_BUFFER_BYTES ?L) - (?w - prev)) = min MAX_BUFFER_BYTES ?L - (?L - unat prev)"
      by (subst unat_sub) (use True le in \<open>simp_all only: buf_len new\<close>)
    have "drop (min MAX_BUFFER_BYTES ?L - (?L - unat prev)) (last_bytes MAX_BUFFER_BYTES out) = drop (unat prev) out"
      using True assms(4) by (cases "?L \<le> MAX_BUFFER_BYTES") (simp_all add: last_bytes_def min_def)
    with True False less le capped start assms show ?thesis
      by (simp add: delta_msg_def Let_def)
  next
    case nle: False
    have "last_bytes MAX_BUFFER_BYTES out = drop (min MAX_BUFFER_BYTES ?L - min MAX_DELTA_CAP (min MAX_BUFFER_BYTES ?L)) (last_bytes MAX_BUFFER_BYTES out)"
      by (simp add: MAX_DELTA_CAP_def MAX_BUFFER_BYTES_def)
    with nle False less le assms show ?thesis by (simp add: delta_msg_def Let_def)
  qed
qed

lemma pusher_turn_out:
  assumes "accumulated p = last_bytes MAX_BUFFER_BYTES out" and "push_offset p = of_nat (length out)"
    and new: "b @ concat coalesced = new"
  shows "pusher_turn (Pty_Bytes b coalesced) sz (p, st) =
    (if out @ new = [] then ((p, st), Inr None)
     else ((\<lparr>accumulated = last_bytes MAX_BUFFER_BYTES (out @ new), push_offset = of_nat (length (out @ new))\<rparr>,
            Some \<lparr>terminal_data = last_bytes MAX_BUFFER_BYTES (out @ new), sb_rows = fst sz, sb_cols = snd sz,
                  write_offset = of_nat (length (out @ new))\<rparr>),
           Inr (Some (length (last_bytes MAX_BUFFER_BYTES (out @ new))))))"
proof -
  have p: "push_chunks (b # coalesced) p =
      p\<lparr>push_offset := of_nat (length (out @ new)), accumulated := last_bytes MAX_BUFFER_BYTES out @ new\<rparr>"
    using assms(1,2) new by (simp only: push_chunks_eq) (simp add: new [symmetric])
  have e: "last_bytes MAX_BUFFER_BYTES out @ new = [] \<longleftrightarrow> out @ new = []" by (simp add: MAX_BUFFER_BYTES_def)
  have c: "cap_buffer (last_bytes MAX_BUFFER_BYTES out @ new) = last_bytes MAX_BUFFER_BYTES (out @ new)"
    by (simp only: cap_buffer_last last_bytes_append)
  show ?thesis
  proof (cases "out @ new = []")
    case True
    then have "p\<lparr>push_offset := of_nat (length (out @ new)), accumulated := last_bytes MAX_BUFFER_BYTES out @ new\<rparr> = p"
      using assms(1,2) by (cases p) simp
    moreover have "accumulated p = []" using True assms(1) by simp
    ultimately show ?thesis using True p by (simp del: push_chunks.simps)
  next
    case False
    with e p c show ?thesis by (simp add: Let_def session_update_def del: push_chunks.simps append_is_Nil_conv)
  qed
qed

lemma pusher_turn_rel:
  assumes "terminal_rel out t"
  shows "terminal_rel (out @ b @ concat coalesced) (terminal_step b64 unb64 t (Push (Pty_Bytes b coalesced) sz))"
proof -
  obtain new where new: "b @ concat coalesced = new" by blast
  have turn: "pusher_turn (Pty_Bytes b coalesced) sz (term_pusher t, term_store t) =
    (if out @ new = [] then ((term_pusher t, term_store t), Inr None)
     else ((\<lparr>accumulated = last_bytes MAX_BUFFER_BYTES (out @ new), push_offset = of_nat (length (out @ new))\<rparr>,
            Some \<lparr>terminal_data = last_bytes MAX_BUFFER_BYTES (out @ new), sb_rows = fst sz, sb_cols = snd sz,
                  write_offset = of_nat (length (out @ new))\<rparr>),
           Inr (Some (length (last_bytes MAX_BUFFER_BYTES (out @ new))))))"
    using assms by (intro pusher_turn_out new) (simp_all add: terminal_rel_def)
  have sent: "unat (term_sent t) \<le> length out" "\<exists>p \<le> unat (term_sent t) - MAX_WS_INIT_BYTES. term_view t = drop p (take (unat (term_sent t)) out)"
    using assms by (auto simp: terminal_rel_def)
  moreover from this have "take (unat (term_sent t)) (out @ new) = take (unat (term_sent t)) out" by simp
  ultimately show ?thesis
  proof (cases "out @ new = []")
    case True
    then have "terminal_step b64 unb64 t (Push (Pty_Bytes b coalesced) sz) = t" using turn by (simp del: pusher_turn.simps)
    then show ?thesis using assms True unfolding new by simp
  next
    case False
    with turn sent \<open>take (unat (term_sent t)) (out @ new) = take (unat (term_sent t)) out\<close>
    show ?thesis unfolding new by (simp add: terminal_rel_def del: pusher_turn.simps append_is_Nil_conv take_append)
  qed
qed

lemma ws_init_eq:
  "ws_init b64 sent (Some buf) =
     (write_offset buf, [screen_json b64 ''init'' (last_bytes MAX_WS_INIT_BYTES (terminal_data buf)) (sb_rows buf) (sb_cols buf)])"
  by (simp add: ws_init_def last_bytes_def Let_def)

lemma open_rel:
  assumes rel: "terminal_rel out t" and law: "\<And>bs. unb64 (b64 bs) = bs" and bound: "length out < 2 ^ 64"
  shows "terminal_rel out (terminal_step b64 unb64 t Ws_Open)" "terminal_rel out (terminal_step b64 unb64 t Ec2_Open)"
proof -
  have "terminal_rel out (terminal_step b64 unb64 t Ws_Open) \<and> terminal_rel out (terminal_step b64 unb64 t Ec2_Open)"
  proof (cases "term_store t")
    case None
    with rel show ?thesis by (simp add: ws_init_def ec2_init_def)
  next
    case (Some buf)
    have buf: "out \<noteq> []" "terminal_data buf = last_bytes MAX_BUFFER_BYTES out" "write_offset buf = of_nat (length out)"
      using rel Some by (simp_all add: terminal_rel_def)
    have n: "unat (of_nat (length out) :: u64) = length out" by (rule unat_of_nat_u64 [OF bound])
    have "\<exists>p \<le> length out - MAX_WS_INIT_BYTES. last_bytes m out = drop p (take (unat (of_nat (length out) :: u64)) out)"
      if "m \<ge> MAX_WS_INIT_BYTES" for m
      using last_bytes_from [OF that, of out] by (simp add: n)
    from this [of MAX_WS_INIT_BYTES] this [of MAX_BUFFER_BYTES]
    have "\<exists>p \<le> length out - MAX_WS_INIT_BYTES. last_bytes MAX_WS_INIT_BYTES out = drop p (take (unat (of_nat (length out) :: u64)) out)"
      "\<exists>p \<le> length out - MAX_WS_INIT_BYTES. last_bytes MAX_BUFFER_BYTES out = drop p (take (unat (of_nat (length out) :: u64)) out)"
      by (simp_all add: MAX_WS_INIT_BYTES_def MAX_BUFFER_BYTES_def)
    moreover have "last_bytes MAX_WS_INIT_BYTES (terminal_data buf) = last_bytes MAX_WS_INIT_BYTES out"
      by (simp add: buf(2) last_bytes_last_bytes MAX_WS_INIT_BYTES_def MAX_BUFFER_BYTES_def)
    ultimately show ?thesis
      using rel Some buf n by (simp add: ws_init_eq ec2_init_def terminal_rel_def law)
  qed
  then show "terminal_rel out (terminal_step b64 unb64 t Ws_Open)" "terminal_rel out (terminal_step b64 unb64 t Ec2_Open)" by simp_all
qed

lemma updated_rel:
  assumes rel: "terminal_rel out t" and law: "\<And>bs. unb64 (b64 bs) = bs" and bound: "length out < 2 ^ 64"
  shows "terminal_rel out (terminal_step b64 unb64 t Updated) \<and> unat (term_sent (terminal_step b64 unb64 t Updated)) = length out"
proof (cases "term_store t")
  case None
  with rel have "out = []" by (simp add: terminal_rel_def)
  with rel None show ?thesis by (auto simp: terminal_rel_def delta_msg_def)
next
  case (Some buf)
  have buf: "terminal_data buf = last_bytes MAX_BUFFER_BYTES out" "write_offset buf = of_nat (length out)"
    using rel Some by (simp_all add: terminal_rel_def)
  obtain p where p: "unat (term_sent t) \<le> length out" "term_view t = drop p (take (unat (term_sent t)) out)"
      "p \<le> unat (term_sent t) - MAX_WS_INIT_BYTES"
    using rel by (auto simp: terminal_rel_def)
  have n: "unat (of_nat (length out) :: u64) = length out" by (rule unat_of_nat_u64 [OF bound])
  obtain q where q: "term_view t @ drop (unat (term_sent t)) out = drop q out" "q \<le> length out - MAX_WS_INIT_BYTES"
    using extend_view [OF p(1,3)] p(2) by auto
  note d = delta_msg_out [OF buf bound p(1), of b64]
  obtain q2 where q2: "last_bytes MAX_BUFFER_BYTES out = drop q2 out" "q2 \<le> length out - MAX_WS_INIT_BYTES"
    using last_bytes_from [of MAX_WS_INIT_BYTES MAX_BUFFER_BYTES out] by (auto simp: MAX_WS_INIT_BYTES_def MAX_BUFFER_BYTES_def)
  show ?thesis
    using rel Some d q q2 by (auto simp: terminal_rel_def n law)
qed

lemma terminal_rel_start: "terminal_rel [] terminal_start"
  by (simp add: terminal_rel_def terminal_start_def pusher_new_def store_new_def last_bytes_def)


section \<open>From the program to the browser\<close>

text \<open>
  The broadcast channel of the PTY (\<open>src/crates/b3-cli/src/pty/manager.rs\<close>) as its receiver in the pusher sees it:
  the chunks kept and not received, and the number of chunks overwritten since the last receive. The
  sender never waits: with \<open>PTY_CAPACITY\<close> chunks unread, a new one overwrites the oldest, and the next
  receive reports the overwritten ones instead of a chunk.
\<close>

definition PTY_CAPACITY :: nat where "PTY_CAPACITY = 4096"

record pty_channel =
  pty_queue :: "bytes list"
  pty_missed :: nat
  pty_closed :: bool

definition pty_send :: "bytes \<Rightarrow> pty_channel \<Rightarrow> pty_channel" where
  "pty_send b ch =
     (if length (pty_queue ch) < PTY_CAPACITY then ch\<lparr>pty_queue := pty_queue ch @ [b]\<rparr>
      else ch\<lparr>pty_queue := tl (pty_queue ch) @ [b], pty_missed := pty_missed ch + 1\<rparr>)"

datatype pty_poll = Poll_Chunk bytes | Poll_Lagged nat | Poll_Closed | Poll_Empty

definition pty_poll :: "pty_channel \<Rightarrow> pty_poll \<times> pty_channel" where
  "pty_poll ch =
     (if pty_missed ch > 0 then (Poll_Lagged (pty_missed ch), ch\<lparr>pty_missed := 0\<rparr>)
      else case pty_queue ch of
             b # q \<Rightarrow> (Poll_Chunk b, ch\<lparr>pty_queue := q\<rparr>)
           | [] \<Rightarrow> (if pty_closed ch then Poll_Closed else Poll_Empty, ch))"

text \<open>
  The whole way: the program's output enters the channel at any time, also while the pusher drains it; each
  \<open>Poll\<close> is one \<open>recv\<close> or \<open>try_recv\<close> of the pusher. \<open>on_hand\<close> are the chunks of the turn under way (none: the
  pusher waits in \<open>recv\<close>); the turn ends, and its chunks are published, when \<open>try_recv\<close> gives no chunk.
  \<open>overwritten_chunks\<close> counts what the channel dropped.
\<close>

record pty_terminal =
  browser_side :: terminal
  pty_side :: pty_channel
  on_hand :: "bytes list"
  overwritten_chunks :: nat

datatype pty_event = Program_Output bytes | Program_Gone | Poll "u16 \<times> u16" | Browser_Opens | Ec2_Opens | Browser_Updated

definition pty_terminal_start :: pty_terminal where
  "pty_terminal_start =
     \<lparr>browser_side = terminal_start, pty_side = \<lparr>pty_queue = [], pty_missed = 0, pty_closed = False\<rparr>, on_hand = [], overwritten_chunks = 0\<rparr>"

definition pusher_poll ::
  "(bytes \<Rightarrow> string) \<Rightarrow> (string \<Rightarrow> bytes) \<Rightarrow> u16 \<times> u16 \<Rightarrow> pty_terminal \<Rightarrow> pty_terminal" where
  "pusher_poll b64 unb64 sz y =
     (let (r, ch) = pty_poll (pty_side y);
          y1 = y\<lparr>pty_side := ch\<rparr>;
          turn = (\<lambda>e. terminal_step b64 unb64 (browser_side y) (Push e sz))
      in case on_hand y of
           [] \<Rightarrow>
             (case r of
                Poll_Chunk b \<Rightarrow> y1\<lparr>on_hand := [b]\<rparr>
              | Poll_Lagged n \<Rightarrow> y1\<lparr>browser_side := turn (Pty_Lagged (of_nat n))\<rparr>
              | Poll_Closed \<Rightarrow> y1\<lparr>browser_side := turn Pty_Closed\<rparr>
              | Poll_Empty \<Rightarrow> y1)
         | b # bs \<Rightarrow>
             (case r of
                Poll_Chunk c \<Rightarrow> y1\<lparr>on_hand := on_hand y @ [c]\<rparr>
              | _ \<Rightarrow> y1\<lparr>browser_side := turn (Pty_Bytes b bs), on_hand := []\<rparr>))"

fun pty_step :: "(bytes \<Rightarrow> string) \<Rightarrow> (string \<Rightarrow> bytes) \<Rightarrow> pty_event \<Rightarrow> pty_terminal \<Rightarrow> pty_terminal" where
  "pty_step b64 unb64 (Program_Output b) y =
     (if pty_closed (pty_side y) then y
      else y\<lparr>pty_side := pty_send b (pty_side y),
             overwritten_chunks := overwritten_chunks y + (if length (pty_queue (pty_side y)) < PTY_CAPACITY then 0 else 1)\<rparr>)"
| "pty_step b64 unb64 Program_Gone y = y\<lparr>pty_side := (pty_side y)\<lparr>pty_closed := True\<rparr>\<rparr>"
| "pty_step b64 unb64 (Poll sz) y = pusher_poll b64 unb64 sz y"
| "pty_step b64 unb64 Browser_Opens y = y\<lparr>browser_side := terminal_step b64 unb64 (browser_side y) Ws_Open\<rparr>"
| "pty_step b64 unb64 Ec2_Opens y = y\<lparr>browser_side := terminal_step b64 unb64 (browser_side y) Ec2_Open\<rparr>"
| "pty_step b64 unb64 Browser_Updated y = y\<lparr>browser_side := terminal_step b64 unb64 (browser_side y) Updated\<rparr>"

text \<open>What the program put out, chunk by chunk, until it was gone.\<close>

fun program_output :: "pty_event list \<Rightarrow> bytes list" where
  "program_output [] = []"
| "program_output (Program_Output b # es) = b # program_output es"
| "program_output (Program_Gone # es) = []"
| "program_output (_ # es) = program_output es"

text \<open>
  \<open>P\<close> is the output so far, \<open>R\<close> the chunks published: published, on hand and unread chunks are those of \<open>P\<close> that
  were not overwritten, in order.
\<close>

definition pty_rel :: "bytes list \<Rightarrow> bytes list \<Rightarrow> pty_terminal \<Rightarrow> bool" where
  "pty_rel P R y \<longleftrightarrow>
     terminal_rel (concat R) (browser_side y) \<and>
     subseq (R @ on_hand y @ pty_queue (pty_side y)) P \<and>
     length P = length (R @ on_hand y @ pty_queue (pty_side y)) + overwritten_chunks y"

lemma length_concat_subseq: "subseq xs ys \<Longrightarrow> length (concat xs) \<le> length (concat ys)"
  by (induction rule: list_emb.induct) auto

lemma subseq_drop_one: "subseq (a @ b # c) P \<Longrightarrow> subseq (a @ c) P"
  by (rule subseq_order.trans [rotated]) (auto intro: list_emb_append_mono)

lemma pty_rel_bound: "pty_rel P R y \<Longrightarrow> length (concat R) \<le> length (concat P)"
  unfolding pty_rel_def using length_concat_subseq [of "R @ on_hand y @ pty_queue (pty_side y)" P] by simp

lemma pty_rel_output:
  assumes "pty_rel P R y" and "\<not> pty_closed (pty_side y)"
  shows "pty_rel (P @ [b]) R (pty_step b64 unb64 (Program_Output b) y)"
proof -
  let ?q = "pty_queue (pty_side y)"
  have s: "subseq ((R @ on_hand y @ ?q) @ [b]) (P @ [b])"
    using assms(1) by (intro list_emb_append_mono) (simp_all add: pty_rel_def)
  show ?thesis
  proof (cases "length ?q < PTY_CAPACITY")
    case True
    then show ?thesis using assms s by (simp add: pty_rel_def pty_send_def)
  next
    case False
    then obtain c q where q: "?q = c # q" by (cases ?q) (auto simp: PTY_CAPACITY_def)
    with s have "subseq ((R @ on_hand y) @ c # q @ [b]) (P @ [b])" by (simp only: append_assoc append_Cons)
    then have "subseq ((R @ on_hand y) @ q @ [b]) (P @ [b])" by (rule subseq_drop_one)
    moreover have "pty_queue (pty_send b (pty_side y)) = q @ [b]" "browser_side (pty_step b64 unb64 (Program_Output b) y) = browser_side y"
      "on_hand (pty_step b64 unb64 (Program_Output b) y) = on_hand y"
      "pty_side (pty_step b64 unb64 (Program_Output b) y) = pty_send b (pty_side y)"
      "overwritten_chunks (pty_step b64 unb64 (Program_Output b) y) = overwritten_chunks y + 1"
      using False q assms(2) by (simp_all add: pty_send_def)
    moreover have "terminal_rel (concat R) (browser_side y)" using assms(1) unfolding pty_rel_def by blast
    moreover have "length (P @ [b]) = length (R @ on_hand y @ q @ [b]) + (overwritten_chunks y + 1)"
      using assms(1) q by (simp add: pty_rel_def)
    ultimately show ?thesis unfolding pty_rel_def by (simp only: append_assoc simp_thms)
  qed
qed

lemma pty_rel_poll:
  assumes "pty_rel P R y"
  shows "\<exists>R'. pty_rel P R' (pusher_poll b64 unb64 sz y)"
proof (cases "on_hand y")
  case Nil
  then have "pty_rel P R (pusher_poll b64 unb64 sz y)"
    using assms by (auto simp: pty_rel_def pusher_poll_def pty_poll_def Let_def split: list.splits)
  then show ?thesis by blast
next
  case (Cons b bs)
  have turn: "terminal_rel (concat (R @ b # bs)) (terminal_step b64 unb64 (browser_side y) (Push (Pty_Bytes b bs) sz))"
    using pusher_turn_rel [of "concat R" "browser_side y" b bs b64 unb64 sz] assms by (simp add: pty_rel_def)
  show ?thesis
  proof (cases "\<exists>c. fst (pty_poll (pty_side y)) = Poll_Chunk c")
    case True
    then have "pty_rel P R (pusher_poll b64 unb64 sz y)"
      using assms Cons by (auto simp: pty_rel_def pusher_poll_def pty_poll_def Let_def split: list.splits if_splits)
    then show ?thesis by blast
  next
    case False
    then have "pty_rel P (R @ b # bs) (pusher_poll b64 unb64 sz y)"
      using assms Cons turn
      by (auto simp: pty_rel_def pusher_poll_def pty_poll_def Let_def simp del: terminal_step.simps split: list.splits if_splits)
    then show ?thesis by blast
  qed
qed

abbreviation pty_run :: "(bytes \<Rightarrow> string) \<Rightarrow> (string \<Rightarrow> bytes) \<Rightarrow> pty_event list \<Rightarrow> pty_terminal" where
  "pty_run b64 unb64 es \<equiv> foldl (\<lambda>y e. pty_step b64 unb64 e y) pty_terminal_start es"

lemma program_output_snoc:
  "program_output (es @ [e]) =
     (case e of Program_Output b \<Rightarrow> (if Program_Gone \<in> set es then program_output es else program_output es @ [b])
      | _ \<Rightarrow> program_output es)"
  by (induction es rule: program_output.induct) (auto split: pty_event.splits)

lemma pty_closed_poll [simp]: "pty_closed (pty_side (pusher_poll b64 unb64 sz y)) = pty_closed (pty_side y)"
  by (auto simp: pusher_poll_def pty_poll_def Let_def split: list.splits)

lemma pty_closed_run: "pty_closed (pty_side (pty_run b64 unb64 es)) \<longleftrightarrow> Program_Gone \<in> set es"
proof (induction es rule: rev_induct)
  case (snoc e es)
  then show ?case by (cases e) (auto simp: pty_send_def)
qed (simp add: pty_terminal_start_def)

lemma pty_run_rel:
  assumes law: "\<And>bs. unb64 (b64 bs) = bs"
  shows "length (concat (program_output es)) < 2 ^ 64 \<Longrightarrow> \<exists>R. pty_rel (program_output es) R (pty_run b64 unb64 es)"
proof (induction es rule: rev_induct)
  case Nil
  have "pty_rel [] [] pty_terminal_start" by (simp add: pty_rel_def pty_terminal_start_def terminal_rel_start)
  then show ?case by auto
next
  case (snoc e es)
  let ?y = "pty_run b64 unb64 es" and ?P = "program_output es"
  have bound: "length (concat ?P) < 2 ^ 64"
    using snoc.prems by (auto simp: program_output_snoc split: pty_event.splits if_splits)
  then obtain R where R: "pty_rel ?P R ?y" using snoc.IH by blast
  then have rel: "terminal_rel (concat R) (browser_side ?y)" and len: "length (concat R) < 2 ^ 64"
    using pty_rel_bound [OF R] bound by (simp_all add: pty_rel_def)
  show ?case
  proof (cases e)
    case (Program_Output b)
    then show ?thesis
      using R pty_rel_output [OF R] pty_closed_run [of b64 unb64 es]
      by (auto simp: program_output_snoc simp del: pty_step.simps) (auto intro: exI [of _ R])
  next
    case (Poll sz)
    then show ?thesis using pty_rel_poll [OF R] by (simp add: program_output_snoc)
  qed (use R open_rel [of _ _ unb64 b64, OF rel law len] updated_rel [of _ _ unb64 b64, OF rel law len] in
        \<open>auto simp: program_output_snoc pty_rel_def simp del: terminal_step.simps intro!: exI [of _ R]\<close>)
qed

text \<open>Polled often enough while no output arrives, the pusher takes and publishes everything that is unread.\<close>

definition idle :: "pty_terminal \<Rightarrow> bool" where
  "idle y \<longleftrightarrow> on_hand y = [] \<and> pty_queue (pty_side y) = [] \<and> pty_missed (pty_side y) = 0"

lemma idle_polls: "idle y \<Longrightarrow> idle ((pusher_poll b64 unb64 sz ^^ n) y)"
  by (induction n) (auto simp: idle_def pusher_poll_def pty_poll_def Let_def)

lemma idle_polls_le: "idle ((pusher_poll b64 unb64 sz ^^ m) y) \<Longrightarrow> m \<le> n \<Longrightarrow> idle ((pusher_poll b64 unb64 sz ^^ n) y)"
proof -
  assume "idle ((pusher_poll b64 unb64 sz ^^ m) y)" and "m \<le> n"
  have "idle ((pusher_poll b64 unb64 sz ^^ (n - m)) ((pusher_poll b64 unb64 sz ^^ m) y))"
    using \<open>idle _\<close> by (rule idle_polls)
  moreover have "(pusher_poll b64 unb64 sz ^^ (n - m)) ((pusher_poll b64 unb64 sz ^^ m) y) = (pusher_poll b64 unb64 sz ^^ (n - m + m)) y"
    by (simp only: funpow_add o_apply)
  ultimately show ?thesis using \<open>m \<le> n\<close> by simp
qed

lemma drain_polls:
  "on_hand y \<noteq> [] \<Longrightarrow> pty_missed (pty_side y) = 0 \<Longrightarrow> idle ((pusher_poll b64 unb64 sz ^^ (length (pty_queue (pty_side y)) + 1)) y)"
proof (induction "pty_queue (pty_side y)" arbitrary: y)
  case Nil
  then show ?case by (auto simp: idle_def pusher_poll_def pty_poll_def Let_def split: list.splits)
next
  case (Cons c q)
  let ?z = "pusher_poll b64 unb64 sz y"
  have z: "on_hand ?z \<noteq> []" "pty_missed (pty_side ?z) = 0" "pty_queue (pty_side ?z) = q"
    using Cons.hyps(2) [symmetric] Cons.prems by (auto simp: pusher_poll_def pty_poll_def Let_def split: list.splits)
  from Cons.hyps(1) [OF z(3) [symmetric] z(1,2)] show ?case
    by (simp add: Cons.hyps(2) [symmetric] z(3) funpow_Suc_right del: funpow.simps)
qed

lemma recv_polls:
  assumes "on_hand y = []" and "pty_missed (pty_side y) = 0"
  shows "idle ((pusher_poll b64 unb64 sz ^^ (length (pty_queue (pty_side y)) + 1)) y)"
proof (cases "pty_queue (pty_side y)")
  case Nil
  with assms have "idle y" by (simp add: idle_def)
  then show ?thesis by (rule idle_polls)
next
  case (Cons c q)
  let ?z = "pusher_poll b64 unb64 sz y"
  have "on_hand ?z \<noteq> []" "pty_missed (pty_side ?z) = 0" "pty_queue (pty_side ?z) = q"
    using assms Cons by (simp_all add: pusher_poll_def pty_poll_def Let_def)
  from drain_polls [OF this(1,2)] this(3) show ?thesis
    by (simp add: Cons funpow_Suc_right del: funpow.simps)
qed

lemma catch_up: "idle ((pusher_poll b64 unb64 sz ^^ (length (pty_queue (pty_side y)) + 2)) y)"
proof (cases "pty_missed (pty_side y) = 0")
  case True
  then have "idle ((pusher_poll b64 unb64 sz ^^ (length (pty_queue (pty_side y)) + 1)) y)"
    using recv_polls drain_polls by (cases "on_hand y = []") blast+
  then show ?thesis by (rule idle_polls_le) simp
next
  case False
  let ?z = "pusher_poll b64 unb64 sz y"
  have "on_hand ?z = []" "pty_missed (pty_side ?z) = 0" "pty_queue (pty_side ?z) = pty_queue (pty_side y)"
    using False by (simp_all add: pusher_poll_def pty_poll_def Let_def split: list.splits)
  from recv_polls [OF this(1,2)] this(3) show ?thesis
    by (simp add: funpow_Suc_right del: funpow.simps)
qed

lemma overwritten_polls: "overwritten_chunks ((pusher_poll b64 unb64 sz ^^ n) y) = overwritten_chunks y"
proof (induction n)
  case (Suc n)
  have "overwritten_chunks (pusher_poll b64 unb64 sz z) = overwritten_chunks z" for z
    by (simp add: pusher_poll_def Let_def split: list.splits pty_poll.splits prod.splits)
  with Suc show ?case by simp
qed simp

lemma pty_rel_polls: "pty_rel P R y \<Longrightarrow> \<exists>R'. pty_rel P R' ((pusher_poll b64 unb64 sz ^^ n) y)"
  by (induction n) (auto dest: pty_rel_poll)

lemma terminal_rel_facts:
  assumes "terminal_rel out t" and "length out < 2 ^ 64"
  shows "case term_store t of
      None \<Rightarrow> out = []
    | Some buf \<Rightarrow> terminal_data buf = last_bytes MAX_BUFFER_BYTES out \<and> unat (write_offset buf) = length out"
    and "unat (term_sent t) \<le> length out" and "\<exists>p \<le> unat (term_sent t) - MAX_WS_INIT_BYTES. term_view t = drop p (take (unat (term_sent t)) out)"
  using assms unat_of_nat_u64 [OF assms(2)] by (auto simp: terminal_rel_def split: option.splits)



end
