(* ===== verification/Events.thy ===== *)
theory Events
  imports Terminal Channel
begin

text \<open>
  The events of the daemon (\<open>AgentEvent\<close> in \<open>src/crates/b3-common/src/lib.rs\<close>) and the three tasks that forward
  them to a browser: the event consumer of a WebSocket session (\<open>b3-cli/src/daemon/web.rs\<close>), the relay of a
  WebRTC control channel (\<open>rtc.rs\<close>) and the session through EC2 (\<open>ec2_proxy.rs\<close>). A message is the JSON value
  and the priority it is sent with. Whether a send succeeds, whether RTC is active and the members of a room
  are arguments.
\<close>

section \<open>Events\<close>

record tts_stream =
  ts_msg_id :: string
  ts_text :: string
  ts_original_text :: string
  ts_voice :: string
  ts_emotion :: string
  ts_replying_to :: string
  ts_split_chars :: string
  ts_min_chunk_chars :: u64
  ts_conditionals_b64 :: string

datatype agent_event =
    Transcription string
  | Hive string string
  | Pty_Input string
  | Tts string string string
  | Tts_Generating string u64 u64
  | Tts_Audio string u64 u64 string
  | Tts_Audio_Data string u64 u64 string u64 u64
  | Tts_Stream tts_stream
  | Session_Updated u64
  | Led string
  | Pty_Resize u16 u16
  | Hive_Room string string string string
  | Update_Available string string string
  | Notification string string string "json_tree option"
  | Browser_Eval string string "u64 option"
  | Webrtc_Offer string string string string "u64 option"
  | Webrtc_Answer string string
  | Webrtc_Ice string string string string

text \<open>What \<open>broadcast::Receiver::recv\<close> returns.\<close>

datatype event_recv = Event agent_event | Lagged u64 | Closed


section \<open>Messages\<close>

definition stream_fields :: "tts_stream \<Rightarrow> (string \<times> json_tree) list" where
  "stream_fields s =
     [(''msg_id'', JStr (ts_msg_id s)), (''text'', JStr (ts_text s)), (''original_text'', JStr (ts_original_text s)),
      (''voice'', JStr (ts_voice s)), (''emotion'', JStr (ts_emotion s)), (''replying_to'', JStr (ts_replying_to s)),
      (''split_chars'', JStr (ts_split_chars s)), (''min_chunk_chars'', JNum (ts_min_chunk_chars s)),
      (''conditionals_b64'', JStr (ts_conditionals_b64 s))]"

definition eval_fields :: "string \<Rightarrow> string \<Rightarrow> u64 option \<Rightarrow> (string \<times> json_tree) list" where
  "eval_fields eval_id code target =
     [(''eval_id'', JStr eval_id), (''code'', JStr code)] @
     (case target of Some tid \<Rightarrow> [(''target_session_id'', JNum tid)] | None \<Rightarrow> [])"

text \<open>
  The arms of the WebSocket consumer other than \<open>SessionUpdated\<close>. The last arm of the code, for a \<open>Hive\<close> event
  of sender \<open>info\<close>, comes after the arm for every \<open>Hive\<close> event and is never reached.
\<close>

fun ws_message :: "bool \<Rightarrow> (string \<Rightarrow> json_tree) \<Rightarrow> agent_event \<Rightarrow> (json_tree \<times> priority) option" where
  "ws_message rtc_active members (Transcription txt) =
     Some (JObj [(''type'', JStr ''transcription''), (''text'', JStr txt)], Critical)"
| "ws_message rtc_active members (Hive sender txt) =
     Some (JObj [(''type'', JStr ''hive_dm''), (''sender'', JStr sender), (''text'', JStr txt)], BestEffort)"
| "ws_message rtc_active members (Hive_Room sender room_id room_topic txt) =
     Some (JObj [(''type'', JStr ''hive_room''), (''sender'', JStr sender), (''room_id'', JStr room_id),
                 (''room_topic'', JStr room_topic), (''text'', JStr txt), (''members'', members room_id)], BestEffort)"
| "ws_message rtc_active members (Tts txt msg_id voice) =
     (if \<not> rtc_active then
        Some (JObj [(''type'', JStr ''tts''), (''text'', JStr txt), (''msg_id'', JStr msg_id), (''voice'', JStr voice)], Critical)
      else None)"
| "ws_message rtc_active members (Tts_Generating msg_id chunk n) =
     (if \<not> rtc_active then
        Some (JObj [(''type'', JStr ''tts_generating''), (''msg_id'', JStr msg_id), (''chunk'', JNum chunk), (''total'', JNum n)],
              BestEffort)
      else None)"
| "ws_message rtc_active members (Tts_Stream s) =
     (if \<not> rtc_active then Some (JObj ((''type'', JStr ''tts_stream'') # stream_fields s), Critical) else None)"
| "ws_message rtc_active members (Led emotion) =
     Some (JObj [(''type'', JStr ''led''), (''emotion'', JStr emotion)], BestEffort)"
| "ws_message rtc_active members (Browser_Eval eval_id code target) =
     Some (JObj ((''type'', JStr ''browser_eval'') # eval_fields eval_id code target), Critical)"
| "ws_message rtc_active members _ = None"

text \<open>The relay of a control channel; what has no arm of its own is printed by \<open>serde\<close>. \<open>None\<close> is \<open>continue\<close>.\<close>

fun rtc_message :: "agent_event \<Rightarrow> json_tree option" where
  "rtc_message (Tts_Stream s) = Some (JObj ((''event'', JStr ''tts_stream'') # stream_fields s))"
| "rtc_message (Tts_Audio_Data msg_id chunk n audio_b64 duration generation) =
     Some (JObj [(''event'', JStr ''tts_audio_data''), (''msg_id'', JStr msg_id), (''chunk'', JNum chunk), (''total'', JNum n),
                 (''audio_b64'', JStr audio_b64), (''duration_sec'', JFloat duration), (''generation_sec'', JFloat generation)])"
| "rtc_message (Tts_Generating msg_id chunk n) =
     Some (JObj [(''event'', JStr ''tts_generating''), (''msg_id'', JStr msg_id), (''chunk'', JNum chunk), (''total'', JNum n)])"
| "rtc_message (Led emotion) = Some (JObj [(''event'', JStr ''led''), (''emotion'', JStr emotion)])"
| "rtc_message (Transcription txt) = Some (JObj [(''event'', JStr ''transcription''), (''text'', JStr txt)])"
| "rtc_message (Hive sender txt) = Some (JObj [(''event'', JStr ''hive''), (''sender'', JStr sender), (''text'', JStr txt)])"
| "rtc_message (Hive_Room sender room_id room_topic txt) =
     Some (JObj [(''event'', JStr ''hive_room''), (''sender'', JStr sender), (''room_id'', JStr room_id),
                 (''room_topic'', JStr room_topic), (''text'', JStr txt)])"
| "rtc_message (Browser_Eval eval_id code target) =
     Some (JObj ((''event'', JStr ''browser_eval'') # eval_fields eval_id code target))"
| "rtc_message (Notification title body level action) =
     Some (JObj [(''event'', JStr ''notification''), (''title'', JStr title), (''body'', JStr body), (''level'', JStr level),
                 (''action'', case action of Some a \<Rightarrow> a | None \<Rightarrow> JNull)])"
| "rtc_message (Tts txt msg_id voice) =
     Some (JObj [(''type'', JStr ''tts''), (''text'', JStr txt), (''msg_id'', JStr msg_id), (''voice'', JStr voice)])"
| "rtc_message (Tts_Audio msg_id chunk n url) =
     Some (JObj [(''type'', JStr ''tts_audio''), (''msg_id'', JStr msg_id), (''chunk'', JNum chunk), (''total'', JNum n),
                 (''url'', JStr url)])"
| "rtc_message _ = None"

fun ec2_message :: "agent_event \<Rightarrow> json_tree option" where
  "ec2_message (Transcription txt) = Some (JObj [(''type'', JStr ''transcription''), (''text'', JStr txt)])"
| "ec2_message (Tts txt msg_id voice) =
     Some (JObj [(''type'', JStr ''tts''), (''text'', JStr txt), (''msg_id'', JStr msg_id), (''voice'', JStr voice)])"
| "ec2_message (Tts_Generating msg_id chunk n) =
     Some (JObj [(''type'', JStr ''tts_generating''), (''msg_id'', JStr msg_id), (''chunk'', JNum chunk), (''total'', JNum n)])"
| "ec2_message (Tts_Stream s) = Some (JObj ((''type'', JStr ''tts_stream'') # stream_fields s))"
| "ec2_message (Led emotion) = Some (JObj [(''type'', JStr ''led''), (''emotion'', JStr emotion)])"
| "ec2_message (Browser_Eval eval_id code target) =
     Some (JObj ((''type'', JStr ''browser_eval'') # eval_fields eval_id code target))"
| "ec2_message (Hive sender txt) =
     (if sender = ''info'' then Some (JObj [(''type'', JStr ''info''), (''html'', JStr txt)]) else None)"
| "ec2_message (Notification title body level action) =
     Some (JObj ([(''type'', JStr ''notification''), (''title'', JStr title), (''body'', JStr body), (''level'', JStr level)] @
                 (case action of Some a \<Rightarrow> [(''action'', a)] | None \<Rightarrow> [])))"
| "ec2_message _ = None"


section \<open>The loops\<close>

text \<open>
  One turn of a loop gets what \<open>recv\<close> returns and whether a send would succeed. The result is the new state,
  the message sent, if any, and whether the loop goes on. \<open>consumer_offset\<close> is the session's \<open>sent_offset\<close>.
\<close>

record event_consumer =
  consumer_offset :: u64
  consecutive_lags :: u32

type_synonym turn = "event_recv \<times> bool \<times> session_store \<times> bool"

definition emit_delta ::
  "(bytes \<Rightarrow> string) \<Rightarrow> session_store \<Rightarrow> bool \<Rightarrow> event_consumer \<Rightarrow> event_consumer \<times> (json_tree \<times> priority) option \<times> bool" where
  "emit_delta b64 st ok ec =
     (case delta_msg b64 (consumer_offset ec) st of
        None \<Rightarrow> (ec, None, True)
      | Some (msg, new_offset) \<Rightarrow> (ec\<lparr>consumer_offset := new_offset\<rparr>, if ok then Some (msg, BestEffort) else None, ok))"

fun ws_consumer_step ::
  "(bytes \<Rightarrow> string) \<Rightarrow> (string \<Rightarrow> json_tree) \<Rightarrow> turn \<Rightarrow> event_consumer \<Rightarrow> event_consumer \<times> (json_tree \<times> priority) option \<times> bool" where
  "ws_consumer_step b64 members (Closed, rtc_active, st, ok) ec = (ec, None, False)"
| "ws_consumer_step b64 members (Lagged n, rtc_active, st, ok) ec =
     (let ec1 = ec\<lparr>consecutive_lags := consecutive_lags ec + 1\<rparr>
      in if consecutive_lags ec1 \<ge> 5 then (ec1, None, False) else emit_delta b64 st ok ec1)"
| "ws_consumer_step b64 members (Event e, rtc_active, st, ok) ec =
     (let ec1 = ec\<lparr>consecutive_lags := 0\<rparr>
      in case e of
           Session_Updated n \<Rightarrow> emit_delta b64 st ok ec1
         | _ \<Rightarrow> (case ws_message rtc_active members e of
                  None \<Rightarrow> (ec1, None, True)
                | Some m \<Rightarrow> (ec1, if ok then Some m else None, ok)))"

fun rtc_relay_step :: "turn \<Rightarrow> event_consumer \<Rightarrow> event_consumer \<times> (json_tree \<times> priority) option \<times> bool" where
  "rtc_relay_step (Closed, rtc_active, st, ok) ec = (ec, None, False)"
| "rtc_relay_step (Lagged n, rtc_active, st, ok) ec =
     (let ec1 = ec\<lparr>consecutive_lags := consecutive_lags ec + 1\<rparr> in (ec1, None, consecutive_lags ec1 < 5))"
| "rtc_relay_step (Event e, rtc_active, st, ok) ec =
     (case rtc_message e of
        None \<Rightarrow> (ec, None, True)
      | Some json \<Rightarrow> (ec\<lparr>consecutive_lags := 0\<rparr>, if ok then Some (json, Critical) else None, ok))"

fun consumer_run ::
  "(turn \<Rightarrow> event_consumer \<Rightarrow> event_consumer \<times> (json_tree \<times> priority) option \<times> bool) \<Rightarrow> turn list \<Rightarrow> event_consumer
     \<Rightarrow> event_consumer \<times> (json_tree \<times> priority) list \<times> bool" where
  "consumer_run step [] ec = (ec, [], True)"
| "consumer_run step (t # ts) ec =
     (let (ec1, out, goes_on) = step t ec
      in if goes_on then
           let (ec2, outs, r) = consumer_run step ts ec1
           in (ec2, (case out of Some m \<Rightarrow> [m] | None \<Rightarrow> []) @ outs, r)
         else (ec1, case out of Some m \<Rightarrow> [m] | None \<Rightarrow> [], False))"


section \<open>What the loops forward, and when they end\<close>

text \<open>Five lags in a row, where only the events in \<open>R\<close> interrupt the row.\<close>

definition is_lag :: "event_recv \<Rightarrow> bool" where
  "is_lag r = (case r of Lagged _ \<Rightarrow> True | _ \<Rightarrow> False)"

definition lag_row :: "(event_recv \<Rightarrow> bool) \<Rightarrow> nat \<Rightarrow> event_recv list \<Rightarrow> bool" where
  "lag_row R k rs \<longleftrightarrow> (\<exists>ms vs. rs = ms @ vs \<and> (\<forall>m \<in> set ms. \<not> R m) \<and> length (filter is_lag ms) = k)"

definition five_lags :: "(event_recv \<Rightarrow> bool) \<Rightarrow> event_recv list \<Rightarrow> bool" where
  "five_lags R rs \<longleftrightarrow> (\<exists>us ws. rs = us @ ws \<and> lag_row R 5 ws)"

lemma lag_row_0 [simp]: "lag_row R 0 rs"
  unfolding lag_row_def by (rule exI [of _ "[]"]) simp

lemma lag_row_Nil [simp]: "lag_row R (Suc k) [] = False"
  by (simp add: lag_row_def)

lemma lag_row_Cons:
  "lag_row R (Suc k) (r # rs) \<longleftrightarrow> \<not> R r \<and> lag_row R (if is_lag r then k else Suc k) rs"
proof
  assume "lag_row R (Suc k) (r # rs)"
  then obtain ms vs where m: "r # rs = ms @ vs" "\<forall>m \<in> set ms. \<not> R m" "length (filter is_lag ms) = Suc k"
    unfolding lag_row_def by blast
  then obtain ms' where e: "ms = r # ms'" by (cases ms) auto
  from m e have "rs = ms' @ vs" "\<not> R r" "\<forall>m \<in> set ms'. \<not> R m"
    "length (filter is_lag ms') = (if is_lag r then k else Suc k)" by (auto split: if_splits)
  then show "\<not> R r \<and> lag_row R (if is_lag r then k else Suc k) rs" unfolding lag_row_def by blast
next
  assume a: "\<not> R r \<and> lag_row R (if is_lag r then k else Suc k) rs"
  then obtain ms vs where "rs = ms @ vs" "\<forall>m \<in> set ms. \<not> R m" "length (filter is_lag ms) = (if is_lag r then k else Suc k)"
    unfolding lag_row_def by blast
  with a show "lag_row R (Suc k) (r # rs)"
    unfolding lag_row_def by (intro exI [of _ "r # ms"] exI [of _ vs]) auto
qed

lemma five_lags_Nil [simp]: "five_lags R [] = False"
  by (simp add: five_lags_def eval_nat_numeral)

lemma five_lags_Cons: "five_lags R (r # rs) \<longleftrightarrow> lag_row R 5 (r # rs) \<or> five_lags R rs"
  unfolding five_lags_def by (auto simp: Cons_eq_append_conv)

lemma lag_row_mono: "lag_row R k rs \<Longrightarrow> j \<le> k \<Longrightarrow> lag_row R j rs"
proof (induction rs arbitrary: k j)
  case Nil
  then show ?case by (cases k) (simp_all)
next
  case (Cons r rs)
  show ?case
  proof (cases j)
    case (Suc i)
    with Cons.prems obtain l where "k = Suc l" by (cases k) auto
    with Cons Suc show ?thesis by (auto simp: lag_row_Cons split: if_splits intro: Cons.IH)
  qed simp
qed

text \<open>A loop whose counter behaves like this ends exactly at the fifth lag of a row.\<close>

definition counts_lags :: "(turn \<Rightarrow> event_consumer \<Rightarrow> event_consumer \<times> (json_tree \<times> priority) option \<times> bool) \<Rightarrow> (event_recv \<Rightarrow> bool) \<Rightarrow> bool" where
  "counts_lags step R \<longleftrightarrow>
     (\<forall>r rtc st ec. case step (r, rtc, st, True) ec of
        (ec', out, goes_on) \<Rightarrow>
          (case r of
             Closed \<Rightarrow> \<not> goes_on
           | Lagged n \<Rightarrow> consecutive_lags ec' = consecutive_lags ec + 1 \<and> goes_on = (consecutive_lags ec' < 5)
           | Event e \<Rightarrow> goes_on \<and> consecutive_lags ec' = (if R r then 0 else consecutive_lags ec)))"

lemma unat_lag_Suc: "unat (c :: u32) < 5 \<Longrightarrow> unat (c + 1) = Suc (unat c)"
  using unat_succ_u32 [of c] by simp

lemma unat_lag: "unat (c :: u32) < 5 \<Longrightarrow> c + 1 < 5 \<longleftrightarrow> unat c < 4"
  by (simp add: word_less_nat_alt unat_lag_Suc)

lemma five_lagsI: "lag_row R 5 rs \<Longrightarrow> five_lags R rs"
  unfolding five_lags_def by (rule exI [of _ "[]"]) simp

lemma run_lags:
  assumes "counts_lags step R" and only: "\<And>r. R r \<Longrightarrow> \<exists>e. r = Event e"
  shows "\<forall>(r, rtc, st, ok) \<in> set ts. ok \<Longrightarrow> unat (consecutive_lags ec) < 5 \<Longrightarrow> consumer_run step ts ec = (ec', out, running) \<Longrightarrow>
    running \<longleftrightarrow> Closed \<notin> fst ` set ts \<and> \<not> lag_row R (5 - unat (consecutive_lags ec)) (map fst ts) \<and> \<not> five_lags R (map fst ts)"
proof (induction ts arbitrary: ec ec' out running)
  case Nil
  then obtain k where "5 - unat (consecutive_lags ec) = Suc k" by (cases "5 - unat (consecutive_lags ec)") auto
  with Nil show ?case by simp
next
  case (Cons t ts)
  obtain r rtc st where t: "t = (r, rtc, st, True)" using Cons.prems(1) by (cases t) auto
  let ?n = "unat (consecutive_lags ec)"
  obtain k where k: "5 - ?n = Suc k" using Cons.prems(2) by (cases "5 - ?n") auto
  have five: "five_lags R (r # map fst ts) \<longleftrightarrow> \<not> R r \<and> lag_row R (if is_lag r then 4 else 5) (map fst ts) \<or> five_lags R (map fst ts)"
    using lag_row_Cons [of R 4 r "map fst ts"] by (simp add: five_lags_Cons)
  obtain ec1 o1 goes where s: "step (r, rtc, st, True) ec = (ec1, o1, goes)" by (cases "step (r, rtc, st, True) ec")
  have count: "case r of Closed \<Rightarrow> \<not> goes
      | Lagged n \<Rightarrow> consecutive_lags ec1 = consecutive_lags ec + 1 \<and> goes = (consecutive_lags ec1 < 5)
      | Event e \<Rightarrow> goes \<and> consecutive_lags ec1 = (if R r then 0 else consecutive_lags ec)"
    using spec [OF spec [OF spec [OF spec [OF assms(1) [unfolded counts_lags_def], of r], of rtc], of st], of ec] s by simp
  obtain ec2 o2 run2 where c: "consumer_run step ts ec1 = (ec2, o2, run2)" by (cases "consumer_run step ts ec1")
  have run: "running \<longleftrightarrow> goes \<and> run2" using Cons.prems(3) t s c by (auto split: if_splits)
  have ih: "unat (consecutive_lags ec1) < 5 \<Longrightarrow> run2 \<longleftrightarrow> Closed \<notin> fst ` set ts \<and>
      \<not> lag_row R (5 - unat (consecutive_lags ec1)) (map fst ts) \<and> \<not> five_lags R (map fst ts)"
    using Cons.IH [OF _ _ c] Cons.prems(1) by auto
  have notR: "\<not> R r" if "\<And>e. r \<noteq> Event e" using only that by blast
  show ?case
  proof (cases r)
    case (Event e)
    show ?thesis
    proof (cases "R r")
      case True
      with Event count ih run t k five show ?thesis by (auto simp: lag_row_Cons dest: five_lagsI)
    next
      case False
      with Event count ih run t k five Cons.prems(2) show ?thesis
        by (auto simp: lag_row_Cons is_lag_def dest: five_lagsI)
    qed
  next
    case (Lagged m)
    have l: "consecutive_lags ec1 = consecutive_lags ec + 1" "goes \<longleftrightarrow> ?n < 4"
      using count Lagged unat_lag [OF Cons.prems(2)] by auto
    have n1: "unat (consecutive_lags ec1) = Suc ?n" using l(1) unat_lag_Suc [OF Cons.prems(2)] by simp
    have k4: "k = 4 - ?n" using k by simp
    have row: "lag_row R (5 - ?n) (r # map fst ts) \<longleftrightarrow> lag_row R (4 - ?n) (map fst ts)"
      using k Lagged notR by (simp add: lag_row_Cons is_lag_def k4)
    have m4: "lag_row R 4 (map fst ts) \<Longrightarrow> lag_row R (4 - ?n) (map fst ts)" using lag_row_mono [OF _ diff_le_self] .
    show ?thesis
    proof (cases "?n < 4")
      case True
      then have "5 - unat (consecutive_lags ec1) = 4 - ?n" using n1 by simp
      with True ih run l(2) t n1 row m4 five notR Lagged show ?thesis by (auto simp: is_lag_def)
    next
      case False
      then have "4 - ?n = 0" by simp
      with False run l(2) t row show ?thesis by simp
    qed
  next
    case Closed
    with count run t show ?thesis by simp
  qed
qed

definition is_event :: "event_recv \<Rightarrow> bool" where
  "is_event r \<longleftrightarrow> (\<exists>e. r = Event e)"

definition is_relayed :: "event_recv \<Rightarrow> bool" where
  "is_relayed r \<longleftrightarrow> (\<exists>e. r = Event e \<and> rtc_message e \<noteq> None)"

lemma emit_delta_lags: "emit_delta b64 st True ec = (ec', out, goes_on) \<Longrightarrow> consecutive_lags ec' = consecutive_lags ec \<and> goes_on"
  by (auto simp: emit_delta_def split: option.splits)

lemma ws_counts: "counts_lags (ws_consumer_step b64 members) is_event"
  unfolding counts_lags_def
proof (intro allI)
  fix r rtc st ec
  show "case ws_consumer_step b64 members (r, rtc, st, True) ec of (ec', out, goes_on) \<Rightarrow>
      (case r of Closed \<Rightarrow> \<not> goes_on
       | Lagged n \<Rightarrow> consecutive_lags ec' = consecutive_lags ec + 1 \<and> goes_on = (consecutive_lags ec' < 5)
       | Event e \<Rightarrow> goes_on \<and> consecutive_lags ec' = (if is_event r then 0 else consecutive_lags ec))"
  proof (cases r)
    case (Event e)
    then show ?thesis
    proof (cases "\<exists>n. e = Session_Updated n")
      case True
      with Event show ?thesis
        by (auto simp: is_event_def Let_def dest!: emit_delta_lags split: prod.splits)
    next
      case False
      have "ws_consumer_step b64 members (Event e, rtc, st, True) ec =
          (case ws_message rtc members e of None \<Rightarrow> (ec\<lparr>consecutive_lags := 0\<rparr>, None, True) | Some m \<Rightarrow> (ec\<lparr>consecutive_lags := 0\<rparr>, Some m, True))"
        using False by (cases e) (simp_all add: Let_def)
      with Event show ?thesis by (simp add: is_event_def split: option.splits)
    qed
  next
    case (Lagged n)
    then show ?thesis by (auto simp: Let_def not_le dest!: emit_delta_lags split: prod.splits)
  qed simp
qed

lemma rtc_counts: "counts_lags rtc_relay_step is_relayed"
  unfolding counts_lags_def by (auto simp: is_relayed_def Let_def split: event_recv.splits option.splits)

lemma five_lags_mono: "(\<And>r. R r \<Longrightarrow> S r) \<Longrightarrow> five_lags S rs \<Longrightarrow> five_lags R rs"
  unfolding five_lags_def lag_row_def by blast

definition is_screen :: "json_tree \<times> priority \<Rightarrow> bool" where
  "is_screen m \<longleftrightarrow> (case fst m of JObj kvs \<Rightarrow> map_of kvs ''type'' \<in> {Some (JStr ''delta''), Some (JStr ''full'')} | _ \<Rightarrow> False)"

definition opt_out :: "'a option \<Rightarrow> 'a list" where
  "opt_out x = (case x of Some m \<Rightarrow> [m] | None \<Rightarrow> [])"

lemma delta_is_screen: "delta_msg b64 off st = Some (msg, off') \<Longrightarrow> is_screen (msg, pri)"
  by (auto simp: delta_msg_def is_screen_def delta_json_def screen_json_def Let_def split: option.splits if_splits)

lemma emit_delta_screen: "emit_delta b64 st ok ec = (ec', out, goes_on) \<Longrightarrow> filter (\<lambda>m. \<not> is_screen m) (opt_out out) = []"
  by (auto simp: emit_delta_def opt_out_def delta_is_screen split: option.splits if_splits)

lemma ws_not_screen: "ws_message rtc members e = Some m \<Longrightarrow> \<not> is_screen m"
  by (cases "(rtc, members, e)" rule: ws_message.cases) (auto simp: is_screen_def split: if_splits)

definition ws_forwarded :: "(string \<Rightarrow> json_tree) \<Rightarrow> turn \<Rightarrow> (json_tree \<times> priority) list" where
  "ws_forwarded members t = (case t of (Event e, rtc, _) \<Rightarrow> opt_out (ws_message rtc members e) | _ \<Rightarrow> [])"

definition rtc_forwarded :: "turn \<Rightarrow> (json_tree \<times> priority) list" where
  "rtc_forwarded t = (case t of (Event e, _) \<Rightarrow> opt_out (map_option (\<lambda>m. (m, Critical)) (rtc_message e)) | _ \<Rightarrow> [])"

lemma ws_step_out:
  assumes "ws_consumer_step b64 members (r, rtc, st, True) ec = (ec1, o1, True)"
  shows "filter (\<lambda>m. \<not> is_screen m) (opt_out o1) = ws_forwarded members (r, rtc, st, True)"
proof (cases r)
  case (Event e)
  show ?thesis
  proof (cases "\<exists>n. e = Session_Updated n")
    case True
    with Event assms show ?thesis by (auto simp: ws_forwarded_def opt_out_def Let_def dest: emit_delta_screen [unfolded opt_out_def])
  next
    case False
    have "ws_consumer_step b64 members (Event e, rtc, st, True) ec =
        (case ws_message rtc members e of None \<Rightarrow> (ec\<lparr>consecutive_lags := 0\<rparr>, None, True) | Some m \<Rightarrow> (ec\<lparr>consecutive_lags := 0\<rparr>, Some m, True))"
      using False by (cases e) (simp_all add: Let_def)
    with Event assms show ?thesis
      by (cases "ws_message rtc members e") (auto simp: ws_forwarded_def opt_out_def dest: ws_not_screen)
  qed
next
  case (Lagged n)
  with assms show ?thesis
    by (auto simp: ws_forwarded_def Let_def dest: emit_delta_screen split: if_splits)
qed (use assms in simp)

lemma rtc_step_out:
  "rtc_relay_step (r, rtc, st, True) ec = (ec1, o1, True) \<Longrightarrow> opt_out o1 = rtc_forwarded (r, rtc, st, True)"
  by (cases r) (auto simp: rtc_forwarded_def opt_out_def Let_def split: option.splits)

lemma run_out:
  assumes step: "\<And>r rtc st ec ec1 o1. step (r, rtc, st, True) ec = (ec1, o1, True) \<Longrightarrow> filter P (opt_out o1) = fw (r, rtc, st, True)"
  shows "\<forall>(r, rtc, st, ok) \<in> set ts. ok \<Longrightarrow> consumer_run step ts ec = (ec', out, True) \<Longrightarrow> filter P out = concat (map fw ts)"
proof (induction ts arbitrary: ec out)
  case (Cons t ts)
  obtain r rtc st where t: "t = (r, rtc, st, True)" using Cons.prems(1) by (cases t) auto
  obtain ec1 o1 goes where s: "step (r, rtc, st, True) ec = (ec1, o1, goes)" by (cases "step (r, rtc, st, True) ec")
  obtain ec2 o2 run2 where c: "consumer_run step ts ec1 = (ec2, o2, run2)" by (cases "consumer_run step ts ec1")
  have "goes" "run2" "ec' = ec2" and out: "out = opt_out o1 @ o2"
    using Cons.prems(2) t s c by (auto simp: opt_out_def split: if_splits)
  with Cons.IH [of ec1 o2] Cons.prems(1) c have "filter P o2 = concat (map fw ts)" by auto
  with step s t out \<open>goes\<close> show ?case by simp
qed simp

text \<open>Speech, of which a browser must not get two copies.\<close>

definition is_speech :: "agent_event \<Rightarrow> bool" where
  "is_speech e \<longleftrightarrow> (case e of Tts _ _ _ \<Rightarrow> True | Tts_Generating _ _ _ \<Rightarrow> True | Tts_Stream _ \<Rightarrow> True | _ \<Rightarrow> False)"

text \<open>
  What the daemon's events become. The consumer of a WebSocket session ends exactly when the broadcast
  channel closes or at the fifth lag in a row; while it runs it sends, in order, the message of every event
  that has one, terminal updates apart. The relay of a WebRTC channel does the same with its messages, but
  an event it skips does not interrupt its row of lags, so it may end where the consumer would not, never
  the other way round. Speech has one path: with RTC active the consumer sends none of it and the relay all
  of it, otherwise the consumer sends it.
\<close>

theorem event_consumers:
  assumes ok: "\<forall>(r, rtc, st, ok) \<in> set ts. ok"
    and ws: "consumer_run (ws_consumer_step b64 members) ts \<lparr>consumer_offset = off, consecutive_lags = 0\<rparr> = (ec, out, running)"
    and rtc: "consumer_run rtc_relay_step ts \<lparr>consumer_offset = 0, consecutive_lags = 0\<rparr> = (ec', out', running')"
  shows "(running \<longleftrightarrow> Closed \<notin> fst ` set ts \<and> \<not> five_lags is_event (map fst ts)) \<and>
    (running' \<longleftrightarrow> Closed \<notin> fst ` set ts \<and> \<not> five_lags is_relayed (map fst ts)) \<and>
    (running' \<longrightarrow> running) \<and>
    (running \<longrightarrow> filter (\<lambda>m. \<not> is_screen m) out = concat (map (ws_forwarded members) ts)) \<and>
    (running' \<longrightarrow> out' = concat (map rtc_forwarded ts)) \<and>
    (\<forall>e. is_speech e \<longrightarrow> ws_message True members e = None \<and> rtc_message e \<noteq> None \<and> ws_message False members e \<noteq> None)"
proof -
  let ?rs = "map fst ts"
  have row: "lag_row R 5 ?rs \<Longrightarrow> five_lags R ?rs" for R by (rule five_lagsI)
  have "running \<longleftrightarrow> Closed \<notin> fst ` set ts \<and> \<not> five_lags is_event ?rs"
    using run_lags [OF ws_counts _ ok _ ws] row by (auto simp: is_event_def)
  moreover have "running' \<longleftrightarrow> Closed \<notin> fst ` set ts \<and> \<not> five_lags is_relayed ?rs"
    using run_lags [OF rtc_counts _ ok _ rtc] row by (auto simp: is_relayed_def)
  moreover have "five_lags is_event ?rs \<Longrightarrow> five_lags is_relayed ?rs"
    by (rule five_lags_mono) (auto simp: is_event_def is_relayed_def)
  moreover have "running \<Longrightarrow> filter (\<lambda>m. \<not> is_screen m) out = concat (map (ws_forwarded members) ts)"
    using run_out [where step = "ws_consumer_step b64 members" and fw = "ws_forwarded members", OF ws_step_out ok] ws by simp
  moreover have "running' \<Longrightarrow> filter (\<lambda>m. True) out' = concat (map rtc_forwarded ts)"
    using run_out [where step = rtc_relay_step and P = "\<lambda>m. True" and fw = rtc_forwarded, OF _ ok] rtc_step_out rtc by simp
  moreover have "\<forall>e. is_speech e \<longrightarrow> ws_message True members e = None \<and> rtc_message e \<noteq> None \<and> ws_message False members e \<noteq> None"
    by (auto simp: is_speech_def split: agent_event.splits)
  ultimately show ?thesis by auto
qed

definition lagging :: "turn list" where
  "lagging = (let lag = (Lagged 1, True, None, True) in [lag, lag, (Event (Session_Updated 3), True, None, True), lag, lag, lag])"

theorem event_consumers_witness:
  "\<exists>ec out ec' out'. consumer_run (ws_consumer_step of_bytes (\<lambda>_. JNull)) lagging \<lparr>consumer_offset = 0, consecutive_lags = 0\<rparr> = (ec, out, True) \<and>
     consumer_run rtc_relay_step lagging \<lparr>consumer_offset = 0, consecutive_lags = 0\<rparr> = (ec', out', False) \<and>
     \<not> five_lags is_event (map fst lagging) \<and> five_lags is_relayed (map fst lagging)"
proof -
  obtain ec out where ws: "consumer_run (ws_consumer_step of_bytes (\<lambda>_. JNull)) lagging \<lparr>consumer_offset = 0, consecutive_lags = 0\<rparr> = (ec, out, True)"
    by (simp add: lagging_def Let_def emit_delta_def delta_msg_def word_le_nat_alt)
  obtain ec' out' where rtc: "consumer_run rtc_relay_step lagging \<lparr>consumer_offset = 0, consecutive_lags = 0\<rparr> = (ec', out', False)"
    by (simp add: lagging_def Let_def word_less_nat_alt)
  have "\<forall>(r, rtc, st, ok) \<in> set lagging. ok" and "Closed \<notin> fst ` set lagging" by (simp_all add: lagging_def Let_def)
  with event_consumers [OF _ ws rtc] ws rtc show ?thesis by auto
qed

end
