(* ===== verification/Browser_Ws.thy ===== *)
theory Browser_Ws
  imports Session Events Health Utf8
begin

text \<open>
  \<open>src/crates/b3-cli/src/daemon/web.rs\<close>, \<open>handle_terminal_ws\<close>: a browser's WebSocket, from the password to the
  cleanup. Text and JSON strings are their UTF-8 bytes, as \<open>bytes\<close> where they arrive and as \<open>string\<close> inside JSON
  and events. The password hash (crate \<open>argon2\<close>), JSON and base64 are parameters, as are the formatting and
  parsing of floating-point numbers. Whether a resize of the PTY succeeds is an argument. Browser metadata
  that is only logged, counters and keepalive timers are left out.
\<close>

section \<open>Authentication\<close>

datatype ws_frame = Frame_Text bytes | Frame_Binary bytes | Frame_Close | Frame_Error | Frame_Other

text \<open>\<open>Config::verify_daemon_password\<close> in \<open>b3-cli/src/config.rs\<close>.\<close>

definition verify_daemon_password :: "(string \<Rightarrow> string \<Rightarrow> bool) \<Rightarrow> string \<Rightarrow> string \<Rightarrow> bool" where
  "verify_daemon_password argon2 password hash = (if take 7 hash = ''$argon2'' then argon2 password hash else False)"

definition typed :: "string \<Rightarrow> (string \<times> json_tree) list \<Rightarrow> json_tree" where
  "typed ty kvs = JObj ((''type'', JStr ty) # kvs)"

text \<open>
  The loop: authenticated or not, the binary frames set aside, what is sent, and the frames not yet read.
  The end of the list is the end of the stream.
\<close>

fun auth_loop ::
  "'v json_lib \<Rightarrow> (string \<Rightarrow> string \<Rightarrow> bool) \<Rightarrow> string \<Rightarrow> ws_frame list \<Rightarrow> bytes list
     \<Rightarrow> bool \<times> bytes list \<times> json_tree list \<times> ws_frame list" where
  "auth_loop J argon2 pw_hash [] pre = (False, pre, [], [])"
| "auth_loop J argon2 pw_hash (Frame_Text txt # fs) pre =
     (case json_parse J txt of
        None \<Rightarrow> auth_loop J argon2 pw_hash fs pre
      | Some val \<Rightarrow>
          (if get_str J val ''type'' = Some ''auth'' then
             (if (case get_str J val ''password'' of Some pw \<Rightarrow> verify_daemon_password argon2 pw pw_hash | None \<Rightarrow> False)
              then (True, pre, [], fs)
              else (case auth_loop J argon2 pw_hash fs pre of
                      (ok, pre', out, rest) \<Rightarrow>
                        (ok, pre', typed ''auth_failed'' [(''error'', JStr ''Invalid daemon password'')] # out, rest)))
           else auth_loop J argon2 pw_hash fs pre))"
| "auth_loop J argon2 pw_hash (Frame_Binary data # fs) pre = auth_loop J argon2 pw_hash fs (pre @ [data])"
| "auth_loop J argon2 pw_hash (Frame_Close # fs) pre = (False, pre, [], fs)"
| "auth_loop J argon2 pw_hash (Frame_Error # fs) pre = (False, pre, [], fs)"
| "auth_loop J argon2 pw_hash (Frame_Other # fs) pre = auth_loop J argon2 pw_hash fs pre"

definition ws_authenticate ::
  "'v json_lib \<Rightarrow> (string \<Rightarrow> string \<Rightarrow> bool) \<Rightarrow> string option \<Rightarrow> bool \<Rightarrow> ws_frame list
     \<Rightarrow> bool \<times> bytes list \<times> json_tree list \<times> ws_frame list" where
  "ws_authenticate J argon2 password_hash challenge_ok frames =
     (case password_hash of
        None \<Rightarrow> (True, [], [], frames)
      | Some pw_hash \<Rightarrow>
          (if \<not> challenge_ok then (False, [], [], frames)
           else case auth_loop J argon2 pw_hash frames [] of
                  (ok, pre, out, rest) \<Rightarrow>
                    (ok, pre, typed ''auth_required'' [] # out @ (if ok then [typed ''auth_ok'' []] else []), rest)))"


section \<open>The daemon's state\<close>

record 'h web_state =
  session_manager :: "'h session_manager"
  session_store :: session_store
  session_last_seen :: "(u64, nat) rmap"
  session_sizes :: "(u64, u16 \<times> u16) rmap"
  pty_size :: "u16 \<times> u16"
  pty_resizer :: bool
  browser_versions :: "(u64, string) rmap"
  browser_user_agents :: "(u64, string) rmap"
  browser_volumes :: "(u64, u8) rmap"
  browser_audio_contexts :: "(u64, bool) rmap"
  eval_pending :: "(string, nat) rmap"
  eval_multi :: "(string, nat) rmap"
  browser_console :: "string list"
  played_tts :: "string list"
  browser_frames_in :: u64

datatype 'h ws_output =
    Ws_Json json_tree
  | Ws_Ping
  | Transport 'h bytes
  | Abort_Task nat
  | Spawn_Bridge nat
  | Spawn_Events nat
  | Open_Gate
  | Daemon_Event agent_event
  | Eval_Reply nat string
  | Multi_Reply nat u64 string
  | Resize_Pty u16 u16
  | Save_Lost string string

definition transported :: "('h \<times> bytes) list \<Rightarrow> 'h ws_output list" where
  "transported out = map (\<lambda>(h, w). Transport h w) out"


section \<open>Setup\<close>

definition STALE_SESSION_SECS :: nat where "STALE_SESSION_SECS = 120"

definition is_stale :: "nat \<Rightarrow> (u64, nat) rmap \<Rightarrow> u64 \<Rightarrow> 'h session \<Rightarrow> bool" where
  "is_stale now last_seen own s \<longleftrightarrow>
     sess_id s \<noteq> own \<and>
     (case map_of last_seen (sess_id s) of None \<Rightarrow> True | Some t \<Rightarrow> as_secs (now - t) > STALE_SESSION_SECS)"

fun reap :: "u64 list \<Rightarrow> 'h web_state \<Rightarrow> 'h web_state \<times> 'h ws_output list" where
  "reap [] w = (w, [])"
| "reap (i # is) w =
     (let (sm, tasks) = remove_session i (session_manager w);
          (w', out) = reap is (w\<lparr>session_manager := sm, session_last_seen := map_remove i (session_last_seen w)\<rparr>)
      in (w', map Abort_Task tasks @ out))"

definition reap_stale :: "nat \<Rightarrow> u64 \<Rightarrow> 'h web_state \<Rightarrow> 'h web_state \<times> 'h ws_output list" where
  "reap_stale now own w =
     reap (map sess_id (filter (is_stale now (session_last_seen w) own) (all_sessions (session_manager w)))) w"

text \<open>The frames set aside; the first one opens the gate of the event consumer, whatever it is.\<close>

fun drain_pre_auth ::
  "(bytes \<Rightarrow> u32) \<Rightarrow> (nat \<Rightarrow> nat \<Rightarrow> u32) \<Rightarrow> bytes list \<Rightarrow> bool \<Rightarrow> 'h multi_transport
     \<Rightarrow> 'h multi_transport \<times> bool \<times> 'h ws_output list" where
  "drain_pre_auth crc clk [] gate m = (m, gate, [])"
| "drain_pre_auth crc clk (data # ds) gate m =
     (let (m1, out1) = (if is_reliable data
                        then (let (m', ms, out) = multi_receive crc (clk (length ds)) data m in (m', transported out))
                        else (m, []));
          (m2, gate', out2) = drain_pre_auth crc clk ds False m1
      in (m2, gate', out1 @ (if gate then [Open_Gate] else []) @ out2))"

text \<open>
  The connection's part of the state: its session's transports and RTC flag, shared with the tasks of the
  session, and whether the gate of the event consumer is still closed.
\<close>

record 'h ws_conn =
  wc_sid :: u64
  wc_multi :: "'h multi_transport"
  wc_rtc :: bool
  wc_offset :: u64
  wc_gate :: bool

text \<open>
  From the welcome to the event consumer. \<open>chan\<close>, \<open>bridge\<close> and \<open>consumer\<close> are the names of the new queue and
  tasks, \<open>h\<close> the sink of this WebSocket. \<open>None\<close> is the early return when the initial picture cannot be sent.
\<close>

definition ws_setup ::
  "(bytes \<Rightarrow> u32) \<Rightarrow> (bytes \<Rightarrow> string) \<Rightarrow> (nat \<Rightarrow> nat \<Rightarrow> u32) \<Rightarrow> nat \<Rightarrow> nat \<Rightarrow> nat \<Rightarrow> nat \<Rightarrow> 'h \<Rightarrow> bool \<Rightarrow> u64 \<Rightarrow> bytes list
     \<Rightarrow> 'h web_state \<Rightarrow> 'h web_state \<times> 'h ws_conn option \<times> 'h ws_output list" where
  "ws_setup crc b64 clk now chan bridge consumer h init_ok sid pre w =
     (let (sm1, s, rx) = reconnect_or_create (Some sid) default_config chan (session_manager w);
          (w2, out2) = reap_stale now sid (w\<lparr>session_manager := sm1\<rparr>);
          (off, msgs) = ws_init b64 (sent_offset s) (session_store w2)
      in if msgs \<noteq> [] \<and> \<not> init_ok then
           (let (sm3, tasks) = remove_session sid (session_manager w2)
            in (w2\<lparr>session_manager := sm3\<rparr>, None,
                Ws_Json (typed ''welcome'' [(''session_id'', JNum sid)]) # out2 @ map Abort_Task tasks))
         else
           let (m1, out3) = add_transport ''ws'' 1 h (multi s);
               out4 = multi_send_resume m1;
               (s2, tasks) = (case rx of Some _ \<Rightarrow> (start_bridge bridge s, []) | None \<Rightarrow> restart_bridge bridge chan s);
               (m2, gate, out5) = drain_pre_auth crc clk pre True m1;
               (s3, old) = set_event_task consumer (s2\<lparr>sent_offset := off, multi := m2\<rparr>)
           in (w2\<lparr>session_manager := with_session sid (\<lambda>_. s3) (session_manager w2)\<rparr>,
               Some \<lparr>wc_sid = sid, wc_multi = m2, wc_rtc = rtc_active s, wc_offset = off, wc_gate = gate\<rparr>,
               Ws_Json (typed ''welcome'' [(''session_id'', JNum sid)]) # out2 @ map Ws_Json msgs @ transported out3 @ transported out4 @
               map Abort_Task tasks @ [Spawn_Bridge bridge] @ out5 @ [Spawn_Events consumer] @ map Abort_Task old))"


section \<open>Messages of the browser\<close>

text \<open>
  What the loop needs from outside: the clock, whether the PTY accepts a resize, the parsing of a float in a
  string and the printing of a float with a number of decimals.
\<close>

record ws_env =
  env_now :: nat
  env_unix_secs :: nat
  env_resize_ok :: bool
  env_parse_f64 :: "string \<Rightarrow> u64 option"
  env_show_f64 :: "nat \<Rightarrow> u64 \<Rightarrow> string"

definition min_size :: "(u64 \<times> (u16 \<times> u16)) list \<Rightarrow> u16 \<times> u16" where
  "min_size sizes =
     (case map snd sizes of
        [] \<Rightarrow> (24, 80)
      | (r, c) # rest \<Rightarrow> (foldl min r (map fst rest), foldl min c (map snd rest)))"

definition resize_pty :: "bool \<Rightarrow> 'h web_state \<Rightarrow> 'h web_state \<times> 'h ws_output list" where
  "resize_pty resize_ok w =
     (let (rows, cols) = min_size (session_sizes w)
      in if pty_resizer w then (if resize_ok then w\<lparr>pty_size := (rows, cols)\<rparr> else w, [Resize_Pty rows cols]) else (w, []))"

definition on_resize :: "'v json_lib \<Rightarrow> bool \<Rightarrow> u64 \<Rightarrow> 'v \<Rightarrow> 'h web_state \<Rightarrow> 'h web_state \<times> 'h ws_output list" where
  "on_resize J resize_ok sid val w =
     (let rows = ucast (case get_u64 J val ''rows'' of Some r \<Rightarrow> r | None \<Rightarrow> 24) :: u16;
          cols = ucast (case get_u64 J val ''cols'' of Some c \<Rightarrow> c | None \<Rightarrow> 80) :: u16
      in if rows > 0 \<and> cols > 0
         then resize_pty resize_ok (w\<lparr>session_sizes := map_insert sid (rows, cols) (session_sizes w)\<rparr>)
         else (w, []))"

definition set_volume :: "'v json_lib \<Rightarrow> u64 \<Rightarrow> 'v \<Rightarrow> 'h web_state \<Rightarrow> 'h web_state" where
  "set_volume J sid val w =
     (case get_u64 J val ''volume'' of
        Some vol \<Rightarrow> w\<lparr>browser_volumes := map_insert sid (ucast (min vol 100)) (browser_volumes w)\<rparr>
      | None \<Rightarrow> w)"

definition set_audio_context :: "'v json_lib \<Rightarrow> u64 \<Rightarrow> 'v \<Rightarrow> 'h web_state \<Rightarrow> 'h web_state" where
  "set_audio_context J sid val w =
     (case get_bool J val ''audio_context'' of
        Some ac \<Rightarrow> w\<lparr>browser_audio_contexts := map_insert sid ac (browser_audio_contexts w)\<rparr>
      | None \<Rightarrow> w)"

definition set_user_agent :: "'v json_lib \<Rightarrow> u64 \<Rightarrow> 'v \<Rightarrow> 'h web_state \<Rightarrow> 'h web_state" where
  "set_user_agent J sid val w =
     (case get_str J val ''user_agent'' of
        Some ua \<Rightarrow> w\<lparr>browser_user_agents := map_insert sid ua (browser_user_agents w)\<rparr>
      | None \<Rightarrow> w)"

definition on_version :: "'v json_lib \<Rightarrow> u64 \<Rightarrow> 'v \<Rightarrow> 'h web_state \<Rightarrow> 'h web_state" where
  "on_version J sid val w =
     (let server_ver = (case get_str J val ''server_version'' of Some v \<Rightarrow> v | None \<Rightarrow> ''unknown'');
          display_ver = (case get_str J val ''js_version'' of Some v \<Rightarrow> v | None \<Rightarrow> server_ver)
      in w\<lparr>browser_versions := map_insert sid display_ver (browser_versions w)\<rparr>)"

text \<open>The first answer to an evaluation takes the single waiter; collectors get every answer.\<close>

definition on_eval_result :: "'v json_lib \<Rightarrow> u64 \<Rightarrow> 'v \<Rightarrow> 'h web_state \<Rightarrow> 'h web_state \<times> 'h ws_output list" where
  "on_eval_result J sid val w =
     (case get_str J val ''eval_id'' of
        None \<Rightarrow> (w, [])
      | Some eval_id \<Rightarrow>
          (let result = (case get_str J val ''result'' of Some r \<Rightarrow> r | None \<Rightarrow> [])
           in (w\<lparr>eval_pending := map_remove eval_id (eval_pending w)\<rparr>,
               (case map_of (eval_pending w) eval_id of Some tx \<Rightarrow> [Eval_Reply tx result] | None \<Rightarrow> []) @
               (case map_of (eval_multi w) eval_id of Some tx \<Rightarrow> [Multi_Reply tx sid result] | None \<Rightarrow> []))))"

definition on_browser_log :: "'v json_lib \<Rightarrow> 'v \<Rightarrow> 'h web_state \<Rightarrow> 'h web_state" where
  "on_browser_log J val w =
     (case get_array J val ''logs'' of
        None \<Rightarrow> w
      | Some logs \<Rightarrow>
          (let buf = browser_console w @ List.map_filter (json_str J) logs
           in w\<lparr>browser_console := (if length buf > 500 then drop (length buf - 500) buf else buf)\<rparr>))"

definition float_field :: "ws_env \<Rightarrow> 'v json_lib \<Rightarrow> 'v \<Rightarrow> string \<Rightarrow> u64" where
  "float_field env J val k =
     (case json_get J val k of
        None \<Rightarrow> 0
      | Some v \<Rightarrow>
          (case json_f64 J v of
             Some x \<Rightarrow> x
           | None \<Rightarrow> (case Option.bind (json_str J v) (env_parse_f64 env) of Some x \<Rightarrow> x | None \<Rightarrow> 0)))"

definition stt_lost_text :: "ws_env \<Rightarrow> 'v json_lib \<Rightarrow> 'v \<Rightarrow> string" where
  "stt_lost_text env J val =
     ''[TRANSCRIPTION LOST] seq='' @ show_nat (unat (case get_u64 J val ''seq'' of Some n \<Rightarrow> n | None \<Rightarrow> 0)) @
     '' duration='' @ env_show_f64 env 1 (float_field env J val ''duration'') @
     ''s energy='' @ env_show_f64 env 0 (float_field env J val ''energy'') @
     of_bytes [0x20, 0xE2, 0x80, 0x94] @ '' audio saved to daemon for recovery''"

text \<open>\<open>s.chars().take(n)\<close> on UTF-8: a continuation byte belongs to the character before it.\<close>

fun take_chars :: "nat \<Rightarrow> bytes \<Rightarrow> bytes" where
  "take_chars n [] = []"
| "take_chars n (b # bs) =
     (if cont b then b # take_chars n bs
      else case n of 0 \<Rightarrow> [] | Suc k \<Rightarrow> b # take_chars k bs)"

definition on_tts_lost :: "ws_env \<Rightarrow> 'v json_lib \<Rightarrow> 'v \<Rightarrow> 'h web_state \<Rightarrow> 'h ws_output list" where
  "on_tts_lost env J val w =
     (let or = (\<lambda>k d. case get_str J val k of Some x \<Rightarrow> x | None \<Rightarrow> d);
          msg_id = or ''msg_id'' ''unknown''
      in if msg_id \<in> set (played_tts w) then []
         else
           let txt = or ''text'' [];
               filename = msg_id @ ''_'' @ show_nat (env_unix_secs env) @ ''.txt'';
               msg = ''[TTS LOST] msg='' @ msg_id @ '' stage='' @ or ''stage'' ''unknown'' @ '' error='' @ or ''error'' ''unknown'' @
                     '' file=~/.b3/lost-tts/'' @ filename @ '' text='' @ [CHR 0x22] @ of_bytes (take_chars 100 (ascii txt)) @
                     (if length txt > 100 then ''...'' else []) @ [CHR 0x22]
           in [Save_Lost filename txt, Daemon_Event (Transcription msg)])"

definition on_telemetry :: "'v json_lib \<Rightarrow> 'v \<Rightarrow> 'h web_state \<Rightarrow> 'h web_state" where
  "on_telemetry J val w =
     (case Option.bind (json_get J val ''daemon'') (\<lambda>d. get_u64 J d ''frames_in'') of
        Some fi \<Rightarrow> w\<lparr>browser_frames_in := fi\<rparr>
      | None \<Rightarrow> w)"

text \<open>The dispatch on \<open>type\<close> for a text that starts with \<open>{\<close> and parses; anything unknown is dropped.\<close>

definition control_message ::
  "ws_env \<Rightarrow> 'v json_lib \<Rightarrow> 'v \<Rightarrow> 'h ws_conn \<Rightarrow> 'h web_state \<Rightarrow> 'h ws_conn \<times> 'h web_state \<times> 'h ws_output list" where
  "control_message env J val c w =
     (let ty = get_str J val ''type''; sid = wc_sid c
      in if ty = Some ''resize'' then (c, on_resize J (env_resize_ok env) sid val w)
         else if ty = Some ''pong'' then (c, w, [])
         else if ty = Some ''echo_ping'' then
           (c, w, [Ws_Json (typed ''echo_pong'' [(''id'', JStr (case get_str J val ''id'' of Some i \<Rightarrow> i | None \<Rightarrow> []))])])
         else if ty = Some ''version'' then (c, on_version J sid val w, [])
         else if ty = Some ''browser_info'' then
           (c, set_audio_context J sid val (set_volume J sid val (set_user_agent J sid val w)), [])
         else if ty = Some ''volume_change'' then (c, set_volume J sid val w, [])
         else if ty = Some ''audio_context_change'' then (c, set_audio_context J sid val w, [])
         else if ty = Some ''eval_result'' then (c, on_eval_result J sid val w)
         else if ty = Some ''disconnect'' then (c, w, [])
         else if ty = Some ''telemetry'' then (c, on_telemetry J val w, [])
         else if ty = Some ''browser_log'' then (c, on_browser_log J val w, [])
         else if ty = Some ''stt_lost'' then (c, w, [Daemon_Event (Transcription (stt_lost_text env J val))])
         else if ty = Some ''tts_lost'' then (c, w, on_tts_lost env J val w)
         else if ty = Some ''rtc_inactive'' then
           (let (m, out) = remove_transport ''rtc'' (wc_multi c) in (c\<lparr>wc_rtc := False, wc_multi := m\<rparr>, w, transported out))
         else (c, w, []))"

definition ws_text ::
  "ws_env \<Rightarrow> 'v json_lib \<Rightarrow> bytes \<Rightarrow> 'h ws_conn \<Rightarrow> 'h web_state \<Rightarrow> 'h ws_conn \<times> 'h web_state \<times> 'h ws_output list" where
  "ws_text env J txt c w =
     (if txt = [] then (c, w, [])
      else if starts_with txt (ascii ''{'') then
        (case json_parse J txt of None \<Rightarrow> (c, w, []) | Some val \<Rightarrow> control_message env J val c w)
      else (c, w, [Daemon_Event (Pty_Input (of_bytes txt))]))"

text \<open>One frame of the loop; the result says whether the loop goes on. The end of the stream is \<open>None\<close>.\<close>

definition ws_frame_step ::
  "ws_env \<Rightarrow> 'v json_lib \<Rightarrow> (bytes \<Rightarrow> u32) \<Rightarrow> (nat \<Rightarrow> u32) \<Rightarrow> ws_frame option \<Rightarrow> 'h ws_conn \<Rightarrow> 'h web_state
     \<Rightarrow> ('h ws_conn \<times> 'h web_state \<times> 'h ws_output list) \<times> bool" where
  "ws_frame_step env J crc clk f c w =
     (let w1 = w\<lparr>session_last_seen := map_insert (wc_sid c) (env_now env) (session_last_seen w)\<rparr>
      in case f of
           Some (Frame_Binary data) \<Rightarrow>
             (let (m, out) = (if is_reliable data
                              then (let (m', ms, o') = multi_receive crc clk data (wc_multi c) in (m', transported o'))
                              else (wc_multi c, []))
              in ((c\<lparr>wc_multi := m, wc_gate := False\<rparr>, w1, out @ (if wc_gate c then [Open_Gate] else [])), True))
         | Some (Frame_Text txt) \<Rightarrow> (ws_text env J txt c w1, True)
         | Some Frame_Close \<Rightarrow> ((c, w1, []), False)
         | None \<Rightarrow> ((c, w1, []), False)
         | Some _ \<Rightarrow> ((c, w1, []), True))"

text \<open>The cleanup, and the timer it starts: after so many seconds a session without transports is removed.\<close>

definition ws_cleanup :: "bool \<Rightarrow> 'h ws_conn \<Rightarrow> 'h web_state \<Rightarrow> 'h ws_conn \<times> 'h web_state \<times> 'h ws_output list \<times> nat" where
  "ws_cleanup resize_ok c w =
     (let (m, out) = remove_transport ''ws'' (wc_multi c);
          timeout_secs = (if wc_rtc c then 1800 else 300);
          w1 = w\<lparr>session_sizes := map_remove (wc_sid c) (session_sizes w),
                 browser_versions := map_remove (wc_sid c) (browser_versions w),
                 browser_user_agents := map_remove (wc_sid c) (browser_user_agents w),
                 browser_volumes := map_remove (wc_sid c) (browser_volumes w),
                 browser_audio_contexts := map_remove (wc_sid c) (browser_audio_contexts w),
                 session_last_seen := map_remove (wc_sid c) (session_last_seen w)\<rparr>;
          (w2, out2) = (if session_sizes w1 \<noteq> [] then resize_pty resize_ok w1 else (w1, []))
      in (c\<lparr>wc_multi := m\<rparr>, w2, transported out @ out2, timeout_secs))"

definition ws_expire :: "u64 \<Rightarrow> 'h multi_transport \<Rightarrow> 'h web_state \<Rightarrow> 'h web_state \<times> 'h ws_output list" where
  "ws_expire sid m w =
     (if sink_count m = 0
      then let (sm, tasks) = remove_session sid (session_manager w) in (w\<lparr>session_manager := sm\<rparr>, map Abort_Task tasks)
      else (w, []))"


section \<open>A whole connection\<close>

text \<open>
  \<open>envs\<close> and \<open>clk\<close> give the environment and the clock of each turn, by the number of frames still to come.
\<close>

fun ws_loop ::
  "(nat \<Rightarrow> ws_env) \<Rightarrow> 'v json_lib \<Rightarrow> (bytes \<Rightarrow> u32) \<Rightarrow> (nat \<Rightarrow> nat \<Rightarrow> u32) \<Rightarrow> ws_frame list \<Rightarrow> 'h ws_conn \<Rightarrow> 'h web_state
     \<Rightarrow> 'h ws_conn \<times> 'h web_state \<times> 'h ws_output list" where
  "ws_loop envs J crc clk [] c w = fst (ws_frame_step (envs 0) J crc (clk 0) None c w)"
| "ws_loop envs J crc clk (f # fs) c w =
     (case ws_frame_step (envs (Suc (length fs))) J crc (clk (Suc (length fs))) (Some f) c w of
        ((c1, w1, out1), goes_on) \<Rightarrow>
          (if goes_on then (case ws_loop envs J crc clk fs c1 w1 of (c2, w2, out2) \<Rightarrow> (c2, w2, out1 @ out2))
           else (c1, w1, out1)))"

text \<open>Everything after authentication.\<close>

definition ws_serve ::
  "(nat \<Rightarrow> ws_env) \<Rightarrow> 'v json_lib \<Rightarrow> (bytes \<Rightarrow> u32) \<Rightarrow> (bytes \<Rightarrow> string) \<Rightarrow> (nat \<Rightarrow> nat \<Rightarrow> u32) \<Rightarrow> nat \<times> nat \<times> nat \<Rightarrow> 'h \<Rightarrow> bool
     \<Rightarrow> u64 option \<Rightarrow> bytes list \<Rightarrow> ws_frame list \<Rightarrow> 'h web_state \<Rightarrow> 'h web_state \<times> 'h ws_output list" where
  "ws_serve envs J crc b64 clk names h init_ok client_sid pre frames w =
     (case client_sid of
        None \<Rightarrow> (w, [Ws_Json (typed ''error'' [(''message'', JStr ''session_id query param required'')])])
      | Some sid \<Rightarrow>
          (case names of (chan, bridge, consumer) \<Rightarrow>
           (case ws_setup crc b64 clk (env_now (envs (length frames))) chan bridge consumer h init_ok sid pre w of
              (w1, None, out1) \<Rightarrow> (w1, out1)
            | (w1, Some c1, out1) \<Rightarrow>
                (case ws_loop envs J crc clk frames c1 w1 of
                   (c2, w2, out2) \<Rightarrow>
                     (case ws_cleanup (env_resize_ok (envs 0)) c2 w2 of (c3, w3, out3, timeout_secs) \<Rightarrow> (w3, out1 @ out2 @ out3)))))) "

definition ws_connection ::
  "(nat \<Rightarrow> ws_env) \<Rightarrow> 'v json_lib \<Rightarrow> (string \<Rightarrow> string \<Rightarrow> bool) \<Rightarrow> (bytes \<Rightarrow> u32) \<Rightarrow> (bytes \<Rightarrow> string) \<Rightarrow> (nat \<Rightarrow> nat \<Rightarrow> u32)
     \<Rightarrow> nat \<times> nat \<times> nat \<Rightarrow> 'h \<Rightarrow> bool \<Rightarrow> bool \<Rightarrow> string option \<Rightarrow> u64 option \<Rightarrow> ws_frame list \<Rightarrow> 'h web_state
     \<Rightarrow> 'h web_state \<times> 'h ws_output list" where
  "ws_connection envs J argon2 crc b64 clk names h challenge_ok init_ok password_hash client_sid frames w =
     (case ws_authenticate J argon2 password_hash challenge_ok frames of
        (ok, pre, msgs, rest) \<Rightarrow>
          (if \<not> ok then (w, map Ws_Json msgs)
           else (case ws_serve envs J crc b64 clk names h init_ok client_sid pre rest w of
                   (w', out) \<Rightarrow> (w', map Ws_Json msgs @ out))))"


section \<open>The password\<close>

definition correct_auth :: "'v json_lib \<Rightarrow> (string \<Rightarrow> string \<Rightarrow> bool) \<Rightarrow> string \<Rightarrow> ws_frame \<Rightarrow> bool" where
  "correct_auth J argon2 pw_hash f \<longleftrightarrow>
     (\<exists>txt val pw. f = Frame_Text txt \<and> json_parse J txt = Some val \<and> get_str J val ''type'' = Some ''auth'' \<and>
        get_str J val ''password'' = Some pw \<and> verify_daemon_password argon2 pw pw_hash)"

definition ends :: "ws_frame \<Rightarrow> bool" where
  "ends f \<longleftrightarrow> f = Frame_Close \<or> f = Frame_Error"

definition binaries :: "ws_frame list \<Rightarrow> bytes list" where
  "binaries fs = List.map_filter (\<lambda>f. case f of Frame_Binary d \<Rightarrow> Some d | _ \<Rightarrow> None) fs"

definition auth_failed :: json_tree where
  "auth_failed = typed ''auth_failed'' [(''error'', JStr ''Invalid daemon password'')]"

lemma auth_loop_rejects:
  "\<forall>f \<in> set (takeWhile (\<lambda>f. \<not> ends f) fs). \<not> correct_auth J argon2 h f \<Longrightarrow>
   \<exists>pre' k rest. auth_loop J argon2 h fs pre = (False, pre', replicate k auth_failed, rest)"
proof (induction J argon2 h fs pre rule: auth_loop.induct)
  case (2 J argon2 h t fs pre)
  show ?case
  proof (cases "json_parse J t")
    case None
    with 2 show ?thesis by (simp add: ends_def)
  next
    case (Some val)
    show ?thesis
    proof (cases "get_str J val ''type'' = Some ''auth''")
      case False
      with 2 Some show ?thesis by (simp add: ends_def)
    next
      case True
      let ?ok = "case get_str J val ''password'' of Some pw \<Rightarrow> verify_daemon_password argon2 pw h | None \<Rightarrow> False"
      have no: "\<not> ?ok" using "2.prems" Some True by (auto simp: ends_def correct_auth_def split: option.splits)
      obtain pre' k rest where "auth_loop J argon2 h fs pre = (False, pre', replicate k auth_failed, rest)"
        using "2.IH"(2) [OF Some True no] "2.prems" by (auto simp: ends_def)
      with Some True no show ?thesis
        by (auto simp: auth_failed_def intro!: exI [of _ "Suc k"])
    qed
  qed
qed (auto simp: ends_def intro: exI [of _ 0])

lemma auth_loop_accepts:
  "\<forall>f \<in> set us. \<not> correct_auth J argon2 h f \<and> \<not> ends f \<Longrightarrow> correct_auth J argon2 h g \<Longrightarrow>
   \<exists>k. auth_loop J argon2 h (us @ g # vs) pre = (True, pre @ binaries us, replicate k auth_failed, vs)"
proof (induction us arbitrary: pre)
  case Nil
  then obtain t val pw where "g = Frame_Text t" "json_parse J t = Some val" "get_str J val ''type'' = Some ''auth''"
    "get_str J val ''password'' = Some pw" "verify_daemon_password argon2 pw h" by (auto simp: correct_auth_def)
  then show ?case by (simp add: binaries_def map_filter_simps)
next
  case (Cons f us)
  have ih: "\<exists>k. auth_loop J argon2 h (us @ g # vs) pre = (True, pre @ binaries us, replicate k auth_failed, vs)" for pre
    using Cons by simp
  show ?case
  proof (cases f)
    case (Frame_Text t)
    have b: "binaries (f # us) = binaries us" using Frame_Text by (simp add: binaries_def map_filter_simps)
    show ?thesis
    proof (cases "\<exists>val. json_parse J t = Some val \<and> get_str J val ''type'' = Some ''auth''")
      case False
      with ih [of pre] Frame_Text b show ?thesis by (auto split: option.splits)
    next
      case True
      then obtain val where v: "json_parse J t = Some val" "get_str J val ''type'' = Some ''auth''" by blast
      have "\<not> (case get_str J val ''password'' of Some pw \<Rightarrow> verify_daemon_password argon2 pw h | None \<Rightarrow> False)"
        using Cons.prems(1) Frame_Text v by (auto simp: correct_auth_def split: option.splits)
      moreover obtain k where "auth_loop J argon2 h (us @ g # vs) pre = (True, pre @ binaries us, replicate k auth_failed, vs)"
        using ih by blast
      ultimately show ?thesis using Frame_Text v b by (auto simp: auth_failed_def intro!: exI [of _ "Suc k"])
    qed
  next
    case (Frame_Binary d)
    with ih [of "pre @ [d]"] show ?thesis by (simp add: binaries_def map_filter_simps)
  next
    case Frame_Other
    with ih [of pre] show ?thesis by (simp add: binaries_def map_filter_simps)
  qed (use Cons.prems(1) in \<open>simp_all add: ends_def\<close>)
qed

text \<open>
  \<^bold>\<open>C18\<close>. The daemon's password guards the terminal. While a password is set, a browser that does not send it
  before it closes, whatever else it sends, changes nothing of the daemon's state and is sent nothing but the
  challenge and refusals: no terminal contents, no session, no input to the PTY. After the first correct
  password the connection is served exactly as one without a password would be that starts with the frames
  still to come, except that the binary frames sent too early are replayed to the session, all and in order.
\<close>

theorem ws_password_gate:
  fixes w :: "'h web_state"
  assumes conn: "ws_connection envs J argon2 crc b64 clk names h challenge_ok init_ok (Some pw_hash) sid frames w = (w', out)"
  shows "((\<forall>f \<in> set (takeWhile (\<lambda>f. \<not> ends f) frames). \<not> correct_auth J argon2 pw_hash f) \<longrightarrow>
      w' = w \<and> set out \<subseteq> {Ws_Json (typed ''auth_required'' []), Ws_Json auth_failed}) \<and>
    (\<forall>us g vs. challenge_ok \<and> frames = us @ g # vs \<and> (\<forall>f \<in> set us. \<not> correct_auth J argon2 pw_hash f \<and> \<not> ends f) \<and>
        correct_auth J argon2 pw_hash g \<longrightarrow>
      (\<exists>k served. ws_serve envs J crc b64 clk names h init_ok sid (binaries us) vs w = (w', served) \<and>
         out = Ws_Json (typed ''auth_required'' []) # replicate k (Ws_Json auth_failed) @ Ws_Json (typed ''auth_ok'' []) # served))"
proof (intro conjI impI allI)
  assume no: "\<forall>f \<in> set (takeWhile (\<lambda>f. \<not> ends f) frames). \<not> correct_auth J argon2 pw_hash f"
  obtain pre' k rest where a: "auth_loop J argon2 pw_hash frames [] = (False, pre', replicate k auth_failed, rest)"
    using auth_loop_rejects [OF no] by blast
  with conn have "w' = w" "out = (if challenge_ok then map Ws_Json (typed ''auth_required'' [] # replicate k auth_failed) else [])"
    by (auto simp: ws_connection_def ws_authenticate_def split: if_splits)
  then show "w' = w" "set out \<subseteq> {Ws_Json (typed ''auth_required'' []), Ws_Json auth_failed}"
    by auto
next
  fix us g vs
  assume a: "challenge_ok \<and> frames = us @ g # vs \<and> (\<forall>f \<in> set us. \<not> correct_auth J argon2 pw_hash f \<and> \<not> ends f) \<and>
    correct_auth J argon2 pw_hash g"
  then obtain k where "auth_loop J argon2 pw_hash frames [] = (True, binaries us, replicate k auth_failed, vs)"
    using auth_loop_accepts [of us J argon2 pw_hash g vs "[]"] by auto
  moreover obtain w2 served where s: "ws_serve envs J crc b64 clk names h init_ok sid (binaries us) vs w = (w2, served)"
    by fastforce
  ultimately have "w' = w2" "out = Ws_Json (typed ''auth_required'' []) # replicate k (Ws_Json auth_failed) @ Ws_Json (typed ''auth_ok'' []) # served"
    using conn a by (simp_all add: ws_connection_def ws_authenticate_def)
  with s show "\<exists>k served. ws_serve envs J crc b64 clk names h init_ok sid (binaries us) vs w = (w', served) \<and>
      out = Ws_Json (typed ''auth_required'' []) # replicate k (Ws_Json auth_failed) @ Ws_Json (typed ''auth_ok'' []) # served"
    by blast
qed

definition toy_web_state :: "nat web_state" where
  "toy_web_state =
     \<lparr>session_manager = manager_new, session_store = None, session_last_seen = [], session_sizes = [], pty_size = (24, 80),
      pty_resizer = True, browser_versions = [], browser_user_agents = [], browser_volumes = [], browser_audio_contexts = [],
      eval_pending = [], eval_multi = [], browser_console = [], played_tts = [], browser_frames_in = 0\<rparr>"

definition auth_json :: "json_tree json_lib" where
  "auth_json = tree_lib (\<lambda>bs. if bs = [] then None
     else Some (JObj [(''type'', JStr ''auth''), (''password'', JStr (of_bytes bs))]))"

definition toy_env :: "nat \<Rightarrow> ws_env" where
  "toy_env n = \<lparr>env_now = n, env_unix_secs = 0, env_resize_ok = True, env_parse_f64 = (\<lambda>_. None), env_show_f64 = (\<lambda>_ _. ''0'')\<rparr>"

theorem ws_password_gate_witness:
  "ws_connection toy_env auth_json (\<lambda>pw hash. pw = ''ok'') (\<lambda>_. 0) of_bytes (\<lambda>_ _. 0) (1, 2, 3) 9 True True (Some ''$argon2id'') (Some 7)
     [Frame_Binary [1], Frame_Text (ascii ''no''), Frame_Close, Frame_Text (ascii ''ok'')] toy_web_state =
   (toy_web_state, [Ws_Json (typed ''auth_required'' []), Ws_Json auth_failed]) \<and>
   (\<exists>w' out served. ws_connection toy_env auth_json (\<lambda>pw hash. pw = ''ok'') (\<lambda>_. 0) of_bytes (\<lambda>_ _. 0) (1, 2, 3) 9 True True (Some ''$argon2id'') None
     [Frame_Binary [1], Frame_Text (ascii ''ok''), Frame_Text [104]] toy_web_state = (w', out) \<and>
     ws_serve toy_env auth_json (\<lambda>_. 0) of_bytes (\<lambda>_ _. 0) (1, 2, 3) 9 True None [[1]] [Frame_Text [104]] toy_web_state = (w', served))"
proof -
  have p: "(ascii ''no'' = []) = False" "(ascii ''ok'' = []) = False" "of_bytes (ascii ''no'') = ''no''" "of_bytes (ascii ''ok'') = ''ok''"
    by code_simp+
  have no: "\<not> correct_auth auth_json (\<lambda>pw hash. pw = ''ok'') ''$argon2id'' (Frame_Text (ascii ''no''))"
    and yes: "correct_auth auth_json (\<lambda>pw hash. pw = ''ok'') ''$argon2id'' (Frame_Text (ascii ''ok''))"
    by (simp_all add: correct_auth_def auth_json_def tree_lib_def json_access verify_daemon_password_def p)
  have no_bin: "\<not> correct_auth auth_json (\<lambda>pw hash. pw = ''ok'') ''$argon2id'' (Frame_Binary [1])" by (simp add: correct_auth_def)
  obtain w1 o1 where c1: "ws_connection toy_env auth_json (\<lambda>pw hash. pw = ''ok'') (\<lambda>_. 0) of_bytes (\<lambda>_ _. 0) (1, 2, 3) (9 :: nat) True True
      (Some ''$argon2id'') (Some 7) [Frame_Binary [1], Frame_Text (ascii ''no''), Frame_Close, Frame_Text (ascii ''ok'')] toy_web_state = (w1, o1)"
    by fastforce
  obtain w2 o2 where c2: "ws_connection toy_env auth_json (\<lambda>pw hash. pw = ''ok'') (\<lambda>_. 0) of_bytes (\<lambda>_ _. 0) (1, 2, 3) (9 :: nat) True True
      (Some ''$argon2id'') None [Frame_Binary [1], Frame_Text (ascii ''ok''), Frame_Text [104]] toy_web_state = (w2, o2)"
    by fastforce
  have "w1 = toy_web_state"
    using ws_password_gate [OF c1] no no_bin by (simp add: ends_def)
  moreover have "o1 = [Ws_Json (typed ''auth_required'' []), Ws_Json auth_failed]"
    using c1 by (simp add: ws_connection_def ws_authenticate_def auth_json_def tree_lib_def json_access verify_daemon_password_def p auth_failed_def)
  moreover have "\<exists>served. ws_serve toy_env auth_json (\<lambda>_. 0) of_bytes (\<lambda>_ _. 0) (1, 2, 3) 9 True None [[1]] [Frame_Text [104]] toy_web_state = (w2, served)"
    using conjunct2 [OF ws_password_gate [OF c2], rule_format, of "[Frame_Binary [1]]" "Frame_Text (ascii ''ok'')" "[Frame_Text [104]]"] yes no_bin
    by (auto simp: ends_def binaries_def map_filter_simps)
  ultimately show ?thesis using c1 c2 by blast
qed


section \<open>The size of the terminal\<close>

text \<open>Frames and cleanups of any connections, in any order.\<close>

datatype ('h, 'v) web_event =
    Web_Frame ws_env "nat \<Rightarrow> u32" "ws_frame option" "'h ws_conn"
  | Web_Cleanup "'h ws_conn"

fun web_step ::
  "'v json_lib \<Rightarrow> (bytes \<Rightarrow> u32) \<Rightarrow> 'h web_state \<Rightarrow> ('h, 'v) web_event \<Rightarrow> 'h web_state" where
  "web_step J crc w (Web_Frame env clk f c) = (case ws_frame_step env J crc clk f c w of ((c', w', out), _) \<Rightarrow> w')"
| "web_step J crc w (Web_Cleanup c) = (case ws_cleanup True c w of (c', w', _) \<Rightarrow> w')"

definition resizes :: "('h, 'v) web_event \<Rightarrow> bool" where
  "resizes e = (case e of Web_Frame env _ _ _ \<Rightarrow> env_resize_ok env | Web_Cleanup _ \<Rightarrow> True)"

definition fits :: "u16 \<times> u16 \<Rightarrow> (u64, u16 \<times> u16) rmap \<Rightarrow> bool" where
  "fits sz sizes \<longleftrightarrow>
     (\<forall>(i, r, c) \<in> set sizes. fst sz \<le> r \<and> snd sz \<le> c) \<and>
     (sizes \<noteq> [] \<longrightarrow> fst sz \<in> (\<lambda>(i, r, c). r) ` set sizes \<and> snd sz \<in> (\<lambda>(i, r, c). c) ` set sizes)"

definition sizes_pos :: "(u64, u16 \<times> u16) rmap \<Rightarrow> bool" where
  "sizes_pos sizes \<longleftrightarrow> (\<forall>(i, r, c) \<in> set sizes. 0 < r \<and> 0 < c)"

definition web_inv :: "'h web_state \<Rightarrow> bool" where
  "web_inv w \<longleftrightarrow> pty_resizer w \<and> fits (pty_size w) (session_sizes w) \<and> sizes_pos (session_sizes w) \<and>
     length (browser_console w) \<le> 500 \<and> (\<forall>v \<in> snd ` set (browser_volumes w). v \<le> 100)"

lemma foldl_min:
  "foldl min (a :: 'a :: linorder) xs \<le> a \<and> (\<forall>x \<in> set xs. foldl min a xs \<le> x) \<and> foldl min a xs \<in> insert a (set xs)"
proof (induction xs arbitrary: a)
  case (Cons x xs)
  from Cons.IH [of "min a x"] show ?case by (auto simp: min_def split: if_splits)
qed simp

lemma min_size_fits: "fits (min_size sizes) sizes"
proof (cases sizes)
  case Nil
  then show ?thesis by (simp add: fits_def)
next
  case (Cons e rest)
  obtain i r c where e: "e = (i, r, c)" by (cases e)
  let ?rs = "map fst (map snd rest)" and ?cs = "map snd (map snd rest)"
  have m: "min_size sizes = (foldl min r ?rs, foldl min c ?cs)" using Cons e by (simp add: min_size_def)
  have "foldl min r ?rs \<in> insert r (set ?rs)" "foldl min c ?cs \<in> insert c (set ?cs)"
    using foldl_min by blast+
  moreover have "insert r (set ?rs) = (\<lambda>(i, r, c). r) ` set sizes" "insert c (set ?cs) = (\<lambda>(i, r, c). c) ` set sizes"
    using Cons e by (force simp: image_iff)+
  moreover have "foldl min r ?rs \<le> r' \<and> foldl min c ?cs \<le> c'" if "(i', r', c') \<in> set sizes" for i' r' c'
    using that Cons e foldl_min [of r ?rs] foldl_min [of c ?cs] by force
  ultimately show ?thesis by (auto simp: fits_def m)
qed

lemma fits_pos: "fits sz m \<Longrightarrow> sizes_pos m \<Longrightarrow> e \<in> set m \<Longrightarrow> 0 < fst sz \<and> 0 < snd sz"
proof -
  assume "fits sz m" "sizes_pos m" "e \<in> set m"
  then obtain i r c i' r' c' where "(i, r, c) \<in> set m" "fst sz = r" "(i', r', c') \<in> set m" "snd sz = c'"
    by (auto simp: fits_def)
  with \<open>sizes_pos m\<close> show ?thesis by (auto simp: sizes_pos_def)
qed

lemma set_map_insert: "set (map_insert k v m) \<subseteq> insert (k, v) (set m)"
  unfolding map_insert_def by (induction m) auto

lemma set_map_remove: "set (map_remove k m) \<subseteq> set m"
  by (auto simp: map_remove_def AList.delete_eq)

lemma web_inv_cong:
  "web_inv w \<Longrightarrow> pty_resizer w' = pty_resizer w \<Longrightarrow> pty_size w' = pty_size w \<Longrightarrow> session_sizes w' = session_sizes w \<Longrightarrow>
   browser_console w' = browser_console w \<Longrightarrow> browser_volumes w' = browser_volumes w \<Longrightarrow> web_inv w'"
  by (simp add: web_inv_def)

lemma resize_pty_inv:
  assumes "pty_resizer w" "sizes_pos (session_sizes w)" "length (browser_console w) \<le> 500" "\<forall>v \<in> snd ` set (browser_volumes w). v \<le> 100"
  shows "web_inv (fst (resize_pty True w))"
proof (cases "min_size (session_sizes w)")
  case (Pair r c)
  with assms min_size_fits [of "session_sizes w"] show ?thesis by (simp add: resize_pty_def web_inv_def)
qed

lemma sizes_pos_insert: "sizes_pos m \<Longrightarrow> 0 < r \<Longrightarrow> 0 < c \<Longrightarrow> sizes_pos (map_insert k (r, c) m)"
  using set_map_insert [of k "(r, c)" m] unfolding sizes_pos_def by fastforce

lemma on_resize_inv: "web_inv w \<Longrightarrow> web_inv (fst (on_resize J True sid val w))"
proof -
  assume w: "web_inv w"
  obtain rows cols where "on_resize J True sid val w =
      (if rows > 0 \<and> cols > 0 then resize_pty True (w\<lparr>session_sizes := map_insert sid (rows, cols) (session_sizes w)\<rparr>) else (w, []))"
    by (simp add: on_resize_def Let_def)
  moreover have "web_inv (fst (resize_pty True (w\<lparr>session_sizes := map_insert sid (rows, cols) (session_sizes w)\<rparr>)))" if "rows > 0" "cols > 0"
    by (rule resize_pty_inv) (use w that sizes_pos_insert in \<open>simp_all add: web_inv_def\<close>)
  ultimately show ?thesis using w by simp
qed

lemma volume_bound: "ucast (min v 100 :: u64) \<le> (100 :: u8)"
proof -
  have "unat (min v 100) \<le> 100" by (simp add: min_def word_le_nat_alt)
  then show ?thesis by (simp add: word_le_nat_alt unsigned_ucast_eq take_bit_nat_eq_self)
qed

lemma set_volume_inv: "web_inv w \<Longrightarrow> web_inv (set_volume J sid val w)"
proof -
  assume w: "web_inv w"
  have "\<forall>x \<in> snd ` set (map_insert sid (ucast (min v 100)) (browser_volumes w)). x \<le> 100" for v :: u64
    using set_map_insert [of sid "ucast (min v 100)" "browser_volumes w"] w volume_bound [of v] unfolding web_inv_def by fastforce
  with w show ?thesis by (simp add: set_volume_def web_inv_def split: option.splits)
qed

lemma ring_bound: "length (if length buf > n then drop (length buf - n) buf else buf) \<le> n"
  by simp

lemma on_browser_log_inv: "web_inv w \<Longrightarrow> web_inv (on_browser_log J val w)"
proof (cases "get_array J val ''logs''")
  case (Some logs)
  assume w: "web_inv w"
  let ?buf = "browser_console w @ List.map_filter (json_str J) logs"
  have "on_browser_log J val w = w\<lparr>browser_console := (if length ?buf > 500 then drop (length ?buf - 500) ?buf else ?buf)\<rparr>"
    by (simp only: on_browser_log_def Some option.case Let_def)
  moreover have "web_inv (w\<lparr>browser_console := buf\<rparr>)" if "length buf \<le> 500" for buf using w that by (simp add: web_inv_def)
  ultimately show ?thesis using ring_bound [where n = 500 and buf = ?buf] by (simp only:)
qed (simp add: on_browser_log_def)

lemma small_steps_inv:
  assumes "web_inv w"
  shows "web_inv (set_audio_context J sid val w)" "web_inv (set_user_agent J sid val w)" "web_inv (on_version J sid val w)"
    "web_inv (fst (on_eval_result J sid val w))" "web_inv (on_telemetry J val w)"
    "web_inv (w\<lparr>session_last_seen := ls\<rparr>)"
  by (rule web_inv_cong [OF assms];
      simp add: set_audio_context_def set_user_agent_def on_version_def on_eval_result_def on_telemetry_def Let_def split: option.split)+

lemma control_message_inv:
  assumes "web_inv w" and "env_resize_ok env"
  shows "web_inv (fst (snd (control_message env J val c w)))"
  using assms by (simp add: control_message_def Let_def split_def on_resize_inv set_volume_inv small_steps_inv on_browser_log_inv)

lemma ws_frame_inv:
  assumes "web_inv w" and "env_resize_ok env"
  shows "web_inv (fst (snd (fst (ws_frame_step env J crc clk f c w))))"
proof -
  let ?w = "w\<lparr>session_last_seen := map_insert (wc_sid c) (env_now env) (session_last_seen w)\<rparr>"
  have w: "web_inv ?w" by (rule small_steps_inv(6) [OF assms(1)])
  have "web_inv (fst (snd (ws_text env J t c ?w)))" for t
    using w assms(2) by (simp add: ws_text_def control_message_inv split: option.split)
  with w show ?thesis by (cases f) (simp_all add: ws_frame_step_def Let_def split: ws_frame.split prod.split)
qed

lemma ws_cleanup_inv: "web_inv w \<Longrightarrow> web_inv (fst (snd (ws_cleanup True c w)))"
proof -
  assume w: "web_inv w"
  let ?w = "w\<lparr>session_sizes := map_remove (wc_sid c) (session_sizes w),
                 browser_versions := map_remove (wc_sid c) (browser_versions w),
                 browser_user_agents := map_remove (wc_sid c) (browser_user_agents w),
                 browser_volumes := map_remove (wc_sid c) (browser_volumes w),
                 browser_audio_contexts := map_remove (wc_sid c) (browser_audio_contexts w),
                 session_last_seen := map_remove (wc_sid c) (session_last_seen w)\<rparr>"
  have "sizes_pos (session_sizes ?w)" "\<forall>v \<in> snd ` set (browser_volumes ?w). v \<le> 100"
    using w set_map_remove [of "wc_sid c" "session_sizes w"] set_map_remove [of "wc_sid c" "browser_volumes w"]
    by (auto simp: web_inv_def sizes_pos_def dest!: subsetD)
  then have "web_inv (fst (resize_pty True ?w))" and "session_sizes ?w = [] \<Longrightarrow> web_inv ?w"
    using w resize_pty_inv [of ?w] by (simp_all add: web_inv_def fits_def)
  then show ?thesis by (simp add: ws_cleanup_def Let_def split_def)
qed

text \<open>
  The terminal fits every browser. Start from a state in which no browser has reported a size, let any
  number of connections send any frames and end in any order, with resizes of the PTY that succeed: its size
  is then the smallest number of rows and of columns reported by a browser that is still connected, both
  positive, while there is one. The log kept for the browsers never exceeds 500 lines and every volume is at
  most 100.
\<close>

theorem pty_fits_all_browsers:
  assumes "pty_resizer w" and "session_sizes w = []" and "browser_console w = []" and "browser_volumes w = []"
    and "\<forall>e \<in> set es. resizes e"
  shows "(let w' = foldl (web_step J crc) w es
          in (\<forall>(i, rows, cols) \<in> set (session_sizes w').
                0 < fst (pty_size w') \<and> fst (pty_size w') \<le> rows \<and> 0 < snd (pty_size w') \<and> snd (pty_size w') \<le> cols) \<and>
             (session_sizes w' \<noteq> [] \<longrightarrow>
                fst (pty_size w') \<in> (\<lambda>(i, rows, cols). rows) ` set (session_sizes w') \<and>
                snd (pty_size w') \<in> (\<lambda>(i, rows, cols). cols) ` set (session_sizes w')) \<and>
             length (browser_console w') \<le> 500 \<and> (\<forall>(i, vol) \<in> set (browser_volumes w'). vol \<le> 100))"
proof -
  have "web_inv w" using assms by (simp add: web_inv_def fits_def sizes_pos_def)
  then have "web_inv (foldl (web_step J crc) w es)"
    using assms(5)
  proof (induction es arbitrary: w)
    case (Cons e es)
    have "web_inv (web_step J crc w e)"
      using Cons.prems by (cases e) (simp_all add: resizes_def split_def ws_frame_inv ws_cleanup_inv)
    with Cons show ?case by simp
  qed simp
  then have f: "fits (pty_size (foldl (web_step J crc) w es)) (session_sizes (foldl (web_step J crc) w es))"
      "sizes_pos (session_sizes (foldl (web_step J crc) w es))"
    and b: "length (browser_console (foldl (web_step J crc) w es)) \<le> 500"
      "\<forall>v \<in> snd ` set (browser_volumes (foldl (web_step J crc) w es)). v \<le> 100"
    by (simp_all add: web_inv_def)
  from f fits_pos [OF f] b show ?thesis unfolding Let_def fits_def by (auto simp del: foldl.simps)
qed

definition resize_json :: "json_tree json_lib" where
  "resize_json = tree_lib (\<lambda>bs. Some (JObj [(''type'', JStr ''resize''), (''rows'', JNum (ucast (hd (tl bs)))), (''cols'', JNum 90)]))"

definition toy_conn :: "u64 \<Rightarrow> nat ws_conn" where
  "toy_conn sid = \<lparr>wc_sid = sid, wc_multi = multi_new default_config, wc_rtc = False, wc_offset = 0, wc_gate = True\<rparr>"

theorem pty_fits_all_browsers_witness:
  "(let w' = foldl (web_step resize_json (\<lambda>_. 0)) toy_web_state
        [Web_Frame (toy_env 1) (\<lambda>_. 0) (Some (Frame_Text [0x7B, 50])) (toy_conn 4),
         Web_Frame (toy_env 2) (\<lambda>_. 0) (Some (Frame_Text [0x7B, 30])) (toy_conn 5),
         Web_Cleanup (toy_conn 5)]
    in \<forall>(i, rows, cols) \<in> set (session_sizes w'). 0 < fst (pty_size w') \<and> fst (pty_size w') \<le> rows)"
  using pty_fits_all_browsers [of toy_web_state
      "[Web_Frame (toy_env 1) (\<lambda>_. 0) (Some (Frame_Text [0x7B, 50])) (toy_conn 4),
        Web_Frame (toy_env 2) (\<lambda>_. 0) (Some (Frame_Text [0x7B, 30])) (toy_conn 5),
        Web_Cleanup (toy_conn 5)]" resize_json "\<lambda>_. 0"]
  by (auto simp: toy_web_state_def resizes_def toy_env_def Let_def)

end
