(* ===== verification/Rtc_Session.thy ===== *)
theory Rtc_Session
  imports Browser_Ws Rtc_Channel
begin

text \<open>
  \<open>src/crates/b3-cli/src/daemon/rtc.rs\<close> (feature \<open>webrtc-experimental\<close>): the registry of WebRTC peers, the bridge
  task of a peer with its control and terminal channels, and the requests on the control channel. The peer
  connection itself (crate \<open>datachannel\<close>) is the source of the events; tasks have names.
\<close>

section \<open>Offers\<close>

record peer_entry =
  pe_task :: nat
  pe_finished :: bool
  pe_browser :: "u64 option"

type_synonym peer_registry = "(string, peer_entry) rmap"

text \<open>
  \<open>_handle_offer_impl\<close>: \<open>None\<close> is the early rejection. Finished peers are dropped, an older peer of the same
  browser is aborted; \<open>answer\<close> is whether an answer is generated in time, then the new peer is registered.
\<close>

definition rtc_offer ::
  "'h session_manager \<Rightarrow> string \<Rightarrow> u64 option \<Rightarrow> bool \<Rightarrow> nat \<Rightarrow> peer_registry \<Rightarrow> (peer_registry \<times> nat list) option" where
  "rtc_offer sm rtc_sid browser answer task peers =
     (if (case browser of Some bsid \<Rightarrow> get_session bsid sm = None | None \<Rightarrow> False) then None
      else
        let live = filter (\<lambda>(k, e). \<not> pe_finished e) peers;
            same = (\<lambda>e. browser \<noteq> None \<and> pe_browser e = browser);
            old = map (\<lambda>(k, e). pe_task e) (filter (\<lambda>(k, e). same e) live);
            rest = filter (\<lambda>(k, e). \<not> same e) live
        in Some (if answer then map_insert rtc_sid \<lparr>pe_task = task, pe_finished = False, pe_browser = browser\<rparr> rest else rest, old))"

definition peer_ended :: "string \<Rightarrow> peer_registry \<Rightarrow> peer_registry" where
  "peer_ended rtc_sid peers = map_remove rtc_sid peers"


section \<open>Control messages\<close>

record rpc_env =
  rpc_tts_entries :: json_tree
  rpc_info_entries :: json_tree
  rpc_local_gpu_url :: string
  rpc_force_lowercase :: bool
  rpc_lowercase :: "string \<Rightarrow> string"

definition rpc_response :: "string \<Rightarrow> u64 \<Rightarrow> json_tree \<Rightarrow> json_tree" where
  "rpc_response i status body = JObj [(''id'', JStr i), (''status'', JNum status), (''body'', body)]"

definition or_str :: "'v json_lib \<Rightarrow> 'v \<Rightarrow> string \<Rightarrow> string \<Rightarrow> string" where
  "or_str J v k d = (case get_str J v k of Some x \<Rightarrow> x | None \<Rightarrow> d)"

definition rpc_tts :: "rpc_env \<Rightarrow> 'v json_lib \<Rightarrow> 'v \<Rightarrow> agent_event" where
  "rpc_tts E J body =
     (let txt = or_str J body ''text'' []
      in Tts_Stream \<lparr>ts_msg_id = or_str J body ''msg_id'' [],
           ts_text = (if rpc_force_lowercase E then rpc_lowercase E txt else txt), ts_original_text = txt,
           ts_voice = or_str J body ''voice'' ''default'', ts_emotion = or_str J body ''emotion'' [], ts_replying_to = [],
           ts_split_chars = ''.!?'', ts_min_chunk_chars = 80, ts_conditionals_b64 = []\<rparr>)"

definition handle_rpc ::
  "rpc_env \<Rightarrow> 'v json_lib \<Rightarrow> string \<Rightarrow> string \<Rightarrow> 'v option \<Rightarrow> 'h web_state \<Rightarrow> json_tree \<times> agent_event list" where
  "handle_rpc E J i path body w =
     (if path = ''/api/init-bundle'' then
        (rpc_response i 200 (JObj [(''tts_history'', rpc_tts_entries E), (''info_archive'', rpc_info_entries E),
           (''gpu_config'', JObj [(''local_gpu_url'', JStr (rpc_local_gpu_url E))])]), [])
      else if path = ''/api/tts-history'' then (rpc_response i 200 (rpc_tts_entries E), [])
      else if path = ''/api/inject'' \<or> path = ''/api/submitTranscription'' then
        (rpc_response i 200 (JObj [(''ok'', JBool True)]),
         case Option.bind body (\<lambda>b. get_str J b ''text'') of Some t \<Rightarrow> [Transcription t] | None \<Rightarrow> [])
      else if path = ''/api/tts'' then
        (rpc_response i 200 (JObj [(''status'', JStr ''streaming'')]), case body of Some b \<Rightarrow> [rpc_tts E J b] | None \<Rightarrow> [])
      else if path = ''/api/info'' then (rpc_response i 200 (rpc_info_entries E), [])
      else if path = ''/api/browser-console'' then (rpc_response i 200 (JArr (map JStr (browser_console w))), [])
      else (rpc_response i 404 (JObj [(''error'', JStr ''not found'')]), []))"

text \<open>The response, if any, the events sent, the answers to evaluations, and the new state.\<close>

definition handle_control_message ::
  "rpc_env \<Rightarrow> 'v json_lib \<Rightarrow> (string \<Rightarrow> string \<Rightarrow> bool) \<Rightarrow> string option \<Rightarrow> 'v \<Rightarrow> bool \<Rightarrow> 'h web_state
     \<Rightarrow> bool \<times> 'h web_state \<times> json_tree option \<times> 'h ws_output list" where
  "handle_control_message E J argon2 password_hash val authenticated w =
     (let ty = or_str J val ''type'' []
      in if ty = ''auth'' then
           (case password_hash of
              Some pw_hash \<Rightarrow>
                (if verify_daemon_password argon2 (or_str J val ''password'' []) pw_hash
                 then (True, w, Some (typed ''auth_ok'' []), [])
                 else (authenticated, w, Some (typed ''auth_failed'' []), []))
            | None \<Rightarrow> (True, w, Some (typed ''auth_ok'' []), []))
         else if \<not> authenticated then (authenticated, w, Some (typed ''auth_required'' []), [])
         else case get_str J val ''id'' of
                Some i \<Rightarrow>
                  (let (resp, evs) = handle_rpc E J i (or_str J val ''path'' ''/'') (json_get J val ''body'') w
                   in (authenticated, w, Some resp, map Daemon_Event evs))
              | None \<Rightarrow>
                  (if ty = ''browser_info'' then
                     (let volume = ucast (case get_u64 J val ''volume'' of Some v \<Rightarrow> v | None \<Rightarrow> 100) :: u8;
                          ac = (case get_bool J val ''audio_context'' of Some b \<Rightarrow> b | None \<Rightarrow> False)
                      in (authenticated,
                          w\<lparr>browser_volumes := map_insert 0 volume (browser_volumes w),
                            browser_audio_contexts := map_insert 0 ac (browser_audio_contexts w)\<rparr>, None, []))
                   else if ty = ''resize'' then
                     (authenticated, w, None,
                      [Daemon_Event (Pty_Resize (ucast (case get_u64 J val ''rows'' of Some r \<Rightarrow> r | None \<Rightarrow> 24))
                         (ucast (case get_u64 J val ''cols'' of Some c \<Rightarrow> c | None \<Rightarrow> 80)))])
                   else if ty = ''terminal_input'' then
                     (authenticated, w, None,
                      (case get_str J val ''data'' of Some d \<Rightarrow> [Daemon_Event (Pty_Input d)] | None \<Rightarrow> []))
                   else if ty = ''eval_result'' then
                     (let eval_id = or_str J val ''eval_id'' [];
                          result = or_str J val ''result'' []
                      in (authenticated, w\<lparr>eval_pending := map_remove eval_id (eval_pending w)\<rparr>, None,
                          case map_of (eval_pending w) eval_id of Some tx \<Rightarrow> [Eval_Reply tx result] | None \<Rightarrow> []))
                   else (authenticated, w, None, [])))"


section \<open>The bridge task\<close>

text \<open>
  The session's transports and RTC flag, whether the grace period after a disconnection runs, for each control
  channel opened whether it is authenticated and its relay of daemon events with whether it still runs, and
  the child tasks. An event is what the task and its children react to; a message on a control channel and a
  turn of a relay name the channel. \<open>Task_Aborted\<close> is the abort of the task by a new offer of the same browser.
\<close>

record 'h rtc_bridge =
  rb_multi :: "'h multi_transport"
  rb_rtc :: bool
  rb_grace :: bool
  rb_controls :: "bool list"
  rb_relays :: "(event_consumer \<times> bool) list"
  rb_tasks :: "nat list"

datatype ('h, 'v) rtc_event =
    Grace_Over
  | State_Change string
  | Incoming_Channel string nat nat 'h
  | Relay_Turn nat turn
  | Control_Message nat "'v channel_message"
  | Terminal_Message "'v channel_message"
  | Terminal_Send_Failed
  | Peer_Other
  | Peer_Gone
  | Task_Aborted

datatype 'h rtc_output = Control_Json json_tree | Control_Pong | Relay_Push json_tree | Rtc_Out "'h ws_output"

definition rtc_bridge_start :: "u64 option \<Rightarrow> 'h session_manager \<Rightarrow> 'h rtc_bridge option" where
  "rtc_bridge_start browser sm =
     (case browser of
        None \<Rightarrow> None
      | Some sid \<Rightarrow>
          (case get_session sid sm of
             None \<Rightarrow> None
           | Some s \<Rightarrow> Some \<lparr>rb_multi = multi s, rb_rtc = rtc_active s, rb_grace = False, rb_controls = [], rb_relays = [], rb_tasks = []\<rparr>))"

definition drop_rtc :: "'h rtc_bridge \<Rightarrow> 'h rtc_bridge \<times> 'h rtc_output list" where
  "drop_rtc b =
     (let (m, out) = remove_transport ''rtc'' (rb_multi b)
      in (b\<lparr>rb_multi := m, rb_rtc := False\<rparr>, map Rtc_Out (transported out)))"

definition open_channel ::
  "string option \<Rightarrow> string \<Rightarrow> nat \<Rightarrow> nat \<Rightarrow> 'h \<Rightarrow> 'h rtc_bridge \<Rightarrow> 'h rtc_bridge \<times> 'h rtc_output list" where
  "open_channel password_hash label t1 t2 h b =
     (if label = ''control'' then
        (b\<lparr>rb_rtc := True, rb_tasks := rb_tasks b @ [t1, t2], rb_controls := rb_controls b @ [password_hash = None],
            rb_relays := rb_relays b @ [(\<lparr>consumer_offset = 0, consecutive_lags = 0\<rparr>, True)]\<rparr>,
         if password_hash \<noteq> None then [Control_Json (typed ''auth_required'' [])] else [])
      else if label = ''terminal'' then
        (let (m, out) = add_transport ''rtc'' 0 h (rb_multi b)
         in (b\<lparr>rb_multi := m, rb_rtc := True, rb_tasks := rb_tasks b @ [t1]\<rparr>,
             map Rtc_Out (transported out) @ map Rtc_Out (transported (multi_send_resume m))))
      else (b, []))"

definition on_control ::
  "rpc_env \<Rightarrow> 'v json_lib \<Rightarrow> (string \<Rightarrow> string \<Rightarrow> bool) \<Rightarrow> string option \<Rightarrow> nat \<Rightarrow> 'v channel_message
     \<Rightarrow> 'h rtc_bridge \<Rightarrow> 'h web_state \<Rightarrow> 'h rtc_bridge \<times> 'h web_state \<times> 'h rtc_output list" where
  "on_control E J argon2 password_hash i msg b w =
     (if i < length (rb_controls b) then
        (case msg of
           Msg_Json val \<Rightarrow>
             (let (auth, w', resp, outs) = handle_control_message E J argon2 password_hash val (rb_controls b ! i) w
              in (b\<lparr>rb_controls := (rb_controls b)[i := auth]\<rparr>, w',
                  map Rtc_Out outs @ (case resp of Some r \<Rightarrow> [Control_Json r] | None \<Rightarrow> [])))
         | Msg_Ping \<Rightarrow> (b, w, [Control_Pong])
         | _ \<Rightarrow> (b, w, []))
      else (b, w, []))"

definition on_terminal ::
  "(bytes \<Rightarrow> u32) \<Rightarrow> (nat \<Rightarrow> u32) \<Rightarrow> 'v channel_message \<Rightarrow> 'h rtc_bridge \<Rightarrow> 'h rtc_bridge \<times> 'h rtc_output list" where
  "on_terminal crc clk msg b =
     (case msg of
        Msg_Binary data \<Rightarrow>
          (if is_reliable data then
             (let (m, ms, out) = multi_receive crc clk data (rb_multi b) in (b\<lparr>rb_multi := m\<rparr>, map Rtc_Out (transported out)))
           else
             (let txt = utf8_lossy data
              in (b, if txt \<noteq> [] then [Rtc_Out (Daemon_Event (Pty_Input (of_bytes txt)))] else [])))
      | _ \<Rightarrow> (b, []))"

definition on_relay :: "nat \<Rightarrow> turn \<Rightarrow> 'h rtc_bridge \<Rightarrow> 'h rtc_bridge \<times> 'h rtc_output list" where
  "on_relay i t b =
     (if i < length (rb_relays b) \<and> snd (rb_relays b ! i) then
        (let (ec, out, goes_on) = rtc_relay_step t (fst (rb_relays b ! i))
         in (b\<lparr>rb_relays := (rb_relays b)[i := (ec, goes_on)], rb_rtc := rb_rtc b \<and> goes_on\<rparr>,
             case out of Some (json, _) \<Rightarrow> [Relay_Push json] | None \<Rightarrow> []))
      else (b, []))"

fun rtc_bridge_step ::
  "rpc_env \<Rightarrow> 'v json_lib \<Rightarrow> (string \<Rightarrow> string \<Rightarrow> bool) \<Rightarrow> string option \<Rightarrow> (bytes \<Rightarrow> u32) \<Rightarrow> (nat \<Rightarrow> u32) \<Rightarrow> ('h, 'v) rtc_event
     \<Rightarrow> 'h rtc_bridge \<Rightarrow> 'h web_state \<Rightarrow> ('h rtc_bridge \<times> 'h web_state \<times> 'h rtc_output list) \<times> bool" where
  "rtc_bridge_step E J argon2 pw crc clk Grace_Over b w = ((b, w, []), False)"
| "rtc_bridge_step E J argon2 pw crc clk (State_Change st) b w =
     (if st = ''closed'' \<or> st = ''failed'' then (case drop_rtc b of (b', out) \<Rightarrow> ((b', w, out), False))
      else if st = ''disconnected'' then (case drop_rtc b of (b', out) \<Rightarrow> ((b'\<lparr>rb_grace := True\<rparr>, w, out), True))
      else if st = ''connected'' then ((b\<lparr>rb_grace := False\<rparr>, w, []), True)
      else ((b, w, []), True))"
| "rtc_bridge_step E J argon2 pw crc clk (Incoming_Channel label t1 t2 h) b w =
     (case open_channel pw label t1 t2 h b of (b', out) \<Rightarrow> ((b', w, out), True))"
| "rtc_bridge_step E J argon2 pw crc clk (Relay_Turn i t) b w = (case on_relay i t b of (b', out) \<Rightarrow> ((b', w, out), True))"
| "rtc_bridge_step E J argon2 pw crc clk (Control_Message i msg) b w = (on_control E J argon2 pw i msg b w, True)"
| "rtc_bridge_step E J argon2 pw crc clk (Terminal_Message msg) b w =
     (case on_terminal crc clk msg b of (b', out) \<Rightarrow> ((b', w, out), True))"
| "rtc_bridge_step E J argon2 pw crc clk Terminal_Send_Failed b w =
     (case remove_transport ''rtc'' (rb_multi b) of (m, out) \<Rightarrow> ((b\<lparr>rb_multi := m\<rparr>, w, map Rtc_Out (transported out)), True))"
| "rtc_bridge_step E J argon2 pw crc clk Peer_Other b w = ((b, w, []), True)"
| "rtc_bridge_step E J argon2 pw crc clk Peer_Gone b w = ((b, w, []), False)"
| "rtc_bridge_step E J argon2 pw crc clk Task_Aborted b w = ((b, w, []), False)"

text \<open>
  The loop over the events, the clock by the number of events to come, and the end of the task. An aborted
  task does not reach its end: nothing is cleaned up, and its children, whose handles are dropped and not
  aborted, go on with what still arrives for them.
\<close>

definition child_event :: "('h, 'v) rtc_event \<Rightarrow> bool" where
  "child_event e =
     (case e of Relay_Turn _ _ \<Rightarrow> True | Control_Message _ _ \<Rightarrow> True | Terminal_Message _ \<Rightarrow> True | Terminal_Send_Failed \<Rightarrow> True
      | _ \<Rightarrow> False)"

fun rtc_orphans_run ::
  "rpc_env \<Rightarrow> 'v json_lib \<Rightarrow> (string \<Rightarrow> string \<Rightarrow> bool) \<Rightarrow> string option \<Rightarrow> (bytes \<Rightarrow> u32) \<Rightarrow> (nat \<Rightarrow> nat \<Rightarrow> u32) \<Rightarrow> ('h, 'v) rtc_event list
     \<Rightarrow> 'h rtc_bridge \<Rightarrow> 'h web_state \<Rightarrow> 'h rtc_bridge \<times> 'h web_state \<times> 'h rtc_output list" where
  "rtc_orphans_run E J argon2 pw crc clk [] b w = (b, w, [])"
| "rtc_orphans_run E J argon2 pw crc clk (e # es) b w =
     (if child_event e then
        (case rtc_bridge_step E J argon2 pw crc (clk (length es)) e b w of
           ((b1, w1, out1), _) \<Rightarrow>
             (case rtc_orphans_run E J argon2 pw crc clk es b1 w1 of (b2, w2, out2) \<Rightarrow> (b2, w2, out1 @ out2)))
      else rtc_orphans_run E J argon2 pw crc clk es b w)"

definition rtc_bridge_end :: "'h rtc_bridge \<Rightarrow> 'h rtc_bridge \<times> 'h rtc_output list" where
  "rtc_bridge_end b =
     (case drop_rtc b of (b', out) \<Rightarrow> (b'\<lparr>rb_tasks := []\<rparr>, map (Rtc_Out \<circ> Abort_Task) (rb_tasks b) @ out))"

fun rtc_bridge_run ::
  "rpc_env \<Rightarrow> 'v json_lib \<Rightarrow> (string \<Rightarrow> string \<Rightarrow> bool) \<Rightarrow> string option \<Rightarrow> (bytes \<Rightarrow> u32) \<Rightarrow> (nat \<Rightarrow> nat \<Rightarrow> u32) \<Rightarrow> ('h, 'v) rtc_event list
     \<Rightarrow> 'h rtc_bridge \<Rightarrow> 'h web_state \<Rightarrow> 'h rtc_bridge \<times> 'h web_state \<times> 'h rtc_output list" where
  "rtc_bridge_run E J argon2 pw crc clk [] b w = (case rtc_bridge_end b of (b', out) \<Rightarrow> (b', w, out))"
| "rtc_bridge_run E J argon2 pw crc clk (e # es) b w =
     (if (case e of Task_Aborted \<Rightarrow> True | _ \<Rightarrow> False) then rtc_orphans_run E J argon2 pw crc clk es b w
      else case rtc_bridge_step E J argon2 pw crc (clk (length es)) e b w of
        ((b1, w1, out1), goes_on) \<Rightarrow>
          (case (if goes_on then rtc_bridge_run E J argon2 pw crc clk es b1 w1
                 else (case rtc_bridge_end b1 of (b', out) \<Rightarrow> (b', w1, out))) of
             (b2, w2, out2) \<Rightarrow> (b2, w2, out1 @ out2)))"


section \<open>Without the password\<close>

definition rtc_correct :: "'v json_lib \<Rightarrow> (string \<Rightarrow> string \<Rightarrow> bool) \<Rightarrow> string \<Rightarrow> ('h, 'v) rtc_event \<Rightarrow> bool" where
  "rtc_correct J argon2 pw_hash e \<longleftrightarrow>
     (\<exists>i val. e = Control_Message i (Msg_Json val) \<and> or_str J val ''type'' [] = ''auth'' \<and>
        verify_daemon_password argon2 (or_str J val ''password'' []) pw_hash)"

definition is_abort :: "('h, 'v) rtc_event \<Rightarrow> bool" where
  "is_abort e \<longleftrightarrow> e = Task_Aborted"

definition rtc_ends :: "('h, 'v) rtc_event \<Rightarrow> bool" where
  "rtc_ends e \<longleftrightarrow> e \<in> {Grace_Over, State_Change ''closed'', State_Change ''failed'', Peer_Gone}"

text \<open>
  Read off the events alone: those the task or its children handle, whether the task is aborted before it
  ends, the child tasks spawned, whether the terminal's sink is registered, the input for the PTY and the
  messages of the daemon's events.
\<close>

fun handled :: "('h, 'v) rtc_event list \<Rightarrow> ('h, 'v) rtc_event list" where
  "handled [] = []"
| "handled (e # es) = (if is_abort e then filter child_event es else if rtc_ends e then [e] else e # handled es)"

fun aborted :: "('h, 'v) rtc_event list \<Rightarrow> bool" where
  "aborted [] = False"
| "aborted (e # es) = (is_abort e \<or> \<not> rtc_ends e \<and> aborted es)"

definition spawns :: "('h, 'v) rtc_event \<Rightarrow> nat list" where
  "spawns e = (case e of Incoming_Channel label t1 t2 _ \<Rightarrow>
     (if label = ''control'' then [t1, t2] else if label = ''terminal'' then [t1] else []) | _ \<Rightarrow> [])"

definition sink_after :: "('h, 'v) rtc_event \<Rightarrow> bool \<Rightarrow> bool" where
  "sink_after e has = (case e of
      Incoming_Channel label _ _ _ \<Rightarrow> has \<or> label = ''terminal''
    | State_Change st \<Rightarrow> has \<and> st \<notin> {''closed'', ''failed'', ''disconnected''}
    | Terminal_Send_Failed \<Rightarrow> False
    | _ \<Rightarrow> has)"

definition terminal_input :: "('h, 'v) rtc_event \<Rightarrow> agent_event list" where
  "terminal_input e =
     (case e of
        Terminal_Message (Msg_Binary data) \<Rightarrow>
          (if is_reliable data \<or> utf8_lossy data = [] then [] else [Pty_Input (of_bytes (utf8_lossy data))])
      | _ \<Rightarrow> [])"

definition plain_turn :: "('h, 'v) rtc_event \<Rightarrow> bool" where
  "plain_turn e = (case e of Relay_Turn i (Event _, _, _, ok) \<Rightarrow> ok | Relay_Turn i _ \<Rightarrow> False | _ \<Rightarrow> True)"

fun event_messages :: "nat \<Rightarrow> ('h, 'v) rtc_event list \<Rightarrow> json_tree list" where
  "event_messages n [] = []"
| "event_messages n (e # es) =
     (case e of
        Incoming_Channel label _ _ _ \<Rightarrow> event_messages (if label = ''control'' then Suc n else n) es
      | Relay_Turn i (Event ev, _) \<Rightarrow> (if i < n then opt_out (rtc_message ev) else []) @ event_messages n es
      | _ \<Rightarrow> event_messages n es)"

text \<open>What the outputs are.\<close>

fun daemon_events :: "'h rtc_output list \<Rightarrow> agent_event list" where
  "daemon_events [] = []"
| "daemon_events (Rtc_Out (Daemon_Event e) # out) = e # daemon_events out"
| "daemon_events (_ # out) = daemon_events out"

fun relay_pushes :: "'h rtc_output list \<Rightarrow> json_tree list" where
  "relay_pushes [] = []"
| "relay_pushes (Relay_Push j # out) = j # relay_pushes out"
| "relay_pushes (_ # out) = relay_pushes out"

fun aborted_tasks :: "'h rtc_output list \<Rightarrow> nat list" where
  "aborted_tasks [] = []"
| "aborted_tasks (Rtc_Out (Abort_Task t) # out) = t # aborted_tasks out"
| "aborted_tasks (_ # out) = aborted_tasks out"

definition refusals :: "'h rtc_output list \<Rightarrow> bool" where
  "refusals out \<longleftrightarrow> (\<forall>j. Control_Json j \<in> set out \<longrightarrow> j = typed ''auth_required'' [] \<or> j = typed ''auth_failed'' [])"

definition no_replies :: "'h rtc_output list \<Rightarrow> bool" where
  "no_replies out \<longleftrightarrow> (\<forall>t s r. Rtc_Out (Eval_Reply t s) \<notin> set out \<and> Rtc_Out (Multi_Reply t r s) \<notin> set out)"

lemma outputs_append [simp]:
  "daemon_events (a @ b) = daemon_events a @ daemon_events b"
  "relay_pushes (a @ b) = relay_pushes a @ relay_pushes b"
  "aborted_tasks (a @ b) = aborted_tasks a @ aborted_tasks b"
  "refusals (a @ b) \<longleftrightarrow> refusals a \<and> refusals b"
  "no_replies (a @ b) \<longleftrightarrow> no_replies a \<and> no_replies b"
proof -
  show "daemon_events (a @ b) = daemon_events a @ daemon_events b" by (induction a rule: daemon_events.induct) simp_all
  show "relay_pushes (a @ b) = relay_pushes a @ relay_pushes b" by (induction a rule: relay_pushes.induct) simp_all
  show "aborted_tasks (a @ b) = aborted_tasks a @ aborted_tasks b" by (induction a rule: aborted_tasks.induct) simp_all
qed (auto simp: refusals_def no_replies_def)

text \<open>An output that only writes to transports.\<close>

definition silent :: "'h rtc_output list \<Rightarrow> bool" where
  "silent out \<longleftrightarrow> daemon_events out = [] \<and> relay_pushes out = [] \<and> aborted_tasks out = [] \<and> refusals out \<and> no_replies out"

lemma silent_transported [simp]: "silent (map Rtc_Out (transported out))"
proof -
  have "daemon_events (map Rtc_Out (transported out)) = []" "relay_pushes (map Rtc_Out (transported out)) = []"
    "aborted_tasks (map Rtc_Out (transported out)) = []" by (induction out) (auto simp: transported_def)
  moreover have "refusals (map Rtc_Out (transported out))" "no_replies (map Rtc_Out (transported out))"
    by (auto simp: refusals_def no_replies_def transported_def)
  ultimately show ?thesis by (simp add: silent_def)
qed

lemma silent_append [simp]: "silent a \<Longrightarrow> silent b \<Longrightarrow> silent (a @ b)"
  by (simp add: silent_def)

lemma quiet_outputs [simp]: "silent []" "refusals []" "no_replies []" "refusals [Rtc_Out (Daemon_Event e)]"
  "no_replies [Rtc_Out (Daemon_Event e)]" "refusals [Relay_Push j]" "no_replies [Relay_Push j]" "silent [Control_Pong]"
  by (simp_all add: silent_def refusals_def no_replies_def)

text \<open>What one event does while no control channel is authenticated.\<close>

definition relays_run :: "'h rtc_bridge \<Rightarrow> bool" where
  "relays_run b \<longleftrightarrow> (\<forall>r \<in> set (rb_relays b). snd r)"

lemma control_refused:
  assumes "\<not> rtc_correct J argon2 pw_hash (Control_Message i msg :: ('h, 'v) rtc_event)" and "\<forall>a \<in> set (rb_controls b). \<not> a"
    and "on_control E J argon2 (Some pw_hash) i msg b w = (b', w', out)"
  shows "w' = w \<and> silent out \<and> (\<forall>a \<in> set (rb_controls b'). \<not> a) \<and> (\<exists>cs. b' = b\<lparr>rb_controls := cs\<rparr>)"
proof (cases "i < length (rb_controls b)")
  case True
  then have f: "rb_controls b ! i = False" using assms(2) by (metis nth_mem)
  show ?thesis
  proof (cases msg)
    case (Msg_Json val)
    have "\<exists>r. handle_control_message E J argon2 (Some pw_hash) val False w = (False, w, Some r, []) \<and>
        (r = typed ''auth_required'' [] \<or> r = typed ''auth_failed'' [])"
      using assms(1) Msg_Json by (auto simp: handle_control_message_def rtc_correct_def Let_def)
    then obtain r where r: "handle_control_message E J argon2 (Some pw_hash) val False w = (False, w, Some r, [])"
      "r = typed ''auth_required'' [] \<or> r = typed ''auth_failed'' []" by blast
    have b': "b' = b\<lparr>rb_controls := (rb_controls b)[i := False]\<rparr>" and "w' = w" "out = [Control_Json r]"
      using assms(3) True Msg_Json f r(1) by (simp_all add: on_control_def)
    moreover have "\<forall>a \<in> set ((rb_controls b)[i := False]). \<not> a"
      using assms(2) set_update_subset_insert [of "rb_controls b" i False] by auto
    ultimately show ?thesis using r(2) by (auto simp: silent_def refusals_def no_replies_def)
  qed (use assms(2,3) True in \<open>auto simp: on_control_def intro: exI [of _ "rb_controls b"]\<close>)
qed (use assms(2,3) in \<open>auto simp: on_control_def intro: exI [of _ "rb_controls b"]\<close>)

lemma has_transport_simps:
  "\<not> has_transport ''rtc'' (fst (remove_transport ''rtc'' m))"
  "has_transport ''rtc'' (fst (add_transport ''rtc'' p h m))"
  "has_transport nm (fst (multi_receive crc clk data m)) = has_transport nm m"
proof -
  show "\<not> has_transport ''rtc'' (fst (remove_transport ''rtc'' m))"
    by (auto simp: remove_transport_def delete_sink_def has_transport_def list_ex_iff)
  show "has_transport ''rtc'' (fst (add_transport ''rtc'' p h m))"
    by (auto simp: add_transport_def insert_sink_def has_transport_def list_ex_iff Let_def)
  show "has_transport nm (fst (multi_receive crc clk data m)) = has_transport nm m"
    by (simp add: multi_receive_def has_transport_def split: prod.splits)
qed

lemma drop_rtc_facts:
  assumes "drop_rtc b = (b', out)"
  shows "silent out" "\<not> has_transport ''rtc'' (rb_multi b')" "\<not> rb_rtc b'"
    "rb_controls b' = rb_controls b" "rb_tasks b' = rb_tasks b" "rb_relays b' = rb_relays b"
  using assms has_transport_simps(1) [of "rb_multi b"] by (auto simp: drop_rtc_def silent_transported split: prod.splits)

lemma open_channel_facts:
  assumes "open_channel (Some pw_hash) label t1 t2 h b = (b', out)" and "\<forall>a \<in> set (rb_controls b). \<not> a"
  shows "silent out" "\<forall>a \<in> set (rb_controls b'). \<not> a"
    "rb_tasks b' = rb_tasks b @ spawns (Incoming_Channel label t1 t2 h)"
    "has_transport ''rtc'' (rb_multi b') \<longleftrightarrow> sink_after (Incoming_Channel label t1 t2 h) (has_transport ''rtc'' (rb_multi b))"
    "relays_run b \<Longrightarrow> relays_run b'"
    "length (rb_relays b') = (if label = ''control'' then Suc (length (rb_relays b)) else length (rb_relays b))"
proof -
  have "silent out \<and> (\<forall>a \<in> set (rb_controls b'). \<not> a) \<and> rb_tasks b' = rb_tasks b @ spawns (Incoming_Channel label t1 t2 h) \<and>
    (has_transport ''rtc'' (rb_multi b') \<longleftrightarrow> sink_after (Incoming_Channel label t1 t2 h) (has_transport ''rtc'' (rb_multi b))) \<and>
    (relays_run b \<longrightarrow> relays_run b') \<and>
    length (rb_relays b') = (if label = ''control'' then Suc (length (rb_relays b)) else length (rb_relays b))"
  proof (cases "label = ''control''")
    case True
    have "silent [Control_Json (typed ''auth_required'' [])]" by (simp add: silent_def refusals_def no_replies_def)
    moreover have "out = [Control_Json (typed ''auth_required'' [])]"
      "b' = b\<lparr>rb_rtc := True, rb_tasks := rb_tasks b @ [t1, t2], rb_controls := rb_controls b @ [False],
         rb_relays := rb_relays b @ [(\<lparr>consumer_offset = 0, consecutive_lags = 0\<rparr>, True)]\<rparr>"
      using True assms(1) by (simp_all add: open_channel_def)
    ultimately show ?thesis using True assms(2) by (simp add: spawns_def sink_after_def relays_run_def)
  next
    case nc: False
    show ?thesis
    proof (cases "label = ''terminal''")
      case True
      obtain m o1 where "add_transport ''rtc'' 0 h (rb_multi b) = (m, o1)" by fastforce
      moreover from this has_transport_simps(2) [of 0 h "rb_multi b"] have "has_transport ''rtc'' m" by simp
      ultimately have "b' = b\<lparr>rb_multi := m, rb_rtc := True, rb_tasks := rb_tasks b @ [t1]\<rparr>" "has_transport ''rtc'' m"
        "out = map Rtc_Out (transported o1) @ map Rtc_Out (transported (multi_send_resume m))"
        using True assms(1) by (simp_all add: open_channel_def)
      then show ?thesis using True assms(2) by (simp add: spawns_def sink_after_def relays_run_def)
    qed (use nc assms in \<open>auto simp: open_channel_def spawns_def sink_after_def\<close>)
  qed
  then show "silent out" "\<forall>a \<in> set (rb_controls b'). \<not> a"
    "rb_tasks b' = rb_tasks b @ spawns (Incoming_Channel label t1 t2 h)"
    "has_transport ''rtc'' (rb_multi b') \<longleftrightarrow> sink_after (Incoming_Channel label t1 t2 h) (has_transport ''rtc'' (rb_multi b))"
    "relays_run b \<Longrightarrow> relays_run b'"
    "length (rb_relays b') = (if label = ''control'' then Suc (length (rb_relays b)) else length (rb_relays b))" by blast+
qed

lemma on_relay_facts:
  assumes "on_relay i t b = (b', out)"
  shows "daemon_events out = []" "aborted_tasks out = []" "refusals out" "no_replies out"
    "rb_controls b' = rb_controls b" "rb_tasks b' = rb_tasks b" "rb_multi b' = rb_multi b"
    "length (rb_relays b') = length (rb_relays b)"
  using assms by (auto simp: on_relay_def Let_def split: if_splits option.splits prod.splits)

lemma plain_relay:
  assumes "on_relay i t b = (b', out)" and "plain_turn (Relay_Turn i t :: ('h, 'v) rtc_event)" and "relays_run b"
  shows "relays_run b'" "relay_pushes out = event_messages (length (rb_relays b)) [Relay_Turn i t :: ('h, 'v) rtc_event]"
proof -
  obtain ev a st where t: "t = (Event ev, a, st, True)"
    using assms(2) by (auto simp: plain_turn_def split: prod.splits event_recv.splits)
  have run: "i < length (rb_relays b) \<Longrightarrow> snd (rb_relays b ! i)" using assms(3) by (simp add: relays_run_def)
  show "relays_run b'" "relay_pushes out = event_messages (length (rb_relays b)) [Relay_Turn i t :: ('h, 'v) rtc_event]"
    using assms(1,3) run t
    by (auto simp: on_relay_def relays_run_def Let_def opt_out_def split: if_splits option.splits
        dest!: set_update_subset_insert [THEN subsetD])
qed

lemma on_terminal_facts:
  assumes "on_terminal crc clk msg b = (b', out)"
  shows "rb_controls b' = rb_controls b" "rb_tasks b' = rb_tasks b" "rb_relays b' = rb_relays b"
    "has_transport ''rtc'' (rb_multi b') = has_transport ''rtc'' (rb_multi b)"
    "daemon_events out = terminal_input (Terminal_Message msg :: ('h, 'v) rtc_event)" "relay_pushes out = []" "aborted_tasks out = []" "refusals out" "no_replies out"
proof -
  have "rb_controls b' = rb_controls b \<and> rb_tasks b' = rb_tasks b \<and> rb_relays b' = rb_relays b \<and>
    has_transport ''rtc'' (rb_multi b') = has_transport ''rtc'' (rb_multi b) \<and>
    daemon_events out = terminal_input (Terminal_Message msg :: ('h, 'v) rtc_event) \<and> relay_pushes out = [] \<and> aborted_tasks out = [] \<and> refusals out \<and> no_replies out"
  proof (cases "\<exists>data. msg = Msg_Binary data")
    case True
    then obtain data where data: "msg = Msg_Binary data" by blast
    show ?thesis
    proof (cases "is_reliable data")
      case True
      obtain m ms o1 where r: "multi_receive crc clk data (rb_multi b) = (m, ms, o1)" by (metis prod.exhaust)
      have "b' = b\<lparr>rb_multi := m\<rparr>" "out = map Rtc_Out (transported o1)"
        using assms True data r by (simp_all add: on_terminal_def)
      moreover have "has_transport ''rtc'' m = has_transport ''rtc'' (rb_multi b)"
        using has_transport_simps(3) [of "''rtc''" crc clk data "rb_multi b"] r by simp
      ultimately show ?thesis using True data silent_transported [of o1, unfolded silent_def] by (simp add: terminal_input_def)
    qed (use assms data in \<open>auto simp: on_terminal_def terminal_input_def Let_def split: if_splits\<close>)
  next
    case False
    then have "on_terminal crc clk msg b = (b, [])" "terminal_input (Terminal_Message msg :: ('h, 'v) rtc_event) = []"
      by (cases msg; simp add: on_terminal_def terminal_input_def)+
    with assms show ?thesis by simp
  qed
  then show "rb_controls b' = rb_controls b" "rb_tasks b' = rb_tasks b" "rb_relays b' = rb_relays b"
    "has_transport ''rtc'' (rb_multi b') = has_transport ''rtc'' (rb_multi b)"
    "daemon_events out = terminal_input (Terminal_Message msg :: ('h, 'v) rtc_event)" "relay_pushes out = []" "aborted_tasks out = []" "refusals out" "no_replies out"
    by blast+
qed

lemma rtc_step_refused:
  assumes "\<not> rtc_correct J argon2 pw_hash e" and "\<forall>a \<in> set (rb_controls b). \<not> a"
    and step: "rtc_bridge_step E J argon2 (Some pw_hash) crc clk e b w = ((b', w', out), goes_on)"
  shows "w' = w \<and> goes_on = (\<not> rtc_ends e \<and> \<not> is_abort e) \<and>
    daemon_events out = terminal_input e \<and> aborted_tasks out = [] \<and> refusals out \<and> no_replies out \<and>
    (\<forall>a \<in> set (rb_controls b'). \<not> a) \<and> rb_tasks b' = rb_tasks b @ spawns e \<and>
    (has_transport ''rtc'' (rb_multi b') \<longleftrightarrow> sink_after e (has_transport ''rtc'' (rb_multi b))) \<and>
    (plain_turn e \<and> relays_run b \<longrightarrow> relays_run b' \<and>
       (\<forall>es. event_messages (length (rb_relays b)) (e # es) = relay_pushes out @ event_messages (length (rb_relays b')) es))"
proof (cases e)
  case (State_Change st)
  obtain b1 o1 where d: "drop_rtc b = (b1, o1)" by fastforce
  note d' = drop_rtc_facts [OF d, unfolded silent_def]
  note defs = terminal_input_def rtc_ends_def is_abort_def spawns_def sink_after_def relays_run_def
  show ?thesis
  proof (cases "st = ''closed'' \<or> st = ''failed''")
    case True
    with State_Change step d have "b' = b1" "w' = w" "out = o1" "\<not> goes_on" by auto
    with d' True State_Change assms(2) show ?thesis by (auto simp: defs)
  next
    case nce: False
    show ?thesis
    proof (cases "st = ''disconnected''")
      case True
      with State_Change step d have "b' = b1\<lparr>rb_grace := True\<rparr>" "w' = w" "out = o1" "goes_on" by auto
      with d' True State_Change assms(2) show ?thesis by (simp add: defs)
    next
      case False
      with nce have "rtc_bridge_step E J argon2 (Some pw_hash) crc clk e b w =
          ((if st = ''connected'' then b\<lparr>rb_grace := False\<rparr> else b, w, []), True)" by (simp add: State_Change)
      with step have "b' = (if st = ''connected'' then b\<lparr>rb_grace := False\<rparr> else b)" "w' = w" "out = []" "goes_on" by simp_all
      moreover from this have "rb_controls b' = rb_controls b" "rb_tasks b' = rb_tasks b" "rb_multi b' = rb_multi b"
        "rb_relays b' = rb_relays b" by simp_all
      ultimately show ?thesis using nce False assms(2) by (simp add: State_Change defs)
    qed
  qed
next
  case (Incoming_Channel label t1 t2 h)
  obtain b1 o1 where o: "open_channel (Some pw_hash) label t1 t2 h b = (b1, o1)" by fastforce
  with step Incoming_Channel have "b' = b1" "w' = w" "out = o1" "goes_on" by simp_all
  with open_channel_facts [OF o assms(2), unfolded silent_def] show ?thesis
    by (simp add: Incoming_Channel terminal_input_def rtc_ends_def is_abort_def)
next
  case (Relay_Turn i t)
  obtain b1 o1 where o: "on_relay i t b = (b1, o1)" by fastforce
  with step Relay_Turn have eqs: "b' = b1" "w' = w" "out = o1" "goes_on" by simp_all
  have split: "event_messages n (e # es) = event_messages n [e] @ event_messages n es" for n es
    by (cases t) (simp add: Relay_Turn split: event_recv.splits)
  have "plain_turn e \<Longrightarrow> relays_run b \<Longrightarrow> relays_run b1 \<and> relay_pushes o1 = event_messages (length (rb_relays b)) [e]"
    using plain_relay [OF o] unfolding Relay_Turn by blast
  then have "plain_turn e \<and> relays_run b \<longrightarrow> relays_run b1 \<and>
      (\<forall>es. event_messages (length (rb_relays b)) (e # es) = relay_pushes o1 @ event_messages (length (rb_relays b1)) es)"
    using split on_relay_facts(8) [OF o] by metis
  then show ?thesis
    using eqs assms(2) on_relay_facts [OF o]
    by (simp add: Relay_Turn terminal_input_def rtc_ends_def is_abort_def spawns_def sink_after_def del: event_messages.simps)
next
  case (Control_Message i msg)
  with step have c: "on_control E J argon2 (Some pw_hash) i msg b w = (b', w', out)" and "goes_on" by simp_all
  from control_refused [OF _ assms(2) c] assms(1) Control_Message
  obtain cs where "w' = w" "silent out" "\<forall>a \<in> set (rb_controls b'). \<not> a" "b' = b\<lparr>rb_controls := cs\<rparr>" by blast
  with \<open>goes_on\<close> show ?thesis
    by (simp add: Control_Message terminal_input_def rtc_ends_def is_abort_def spawns_def sink_after_def relays_run_def silent_def)
next
  case (Terminal_Message msg)
  obtain b1 o1 where o: "on_terminal crc clk msg b = (b1, o1)" by fastforce
  with step Terminal_Message have "b' = b1" "w' = w" "out = o1" "goes_on" by simp_all
  with on_terminal_facts [OF o] assms(2) show ?thesis
    by (simp add: Terminal_Message rtc_ends_def is_abort_def spawns_def sink_after_def relays_run_def)
next
  case Terminal_Send_Failed
  obtain m o1 where r: "remove_transport ''rtc'' (rb_multi b) = (m, o1)" by fastforce
  with step Terminal_Send_Failed have "b' = b\<lparr>rb_multi := m\<rparr>" "w' = w" "out = map Rtc_Out (transported o1)" "goes_on" by simp_all
  moreover have "\<not> has_transport ''rtc'' m" using has_transport_simps(1) [of "rb_multi b"] r by simp
  ultimately show ?thesis
    using assms(2) silent_transported [of o1, unfolded silent_def]
    by (simp add: Terminal_Send_Failed terminal_input_def rtc_ends_def is_abort_def spawns_def sink_after_def relays_run_def)
qed (use assms(2) step in \<open>auto simp: terminal_input_def rtc_ends_def is_abort_def spawns_def sink_after_def relays_run_def\<close>)

lemma rtc_end_facts:
  assumes "rtc_bridge_end b = (b', out)"
  shows "daemon_events out = []" "relay_pushes out = []" "aborted_tasks out = rb_tasks b" "refusals out" "no_replies out"
    "\<not> has_transport ''rtc'' (rb_multi b')" "\<not> rb_rtc b'" "rb_tasks b' = []"
proof -
  let ?a = "map (Rtc_Out \<circ> Abort_Task) (rb_tasks b)"
  have "aborted_tasks (map (Rtc_Out \<circ> Abort_Task) ts) = ts" "daemon_events (map (Rtc_Out \<circ> Abort_Task) ts) = []"
    "relay_pushes (map (Rtc_Out \<circ> Abort_Task) ts) = []" for ts
    by (induction ts) simp_all
  moreover have "refusals ?a" "no_replies ?a" by (auto simp: refusals_def no_replies_def)
  moreover obtain b1 o1 where d: "drop_rtc b = (b1, o1)" by fastforce
  moreover have "b' = b1\<lparr>rb_tasks := []\<rparr>" "out = ?a @ o1" using assms d by (simp_all add: rtc_bridge_end_def)
  ultimately show "daemon_events out = []" "relay_pushes out = []" "aborted_tasks out = rb_tasks b" "refusals out" "no_replies out"
    "\<not> has_transport ''rtc'' (rb_multi b')" "\<not> rb_rtc b'" "rb_tasks b' = []"
    using drop_rtc_facts [OF d, unfolded silent_def] by simp_all
qed

lemma child_events:
  "child_event e \<Longrightarrow> spawns e = [] \<and> \<not> rtc_ends e \<and> \<not> is_abort e"
  by (auto simp: child_event_def spawns_def rtc_ends_def is_abort_def split: rtc_event.splits)

lemma rtc_orphans_refused:
  "\<forall>e \<in> set es. \<not> rtc_correct J argon2 pw_hash e \<Longrightarrow> \<forall>a \<in> set (rb_controls b). \<not> a \<Longrightarrow>
   rtc_orphans_run E J argon2 (Some pw_hash) crc clk es b w = (b', w', out) \<Longrightarrow>
   w' = w \<and> daemon_events out = concat (map terminal_input (filter child_event es)) \<and> refusals out \<and> no_replies out \<and>
   aborted_tasks out = [] \<and> rb_tasks b' = rb_tasks b \<and>
   (has_transport ''rtc'' (rb_multi b') \<longleftrightarrow> fold sink_after (filter child_event es) (has_transport ''rtc'' (rb_multi b))) \<and>
   ((\<forall>e \<in> set es. plain_turn e) \<and> relays_run b \<longrightarrow> relay_pushes out = event_messages (length (rb_relays b)) (filter child_event es))"
proof (induction es arbitrary: b w b' w' out)
  case (Cons e es)
  show ?case
  proof (cases "child_event e")
    case True
    obtain b1 w1 out1 goes where s: "rtc_bridge_step E J argon2 (Some pw_hash) crc (clk (length es)) e b w = ((b1, w1, out1), goes)"
      by (metis prod.exhaust)
    have "\<not> rtc_correct J argon2 pw_hash e" using Cons.prems(1) by simp
    note q = rtc_step_refused [OF this Cons.prems(2) s]
    obtain b2 w2 o2 where r: "rtc_orphans_run E J argon2 (Some pw_hash) crc clk es b1 w1 = (b2, w2, o2)" by (metis prod.exhaust)
    have "b' = b2" "w' = w2" "out = out1 @ o2" using Cons.prems(3) True s r by simp_all
    moreover have "\<forall>a \<in> set (rb_controls b1). \<not> a" using q by blast
    note Cons.IH [OF _ this r]
    ultimately show ?thesis using q Cons.prems(1) True child_events [OF True] by (simp del: event_messages.simps)
  next
    case False
    with Cons.IH [of b w b' w' out] Cons.prems show ?thesis by simp
  qed
qed simp

lemma rtc_run_refused:
  "\<forall>e \<in> set es. \<not> rtc_correct J argon2 pw_hash e \<Longrightarrow> \<forall>a \<in> set (rb_controls b). \<not> a \<Longrightarrow>
   rtc_bridge_run E J argon2 (Some pw_hash) crc clk es b w = (b', w', out) \<Longrightarrow>
   w' = w \<and> daemon_events out = concat (map terminal_input (handled es)) \<and> refusals out \<and> no_replies out \<and>
   (if aborted es
    then aborted_tasks out = [] \<and> rb_tasks b' = rb_tasks b @ concat (map spawns (handled es)) \<and>
         (has_transport ''rtc'' (rb_multi b') \<longleftrightarrow> fold sink_after (handled es) (has_transport ''rtc'' (rb_multi b)))
    else aborted_tasks out = rb_tasks b @ concat (map spawns (handled es)) \<and> rb_tasks b' = [] \<and>
         \<not> has_transport ''rtc'' (rb_multi b') \<and> \<not> rb_rtc b') \<and>
   ((\<forall>e \<in> set es. plain_turn e) \<and> relays_run b \<longrightarrow> relay_pushes out = event_messages (length (rb_relays b)) (handled es))"
proof (induction es arbitrary: b w b' w' out)
  case Nil
  then show ?case using rtc_end_facts [of b] by (simp split: prod.splits)
next
  case (Cons e es)
  show ?case
  proof (cases "is_abort e")
    case True
    then have e: "e = Task_Aborted" by (simp add: is_abort_def)
    have "concat (map spawns (filter child_event es)) = []" using child_events by (auto simp: concat_eq_Nil_conv)
    with e Cons.prems rtc_orphans_refused [of es J argon2 pw_hash b E crc clk w b' w' out] show ?thesis
      by (simp add: is_abort_def)
  next
    case nab: False
    then have run: "rtc_bridge_run E J argon2 (Some pw_hash) crc clk (e # es) b w =
        (case rtc_bridge_step E J argon2 (Some pw_hash) crc (clk (length es)) e b w of
          ((b1, w1, out1), goes_on) \<Rightarrow>
            (case (if goes_on then rtc_bridge_run E J argon2 (Some pw_hash) crc clk es b1 w1
                   else (case rtc_bridge_end b1 of (b', out) \<Rightarrow> (b', w1, out))) of
               (b2, w2, out2) \<Rightarrow> (b2, w2, out1 @ out2)))"
      by (cases e) (simp_all add: is_abort_def)
    obtain b1 w1 out1 goes where s: "rtc_bridge_step E J argon2 (Some pw_hash) crc (clk (length es)) e b w = ((b1, w1, out1), goes)"
      by (metis prod.exhaust)
    have "\<not> rtc_correct J argon2 pw_hash e" using Cons.prems(1) by simp
    note q = rtc_step_refused [OF this Cons.prems(2) s]
    show ?thesis
    proof (cases "rtc_ends e")
      case True
      obtain b2 o2 where d: "rtc_bridge_end b1 = (b2, o2)" by fastforce
      have "b' = b2" "w' = w1" "out = out1 @ o2" using Cons.prems(1,3) q True nab unfolding run s by (simp_all add: d)
      then show ?thesis
        using q Cons.prems(1) True nab rtc_end_facts [OF d] by (simp del: event_messages.simps(2))
    next
      case False
      obtain b2 w2 o2 where r: "rtc_bridge_run E J argon2 (Some pw_hash) crc clk es b1 w1 = (b2, w2, o2)" by (metis prod.exhaust)
      have no1: "\<forall>a \<in> set (rb_controls b1). \<not> a" and goes: goes using q False nab by blast+
      have "b' = b2" "w' = w2" "out = out1 @ o2" using Cons.prems(3) goes unfolding run s by (simp_all add: r)
      then show ?thesis using Cons.IH [OF _ no1 r] q Cons.prems(1) False nab by (simp del: event_messages.simps)
    qed
  qed
qed

text \<open>
  \<^bold>\<open>C19\<close>. What the password guards on a WebRTC connection, and what it does not. While a password is set and the
  peer does not send it, the control channels answer every request with a refusal, and no request changes the
  daemon's state or reaches an evaluation. Two things are not guarded: every non-empty frame of the terminal
  channel that is not one of the reliable protocol reaches the PTY, in order, and every event of the daemon
  that has a message is pushed to each control channel, as long as its relay neither lags nor fails to
  send. However the task ends by itself, exactly the child tasks spawned are aborted, the transport is gone and
  the session is not marked active. But if a new offer aborts the task first, no child task is aborted, all go
  on with what arrives, and the transport stays if the terminal channel had registered it.
\<close>

theorem rtc_input_not_gated:
  assumes start: "rtc_bridge_start browser sm = Some b"
    and no_auth: "\<forall>e \<in> set es. \<not> rtc_correct J argon2 pw_hash e"
    and run: "rtc_bridge_run E J argon2 (Some pw_hash) crc clk es b w = (b', w', out)"
  shows "w' = w \<and> refusals out \<and> no_replies out \<and>
    daemon_events out = concat (map terminal_input (handled es)) \<and>
    ((\<forall>e \<in> set es. plain_turn e) \<longrightarrow> relay_pushes out = event_messages 0 (handled es)) \<and>
    (if aborted es
     then aborted_tasks out = [] \<and> rb_tasks b' = concat (map spawns (handled es)) \<and>
          (has_transport ''rtc'' (rb_multi b') \<longleftrightarrow> fold sink_after (handled es) (has_transport ''rtc'' (rb_multi b)))
     else aborted_tasks out = concat (map spawns (handled es)) \<and> rb_tasks b' = [] \<and>
          \<not> has_transport ''rtc'' (rb_multi b') \<and> \<not> rb_rtc b')"
proof -
  have "rb_controls b = []" "rb_relays b = []" "rb_tasks b = []"
    using start by (auto simp: rtc_bridge_start_def split: option.splits)
  then show ?thesis using rtc_run_refused [OF no_auth _ run] by (simp add: relays_run_def)
qed

definition toy_rpc :: rpc_env where
  "toy_rpc = \<lparr>rpc_tts_entries = JArr [], rpc_info_entries = JArr [], rpc_local_gpu_url = [], rpc_force_lowercase = False,
     rpc_lowercase = id\<rparr>"

definition rtc_peer :: "nat rtc_bridge" where
  "rtc_peer = \<lparr>rb_multi = multi (fst (session_new 5 default_config 1)), rb_rtc = False, rb_grace = False, rb_controls = [],
     rb_relays = [], rb_tasks = []\<rparr>"

text \<open>A peer without the password, aborted by a new offer: input before and after the abort and a pushed event.\<close>

definition rtc_toy_events :: "(nat, json_tree) rtc_event list" where
  "rtc_toy_events =
     [Incoming_Channel ''control'' 1 2 9, Control_Message 0 (Msg_Json (JObj [(''type'', JStr ''terminal_input''), (''data'', JStr ''x'')])),
      Incoming_Channel ''terminal'' 3 4 9, Relay_Turn 0 (Event (Led ''joy''), True, None, True), Task_Aborted,
      Terminal_Message (Msg_Binary [108, 115])]"

theorem rtc_input_not_gated_witness:
  "\<exists>b' out. rtc_bridge_run toy_rpc (tree_lib (\<lambda>_. None)) (\<lambda>pw hash. False) (Some ''$argon2id'') (\<lambda>_. 0) (\<lambda>_ _. 0)
     rtc_toy_events rtc_peer toy_web_state = (b', toy_web_state, out) \<and>
     refusals out \<and> daemon_events out = [Pty_Input ''ls''] \<and> relay_pushes out = opt_out (rtc_message (Led ''joy'')) \<and>
     aborted_tasks out = [] \<and> rb_tasks b' = [1, 2, 3] \<and> has_transport ''rtc'' (rb_multi b')"
proof -
  let ?es = rtc_toy_events
  obtain b' w' out where r: "rtc_bridge_run toy_rpc (tree_lib (\<lambda>_. None)) (\<lambda>pw hash. False) (Some ''$argon2id'') (\<lambda>_. 0) (\<lambda>_ _. 0)
      ?es rtc_peer toy_web_state = (b', w', out)" by (metis prod.exhaust)
  have start: "rtc_bridge_start (Some 5) (fst (create_with_id 5 default_config 1 manager_new)) = Some rtc_peer"
    by (simp add: rtc_bridge_start_def get_session_def create_with_id_eq manager_new_def rtc_peer_def session_new_def)
  have no: "\<forall>e \<in> set ?es. \<not> rtc_correct (tree_lib (\<lambda>_. None)) (\<lambda>pw hash. False) ''$argon2id'' e"
    by (auto simp: rtc_toy_events_def rtc_correct_def verify_daemon_password_def)
  have len: "utf8_lossy [108, 115] = [108, 115]" by (rule utf8_lossy_valid) (simp add: utf8_valid_ascii)
  have h: "handled ?es = take 4 ?es @ drop 5 ?es" "aborted ?es"
    by (simp_all add: rtc_toy_events_def is_abort_def rtc_ends_def child_event_def)
  have "concat (map terminal_input (handled ?es)) = [Pty_Input ''ls'']"
    unfolding h(1) by (simp add: rtc_toy_events_def terminal_input_def len is_reliable_def MAGIC_def MAGIC_ACK_def MAGIC_RESUME_def of_bytes_def) code_simp
  moreover have "\<forall>e \<in> set ?es. plain_turn e" "event_messages 0 (handled ?es) = opt_out (rtc_message (Led ''joy''))"
    "concat (map spawns (handled ?es)) = [1, 2, 3]" "fold sink_after (handled ?es) x" for x
    unfolding h(1) by (simp_all add: rtc_toy_events_def plain_turn_def spawns_def sink_after_def)
  ultimately show ?thesis using rtc_input_not_gated [OF start no r] r h(2) by auto
qed

end
