(* ===== verification/Ec2_Session.thy ===== *)
theory Ec2_Session
  imports Link Encrypted Rtc_Session "HOL-Library.Sublist"
begin

text \<open>
  \<open>src/crates/b3-cli/src/daemon/ec2_proxy.rs\<close>: one browser session through the server. Frames of the server
  arrive on a WebSocket that the daemon dialled; they are control frames, the handshake of the encrypted
  channel, or its ciphertexts. What the browser types goes to the local socket \<open>/ws-proxy\<close>, its HTTP requests to
  a local port; events go out through the encrypted channel. A local socket is open or not; its sends, the
  connection to it and the answers of the HTTP client are arguments. The bounded queues hand over what is
  put into them.
\<close>

section \<open>Environment, state, outputs\<close>

record 'v ec2_env =
  ec2_crypto :: crypto_lib
  ec2_json :: "'v json_lib"
  ec2_crc :: "bytes \<Rightarrow> u32"
  ec2_print :: "json_tree \<Rightarrow> bytes"
  ec2_version :: string
  ec2_web_port :: u16
  ec2_app_port :: "u16 option"
  ec2_proxy_token :: string
  ec2_api_key :: string

record ec2_session =
  es_enc :: "unit encrypted_channel"
  es_local :: bool
  es_offset :: u64

datatype http_verb = Http_Get | Http_Post | Http_Put | Http_Patch | Http_Delete

record http_request =
  rq_id :: string
  rq_verb :: http_verb
  rq_port :: u16
  rq_path :: string
  rq_headers :: "(string \<times> string) list"
  rq_body :: "bytes option"
  rq_encrypted :: bool

definition request_url :: "http_request \<Rightarrow> string" where
  "request_url r = ''http://127.0.0.1:'' @ show_nat (unat (rq_port r)) @ rq_path r"

datatype ec2_output =
    To_Ec2 bytes
  | Connect_Local string
  | Local_Text bytes
  | Local_Binary bytes
  | Http http_request
  | Queue_Response bytes

definition raw_outputs :: "('h \<times> bytes) list \<Rightarrow> ec2_output list" where
  "raw_outputs out = map (\<lambda>(h, b). To_Ec2 b) out"

text \<open>The writer task: a frame that is valid UTF-8 goes as text. The sends to the local socket do the same.\<close>

definition ec2_writer :: "bytes \<Rightarrow> ws_frame" where
  "ec2_writer data = (if utf8_valid data then Frame_Text data else Frame_Binary data)"

definition ec2_new :: "'v ec2_env \<Rightarrow> bytes \<Rightarrow> ec2_session" where
  "ec2_new E secret =
     \<lparr>es_enc = set_version (ec2_version E) (encrypted_new (ec2_crypto E) default_config secret ()),
      es_local = False, es_offset = 0\<rparr>"

text \<open>\<open>str::parse::<u64>\<close>: an optional plus sign and digits, in the range of the type.\<close>

definition parse_u64 :: "string \<Rightarrow> u64 option" where
  "parse_u64 s =
     (let ds = (if take 1 s = ''+'' then tl s else s)
      in if ds \<noteq> [] \<and> list_all is_digit ds \<and> parse_nat ds < 2 ^ 64 then Some (of_nat (parse_nat ds)) else None)"


section \<open>HTTP requests\<close>

definition status_frame :: "'v ec2_env \<Rightarrow> string \<Rightarrow> u64 \<Rightarrow> string \<Rightarrow> bytes" where
  "status_frame E i status body =
     ec2_print E (typed ''http_response'' [(''id'', JStr i), (''status'', JNum status), (''body'', JStr body)])"

definition request_body :: "'v ec2_env \<Rightarrow> 'v \<Rightarrow> bytes" where
  "request_body E v =
     (let J = ec2_json E; raw = or_str J v ''body'' []
      in if or_str J v ''body_encoding'' [] = ''base64''
         then (case b64_dec (ec2_crypto E) raw of Some bs \<Rightarrow> bs | None \<Rightarrow> [])
         else ascii raw)"

definition request_content_type :: "'v ec2_env \<Rightarrow> 'v \<Rightarrow> string" where
  "request_content_type E v =
     (let J = ec2_json E;
          ct = Option.bind (json_get J v ''headers'') (\<lambda>h.
                 case json_get J h ''content-type'' of Some x \<Rightarrow> Some x | None \<Rightarrow> json_get J h ''Content-Type'')
      in case Option.bind ct (json_str J) of Some s \<Rightarrow> s | None \<Rightarrow> ''application/octet-stream'')"

definition build_request :: "'v ec2_env \<Rightarrow> 'v \<Rightarrow> u16 \<Rightarrow> string option \<Rightarrow> bool \<Rightarrow> http_request" where
  "build_request E v port bearer encrypted =
     (let J = ec2_json E;
          meth = or_str J v ''method'' ''GET'';
          verb = (if meth = ''POST'' then Http_Post else if meth = ''PUT'' then Http_Put
                  else if meth = ''PATCH'' then Http_Patch else if meth = ''DELETE'' then Http_Delete else Http_Get);
          auth = (case bearer of Some key \<Rightarrow> [(''Authorization'', ''Bearer '' @ key)] | None \<Rightarrow> [])
      in \<lparr>rq_id = or_str J v ''id'' [], rq_verb = verb, rq_port = port, rq_path = or_str J v ''path'' ''/'',
          rq_headers = (if verb \<in> {Http_Post, Http_Put, Http_Patch} then [(''Content-Type'', request_content_type E v)] else [])
                       @ auth,
          rq_body = (if verb = Http_Get then None else Some (request_body E v)), rq_encrypted = encrypted\<rparr>)"

text \<open>Before the handshake: only the application's port may be asked for, and the answer is sent in the clear.\<close>

definition raw_http :: "'v ec2_env \<Rightarrow> 'v \<Rightarrow> ec2_output" where
  "raw_http E v =
     (let J = ec2_json E; i = or_str J v ''id'' []
      in if or_str J v ''target'' ''api'' = ''app'' then
           (case ec2_app_port E of
              Some port \<Rightarrow> Http (build_request E v port None False)
            | None \<Rightarrow> To_Ec2 (status_frame E i 503 ''{\"error\":\"app proxy not enabled\"}''))
         else To_Ec2 (status_frame E i 400 ''{\"error\":\"unsupported target for raw session\"}''))"

definition api_http :: "'v ec2_env \<Rightarrow> 'v \<Rightarrow> ec2_output" where
  "api_http E v =
     (let J = ec2_json E; i = or_str J v ''id'' []
      in if or_str J v ''target'' ''api'' = ''app'' then
           (case ec2_app_port E of
              Some port \<Rightarrow> Http (build_request E v port None True)
            | None \<Rightarrow> Queue_Response (status_frame E i 404 ''{\"error\":\"app proxy not enabled\"}''))
         else if take 5 (or_str J v ''path'' ''/'') \<noteq> ''/api/'' then
           Queue_Response (status_frame E i 403 ''{\"error\":\"forbidden\"}'')
         else Http (build_request E v (ec2_web_port E) (Some (ec2_api_key E)) True))"

text \<open>
  The task of a request: what the HTTP client answers, as the frame sent to the browser. The body is missing
  when it could not be read; the error text differs by a blank between the two copies of the code.
\<close>

datatype http_outcome = Answered u16 "string option" "bytes option" | Request_Failed string

definition http_reply :: "'v ec2_env \<Rightarrow> http_request \<Rightarrow> http_outcome \<Rightarrow> ec2_output" where
  "http_reply E r outcome =
     (let (status, body, enc, ct) =
        (case outcome of
           Answered status ct body \<Rightarrow>
             (status, case body of Some bs \<Rightarrow> b64_enc (ec2_crypto E) bs | None \<Rightarrow> [], ''base64'',
              case ct of Some c \<Rightarrow> c | None \<Rightarrow> ''application/octet-stream'')
         | Request_Failed e \<Rightarrow>
             (502, ''{\"error\":\"'' @ e @ (if rq_encrypted r then ''\" }'' else ''\"}''), [], ''application/json''));
          frame = ec2_print E (typed ''http_response''
            [(''id'', JStr (rq_id r)), (''status'', JNum (ucast status)), (''body'', JStr body),
             (''body_encoding'', JStr enc), (''content_type'', JStr ct)])
      in if rq_encrypted r then Queue_Response frame else To_Ec2 frame)"


section \<open>Frames of the server\<close>

text \<open>The decrypted messages of one frame; \<open>ok\<close> tells which sends to the local socket succeed.\<close>

fun forward_msgs :: "'v ec2_env \<Rightarrow> (nat \<Rightarrow> bool) \<Rightarrow> received_message list \<Rightarrow> bool \<Rightarrow> bool \<times> ec2_output list" where
  "forward_msgs E ok [] local = (local, [])"
| "forward_msgs E ok (m # ms) local =
     (case (case json_parse (ec2_json E) (rm_payload m) of
              Some req \<Rightarrow> (if get_str (ec2_json E) req ''type'' = Some ''http_request'' then Some req else None)
            | None \<Rightarrow> None) of
        Some req \<Rightarrow> (let (l, out) = forward_msgs E (ok \<circ> Suc) ms local in (l, api_http E req # out))
      | None \<Rightarrow>
          (if local then
             (let msg = (if utf8_valid (rm_payload m) then Local_Text (rm_payload m) else Local_Binary (rm_payload m))
              in if ok 0 then (let (l, out) = forward_msgs E (ok \<circ> Suc) ms local in (l, msg # out)) else (False, [msg]))
           else forward_msgs E (ok \<circ> Suc) ms local))"

text \<open>The state, the outputs, and whether the handshake counts as completed.\<close>

definition before_handshake ::
  "'v ec2_env \<Rightarrow> (nat \<Rightarrow> u32) \<Rightarrow> bool \<Rightarrow> bytes \<Rightarrow> ec2_session \<Rightarrow> ec2_session \<times> ec2_output list \<times> bool" where
  "before_handshake E clk connects data s =
     (let J = ec2_json E
      in case json_parse J data of
           None \<Rightarrow> (s, [], False)
         | Some v \<Rightarrow>
             (if get_str J v ''type'' = Some ''http_request'' then (s, [raw_http E v], False)
              else if get_str J v ''type'' \<noteq> Some ''handshake'' then (s, [], False)
              else
                let pty_session_id =
                      (case Option.bind (json_get J v ''session_id'') (\<lambda>x.
                              case json_u64 J x of Some n \<Rightarrow> Some n | None \<Rightarrow> Option.bind (json_str J x) parse_u64) of
                         Some n \<Rightarrow> n | None \<Rightarrow> 0);
                    url = ''ws://127.0.0.1:'' @ show_nat (unat (ec2_web_port E)) @ ''/ws-proxy?proxy_token='' @
                          ec2_proxy_token E @ ''&session_id='' @ show_nat (unat pty_session_id)
                in if connects then
                     (let (enc, ms, out) = encrypted_receive (ec2_crypto E) J (ec2_crc E) clk data (es_enc s)
                      in (s\<lparr>es_enc := enc, es_local := True\<rparr>, Connect_Local url # raw_outputs out, True))
                   else (s, [Connect_Local url], False)))"

definition after_handshake ::
  "'v ec2_env \<Rightarrow> (nat \<Rightarrow> u32) \<Rightarrow> (nat \<Rightarrow> bool) \<Rightarrow> bytes \<Rightarrow> ec2_session \<Rightarrow> ec2_session \<times> ec2_output list" where
  "after_handshake E clk ok data s =
     (let (enc, ms, out) = encrypted_receive (ec2_crypto E) (ec2_json E) (ec2_crc E) clk data (es_enc s);
          (l, fwd) = forward_msgs E ok ms (es_local s)
      in (s\<lparr>es_enc := enc, es_local := l\<rparr>, raw_outputs out @ fwd))"

definition handle_ec2_frame ::
  "'v ec2_env \<Rightarrow> (nat \<Rightarrow> u32) \<Rightarrow> bool \<Rightarrow> (nat \<Rightarrow> bool) \<Rightarrow> bytes \<Rightarrow> ec2_session \<Rightarrow> ec2_session \<times> ec2_output list \<times> bool" where
  "handle_ec2_frame E clk connects ok data s =
     (let J = ec2_json E;
          v = json_parse J data;
          ty = Option.bind v (\<lambda>v. get_str J v ''type'')
      in if ty = Some ''browser_disconnected'' then (s\<lparr>es_local := False\<rparr>, [], False)
         else if ty = Some ''echo_ping'' then
           (s, [To_Ec2 (ec2_print E (typed ''echo_pong''
                  [(''id'', JStr (case v of Some x \<Rightarrow> or_str J x ''id'' [] | None \<Rightarrow> []))]))], False)
         else if ty = Some ''telemetry'' \<or> ty = Some ''browser_log'' then
           (if es_local s \<and> utf8_valid data then (s\<lparr>es_local := ok 0\<rparr>, [Local_Text data], False) else (s, [], False))
         else
           let s1 = (if ty = Some ''handshake'' \<and> is_ready (es_enc s)
                     then s\<lparr>es_local := False, es_enc := reset_for_reconnect () (es_enc s)\<rparr> else s)
           in if \<not> is_ready (es_enc s1) then before_handshake E clk connects data s1
              else (case after_handshake E clk ok data s1 of (s2, out) \<Rightarrow> (s2, out, False)))"


section \<open>The loop of a session\<close>

text \<open>\<open>enc.send\<close>; \<open>None\<close> is its panic.\<close>

definition ec2_send ::
  "'v ec2_env \<Rightarrow> (nat \<Rightarrow> u32) \<Rightarrow> json_tree \<times> priority \<Rightarrow> ec2_session \<Rightarrow> (ec2_session \<times> ec2_output list) option" where
  "ec2_send E clk m s =
     (case encrypted_send (ec2_crypto E) (ec2_crc E) clk (ec2_print E (fst m)) (snd m) (es_enc s) of
        None \<Rightarrow> None
      | Some (enc, out) \<Rightarrow> Some (s\<lparr>es_enc := enc\<rparr>, raw_outputs out))"

definition send_init_frame ::
  "'v ec2_env \<Rightarrow> (nat \<Rightarrow> u32) \<Rightarrow> session_store \<Rightarrow> ec2_session \<Rightarrow> (ec2_session \<times> ec2_output list) option" where
  "send_init_frame E clk st s =
     (case ec2_init (b64_enc (ec2_crypto E)) (es_offset s) st of
        (offset, [msg]) \<Rightarrow> map_option (\<lambda>(s1, out). (s1\<lparr>es_offset := offset\<rparr>, out)) (ec2_send E clk (msg, Critical) s)
      | _ \<Rightarrow> Some (s, []))"

definition ec2_delta ::
  "'v ec2_env \<Rightarrow> (nat \<Rightarrow> u32) \<Rightarrow> session_store \<Rightarrow> ec2_session \<Rightarrow> (ec2_session \<times> ec2_output list) option" where
  "ec2_delta E clk st s =
     (case delta_msg (b64_enc (ec2_crypto E)) (es_offset s) st of
        Some (msg, offset) \<Rightarrow> ec2_send E clk (msg, BestEffort) (s\<lparr>es_offset := offset\<rparr>)
      | None \<Rightarrow> Some (s, []))"

text \<open>
  What the loop selects: a frame (with the connection and send outcomes it will meet and the store read for the
  initial picture), a WebSocket frame without data, the end of the socket, an event, a queued HTTP response, or
  the timer.
\<close>

datatype ec2_event =
    From_Ec2 "nat \<Rightarrow> u32" "nat \<Rightarrow> u32" bool "nat \<Rightarrow> bool" session_store bytes
  | Ec2_Ping
  | Ec2_End
  | Daemon_Says "nat \<Rightarrow> u32" session_store event_recv
  | Response_Ready "nat \<Rightarrow> u32" bytes
  | Timer

definition go_on :: "(ec2_session \<times> ec2_output list) option \<Rightarrow> (ec2_session \<times> ec2_output list \<times> bool) option" where
  "go_on r = map_option (\<lambda>(s, out). (s, out, True)) r"

fun ec2_step ::
  "'v ec2_env \<Rightarrow> ec2_event \<Rightarrow> ec2_session \<Rightarrow> (ec2_session \<times> ec2_output list \<times> bool) option" where
  "ec2_step E (From_Ec2 clk clk2 connects ok st data) s =
     (case handle_ec2_frame E clk connects ok data s of
        (s1, out, just_ready) \<Rightarrow>
          (if just_ready then go_on (map_option (\<lambda>(s2, out2). (s2, out @ out2)) (send_init_frame E clk2 st s1))
           else Some (s1, out, True)))"
| "ec2_step E Ec2_Ping s = Some (s, [], True)"
| "ec2_step E Ec2_End s = Some (s, [], False)"
| "ec2_step E (Daemon_Says clk st e) s =
     (if \<not> is_ready (es_enc s) then Some (s, [], True)
      else case e of
             Event (Session_Updated n) \<Rightarrow> go_on (ec2_delta E clk st s)
           | Event ev \<Rightarrow> (case ec2_message ev of Some msg \<Rightarrow> go_on (ec2_send E clk (msg, Critical) s) | None \<Rightarrow> Some (s, [], True))
           | Lagged n \<Rightarrow> go_on (ec2_delta E clk st s)
           | Closed \<Rightarrow> Some (s, [], False))"
| "ec2_step E (Response_Ready clk resp) s =
     (if is_ready (es_enc s)
      then (case encrypted_send (ec2_crypto E) (ec2_crc E) clk resp Critical (es_enc s) of
              None \<Rightarrow> None | Some (enc, out) \<Rightarrow> Some (s\<lparr>es_enc := enc\<rparr>, raw_outputs out, True))
      else Some (s, [], True))"
| "ec2_step E Timer s =
     (if is_ready (es_enc s)
      then (case encrypted_tick (ec2_crypto E) (es_enc s) of (enc, out) \<Rightarrow> Some (s\<lparr>es_enc := enc\<rparr>, raw_outputs out, True))
      else Some (s, [], True))"

fun ec2_run ::
  "'v ec2_env \<Rightarrow> ec2_event list \<Rightarrow> ec2_session \<Rightarrow> (ec2_session \<times> ec2_output list \<times> bool) option" where
  "ec2_run E [] s = Some (s, [], True)"
| "ec2_run E (e # es) s =
     (case ec2_step E e s of
        None \<Rightarrow> None
      | Some (s1, out, goes_on) \<Rightarrow>
          (if goes_on then map_option (\<lambda>(s2, out2, r). (s2, out @ out2, r)) (ec2_run E es s1) else Some (s1, out, False)))"


section \<open>What a step keeps\<close>

definition ec2_inv :: "bytes \<Rightarrow> ec2_session \<Rightarrow> bool" where
  "ec2_inv secret s \<longleftrightarrow> cfg (inner (es_enc s)) = default_config \<and> long_term_secret (es_enc s) = secret"

lemma seal_all_secret: "seal_all K ws ec = (ec', out) \<Longrightarrow> long_term_secret ec' = long_term_secret ec"
proof (induction K ws ec arbitrary: ec' out rule: seal_all.induct)
  case (2 K w ws ec)
  obtain ec1 o1 where s1: "seal K w ec = (ec1, o1)" by fastforce
  obtain ec2 o2 where s2: "seal_all K ws ec1 = (ec2, o2)" by fastforce
  have "long_term_secret ec1 = long_term_secret ec" using s1 by (auto simp: seal_def Let_def split: option.splits)
  with "2.IH" [OF s1 [symmetric] refl s2] "2.prems" s1 s2 show ?case by simp
qed simp

text \<open>What the operations of the encrypted channel keep, with the keys they leave.\<close>

definition same_keys :: "'h encrypted_channel \<Rightarrow> 'h encrypted_channel \<Rightarrow> bool" where
  "same_keys ec ec' \<longleftrightarrow>
     cfg (inner ec') = cfg (inner ec) \<and> long_term_secret ec' = long_term_secret ec \<and> ec_state ec' = ec_state ec \<and>
     recv_cipher ec' = recv_cipher ec"

lemma same_keys_refl [simp]: "same_keys ec ec"
  by (simp add: same_keys_def)

lemma seal_all_same_keys:
  "seal_all K ws (ec\<lparr>inner := ch\<rparr>) = (ec', out) \<Longrightarrow> cfg ch = cfg (inner ec) \<Longrightarrow> same_keys ec ec'"
  using seal_all_keeps [of K ws "ec\<lparr>inner := ch\<rparr>" ec' out] seal_all_secret [of K ws "ec\<lparr>inner := ch\<rparr>" ec' out]
  by (simp add: same_keys_def)

lemma encrypted_send_same_keys: "encrypted_send K crc clk pl pri ec = Some (ec', out) \<Longrightarrow> same_keys ec ec'"
  by (auto simp: encrypted_send_def intro!: seal_all_same_keys dest: send_cfg split: if_splits option.splits)

lemma tick_cfg: "tick ch = (ch', ws) \<Longrightarrow> cfg ch' = cfg ch"
  by (auto simp: tick_def Let_def split: if_splits prod.splits)

lemma encrypted_tick_same_keys: "encrypted_tick K ec = (ec', out) \<Longrightarrow> same_keys ec ec'"
  by (auto simp: encrypted_tick_def intro!: seal_all_same_keys dest: tick_cfg split: prod.splits)

lemma encrypted_receive_same_keys:
  "encrypted_receive K J crc clk data ec = (ec', ms, out) \<Longrightarrow> is_ready ec \<Longrightarrow> same_keys ec ec'"
proof (cases "decrypt_frame K data ec")
  case None
  assume "encrypted_receive K J crc clk data ec = (ec', ms, out)" "is_ready ec"
  with None show ?thesis by (auto simp: encrypted_receive_def is_ready_def same_keys_def)
next
  case (Some plain)
  assume "encrypted_receive K J crc clk data ec = (ec', ms, out)" "is_ready ec"
  with Some show ?thesis
    by (auto simp: encrypted_receive_def is_ready_def intro!: seal_all_same_keys dest: receive_cfg split: prod.splits)
qed

lemma encrypted_send_returns:
  "is_ready ec \<Longrightarrow> cfg (inner ec) = default_config \<Longrightarrow> encrypted_send K crc clk pl pri ec \<noteq> None"
  using frame_payloads_Some [of "max_frame_payload (cfg (inner ec))" pl]
  by (auto simp: encrypted_send_def send_def default_config_def split_def)


text \<open>
  The handshake frame that counts: the keys derived from it, and the frames the code takes for a handshake.
\<close>

definition ec2_okm :: "'v ec2_env \<Rightarrow> bytes \<Rightarrow> bytes \<Rightarrow> bytes option" where
  "ec2_okm E secret data = handshake_okm (ec2_crypto E) (ec2_json E) secret data"

definition frame_type :: "'v ec2_env \<Rightarrow> bytes \<Rightarrow> string option" where
  "frame_type E data = Option.bind (json_parse (ec2_json E) data) (\<lambda>v. get_str (ec2_json E) v ''type'')"

lemma reset_not_ready [simp]:
  "\<not> is_ready (reset_for_reconnect tx ec)"
  "cfg (inner (reset_for_reconnect tx ec)) = cfg (inner ec)"
  "long_term_secret (reset_for_reconnect tx ec) = long_term_secret ec"
  by (simp_all add: reset_for_reconnect_def is_ready_def channel_reset_def set_transport_def)

lemma handshaking_receive:
  assumes "\<not> is_ready ec" and "encrypted_receive K J crc clk data ec = (ec', ms, out)"
  shows "cfg (inner ec') = cfg (inner ec) \<and> long_term_secret ec' = long_term_secret ec \<and>
    (case handshake_okm K J (long_term_secret ec) data of
       None \<Rightarrow> ec' = ec
     | Some okm \<Rightarrow> is_ready ec' \<and> recv_cipher ec' = Some (take 32 okm))"
  using assms
  by (cases "ec_state ec")
    (auto simp: encrypted_receive_def is_ready_def handle_handshake_def handshake_okm_def Let_def
      split: option.splits if_splits bind_splits)

lemma before_handshake_keeps:
  assumes "before_handshake E clk connects data s = (s', out, jr)" and "\<not> is_ready (es_enc s)" and "ec2_inv secret s"
  shows "ec2_inv secret s' \<and> (jr \<longleftrightarrow> frame_type E data = Some ''handshake'' \<and> connects) \<and>
    (is_ready (es_enc s') \<longleftrightarrow> jr \<and> ec2_okm E secret data \<noteq> None) \<and>
    (is_ready (es_enc s') \<longrightarrow> recv_cipher (es_enc s') = map_option (take 32) (ec2_okm E secret data))"
proof -
  obtain enc ms o2 where r: "encrypted_receive (ec2_crypto E) (ec2_json E) (ec2_crc E) clk data (es_enc s) = (enc, ms, o2)"
    by (cases "encrypted_receive (ec2_crypto E) (ec2_json E) (ec2_crc E) clk data (es_enc s)")
  show ?thesis
    using assms handshaking_receive [OF assms(2) r] r
    by (auto simp: before_handshake_def Let_def ec2_inv_def frame_type_def ec2_okm_def split: option.splits if_splits)
qed

lemma after_handshake_keeps:
  assumes "after_handshake E clk ok data s = (s', out)" and "is_ready (es_enc s)"
  shows "same_keys (es_enc s) (es_enc s')"
  using assms by (auto simp: after_handshake_def Let_def dest: encrypted_receive_same_keys split: prod.splits)

text \<open>
  One frame: the invariant, when the handshake counts as completed, and the receiving key afterwards.
\<close>

lemma handle_ec2_frame_keeps:
  assumes "handle_ec2_frame E clk connects ok data s = (s', out, jr)" and inv: "ec2_inv secret s"
  shows "ec2_inv secret s' \<and> (jr \<longleftrightarrow> frame_type E data = Some ''handshake'' \<and> connects) \<and>
    (jr \<longrightarrow> (is_ready (es_enc s') \<longleftrightarrow> ec2_okm E secret data \<noteq> None)) \<and>
    (is_ready (es_enc s') \<longrightarrow>
       (jr \<and> recv_cipher (es_enc s') = map_option (take 32) (ec2_okm E secret data)) \<or>
       (\<not> jr \<and> is_ready (es_enc s) \<and> recv_cipher (es_enc s') = recv_cipher (es_enc s)))"
proof -
  define s1 where "s1 = (if frame_type E data = Some ''handshake'' \<and> is_ready (es_enc s)
    then s\<lparr>es_local := False, es_enc := reset_for_reconnect () (es_enc s)\<rparr> else s)"
  have inv1: "ec2_inv secret s1" using inv by (simp add: s1_def ec2_inv_def)
  note h = assms(1) [unfolded handle_ec2_frame_def Let_def, folded frame_type_def, folded s1_def]
  consider "frame_type E data \<in> {Some ''browser_disconnected'', Some ''echo_ping'', Some ''telemetry'', Some ''browser_log''}"
    | (hs) "\<not> is_ready (es_enc s1)" "before_handshake E clk connects data s1 = (s', out, jr)"
    | (ready) "is_ready (es_enc s1)" "after_handshake E clk ok data s1 = (s', out)" "\<not> jr"
    using h by (auto split: if_splits prod.splits)
  then show ?thesis
  proof cases
    case 1
    then show ?thesis using h inv by (auto simp: ec2_inv_def split: if_splits)
  next
    case hs
    from before_handshake_keeps [OF hs(2,1) inv1] show ?thesis by blast
  next
    case ready
    then have "frame_type E data \<noteq> Some ''handshake''" "s1 = s" by (auto simp: s1_def split: if_splits)
    with ready after_handshake_keeps [OF ready(2,1)] inv show ?thesis
      by (auto simp: same_keys_def ec2_inv_def is_ready_def)
  qed
qed


lemma same_keys_inv: "same_keys (es_enc s) ec \<Longrightarrow> ec2_inv secret s \<Longrightarrow> ec2_inv secret (s\<lparr>es_enc := ec\<rparr>)"
  by (simp add: same_keys_def ec2_inv_def)

lemma ec2_send_keeps: "ec2_send E clk m s = Some (s', out) \<Longrightarrow> same_keys (es_enc s) (es_enc s')"
  by (auto simp: ec2_send_def dest: encrypted_send_same_keys split: option.splits)

lemma ec2_send_returns: "is_ready (es_enc s) \<Longrightarrow> ec2_inv secret s \<Longrightarrow> ec2_send E clk m s \<noteq> None"
  using encrypted_send_returns [of "es_enc s"] by (auto simp: ec2_send_def ec2_inv_def split: option.splits)

lemma ec2_send_panics: "\<not> is_ready (es_enc s) \<Longrightarrow> ec2_send E clk m s = None"
  by (simp add: ec2_send_def encrypted_send_def)

lemma ec2_send_None: "ec2_inv secret s \<Longrightarrow> ec2_send E clk m s = None \<longleftrightarrow> \<not> is_ready (es_enc s)"
  using ec2_send_panics ec2_send_returns by blast

lemma send_init_frame_cases:
  "send_init_frame E clk st s =
     (case st of None \<Rightarrow> Some (s, [])
      | Some buf \<Rightarrow> map_option (\<lambda>(s1, out). (s1\<lparr>es_offset := write_offset buf\<rparr>, out))
          (ec2_send E clk (screen_json (b64_enc (ec2_crypto E)) ''init'' (terminal_data buf) (sb_rows buf) (sb_cols buf), Critical) s))"
  by (simp add: send_init_frame_def ec2_init_def split: option.splits)

lemma send_init_frame_keeps: "send_init_frame E clk st s = Some (s', out) \<Longrightarrow> same_keys (es_enc s) (es_enc s')"
  by (auto simp: send_init_frame_cases same_keys_def dest!: ec2_send_keeps split: option.splits)

lemma ec2_delta_keeps: "ec2_delta E clk st s = Some (s', out) \<Longrightarrow> same_keys (es_enc s) (es_enc s')"
  by (auto simp: ec2_delta_def dest!: ec2_send_keeps split: option.splits)

lemma ec2_delta_returns: "is_ready (es_enc s) \<Longrightarrow> ec2_inv secret s \<Longrightarrow> ec2_delta E clk st s \<noteq> None"
  using ec2_send_returns [of "s\<lparr>es_offset := o'\<rparr>" secret for o'] 
  by (auto simp: ec2_delta_def ec2_inv_def split: option.splits)

lemmas ec2_keeps = ec2_send_keeps send_init_frame_keeps ec2_delta_keeps encrypted_send_same_keys encrypted_tick_same_keys

text \<open>A step other than a frame keeps the keys; a frame that is a handshake renews them.\<close>

definition completes :: "'v ec2_env \<Rightarrow> ec2_event \<Rightarrow> bytes option" where
  "completes E e =
     (case e of
        From_Ec2 clk clk2 connects ok st data \<Rightarrow> (if connects \<and> frame_type E data = Some ''handshake'' then Some data else None)
      | _ \<Rightarrow> None)"

lemma ec2_step_keeps:
  assumes "ec2_step E e s = Some (s', out, go)" and inv: "ec2_inv secret s"
  shows "ec2_inv secret s' \<and>
    (case completes E e of
       Some data \<Rightarrow> (is_ready (es_enc s') \<longleftrightarrow> ec2_okm E secret data \<noteq> None) \<and>
         (is_ready (es_enc s') \<longrightarrow> recv_cipher (es_enc s') = map_option (take 32) (ec2_okm E secret data))
     | None \<Rightarrow> is_ready (es_enc s') \<longrightarrow> is_ready (es_enc s) \<and> recv_cipher (es_enc s') = recv_cipher (es_enc s))"
proof (cases e)
  case (From_Ec2 clk clk2 connects ok st data)
  obtain s1 o1 jr where h: "handle_ec2_frame E clk connects ok data s = (s1, o1, jr)"
    by (cases "handle_ec2_frame E clk connects ok data s")
  note k = handle_ec2_frame_keeps [OF h inv]
  show ?thesis
  proof (cases jr)
    case True
    then obtain o2 where "send_init_frame E clk2 st s1 = Some (s', o2)"
      using assms(1) h From_Ec2 by (auto simp: go_on_def)
    from send_init_frame_keeps [OF this] True k From_Ec2 show ?thesis
      by (auto simp: completes_def same_keys_def ec2_inv_def is_ready_def)
  next
    case False
    then have "s' = s1" using assms(1) h From_Ec2 by simp
    with False k From_Ec2 show ?thesis by (auto simp: completes_def)
  qed
next
  case (Daemon_Says clk st ev)
  with assms have "same_keys (es_enc s) (es_enc s')"
    by (auto simp: go_on_def dest: ec2_keeps
        split: if_splits event_recv.splits agent_event.splits option.splits)
  with inv Daemon_Says show ?thesis by (auto simp: completes_def same_keys_def ec2_inv_def is_ready_def)
next
  case (Response_Ready clk resp)
  with assms have "same_keys (es_enc s) (es_enc s')"
    by (auto dest: ec2_keeps split: if_splits option.splits)
  with inv Response_Ready show ?thesis by (auto simp: completes_def same_keys_def ec2_inv_def is_ready_def)
next
  case Timer
  with assms have "same_keys (es_enc s) (es_enc s')"
    by (auto dest: ec2_keeps split: if_splits prod.splits)
  with inv Timer show ?thesis by (auto simp: completes_def same_keys_def ec2_inv_def is_ready_def)
qed (use assms in \<open>auto simp: completes_def\<close>)



section \<open>Runs\<close>

text \<open>An output of a run is the output of one of its steps.\<close>

lemma ec2_run_origin:
  assumes "ec2_run E es s0 = Some (s, outs, go)" and "x \<in> set outs"
  shows "\<exists>es1 e es2 s1 out1 s2 out2 go2. es = es1 @ e # es2 \<and> ec2_run E es1 s0 = Some (s1, out1, True) \<and>
    ec2_step E e s1 = Some (s2, out2, go2) \<and> x \<in> set out2"
  using assms
proof (induction es arbitrary: s0 outs)
  case (Cons e es)
  then obtain s1 out1 go1 where st: "ec2_step E e s0 = Some (s1, out1, go1)" by (auto split: option.splits)
  show ?case
  proof (cases "x \<in> set out1")
    case True
    with st show ?thesis by (intro exI [of _ "[]"]) auto
  next
    case False
    with Cons.prems st obtain out2 where "go1" and r: "ec2_run E es s1 = Some (s, out2, go)" "x \<in> set out2"
      by (auto split: if_splits)
    from Cons.IH [OF r] obtain es1 e' es2 s1' out1' s2 out3 go2 where
      o: "es = es1 @ e' # es2" "ec2_run E es1 s1 = Some (s1', out1', True)" "ec2_step E e' s1' = Some (s2, out3, go2)" "x \<in> set out3"
      by blast
    from o(2) st \<open>go1\<close> have "ec2_run E (e # es1) s0 = Some (s1', out1 @ out1', True)" by simp
    with o show ?thesis by (intro exI [of _ "e # es1"]) auto
  qed
qed simp

text \<open>The receiving key of a session: the one of the last handshake that was completed.\<close>

definition key_step :: "'v ec2_env \<Rightarrow> bytes \<Rightarrow> ec2_event \<Rightarrow> bytes option \<Rightarrow> bytes option" where
  "key_step E secret e k = (case completes E e of Some d \<Rightarrow> map_option (take 32) (ec2_okm E secret d) | None \<Rightarrow> k)"

definition session_key :: "'v ec2_env \<Rightarrow> bytes \<Rightarrow> ec2_event list \<Rightarrow> bytes option" where
  "session_key E secret es = fold (key_step E secret) es None"

lemma ec2_run_key_from:
  assumes "ec2_run E es s0 = Some (s, outs, go)" and "ec2_inv secret s0"
    and "is_ready (es_enc s0) \<Longrightarrow> recv_cipher (es_enc s0) = k \<and> k \<noteq> None" and "go"
  shows "ec2_inv secret s \<and>
    (is_ready (es_enc s) \<longrightarrow> recv_cipher (es_enc s) = fold (key_step E secret) es k \<and> fold (key_step E secret) es k \<noteq> None)"
  using assms
proof (induction es arbitrary: s0 outs k)
  case (Cons e es)
  then obtain s1 out1 out2 where st: "ec2_step E e s0 = Some (s1, out1, True)" and r: "ec2_run E es s1 = Some (s, out2, go)"
    by (auto split: option.splits if_splits)
  note keeps = ec2_step_keeps [OF st Cons.prems(2)]
  then have inv: "ec2_inv secret s1" by blast
  have "recv_cipher (es_enc s1) = key_step E secret e k \<and> key_step E secret e k \<noteq> None" if "is_ready (es_enc s1)"
    using keeps that Cons.prems(3) by (auto simp: key_step_def split: option.splits)
  from Cons.IH [OF r inv this Cons.prems(4)] show ?case by simp
qed simp

lemma ec2_new_inv: "ec2_inv secret (ec2_new E secret)" and ec2_new_not_ready: "\<not> is_ready (es_enc (ec2_new E secret))"
  by (simp_all add: ec2_inv_def ec2_new_def set_version_def encrypted_new_def channel_new_def is_ready_def)

lemma ec2_run_key:
  assumes "ec2_run E es (ec2_new E secret) = Some (s, outs, True)"
  shows "ec2_inv secret s \<and> (is_ready (es_enc s) \<longrightarrow> recv_cipher (es_enc s) = session_key E secret es \<and> session_key E secret es \<noteq> None)"
  unfolding session_key_def by (intro ec2_run_key_from [OF assms ec2_new_inv]) (simp_all add: ec2_new_not_ready)


section \<open>What a step lets out\<close>

definition outward :: "ec2_output \<Rightarrow> bool" where
  "outward x = (case x of Http r \<Rightarrow> True | Local_Text b \<Rightarrow> True | Local_Binary b \<Rightarrow> True | _ \<Rightarrow> False)"

definition local_bytes :: "ec2_output list \<Rightarrow> bytes list" where
  "local_bytes out = concat (map (\<lambda>x. case x of Local_Text b \<Rightarrow> [b] | Local_Binary b \<Rightarrow> [b] | _ \<Rightarrow> []) out)"

definition http_requests :: "ec2_output list \<Rightarrow> http_request list" where
  "http_requests out = concat (map (\<lambda>x. case x of Http r \<Rightarrow> [r] | _ \<Rightarrow> []) out)"

definition tagged :: "ec2_output list \<Rightarrow> bool" where
  "tagged out \<longleftrightarrow> (\<forall>b. (Local_Text b \<in> set out \<longrightarrow> utf8_valid b) \<and> (Local_Binary b \<in> set out \<longrightarrow> \<not> utf8_valid b))"

lemma outputs_Nil [simp]: "local_bytes [] = []" "http_requests [] = []" "tagged []"
  by (simp_all add: local_bytes_def http_requests_def tagged_def)

lemma outputs_app [simp]:
  "local_bytes (a @ b) = local_bytes a @ local_bytes b" "http_requests (a @ b) = http_requests a @ http_requests b"
  "tagged (a @ b) \<longleftrightarrow> tagged a \<and> tagged b"
  by (auto simp: local_bytes_def http_requests_def tagged_def)

lemma outputs_Cons [simp]:
  "local_bytes (Local_Text b # out) = b # local_bytes out" "local_bytes (Local_Binary b # out) = b # local_bytes out"
  "\<not> outward x \<Longrightarrow> local_bytes (x # out) = local_bytes out" "local_bytes (Http r # out) = local_bytes out"
  "http_requests (Local_Text b # out) = http_requests out" "http_requests (Local_Binary b # out) = http_requests out"
  "\<not> outward x \<Longrightarrow> http_requests (x # out) = http_requests out" "http_requests (Http r # out) = r # http_requests out"
  "tagged (Local_Text b # out) \<longleftrightarrow> utf8_valid b \<and> tagged out" "tagged (Local_Binary b # out) \<longleftrightarrow> \<not> utf8_valid b \<and> tagged out"
  "\<not> outward x \<Longrightarrow> tagged (x # out) \<longleftrightarrow> tagged out" "tagged (Http r # out) \<longleftrightarrow> tagged out"
  by (auto simp: local_bytes_def http_requests_def tagged_def outward_def split: ec2_output.splits)

lemma not_outward [simp]: "\<not> outward (To_Ec2 b)" "\<not> outward (Connect_Local u)" "\<not> outward (Queue_Response b)"
  by (simp_all add: outward_def)

lemma raw_not_outward [simp]:
  "local_bytes (raw_outputs out) = []" "http_requests (raw_outputs out) = []" "tagged (raw_outputs out)"
  by (induction out) (auto simp: raw_outputs_def)

lemma in_http_requests: "r \<in> set (http_requests out) \<longleftrightarrow> Http r \<in> set out"
  by (force simp: http_requests_def split: ec2_output.splits)

text \<open>
  The messages that the transport hands over when a frame arrives: those its plaintext completes, if the frame
  opens under the session's key \<open>k\<close>.
\<close>

definition handed_over :: "'v ec2_env \<Rightarrow> bytes option \<Rightarrow> (nat \<Rightarrow> u32) \<Rightarrow> bytes \<Rightarrow> ec2_session \<Rightarrow> bytes list" where
  "handed_over E k clk data s =
     (case k of
        None \<Rightarrow> []
      | Some key \<Rightarrow>
          (if length data < NONCE_LEN + TAG_LEN then []
           else case aead_dec (ec2_crypto E) key (take NONCE_LEN data) (drop NONCE_LEN data) of
                  None \<Rightarrow> []
                | Some plain \<Rightarrow>
                    (case receive (ec2_crc E) clk plain (inner (es_enc s)) of (ch, ms, frames) \<Rightarrow> map rm_payload ms)))"

definition http_message :: "'v ec2_env \<Rightarrow> bytes \<Rightarrow> 'v option" where
  "http_message E pl =
     Option.bind (json_parse (ec2_json E) pl) (\<lambda>v. if get_str (ec2_json E) v ''type'' = Some ''http_request'' then Some v else None)"

lemma receive_handed_over:
  assumes "encrypted_receive (ec2_crypto E) J (ec2_crc E) clk data (es_enc s) = (enc, ms, out)" and "is_ready (es_enc s)"
  shows "map rm_payload ms = handed_over E (recv_cipher (es_enc s)) clk data s"
  using assms
  by (auto simp: encrypted_receive_def is_ready_def decrypt_frame_def handed_over_def split: option.splits prod.splits if_splits)

lemma forward_msgs_Cons:
  "forward_msgs E ok (m # ms) local =
     (case http_message E (rm_payload m) of
        Some req \<Rightarrow> (let (l, out) = forward_msgs E (ok \<circ> Suc) ms local in (l, api_http E req # out))
      | None \<Rightarrow>
          (if local then
             (let msg = (if utf8_valid (rm_payload m) then Local_Text (rm_payload m) else Local_Binary (rm_payload m))
              in if ok 0 then (let (l, out) = forward_msgs E (ok \<circ> Suc) ms local in (l, msg # out)) else (False, [msg]))
           else forward_msgs E (ok \<circ> Suc) ms local))"
  by (auto simp: http_message_def split: option.splits)

lemma api_not_local: "local_bytes (api_http E v # out) = local_bytes out" "tagged (api_http E v # out) \<longleftrightarrow> tagged out"
  by (auto simp: api_http_def Let_def split: option.splits)

lemma raw_not_local: "local_bytes (raw_http E v # out) = local_bytes out" "tagged (raw_http E v # out) \<longleftrightarrow> tagged out"
  by (auto simp: raw_http_def Let_def split: option.splits)

lemma forward_local:
  "forward_msgs E ok ms local = (l', out) \<Longrightarrow>
     tagged out \<and> subseq (local_bytes out) (if local then filter (\<lambda>pl. http_message E pl = None) (map rm_payload ms) else []) \<and>
     ((\<forall>n. ok n) \<longrightarrow> l' = local \<and>
        local_bytes out = (if local then filter (\<lambda>pl. http_message E pl = None) (map rm_payload ms) else []))"
proof (induction ms arbitrary: ok local l' out)
  case (Cons m ms)
  obtain l1 o1 where f: "forward_msgs E (ok \<circ> Suc) ms local = (l1, o1)" by fastforce
  note ih = Cons.IH [OF f]
  show ?case
  proof (cases "http_message E (rm_payload m)")
    case (Some req)
    then have "l' = l1" "out = api_http E req # o1" using Cons.prems f unfolding forward_msgs_Cons by simp_all
    with ih Some show ?thesis by (auto simp: api_not_local)
  next
    case None
    then show ?thesis
      using Cons.prems f ih unfolding forward_msgs_Cons by (cases local; cases "ok 0") (auto split: if_splits)
  qed
qed simp

lemma forward_http:
  "forward_msgs E ok ms local = (l', out) \<Longrightarrow> Http r \<in> set out \<Longrightarrow>
     \<exists>pl \<in> set (map rm_payload ms). \<exists>v. http_message E pl = Some v \<and> api_http E v = Http r"
proof (induction ms arbitrary: ok local l' out)
  case (Cons m ms)
  obtain l1 o1 where f: "forward_msgs E (ok \<circ> Suc) ms local = (l1, o1)" by fastforce
  show ?case
  proof (cases "http_message E (rm_payload m)")
    case (Some req)
    then have "out = api_http E req # o1" using Cons.prems f unfolding forward_msgs_Cons by simp
    with Cons.IH [OF f] Cons.prems(2) Some show ?thesis by auto
  next
    case None
    then have "Http r \<in> set o1"
      using Cons.prems f unfolding forward_msgs_Cons by (cases local; cases "ok 0") (auto simp: Let_def split: if_splits)
    with Cons.IH [OF f] show ?thesis by auto
  qed
qed simp

text \<open>
  What one event offers to the local socket, and the HTTP request it asks for, under the session's key \<open>k\<close>.
\<close>

definition offers :: "'v ec2_env \<Rightarrow> bytes option \<Rightarrow> ec2_event \<Rightarrow> ec2_session \<Rightarrow> bytes list" where
  "offers E k e s =
     (case e of
        From_Ec2 clk _ _ _ _ data \<Rightarrow>
          (if \<not> es_local s then []
           else if frame_type E data \<in> {Some ''telemetry'', Some ''browser_log''} then (if utf8_valid data then [data] else [])
           else if frame_type E data \<in> {Some ''browser_disconnected'', Some ''echo_ping'', Some ''handshake''} then []
           else if is_ready (es_enc s) then filter (\<lambda>pl. http_message E pl = None) (handed_over E k clk data s)
           else [])
      | _ \<Rightarrow> [])"

definition asks :: "'v ec2_env \<Rightarrow> bytes option \<Rightarrow> ec2_event \<Rightarrow> ec2_session \<Rightarrow> 'v \<Rightarrow> bool \<Rightarrow> bool" where
  "asks E k e s v encrypted \<longleftrightarrow>
     (case e of
        From_Ec2 clk _ _ _ _ data \<Rightarrow>
          (if encrypted then is_ready (es_enc s) \<and> (\<exists>pl \<in> set (handed_over E k clk data s). http_message E pl = Some v)
           else \<not> is_ready (es_enc s) \<and> http_message E data = Some v)
      | _ \<Rightarrow> False)"

definition sends_ok :: "ec2_event \<Rightarrow> bool" where
  "sends_ok e \<longleftrightarrow> (case e of From_Ec2 _ _ _ ok _ _ \<Rightarrow> \<forall>n. ok n | _ \<Rightarrow> True)"

lemma handle_ec2_frame_out:
  assumes "handle_ec2_frame E clk c ok data s = (s', out, jr)" and "is_ready (es_enc s) \<Longrightarrow> recv_cipher (es_enc s) = k"
  shows "tagged out \<and> subseq (local_bytes out) (offers E k (From_Ec2 clk clk2 c ok st data) s) \<and>
    ((\<forall>n. ok n) \<longrightarrow> local_bytes out = offers E k (From_Ec2 clk clk2 c ok st data) s) \<and>
    (\<forall>r. Http r \<in> set out \<longrightarrow> (\<exists>v. asks E k (From_Ec2 clk clk2 c ok st data) s v False \<and> raw_http E v = Http r) \<or>
       (\<exists>v. asks E k (From_Ec2 clk clk2 c ok st data) s v True \<and> api_http E v = Http r))"
proof -
  define s1 where "s1 = (if frame_type E data = Some ''handshake'' \<and> is_ready (es_enc s)
    then s\<lparr>es_local := False, es_enc := reset_for_reconnect () (es_enc s)\<rparr> else s)"
  note h = assms(1) [unfolded handle_ec2_frame_def Let_def, folded frame_type_def, folded s1_def]
  consider (control) "frame_type E data \<in> {Some ''browser_disconnected'', Some ''echo_ping'', Some ''telemetry'', Some ''browser_log''}"
    | (hs) "frame_type E data \<notin> {Some ''browser_disconnected'', Some ''echo_ping'', Some ''telemetry'', Some ''browser_log''}"
       "\<not> is_ready (es_enc s1)" "before_handshake E clk c data s1 = (s', out, jr)"
    | (ready) "frame_type E data \<notin> {Some ''browser_disconnected'', Some ''echo_ping'', Some ''telemetry'', Some ''browser_log''}"
       "is_ready (es_enc s1)" "after_handshake E clk ok data s1 = (s', out)"
    using h by (auto split: if_splits prod.splits)
  then show ?thesis
  proof cases
    case control
    then have "out = (if es_local s \<and> utf8_valid data \<and> frame_type E data \<in> {Some ''telemetry'', Some ''browser_log''} then [Local_Text data]
        else if frame_type E data = Some ''echo_ping'' then [To_Ec2 (ec2_print E (typed ''echo_pong''
                  [(''id'', JStr (case json_parse (ec2_json E) data of Some x \<Rightarrow> or_str (ec2_json E) x ''id'' [] | None \<Rightarrow> []))]))] else [])"
      using h by (auto split: if_splits)
    with control show ?thesis by (auto simp: offers_def)
  next
    case hs
    have hand: "is_ready (es_enc s) \<Longrightarrow> frame_type E data = Some ''handshake''" using hs(2) by (auto simp: s1_def split: if_splits)
    then have none: "offers E k (From_Ec2 clk clk2 c ok st data) s = []" using hs(1) by (auto simp: offers_def)
    show ?thesis
    proof (cases "http_message E data")
      case (Some v)
      then have t: "json_parse (ec2_json E) data = Some v" "get_str (ec2_json E) v ''type'' = Some ''http_request''"
        by (auto simp: http_message_def split: bind_splits if_splits)
      then have "frame_type E data = Some ''http_request''" by (simp add: frame_type_def)
      then have "\<not> is_ready (es_enc s)" using hand by auto
      moreover have "out = [raw_http E v]" using hs(3) t by (simp add: before_handshake_def)
      ultimately show ?thesis using none Some by (auto simp: raw_not_local asks_def)
    next
      case None
      then have "out = [] \<or> (\<exists>url (o2 :: (unit \<times> bytes) list). out = Connect_Local url # raw_outputs o2) \<or> (\<exists>url. out = [Connect_Local url])"
        using hs(3) by (auto simp: before_handshake_def http_message_def Let_def split: option.splits if_splits prod.splits)
      then show ?thesis using none by (auto simp: in_http_requests [symmetric])
    qed
  next
    case ready
    then have s1: "s1 = s" "frame_type E data \<noteq> Some ''handshake''" by (auto simp: s1_def split: if_splits)
    obtain enc ms o1 where r: "encrypted_receive (ec2_crypto E) (ec2_json E) (ec2_crc E) clk data (es_enc s) = (enc, ms, o1)"
      by (cases "encrypted_receive (ec2_crypto E) (ec2_json E) (ec2_crc E) clk data (es_enc s)")
    obtain l fwd where f: "forward_msgs E ok ms (es_local s) = (l, fwd)" by fastforce
    have out: "out = raw_outputs o1 @ fwd" using ready(3) r f s1 by (simp add: after_handshake_def)
    have d: "map rm_payload ms = handed_over E k clk data s" using receive_handed_over [OF r] ready(2) assms(2) s1 by simp
    have "offers E k (From_Ec2 clk clk2 c ok st data) s =
        (if es_local s then filter (\<lambda>pl. http_message E pl = None) (map rm_payload ms) else [])"
      using ready(1,2) s1 d by (auto simp: offers_def)
    moreover have "Http r \<in> set out \<Longrightarrow> \<exists>v. asks E k (From_Ec2 clk clk2 c ok st data) s v True \<and> api_http E v = Http r" for r
      using forward_http [OF f, of r] ready(2) s1 d out by (auto simp: asks_def in_http_requests [symmetric])
    ultimately show ?thesis using forward_local [OF f] out by auto
  qed
qed

lemma ec2_step_out:
  assumes "ec2_step E e s = Some (s', out, go)" and "is_ready (es_enc s) \<Longrightarrow> recv_cipher (es_enc s) = k"
  shows "tagged out \<and> subseq (local_bytes out) (offers E k e s) \<and> (sends_ok e \<longrightarrow> local_bytes out = offers E k e s) \<and>
    (\<forall>r. Http r \<in> set out \<longrightarrow> (\<exists>v. asks E k e s v False \<and> raw_http E v = Http r) \<or> (\<exists>v. asks E k e s v True \<and> api_http E v = Http r))"
proof -
  have raw: "\<exists>o3 :: (unit \<times> bytes) list. o2 = raw_outputs o3" if "ec2_send E clk m s1 = Some (s2, o2)" for clk m s1 s2 o2
    using that by (auto simp: ec2_send_def split: option.splits)
  have init: "\<exists>o3 :: (unit \<times> bytes) list. o2 = raw_outputs o3" if "send_init_frame E clk st s1 = Some (s2, o2)" for clk st s1 s2 o2
    using that raw by (force simp: send_init_frame_cases raw_outputs_def split: option.splits)
  have delta: "\<exists>o3 :: (unit \<times> bytes) list. o2 = raw_outputs o3" if "ec2_delta E clk st s1 = Some (s2, o2)" for clk st s1 s2 o2
    using that raw by (force simp: ec2_delta_def raw_outputs_def split: option.splits)
  have quiet: ?thesis if "\<exists>o3 :: (unit \<times> bytes) list. out = raw_outputs o3" "case e of From_Ec2 _ _ _ _ _ _ \<Rightarrow> False | _ \<Rightarrow> True"
  proof -
    note facts = that
    have "offers E k e s = []" using facts(2) by (cases e) (simp_all add: offers_def)
    moreover obtain o3 :: "(unit \<times> bytes) list" where out: "out = raw_outputs o3" using facts(1) by blast
    moreover have "Http r \<notin> set out" for r unfolding in_http_requests [symmetric] out by simp
    ultimately show ?thesis by simp
  qed
  show ?thesis
  proof (cases e)
    case (From_Ec2 clk clk2 c ok st data)
    obtain s1 o1 jr where h: "handle_ec2_frame E clk c ok data s = (s1, o1, jr)"
      by (cases "handle_ec2_frame E clk c ok data s")
    have "\<exists>o3 :: (unit \<times> bytes) list. out = o1 @ raw_outputs o3"
    proof (cases jr)
      case True
      then show ?thesis using assms(1) From_Ec2 h init by (auto simp: go_on_def)
    next
      case False
      then have "out = o1 @ raw_outputs ([] :: (unit \<times> bytes) list)" using assms(1) From_Ec2 h by (simp add: raw_outputs_def)
      then show ?thesis by blast
    qed
    then obtain o3 :: "(unit \<times> bytes) list" where "out = o1 @ raw_outputs o3" by blast
    moreover have "Http r \<in> set (o1 @ raw_outputs o3) \<longleftrightarrow> Http r \<in> set o1" for r by (simp add: in_http_requests [symmetric])
    ultimately show ?thesis
      using handle_ec2_frame_out [OF h assms(2), of clk2 st] by (simp add: From_Ec2 sends_ok_def)
  next
    case (Daemon_Says clk st ev)
    have nil: "[] = raw_outputs ([] :: (unit \<times> bytes) list)" by (simp add: raw_outputs_def)
    from Daemon_Says assms(1) raw delta nil have "\<exists>o3 :: (unit \<times> bytes) list. out = raw_outputs o3"
      by (auto simp: go_on_def split: if_splits event_recv.splits agent_event.splits option.splits)
    then show ?thesis using Daemon_Says by (intro quiet) simp_all
  next
    case (Response_Ready clk resp)
    then have "\<exists>o3 :: (unit \<times> bytes) list. out = raw_outputs o3" using assms(1) by (auto simp: raw_outputs_def split: if_splits option.splits)
    then show ?thesis using Response_Ready by (intro quiet) simp_all
  next
    case Timer
    then have "\<exists>o3 :: (unit \<times> bytes) list. out = raw_outputs o3" using assms(1) by (auto simp: raw_outputs_def split: if_splits prod.splits)
    then show ?thesis using Timer by (intro quiet) simp_all
  qed (use assms(1) in \<open>auto simp: offers_def\<close>)
qed

text \<open>What a run offers to the local socket: event by event, under the key of the last completed handshake.\<close>

fun offered :: "'v ec2_env \<Rightarrow> bytes \<Rightarrow> bytes option \<Rightarrow> ec2_event list \<Rightarrow> ec2_session \<Rightarrow> bytes list" where
  "offered E secret k [] s = []"
| "offered E secret k (e # es) s =
     offers E k e s @
     (case ec2_step E e s of Some (s1, out, True) \<Rightarrow> offered E secret (key_step E secret e k) es s1 | _ \<Rightarrow> [])"

lemma ec2_run_local:
  assumes "ec2_run E es s0 = Some (s, outs, go)" and "ec2_inv secret s0"
    and "is_ready (es_enc s0) \<Longrightarrow> recv_cipher (es_enc s0) = k \<and> k \<noteq> None"
  shows "tagged outs \<and> subseq (local_bytes outs) (offered E secret k es s0) \<and>
    ((\<forall>e \<in> set es. sends_ok e) \<longrightarrow> local_bytes outs = offered E secret k es s0)"
  using assms
proof (induction es arbitrary: s0 outs k)
  case (Cons e es)
  then obtain s1 out1 go1 where st: "ec2_step E e s0 = Some (s1, out1, go1)" by (auto split: option.splits)
  have o: "tagged out1 \<and> subseq (local_bytes out1) (offers E k e s0) \<and> (sends_ok e \<longrightarrow> local_bytes out1 = offers E k e s0)"
    using ec2_step_out [OF st, of k] Cons.prems(3) by blast
  show ?case
  proof (cases go1)
    case True
    then obtain out2 where r: "ec2_run E es s1 = Some (s, out2, go)" and outs: "outs = out1 @ out2"
      using Cons.prems(1) st by auto
    note keeps = ec2_step_keeps [OF st Cons.prems(2)]
    have "recv_cipher (es_enc s1) = key_step E secret e k \<and> key_step E secret e k \<noteq> None" if "is_ready (es_enc s1)"
      using keeps that Cons.prems(3) by (auto simp: key_step_def split: option.splits)
    from Cons.IH [OF r _ this] keeps o st True outs show ?thesis
      by (auto intro: list_emb_append_mono simp del: ec2_step.simps)
  next
    case False
    then have "outs = out1" using Cons.prems(1) st by simp
    with o st False show ?thesis by (auto simp del: ec2_step.simps)
  qed
qed simp

lemma ec2_run_http:
  assumes "ec2_run E es (ec2_new E secret) = Some (s, outs, go)" and "Http r \<in> set outs"
  shows "\<exists>es1 e es2 s1 out1 v. es = es1 @ e # es2 \<and> ec2_run E es1 (ec2_new E secret) = Some (s1, out1, True) \<and>
    (asks E (session_key E secret es1) e s1 v False \<and> raw_http E v = Http r \<or>
     asks E (session_key E secret es1) e s1 v True \<and> api_http E v = Http r)"
proof -
  obtain es1 e es2 s1 out1 s2 out2 go2 where o: "es = es1 @ e # es2" "ec2_run E es1 (ec2_new E secret) = Some (s1, out1, True)"
    "ec2_step E e s1 = Some (s2, out2, go2)" "Http r \<in> set out2"
    using ec2_run_origin [OF assms] by blast
  have "is_ready (es_enc s1) \<Longrightarrow> recv_cipher (es_enc s1) = session_key E secret es1" using ec2_run_key [OF o(2)] by blast
  from ec2_step_out [OF o(3) this] o show ?thesis by blast
qed

text \<open>The host and port an HTTP client takes from a URL text: what stands before the first slash, question mark, hash or backslash.\<close>

definition url_authority :: "string \<Rightarrow> string" where
  "url_authority url = takeWhile (\<lambda>c. c \<notin> {CHR 0x2F, CHR 0x3F, CHR 0x23, CHR 0x5C}) (drop 7 url)"

lemma request_authority:
  assumes "rq_path r = p @ CHR 0x2F # q" and "\<forall>c \<in> set p. c \<notin> {CHR 0x2F, CHR 0x3F, CHR 0x23, CHR 0x5C}"
  shows "url_authority (request_url r) = ''127.0.0.1:'' @ show_nat (unat (rq_port r)) @ p"
proof -
  let ?d = "show_nat (unat (rq_port r)) @ p"
  have "is_digit c \<Longrightarrow> c \<notin> {CHR 0x2F, CHR 0x3F, CHR 0x23, CHR 0x5C}" for c by (auto simp: is_digit_def)
  then have "\<forall>c \<in> set ?d. c \<notin> {CHR 0x2F, CHR 0x3F, CHR 0x23, CHR 0x5C}"
    using show_nat_digits [of "unat (rq_port r)"] assms(2) unfolding set_append ball_Un list_all_iff by blast
  then have "takeWhile (\<lambda>c. c \<notin> {CHR 0x2F, CHR 0x3F, CHR 0x23, CHR 0x5C}) (?d @ CHR 0x2F # q) = ?d"
    by (subst takeWhile_append2) auto
  then show ?thesis by (simp add: url_authority_def request_url_def assms(1))
qed

lemmas request_simps = build_request_def Let_def

lemma raw_http_request:
  "raw_http E v = Http r \<Longrightarrow> map_of (rq_headers r) ''Authorization'' = None \<and> ec2_app_port E = Some (rq_port r) \<and> \<not> rq_encrypted r \<and>
     rq_path r = or_str (ec2_json E) v ''path'' ''/'' \<and> or_str (ec2_json E) v ''target'' ''api'' = ''app''"
  by (auto simp: raw_http_def request_simps split: if_splits option.splits)

lemma api_http_request:
  "api_http E v = Http r \<Longrightarrow> rq_encrypted r \<and> rq_path r = or_str (ec2_json E) v ''path'' ''/'' \<and>
     (if or_str (ec2_json E) v ''target'' ''api'' = ''app''
      then map_of (rq_headers r) ''Authorization'' = None \<and> ec2_app_port E = Some (rq_port r)
      else map_of (rq_headers r) ''Authorization'' = Some (''Bearer '' @ ec2_api_key E) \<and> rq_port r = ec2_web_port E \<and>
        take 5 (rq_path r) = ''/api/'')"
  by (auto simp: api_http_def request_simps split: if_splits option.splits)


section \<open>A concrete session\<close>

definition toy_browser :: "bytes \<Rightarrow> json_tree option" where
  "toy_browser bs =
     (if bs = [7] then Some (typed ''handshake'' [(''pubkey'', JStr ''k'')])
      else if bs = [5] then Some (typed ''handshake'' [])
      else if bs = [6] then Some (typed ''telemetry'' [])
      else if bs = [9] then Some (typed ''http_request'' [(''id'', JStr ''1''), (''path'', JStr ''/api/info'')])
      else None)"

definition toy_ec2 :: "json_tree ec2_env" where
  "toy_ec2 = \<lparr>ec2_crypto = toy_crypto, ec2_json = tree_lib toy_browser, ec2_crc = (\<lambda>_. 3), ec2_print = (\<lambda>_. [3]),
     ec2_version = ''1'', ec2_web_port = 3000, ec2_app_port = None, ec2_proxy_token = ''t'', ec2_api_key = ''key''\<rparr>"

definition toy_frame :: "bytes \<Rightarrow> ec2_event" where
  "toy_frame bs = From_Ec2 (\<lambda>_. 0) (\<lambda>_. 0) True (\<lambda>_. True) None bs"

definition toy_sealed :: "bytes \<Rightarrow> bytes" where
  "toy_sealed pl = replicate 12 0 @ encode_data (\<lambda>_. 3) 1 0 Critical (0 # pl) @ replicate 16 1"


definition toy_connected :: ec2_session where
  "toy_connected = (ec2_new toy_ec2 [1])\<lparr>es_enc := (es_enc (ec2_new toy_ec2 [1]))
     \<lparr>recv_cipher := Some (1 # replicate 31 9), send_cipher := Some (9 # replicate 31 1), ec_state := Ready\<rparr>, es_local := True\<rparr>"

lemma toy_connects: "\<exists>out. ec2_step toy_ec2 (toy_frame [7]) (ec2_new toy_ec2 [1]) = Some (toy_connected, out, True)"
  by (simp add: toy_frame_def handle_ec2_frame_def toy_ec2_def tree_lib_def toy_browser_def typed_def json_access ec2_new_def
      is_ready_def set_version_def encrypted_new_def before_handshake_def encrypted_receive_def handle_handshake_def
      toy_crypto_def Let_def send_init_frame_def ec2_init_def go_on_def toy_connected_def)

lemma sealed_long: "28 \<le> length (toy_sealed pl)"
  by (simp add: toy_sealed_def)

lemma sealed_not_json: "toy_browser (toy_sealed pl) = None"
  using sealed_long [of pl] by (auto simp: toy_browser_def)

lemma sealed_opens:
  "recv_cipher ec = Some (1 # k) \<Longrightarrow>
     decrypt_frame toy_crypto (toy_sealed pl) ec = Some (encode_data (\<lambda>_. 3) 1 0 Critical (0 # pl))"
  using sealed_long [of pl] by (simp add: decrypt_frame_def NONCE_LEN_def TAG_LEN_def toy_sealed_def toy_crypto_def)

lemma first_frame:
  "length pl < 100 \<Longrightarrow>
     \<exists>ch. receive (\<lambda>_. 3) clk (encode_data (\<lambda>_. 3) 1 0 Critical (0 # pl)) (channel_new default_config ()) =
       (ch, [\<lparr>rm_payload = pl, rm_seq = 1, rm_priority = Critical\<rparr>], [])"
  by (simp add: receive_def receive_data_def channel_new_def drain.simps split_def Let_def)

lemma toy_selectors [simp]:
  "json_parse (ec2_json toy_ec2) = toy_browser" "ec2_crypto toy_ec2 = toy_crypto" "ec2_crc toy_ec2 = (\<lambda>_. 3)"
  "ec_state (es_enc toy_connected) = Ready" "recv_cipher (es_enc toy_connected) = Some (1 # replicate 31 9)"
  "inner (es_enc toy_connected) = channel_new default_config ()" "es_local toy_connected"
  by (simp_all add: toy_ec2_def tree_lib_def toy_connected_def ec2_new_def set_version_def encrypted_new_def)

lemma toy_run:
  assumes "length pl < 100"
  shows "\<exists>s outs. ec2_run toy_ec2 [toy_frame [7], toy_frame (toy_sealed pl)] (ec2_new toy_ec2 [1]) = Some (s, outs, True) \<and>
    set (snd (forward_msgs toy_ec2 (\<lambda>_. True) [\<lparr>rm_payload = pl, rm_seq = 1, rm_priority = Critical\<rparr>] True)) \<subseteq> set outs"
proof -
  let ?m = "\<lparr>rm_payload = pl, rm_seq = 1, rm_priority = Critical\<rparr>"
  obtain ch where r: "receive (\<lambda>_. 3) (\<lambda>_. 0) (encode_data (\<lambda>_. 3) 1 0 Critical (0 # pl)) (channel_new default_config ()) = (ch, [?m], [])"
    using first_frame [OF assms, of "\<lambda>_. 0"] by blast
  have e: "encrypted_receive toy_crypto (ec2_json toy_ec2) (\<lambda>_. 3) (\<lambda>_. 0) (toy_sealed pl) (es_enc toy_connected) =
     ((es_enc toy_connected)\<lparr>inner := ch\<rparr>, [?m], [])"
    using sealed_opens [of "es_enc toy_connected" "replicate 31 9" pl] by (simp add: encrypted_receive_def r)
  obtain l out where f: "forward_msgs toy_ec2 (\<lambda>_. True) [?m] True = (l, out)" by fastforce
  have "\<exists>s. ec2_step toy_ec2 (toy_frame (toy_sealed pl)) toy_connected = Some (s, out, True)"
    using f by (simp add: toy_frame_def handle_ec2_frame_def sealed_not_json is_ready_def after_handshake_def e raw_outputs_def
        del: forward_msgs.simps)
  with toy_connects f show ?thesis by (auto simp del: ec2_step.simps forward_msgs.simps)
qed


section \<open>The properties\<close>


text \<open>A path for the application that names another host in the URL text.\<close>

lemma app_path_names_host:
  "rq_path r = ''@evil.example/'' \<Longrightarrow>
     url_authority (request_url r) = ''127.0.0.1:'' @ show_nat (unat (rq_port r)) @ ''@evil.example''"
  by (rule request_authority [where q = "[]"]) auto


text \<open>
  \<^bold>\<open>C21\<close>. What reaches the daemon's local socket, byte for byte: a subsequence, in order, of what the frames of
  the run offer while the socket is open - the payloads, unchanged, of the messages that the transport hands
  over when a frame opens under the key of the last completed handshake, HTTP requests apart, and the
  \<open>telemetry\<close> and \<open>browser_log\<close> frames in the clear - and exactly that if no send to the socket fails. It goes as text if
  it is valid UTF-8 and as binary otherwise. Before the first handshake that yields keys only frames in the
  clear are offered.
\<close>

theorem local_input_authentic:
  assumes "ec2_run E es (ec2_new E secret) = Some (s, outs, go)"
  shows "subseq (local_bytes outs) (offered E secret None es (ec2_new E secret)) \<and>
    ((\<forall>e \<in> set es. sends_ok e) \<longrightarrow> local_bytes outs = offered E secret None es (ec2_new E secret)) \<and>
    tagged outs"
  using ec2_run_local [OF assms ec2_new_inv] ec2_new_not_ready by blast

theorem local_input_authentic_witness:
  "\<exists>s outs. ec2_run toy_ec2 [toy_frame [7], toy_frame (toy_sealed [8])] (ec2_new toy_ec2 [1]) = Some (s, outs, True) \<and>
     Local_Text [8] \<in> set outs \<and> tagged outs \<and>
     local_bytes outs = offered toy_ec2 [1] None [toy_frame [7], toy_frame (toy_sealed [8])] (ec2_new toy_ec2 [1])"
proof -
  let ?es = "[toy_frame [7], toy_frame (toy_sealed [8])]"
  have v: "toy_browser [8] = None" "utf8_valid [8]" by (simp add: toy_browser_def) code_simp
  obtain s outs where r: "ec2_run toy_ec2 ?es (ec2_new toy_ec2 [1]) = Some (s, outs, True)"
    and x: "Local_Text [8] \<in> set outs"
    using toy_run [of "[8]"] by (auto simp: v)
  have "\<forall>e \<in> set ?es. sends_ok e" by (simp add: toy_frame_def sends_ok_def)
  with local_input_authentic [OF r] r x show ?thesis by blast
qed

text \<open>
  \<^bold>\<open>C22\<close>. The task of a session panics exactly when a frame of type \<open>handshake\<close> arrives, the local socket can be
  opened, the encrypted channel cannot derive keys from the frame, and there is terminal output to show:
  the initial picture is then sent over a channel that is not ready.
\<close>

theorem session_panics:
  assumes "ec2_run E es (ec2_new E secret) = Some (s, outs, True)"
  shows "ec2_step E e s = None \<longleftrightarrow>
    (\<exists>clk clk2 ok buf data. e = From_Ec2 clk clk2 True ok (Some buf) data \<and> frame_type E data = Some ''handshake'' \<and>
       ec2_okm E secret data = None)"
proof -
  have inv: "ec2_inv secret s" using ec2_run_key [OF assms] by blast
  have sends: "ec2_send E clk m s \<noteq> None" "ec2_delta E clk st s \<noteq> None" if "is_ready (es_enc s)" for clk m st
    using ec2_send_returns ec2_delta_returns inv that by blast+
  show ?thesis
  proof (cases e)
    case (From_Ec2 clk clk2 c ok st data)
    obtain s1 o1 jr where h: "handle_ec2_frame E clk c ok data s = (s1, o1, jr)"
      by (cases "handle_ec2_frame E clk c ok data s")
    note k = handle_ec2_frame_keeps [OF h inv]
    have "send_init_frame E clk2 st s1 = None \<longleftrightarrow> st \<noteq> None \<and> \<not> is_ready (es_enc s1)"
      using k by (auto simp: send_init_frame_cases ec2_send_None [of secret s1] split: option.splits)
    with k h From_Ec2 show ?thesis by (auto simp: go_on_def)
  next
    case (Daemon_Says clk st ev)
    have "ec2_step E e s \<noteq> None"
      using Daemon_Says sends by (auto simp: go_on_def split: event_recv.splits agent_event.splits option.splits)
    with Daemon_Says show ?thesis by simp
  next
    case (Response_Ready clk resp)
    then show ?thesis using encrypted_send_returns [of "es_enc s" "ec2_crypto E" "ec2_crc E" clk resp Critical] inv
      by (auto simp: ec2_inv_def split: option.splits)
  qed (auto split: prod.splits)
qed

theorem session_panics_witness:
  "ec2_step toy_ec2 (From_Ec2 (\<lambda>_. 0) (\<lambda>_. 0) True (\<lambda>_. True)
     (Some \<lparr>terminal_data = [1], sb_rows = 24, sb_cols = 80, write_offset = 1\<rparr>) [5]) (ec2_new toy_ec2 [1]) = None"
proof -
  have "frame_type toy_ec2 [5] = Some ''handshake''" "ec2_okm toy_ec2 [1] [5] = None"
    by (simp_all add: frame_type_def ec2_okm_def handshake_okm_def toy_ec2_def tree_lib_def toy_browser_def typed_def json_access)
  then show ?thesis using session_panics [of toy_ec2 "[]" "[1]"] by (auto simp del: ec2_step.simps)
qed

end
