(* ===== verification/Hive_Store.thy ===== *)
theory Hive_Store
  imports Hive
begin

text \<open>
  \<open>src/crates/b3-cli/src/crypto/hive_integration.rs\<close>: the operations of \<open>Hive\<close> with their surroundings: the
  public keys the server tells, the files of pinned keys, room keys and room data, and the texts that are sent.
  A directory is a map from names to the contents of the files. The answers of the server, the result of each
  kind of file operation, the clock, random bytes and the derived (de)serialisers are arguments, in a record.
  Texts are strings of UTF-8 bytes. A result is \<open>None\<close> on a panic, otherwise the files and \<open>Inl\<close> an error.
\<close>

section \<open>Environment and state\<close>

datatype http_answer = No_Answer string | Bad_Status string | Http_Body bytes

datatype hive_error =
    Fetch_Failed string
  | Fetch_Status string
  | Fetch_Json
  | No_Public_Key
  | Bad_Public_Key
  | No_Private_Key
  | Dm_Failed decrypt_error
  | Store_Failed
  | Key_Expired string
  | No_Room_Key string
  | Bad_Room_Key_Json
  | Room_Key_Failed decrypt_error
  | Bad_Duration string
  | Bad_Unit string
  | Timelock_Failed string

record hive_env =
  he_lib :: hive_lib
  he_xseal :: "bytes \<Rightarrow> bytes \<Rightarrow> bytes \<Rightarrow> bytes option"
  he_xopen :: "bytes \<Rightarrow> bytes \<Rightarrow> bytes \<Rightarrow> bytes option"
  he_parse :: "bytes \<Rightarrow> json_tree option"
  he_print :: "json_tree \<Rightarrow> bytes"
  he_envelope :: "bytes \<Rightarrow> encrypted_envelope option"
  he_show_envelope :: "encrypted_envelope \<Rightarrow> bytes"
  he_room_key :: "json_tree \<Rightarrow> encrypted_room_key option"
  he_room_key_tree :: "encrypted_room_key \<Rightarrow> json_tree"
  he_private :: "bytes option"
  he_fetch :: "string \<Rightarrow> http_answer"
  he_lower :: "string \<Rightarrow> string"
  he_rfc3339 :: "string \<Rightarrow> int option"
  he_expiry :: "int \<Rightarrow> string option"
  he_now :: int
  he_pin_ok :: bool
  he_key_ok :: bool
  he_meta_ok :: bool
  he_show_error :: "hive_error \<Rightarrow> string"

record hive_files =
  known_keys :: "string \<Rightarrow> bytes option"
  key_files :: "string \<Rightarrow> bytes option"
  meta_files :: "string \<Rightarrow> bytes option"

record room_meta =
  meta_creator :: string
  meta_expires :: "string option"
  meta_members :: "string list"

definition tree_str :: "json_tree \<Rightarrow> string \<Rightarrow> string option" where
  "tree_str v k = (case v of JObj m \<Rightarrow> (case map_of m k of Some (JStr s) \<Rightarrow> Some s | _ \<Rightarrow> None) | _ \<Rightarrow> None)"

definition tree_get :: "json_tree \<Rightarrow> string \<Rightarrow> json_tree option" where
  "tree_get v k = (case v of JObj m \<Rightarrow> map_of m k | _ \<Rightarrow> None)"


section \<open>Public keys\<close>

definition fetch_and_pin_public_key ::
  "hive_env \<Rightarrow> string \<Rightarrow> hive_files \<Rightarrow> hive_files \<times> (hive_error + (bytes \<times> string))" where
  "fetch_and_pin_public_key E agent f =
     (case he_fetch E agent of
        No_Answer e \<Rightarrow> (f, Inl (Fetch_Failed e))
      | Bad_Status s \<Rightarrow> (f, Inl (Fetch_Status s))
      | Http_Body body \<Rightarrow>
          (case he_parse E body of
             None \<Rightarrow> (f, Inl Fetch_Json)
           | Some v \<Rightarrow>
               (case tree_str v ''wg_public_key'' of
                  None \<Rightarrow> (f, Inl No_Public_Key)
                | Some key_b64 \<Rightarrow>
                    (let agent_id = (case tree_str v ''agent_id'' of Some i \<Rightarrow> i | None \<Rightarrow> agent)
                     in case b64_dec (he_lib E) key_b64 of
                          None \<Rightarrow> (f, Inl Bad_Public_Key)
                        | Some key \<Rightarrow>
                            (if length key \<noteq> 32 then (f, Inl Bad_Public_Key)
                             else (f\<lparr>known_keys := fst (pin_public_key (he_lib E) (he_pin_ok E) agent key (known_keys f))\<rparr>,
                                   Inr (key, agent_id)))))))"


section \<open>Direct messages\<close>

definition dm_aad :: "string \<Rightarrow> string \<Rightarrow> bytes" where
  "dm_aad sender_id target_id = ascii (sender_id @ '':'' @ target_id)"

definition encrypt_dm_for_target ::
  "hive_env \<Rightarrow> bytes \<Rightarrow> string \<Rightarrow> string \<Rightarrow> string \<Rightarrow> hive_files \<Rightarrow> (hive_files \<times> (hive_error + string)) option" where
  "encrypt_dm_for_target E nonce my_id target plaintext f =
     (case he_private E of
        None \<Rightarrow> Some (f, Inl No_Private_Key)
      | Some my_key \<Rightarrow>
          (case fetch_and_pin_public_key E target f of
             (f1, Inl e) \<Rightarrow> Some (f1, Inl e)
           | (f1, Inr (their_key, their_id)) \<Rightarrow>
               (case encrypt_dm (he_lib E) nonce (ascii plaintext) my_key their_key my_id their_id (dm_aad my_id their_id) of
                  None \<Rightarrow> None
                | Some envelope \<Rightarrow> Some (f1, Inr (of_bytes (he_show_envelope E envelope))))))"

definition encrypt_dm_ephemeral_for_target ::
  "hive_env \<Rightarrow> bytes \<Rightarrow> bytes \<Rightarrow> string \<Rightarrow> string \<Rightarrow> string \<Rightarrow> hive_files \<Rightarrow> (hive_files \<times> (hive_error + string)) option" where
  "encrypt_dm_ephemeral_for_target E nonce eph my_id target plaintext f =
     (case fetch_and_pin_public_key E target f of
        (f1, Inl e) \<Rightarrow> Some (f1, Inl e)
      | (f1, Inr (their_key, their_id)) \<Rightarrow>
          (case encrypt_dm_ephemeral (he_lib E) nonce eph (ascii plaintext) their_key my_id their_id (dm_aad my_id their_id) of
             None \<Rightarrow> None
           | Some envelope \<Rightarrow> Some (f1, Inr (of_bytes (he_show_envelope E envelope)))))"

definition decrypt_dm_if_encrypted ::
  "hive_env \<Rightarrow> string \<Rightarrow> string \<Rightarrow> string \<Rightarrow> hive_files \<Rightarrow> (hive_files \<times> (hive_error + string)) option" where
  "decrypt_dm_if_encrypted E my_id sender raw f =
     (case he_envelope E (ascii raw) of
        None \<Rightarrow> Some (f, Inr raw)
      | Some envelope \<Rightarrow>
          (if \<not> env_encrypted envelope then Some (f, Inr raw)
           else case he_private E of
                  None \<Rightarrow> Some (f, Inl No_Private_Key)
                | Some my_key \<Rightarrow>
                    (case fetch_and_pin_public_key E sender f of
                       (f1, Inl e) \<Rightarrow> Some (f1, Inl e)
                     | (f1, Inr (sender_key, sender_id)) \<Rightarrow>
                         (case decrypt_dm (he_lib E) envelope my_key sender_key my_id sender_id (dm_aad sender_id my_id) of
                            None \<Rightarrow> None
                          | Some (Inl e) \<Rightarrow> Some (f1, Inl (Dm_Failed e))
                          | Some (Inr pl) \<Rightarrow> Some (f1, Inr (of_bytes (utf8_lossy pl)))))))"


section \<open>Room keys and room data\<close>

definition meta_tree :: "string \<Rightarrow> string option \<Rightarrow> string list \<Rightarrow> json_tree" where
  "meta_tree creator expires_at members =
     JObj ([(''creator'', JStr creator)] @
           (case expires_at of Some x \<Rightarrow> [(''expires_at'', JStr x)] | None \<Rightarrow> []) @
           (if members \<noteq> [] then [(''members'', JArr (map JStr members))] else []))"

definition store_room_key_with_members ::
  "hive_env \<Rightarrow> string \<Rightarrow> bytes \<Rightarrow> string \<Rightarrow> string option \<Rightarrow> string list \<Rightarrow> hive_files \<Rightarrow> hive_files \<times> (hive_error + unit)" where
  "store_room_key_with_members E room key creator expires_at members f =
     (if \<not> he_key_ok E then (f, Inl Store_Failed)
      else
        let f1 = f\<lparr>key_files := (key_files f)(room \<mapsto> ascii (b64_enc (he_lib E) key))\<rparr>
        in if \<not> he_meta_ok E then (f1, Inl Store_Failed)
           else (f1\<lparr>meta_files := (meta_files f1)(room \<mapsto> he_print E (meta_tree creator expires_at members))\<rparr>, Inr ()))"

definition store_room_key ::
  "hive_env \<Rightarrow> string \<Rightarrow> bytes \<Rightarrow> string \<Rightarrow> string option \<Rightarrow> hive_files \<Rightarrow> hive_files \<times> (hive_error + unit)" where
  "store_room_key E room key creator expires_at f = store_room_key_with_members E room key creator expires_at [] f"

definition load_room_key :: "hive_env \<Rightarrow> string \<Rightarrow> hive_files \<Rightarrow> bytes option" where
  "load_room_key E room f = cached_key (he_lib E) (key_files f room)"

definition read_json :: "hive_env \<Rightarrow> bytes option \<Rightarrow> json_tree option" where
  "read_json E file = (case file of Some bs \<Rightarrow> (if utf8_valid bs then he_parse E bs else None) | None \<Rightarrow> None)"

definition load_room_meta_full :: "hive_env \<Rightarrow> string \<Rightarrow> hive_files \<Rightarrow> room_meta option" where
  "load_room_meta_full E room f =
     Option.bind (read_json E (meta_files f room)) (\<lambda>meta.
     Option.bind (tree_str meta ''creator'') (\<lambda>creator.
       Some \<lparr>meta_creator = creator, meta_expires = tree_str meta ''expires_at'',
             meta_members = (case tree_get meta ''members'' of
                               Some (JArr vs) \<Rightarrow> List.map_filter (\<lambda>v. case v of JStr s \<Rightarrow> Some s | _ \<Rightarrow> None) vs
                             | _ \<Rightarrow> [])\<rparr>))"

definition load_room_meta :: "hive_env \<Rightarrow> string \<Rightarrow> hive_files \<Rightarrow> string option" where
  "load_room_meta E room f = map_option meta_creator (load_room_meta_full E room f)"

definition load_room_members :: "hive_env \<Rightarrow> string \<Rightarrow> hive_files \<Rightarrow> string list" where
  "load_room_members E room f = (case load_room_meta_full E room f of Some m \<Rightarrow> meta_members m | None \<Rightarrow> [])"

text \<open>\<open>meta["members"] = \<dots>\<close>: a null becomes an object, any other value that is no object is a panic.\<close>

definition tree_set :: "json_tree \<Rightarrow> string \<Rightarrow> json_tree \<Rightarrow> json_tree option" where
  "tree_set v k x =
     (case v of
        JObj m \<Rightarrow> Some (JObj (map_insert k x m))
      | JNull \<Rightarrow> Some (JObj [(k, x)])
      | _ \<Rightarrow> None)"

definition store_room_members :: "hive_env \<Rightarrow> string \<Rightarrow> string list \<Rightarrow> hive_files \<Rightarrow> hive_files option" where
  "store_room_members E room members f =
     (case tree_set (case read_json E (meta_files f room) of Some v \<Rightarrow> v | None \<Rightarrow> JObj []) ''members'' (JArr (map JStr members)) of
        None \<Rightarrow> None
      | Some meta \<Rightarrow> Some (if he_meta_ok E then f\<lparr>meta_files := (meta_files f)(room \<mapsto> he_print E meta)\<rparr> else f))"

definition delete_room_key :: "string \<Rightarrow> hive_files \<Rightarrow> hive_files" where
  "delete_room_key room f = f\<lparr>key_files := (key_files f)(room := None), meta_files := (meta_files f)(room := None)\<rparr>"

definition room_expired :: "hive_env \<Rightarrow> string option \<Rightarrow> bool" where
  "room_expired E expires_at =
     (case Option.bind expires_at (he_rfc3339 E) of Some t \<Rightarrow> he_now E > t | None \<Rightarrow> False)"


section \<open>Room messages\<close>

definition encrypt_for_room ::
  "hive_env \<Rightarrow> bytes \<Rightarrow> string \<Rightarrow> string \<Rightarrow> hive_files \<Rightarrow> (hive_files \<times> (hive_error + string)) option" where
  "encrypt_for_room E nonce room plaintext f =
     (let expires_at = Option.bind (load_room_meta_full E room f) meta_expires
      in if room_expired E expires_at
         then Some (delete_room_key room f, Inl (Key_Expired (case expires_at of Some x \<Rightarrow> x | None \<Rightarrow> [])))
         else case load_room_key E room f of
                None \<Rightarrow> Some (f, Inl (No_Room_Key room))
              | Some key \<Rightarrow>
                  (case encrypt_room_message (he_lib E) nonce (ascii plaintext) key of
                     None \<Rightarrow> None
                   | Some envelope \<Rightarrow> Some (f, Inr (of_bytes (he_show_envelope E envelope)))))"

definition em_dash :: string where
  "em_dash = of_bytes [0xE2, 0x80, 0x94]"

definition decrypt_room_message_if_encrypted :: "hive_env \<Rightarrow> string \<Rightarrow> string \<Rightarrow> hive_files \<Rightarrow> string" where
  "decrypt_room_message_if_encrypted E room raw f =
     (case he_envelope E (ascii raw) of
        None \<Rightarrow> raw
      | Some envelope \<Rightarrow>
          (if \<not> env_encrypted envelope then raw
           else case load_room_key E room f of
                  None \<Rightarrow> ''[encrypted '' @ em_dash @ '' missing room key for '' @ room @ '']''
                | Some key \<Rightarrow>
                    (case decrypt_room_message (he_lib E) envelope key of
                       Inr pl \<Rightarrow> of_bytes (utf8_lossy pl)
                     | Inl e \<Rightarrow> ''[decryption failed: '' @ he_show_error E (Dm_Failed e) @ '']'')))"


section \<open>Distribution of room keys\<close>

text \<open>The loop over the members; \<open>nonces\<close> are the random nonces it draws, by position.\<close>

fun encrypt_for_members ::
  "hive_env \<Rightarrow> (nat \<Rightarrow> bytes) \<Rightarrow> bytes \<Rightarrow> bytes \<Rightarrow> string \<Rightarrow> string \<Rightarrow> string list \<Rightarrow> hive_files
     \<Rightarrow> (string \<times> json_tree) list \<Rightarrow> (hive_files \<times> (hive_error + (string \<times> json_tree) list)) option" where
  "encrypt_for_members E nonces room_key my_key room my_name [] f m = Some (f, Inr m)"
| "encrypt_for_members E nonces room_key my_key room my_name (member # ms) f m =
     (if he_lower E member = my_name then encrypt_for_members E (nonces \<circ> Suc) room_key my_key room my_name ms f m
      else case fetch_and_pin_public_key E member f of
             (f1, Inl e) \<Rightarrow> Some (f1, Inl e)
           | (f1, Inr (their_key, their_id)) \<Rightarrow>
               (case encrypt_room_key (he_lib E) (nonces 0) room_key my_key their_key room of
                  None \<Rightarrow> None
                | Some enc \<Rightarrow>
                    encrypt_for_members E (nonces \<circ> Suc) room_key my_key room my_name ms f1
                      (map_insert (he_lower E member) (he_room_key_tree E enc) m)))"

definition distribution_tree :: "string \<Rightarrow> (string \<times> json_tree) list \<Rightarrow> string option \<Rightarrow> json_tree" where
  "distribution_tree room m expires_at =
     JObj ([(''msg_type'', JStr ''key_distribution''), (''room_id'', JStr room), (''keys'', JObj m)] @
           (case expires_at of Some x \<Rightarrow> [(''expires_at'', JStr x)] | None \<Rightarrow> []))"

definition generate_and_distribute_room_key ::
  "hive_env \<Rightarrow> (nat \<Rightarrow> bytes) \<Rightarrow> bytes \<Rightarrow> string \<Rightarrow> string \<Rightarrow> string list \<Rightarrow> string option \<Rightarrow> hive_files
     \<Rightarrow> (hive_files \<times> (hive_error + string)) option" where
  "generate_and_distribute_room_key E nonces room_key room my_name members expires_at f =
     (case he_private E of
        None \<Rightarrow> Some (f, Inl No_Private_Key)
      | Some my_key \<Rightarrow>
          (case encrypt_for_members E nonces room_key my_key room my_name members f [] of
             None \<Rightarrow> None
           | Some (f1, Inl e) \<Rightarrow> Some (f1, Inl e)
           | Some (f1, Inr m) \<Rightarrow>
               (case store_room_key E room room_key my_name expires_at f1 of
                  (f2, Inl e) \<Rightarrow> Some (f2, Inl e)
                | (f2, Inr _) \<Rightarrow> Some (f2, Inr (of_bytes (he_print E (distribution_tree room m expires_at)))))))"

definition receive_room_key ::
  "hive_env \<Rightarrow> string \<Rightarrow> string \<Rightarrow> json_tree \<Rightarrow> string option \<Rightarrow> hive_files \<Rightarrow> (hive_files \<times> (hive_error + unit)) option" where
  "receive_room_key E room creator encrypted_key expires_at f =
     (case he_private E of
        None \<Rightarrow> Some (f, Inl No_Private_Key)
      | Some my_key \<Rightarrow>
          (case fetch_and_pin_public_key E creator f of
             (f1, Inl e) \<Rightarrow> Some (f1, Inl e)
           | (f1, Inr (creator_key, creator_id)) \<Rightarrow>
               (case he_room_key E encrypted_key of
                  None \<Rightarrow> Some (f1, Inl Bad_Room_Key_Json)
                | Some enc \<Rightarrow>
                    (case decrypt_room_key (he_lib E) enc my_key creator_key room of
                       None \<Rightarrow> None
                     | Some (Inl e) \<Rightarrow> Some (f1, Inl (Room_Key_Failed e))
                     | Some (Inr key) \<Rightarrow> Some (store_room_key E room key creator expires_at f1)))))"

text \<open>The directory listing is an argument; the result counts the rooms that were removed.\<close>

fun cleanup_expired_room_keys :: "hive_env \<Rightarrow> string list \<Rightarrow> hive_files \<Rightarrow> hive_files \<times> nat" where
  "cleanup_expired_room_keys E [] f = (f, 0)"
| "cleanup_expired_room_keys E (room # rooms) f =
     (if room_expired E (Option.bind (read_json E (meta_files f room)) (\<lambda>meta. tree_str meta ''expires_at''))
      then (case cleanup_expired_room_keys E rooms (delete_room_key room f) of (f1, n) \<Rightarrow> (f1, Suc n))
      else cleanup_expired_room_keys E rooms f)"


section \<open>Expiry times\<close>

text \<open>\<open>str::parse::<i64>\<close>: an optional sign and digits, in the range of the type.\<close>

definition parse_i64 :: "string \<Rightarrow> int option" where
  "parse_i64 s =
     (let neg = (take 1 s = ''-''); ds = (if neg \<or> take 1 s = ''+'' then tl s else s);
          n = (if neg then - int (parse_nat ds) else int (parse_nat ds))
      in if ds \<noteq> [] \<and> list_all is_digit ds \<and> - (2 ^ 63) \<le> n \<and> n < 2 ^ 63 then Some n else None)"

text \<open>
  \<open>split_at\<close> panics inside a character. \<open>chrono\<close> panics when a duration exceeds its range of milliseconds;
  \<open>he_expiry\<close> is the time that many seconds from now, or its panic.
\<close>

definition parse_expires_in :: "hive_env \<Rightarrow> string \<Rightarrow> (hive_error + string) option" where
  "parse_expires_in E expires_in =
     (let s = of_bytes (str_trim (ascii expires_in)); n = length s - 1; u = drop n s
      in if u \<noteq> [] \<and> cont (hd (ascii u)) then None
         else case parse_i64 (take n s) of
                None \<Rightarrow> Some (Inl (Bad_Duration expires_in))
              | Some num \<Rightarrow>
                  (case map_of [(''s'', 1), (''m'', 60), (''h'', 3600), (''d'', 86400)] u of
                     None \<Rightarrow> Some (Inl (Bad_Unit u))
                   | Some unit_secs \<Rightarrow>
                       (if \<bar>num * unit_secs\<bar> \<le> (2 ^ 63 - 1) div 1000 then map_option Inr (he_expiry E (num * unit_secs))
                        else None)))"


section \<open>Timelock\<close>

definition encrypt_timelock :: "hive_env \<Rightarrow> bytes \<Rightarrow> bytes \<Rightarrow> string \<Rightarrow> hive_error + (string \<times> string)" where
  "encrypt_timelock E key nonce plaintext =
     (case he_xseal E key nonce (ascii plaintext) of
        None \<Rightarrow> Inl (Timelock_Failed ''seal'')
      | Some ciphertext \<Rightarrow>
          Inr (of_bytes (he_print E (JObj [(''encrypted'', JBool True), (''version'', JNum 1), (''key_type'', JStr ''timelock''),
                 (''nonce'', JStr (b64_enc (he_lib E) nonce)), (''content'', JStr (b64_enc (he_lib E) ciphertext))])),
               b64_enc (he_lib E) key))"

definition decrypt_timelock :: "hive_env \<Rightarrow> string \<Rightarrow> string \<Rightarrow> hive_error + string" where
  "decrypt_timelock E envelope_json unlock_key =
     (let dec = (\<lambda>s. b64_dec (he_lib E) s)
      in case he_parse E (ascii envelope_json) of
           None \<Rightarrow> Inl (Timelock_Failed ''json'')
         | Some v \<Rightarrow>
             (if tree_str v ''key_type'' \<noteq> Some ''timelock'' then Inl (Timelock_Failed ''type'')
              else case (tree_str v ''nonce'', tree_str v ''content'') of
                     (Some nonce_b64, Some content_b64) \<Rightarrow>
                       (case (dec unlock_key, dec nonce_b64, dec content_b64) of
                          (Some key, Some nonce, Some ciphertext) \<Rightarrow>
                            (if length key \<noteq> 32 \<or> length nonce \<noteq> 24 then Inl (Timelock_Failed ''length'')
                             else case he_xopen E key nonce ciphertext of
                                    None \<Rightarrow> Inl (Timelock_Failed ''open'')
                                  | Some pl \<Rightarrow> (if utf8_valid pl then Inr (of_bytes pl) else Inl (Timelock_Failed ''utf8'')))
                        | _ \<Rightarrow> Inl (Timelock_Failed ''base64''))
                   | _ \<Rightarrow> Inl (Timelock_Failed ''field'')))"


section \<open>What the code relies on\<close>

text \<open>
  A printed JSON value reads back with its members in the order of their names (\<open>serde_json\<close> keeps objects in a
  \<open>BTreeMap\<close>), and printed JSON is UTF-8. The derived serialisers of envelopes and room keys invert.
\<close>

fun canon :: "json_tree \<Rightarrow> json_tree" where
  "canon (JObj m) = JObj (sort_key fst (map (\<lambda>(k, v). (k, canon v)) m))"
| "canon (JArr vs) = JArr (map canon vs)"
| "canon v = v"

definition reads_back :: "hive_env \<Rightarrow> json_tree \<Rightarrow> bool" where
  "reads_back E t \<longleftrightarrow> he_parse E (he_print E t) = Some (canon t) \<and> utf8_valid (he_print E t)"

definition serde_law :: "hive_env \<Rightarrow> hive_env \<Rightarrow> bool" where
  "serde_law A B \<longleftrightarrow>
     he_lib B = he_lib A \<and> (\<forall>e. he_envelope B (he_show_envelope A e) = Some e) \<and>
     (\<forall>k. he_room_key B (canon (he_room_key_tree A k)) = Some k)"

text \<open>The server tells the truth about an agent: it answers with its key and its id.\<close>

definition tells :: "hive_env \<Rightarrow> string \<Rightarrow> bytes \<Rightarrow> string \<Rightarrow> bool" where
  "tells E agent key i \<longleftrightarrow>
     (\<exists>body v. he_fetch E agent = Http_Body body \<and> he_parse E body = Some v \<and>
        tree_str v ''wg_public_key'' = Some (b64_enc (he_lib E) key) \<and> tree_str v ''agent_id'' = Some i)"

lemma fetch_tells:
  assumes "hive_law (he_lib E)" and "tells E agent key i" and "length key = 32"
  shows "\<exists>f1. fetch_and_pin_public_key E agent f = (f1, Inr (key, i)) \<and> key_files f1 = key_files f \<and> meta_files f1 = meta_files f"
  using assms by (auto simp: tells_def fetch_and_pin_public_key_def hive_laws(2) Let_def)

lemma map_of_canon:
  assumes "distinct (map fst m)"
  shows "map_of (sort_key fst (map (\<lambda>(k, v). (k, canon v)) m)) k = map_option canon (map_of m k)"
proof -
  let ?m = "map (\<lambda>(k, v). (k, canon v)) m"
  have d: "distinct (map fst ?m)" using assms by (simp add: comp_def split_def)
  then have "distinct ?m \<and> inj_on fst (set ?m)" by (simp only: distinct_map)
  then have "distinct (map fst (sort_key fst ?m))" unfolding distinct_map [of fst] by (simp only: distinct_sort set_sort)
  then have "map_of (sort_key fst ?m) = map_of ?m" using d by (simp add: map_of_inject_set)
  then show ?thesis by (simp add: map_of_map)
qed

lemma tree_str_canon:
  assumes "t = JObj m" and "distinct (map fst m)"
  shows "tree_str (canon t) k = tree_str t k" and "tree_get (canon t) k = map_option canon (tree_get t k)"
proof -
  note m = map_of_canon [OF assms(2), of k]
  show "tree_get (canon t) k = map_option canon (tree_get t k)" by (simp add: assms(1) tree_get_def m)
  show "tree_str (canon t) k = tree_str t k"
  proof (cases "map_of m k")
    case (Some v)
    then show ?thesis using m by (cases v) (simp_all add: assms(1) tree_str_def)
  qed (simp add: assms(1) tree_str_def m)
qed



section \<open>A concrete pair of daemons\<close>

definition toy_str :: "string \<Rightarrow> bytes" where
  "toy_str s = concat (map (\<lambda>b. [1, b]) (ascii s)) @ [0]"

fun toy_unstr :: "bytes \<Rightarrow> bytes \<times> bytes" where
  "toy_unstr (x # b # r) = (if x = 0 then ([], b # r) else let (s, r') = toy_unstr r in (b # s, r'))"
| "toy_unstr _ = ([], [])"

lemma toy_unstr_str: "toy_unstr (toy_str s @ r) = (ascii s, r)"
proof -
  have "toy_unstr (concat (map (\<lambda>b. [1, b]) bs) @ 0 # r) = (bs, r)" for bs by (induction bs) (cases r, simp_all)
  then show ?thesis by (simp add: toy_str_def)
qed

definition toy_show_envelope :: "encrypted_envelope \<Rightarrow> bytes" where
  "toy_show_envelope e =
     [of_bool (env_encrypted e), env_version e, case env_key_type e of Static \<Rightarrow> 0 | Ephemeral \<Rightarrow> 1,
      case env_ephemeral_pub e of None \<Rightarrow> 0 | Some _ \<Rightarrow> 1] @
     toy_str (case env_ephemeral_pub e of None \<Rightarrow> [] | Some s \<Rightarrow> s) @ toy_str (env_nonce e) @ toy_str (env_content e)"

fun toy_envelope :: "bytes \<Rightarrow> encrypted_envelope option" where
  "toy_envelope (b # v # k # p # r) =
     (let (pub, r1) = toy_unstr r; (n, r2) = toy_unstr r1; (c, r3) = toy_unstr r2
      in Some \<lparr>env_encrypted = (b = 1), env_version = v, env_key_type = (if k = 0 then Static else Ephemeral),
               env_ephemeral_pub = (if p = 0 then None else Some (of_bytes pub)), env_nonce = of_bytes n, env_content = of_bytes c\<rparr>)"
| "toy_envelope _ = None"

lemma toy_envelope_show: "toy_envelope (toy_show_envelope e) = Some e"
  using toy_unstr_str [of "env_content e" "[]"]
  by (cases e; cases "env_key_type e"; cases "env_ephemeral_pub e") (simp_all add: toy_show_envelope_def toy_unstr_str Let_def)

definition toy_agent :: "bytes \<Rightarrow> string \<Rightarrow> json_tree" where
  "toy_agent secret i = JObj [(''wg_public_key'', JStr (b64_enc toy_hive (pub_of toy_hive secret))), (''agent_id'', JStr i)]"

definition toy_env :: "bytes \<Rightarrow> hive_env" where
  "toy_env secret =
     \<lparr>he_lib = toy_hive, he_xseal = (\<lambda>k n p. Some p), he_xopen = (\<lambda>k n c. Some c),
      he_parse = (\<lambda>bs. if bs = [1] then Some (toy_agent [10] ''a'') else if bs = [2] then Some (toy_agent [20] ''b'')
                   else if bs = [3] then Some (canon (meta_tree ''alice'' None [])) else None),
      he_print = (\<lambda>t. if t = meta_tree ''alice'' None [] then [3] else [4]),
      he_envelope = toy_envelope, he_show_envelope = toy_show_envelope,
      he_room_key = (\<lambda>v. case (tree_str v ''nonce'', tree_str v ''encrypted_key'') of
          (Some n, Some k) \<Rightarrow> Some \<lparr>rk_nonce = n, rk_encrypted_key = k\<rparr> | _ \<Rightarrow> None),
      he_room_key_tree = (\<lambda>k. JObj [(''nonce'', JStr (rk_nonce k)), (''encrypted_key'', JStr (rk_encrypted_key k))]),
      he_private = Some secret,
      he_fetch = (\<lambda>n. if n = ''alice'' then Http_Body [1] else if n = ''bob'' then Http_Body [2] else Bad_Status ''404''),
      he_lower = (\<lambda>s. s), he_rfc3339 = (\<lambda>_. None), he_expiry = (\<lambda>_. None), he_now = 0,
      he_pin_ok = True, he_key_ok = True, he_meta_ok = True, he_show_error = (\<lambda>_. [])\<rparr>"

definition toy_files :: hive_files where
  "toy_files = \<lparr>known_keys = Map.empty, key_files = Map.empty, meta_files = Map.empty\<rparr>"

lemma toy_env_simps [simp]:
  "he_lib (toy_env s) = toy_hive" "he_private (toy_env s) = Some s" "he_lower (toy_env s) = (\<lambda>s. s)"
  "he_key_ok (toy_env s)" "he_meta_ok (toy_env s)" "room_expired (toy_env s) None = False"
  by (simp_all add: toy_env_def room_expired_def)

lemma toy_serde: "serde_law (toy_env s) (toy_env r)"
proof -
  have "tree_str (canon (JObj [(''nonce'', x), (''encrypted_key'', y)])) k = tree_str (JObj [(''nonce'', x), (''encrypted_key'', y)]) k" for x y k
    by (rule tree_str_canon(1) [OF refl]) simp
  then show ?thesis
    by (simp add: serde_law_def toy_env_def toy_envelope_show tree_str_def del: canon.simps)
qed

lemma toy_tells: "tells (toy_env s) ''bob'' (pub_of toy_hive [20]) ''b''" "tells (toy_env s) ''alice'' (pub_of toy_hive [10]) ''a''"
  by (simp_all add: tells_def toy_env_def toy_agent_def tree_str_def)

lemma toy_reads_back: "reads_back (toy_env s) (meta_tree ''alice'' None [])"
  by (simp add: reads_back_def toy_env_def) code_simp


section \<open>Direct messages arrive\<close>

text \<open>
  \<^bold>\<open>C23\<close>. A direct message from end to end. If the server tells both daemons each other's key and id, the text one
  of them encrypts for the other, with its own key or an ephemeral one, is sent and decrypts there to the
  original text, whatever either had pinned before: a pinned key that differs does not stop the exchange.
\<close>

theorem dm_reaches_target:
  assumes "hive_law (he_lib A)" and "serde_law A B" and "he_private A = Some a" and "he_private B = Some b"
    and "tells A bob (pub_of (he_lib A) b) idb" and "tells B alice (pub_of (he_lib A) a) ida"
    and "length nonce = 12" and "utf8_valid (ascii msg)"
  shows "(\<exists>fa1 sent fb1. encrypt_dm_for_target A nonce ida bob msg fa = Some (fa1, Inr sent) \<and>
      decrypt_dm_if_encrypted B idb alice sent fb = Some (fb1, Inr msg)) \<and>
    (\<exists>fa1 sent fb1. encrypt_dm_ephemeral_for_target A nonce eph ida bob msg fa = Some (fa1, Inr sent) \<and>
      decrypt_dm_if_encrypted B idb alice sent fb = Some (fb1, Inr msg))"
proof -
  note laws = hive_laws [OF assms(1)]
  have lib: "he_lib B = he_lib A" and env: "\<And>e. he_envelope B (he_show_envelope A e) = Some e"
    using assms(2) by (auto simp: serde_law_def)
  obtain fa1 where fa: "fetch_and_pin_public_key A bob fa = (fa1, Inr (pub_of (he_lib A) b, idb))"
    using fetch_tells [OF assms(1,5) laws(3)] by blast
  obtain fb1 where fb: "fetch_and_pin_public_key B alice fb = (fb1, Inr (pub_of (he_lib A) a, ida))"
    using fetch_tells [of B] assms(1,6) laws(3) lib by metis
  have roundtrip: "of_bytes (utf8_lossy (ascii msg)) = msg"
    using utf8_lossy_valid [OF assms(8)] by simp
  note reach = hive_messages_facts(1) [OF assms(1,7), of "ascii msg" a b ida idb "dm_aad ida idb"]
    hive_messages_facts(2) [OF assms(1,7), of eph "ascii msg" b ida idb "dm_aad ida idb" "pub_of (he_lib A) a"]
  show ?thesis
  proof (intro conjI)
    obtain e where "encrypt_dm (he_lib A) nonce (ascii msg) a (pub_of (he_lib A) b) ida idb (dm_aad ida idb) = Some e"
      "env_encrypted e"
      "decrypt_dm (he_lib A) e b (pub_of (he_lib A) a) idb ida (dm_aad ida idb) = Some (Inr (ascii msg))"
      using reach(1) by blast
    then show "\<exists>fa1 sent fb1. encrypt_dm_for_target A nonce ida bob msg fa = Some (fa1, Inr sent) \<and>
        decrypt_dm_if_encrypted B idb alice sent fb = Some (fb1, Inr msg)"
      using fa fb assms(3,4) by (simp add: encrypt_dm_for_target_def decrypt_dm_if_encrypted_def lib env roundtrip)
  next
    obtain e where "encrypt_dm_ephemeral (he_lib A) nonce eph (ascii msg) (pub_of (he_lib A) b) ida idb (dm_aad ida idb) = Some e"
      "env_encrypted e"
      "decrypt_dm (he_lib A) e b (pub_of (he_lib A) a) idb ida (dm_aad ida idb) = Some (Inr (ascii msg))"
      using reach(2) by blast
    then show "\<exists>fa1 sent fb1. encrypt_dm_ephemeral_for_target A nonce eph ida bob msg fa = Some (fa1, Inr sent) \<and>
        decrypt_dm_if_encrypted B idb alice sent fb = Some (fb1, Inr msg)"
      using fa fb assms(4) by (simp add: encrypt_dm_ephemeral_for_target_def decrypt_dm_if_encrypted_def lib env roundtrip)
  qed
qed

theorem dm_reaches_target_witness:
  "\<exists>fa1 sent fb1. encrypt_dm_for_target (toy_env [10]) (replicate 12 5) ''a'' ''bob'' ''hi'' toy_files = Some (fa1, Inr sent) \<and>
     decrypt_dm_if_encrypted (toy_env [20]) ''b'' ''alice'' sent toy_files = Some (fb1, Inr ''hi'')"
proof -
  have "utf8_valid (ascii ''hi'')" by code_simp
  then show ?thesis
    using dm_reaches_target [of "toy_env [10]" "toy_env [20]" "[10]" "[20]" "''bob''" "''b''" "''alice''" "''a''" "replicate 12 5" "''hi''"]
      toy_hive_law toy_serde toy_tells by simp
qed


section \<open>Room keys arrive\<close>

lemma load_stored_key:
  assumes "hive_law (he_lib E)" and "length key = 32" and "he_key_ok E" and "he_meta_ok E"
  shows "\<exists>f1. store_room_key E room key creator expires_at f = (f1, Inr ()) \<and> load_room_key E room f1 = Some key \<and>
    meta_files f1 = (meta_files f)(room \<mapsto> he_print E (meta_tree creator expires_at []))"
  using assms cached_pinned [OF assms(1,2)]
  by (simp add: store_room_key_def store_room_key_with_members_def load_room_key_def Let_def)

lemma load_stored_meta:
  assumes "reads_back E (meta_tree creator expires_at [])" and "meta_files f room = Some (he_print E (meta_tree creator expires_at []))"
  shows "load_room_meta_full E room f = Some \<lparr>meta_creator = creator, meta_expires = expires_at, meta_members = []\<rparr>"
proof -
  let ?m = "[(''creator'', JStr creator)] @ (case expires_at of Some x \<Rightarrow> [(''expires_at'', JStr x)] | None \<Rightarrow> [])"
  have t: "meta_tree creator expires_at [] = JObj ?m" by (simp add: meta_tree_def)
  have d: "distinct (map fst ?m)" by (simp split: option.splits)
  have r: "read_json E (meta_files f room) = Some (canon (meta_tree creator expires_at []))"
    using assms by (simp add: reads_back_def read_json_def)
  show ?thesis
    unfolding load_room_meta_full_def r using tree_str_canon [OF t d] t
    by (auto simp: tree_str_def tree_get_def split: option.splits)
qed

text \<open>The loop encrypts the room key for every member it meets, under the lower-case name.\<close>

lemma encrypt_for_members_covers:
  assumes law: "hive_law (he_lib E)" "length room_key = 32"
  shows "\<forall>i. length (nonces i) = 12 \<Longrightarrow>
    \<forall>x \<in> set ms. he_lower E x \<noteq> my_name \<longrightarrow> (\<exists>i. tells E x (pub_of (he_lib E) (sk (he_lower E x))) i) \<Longrightarrow>
    \<exists>f1 m1. encrypt_for_members E nonces room_key my_key room my_name ms f m = Some (f1, Inr m1) \<and> (map_wf m \<longrightarrow> map_wf m1) \<and>
      (\<forall>n. if n \<in> he_lower E ` set ms - {my_name}
           then \<exists>nonce enc. map_of m1 n = Some (he_room_key_tree E enc) \<and> length nonce = 12 \<and>
             encrypt_room_key (he_lib E) nonce room_key my_key (pub_of (he_lib E) (sk n)) room = Some enc
           else map_of m1 n = map_of m n)"
proof (induction ms arbitrary: nonces f m)
  case (Cons x ms)
  let ?n = "nonces \<circ> Suc"
  have n: "\<forall>i. length (?n i) = 12" using Cons.prems(1) by simp
  have t: "\<forall>x \<in> set ms. he_lower E x \<noteq> my_name \<longrightarrow> (\<exists>i. tells E x (pub_of (he_lib E) (sk (he_lower E x))) i)"
    using Cons.prems(2) by simp
  show ?case
  proof (cases "he_lower E x = my_name")
    case True
    then have same: "he_lower E ` set (x # ms) - {my_name} = he_lower E ` set ms - {my_name}" by auto
    show ?thesis unfolding same encrypt_for_members.simps if_P [OF True] by (rule Cons.IH [OF n t])
  next
    case False
    let ?pub = "pub_of (he_lib E) (sk (he_lower E x))"
    obtain i where "tells E x ?pub i" using Cons.prems(2) False by auto
    then obtain f1 where f1: "fetch_and_pin_public_key E x f = (f1, Inr (?pub, i))"
      using fetch_tells [OF law(1) _ hive_laws(3) [OF law(1)]] by blast
    obtain enc where enc: "encrypt_room_key (he_lib E) (nonces 0) room_key my_key ?pub room = Some enc"
      using hive_messages_facts(3) [OF law(1) _ law(2)] Cons.prems(1) by blast
    let ?m = "map_insert (he_lower E x) (he_room_key_tree E enc) m"
    obtain f2 m1 where r: "encrypt_for_members E ?n room_key my_key room my_name ms f1 ?m = Some (f2, Inr m1)"
      and wf: "map_wf ?m \<longrightarrow> map_wf m1"
      and all: "\<forall>n. if n \<in> he_lower E ` set ms - {my_name}
           then \<exists>nonce enc. map_of m1 n = Some (he_room_key_tree E enc) \<and> length nonce = 12 \<and>
             encrypt_room_key (he_lib E) nonce room_key my_key (pub_of (he_lib E) (sk n)) room = Some enc
           else map_of m1 n = map_of ?m n"
      using Cons.IH [OF n t, of f1 ?m] by blast
    have "if n \<in> he_lower E ` set (x # ms) - {my_name}
           then \<exists>nonce enc. map_of m1 n = Some (he_room_key_tree E enc) \<and> length nonce = 12 \<and>
             encrypt_room_key (he_lib E) nonce room_key my_key (pub_of (he_lib E) (sk n)) room = Some enc
           else map_of m1 n = map_of m n" for n
      using all [rule_format, of n] enc Cons.prems(1) False by (cases "n = he_lower E x") (auto split: if_splits)
    then show ?thesis using r wf f1 enc False by auto
  qed
qed simp

text \<open>
  \<^bold>\<open>C24\<close>. A room key from end to end. The creator distributes a fresh key to members whose keys the server tells
  truthfully: afterwards it holds the key itself, and the message it sends contains under each member's
  lower-case name an entry from which that member recovers and stores the same key, with the creator's name; a
  message the creator then encrypts for the room, the member reads (as long as the key has not expired).
\<close>

theorem room_key_shared:
  assumes "hive_law (he_lib C)" and "serde_law C M"
    and "he_private C = Some c" and "he_private M = Some (sk (he_lower C member))"
    and "\<forall>x \<in> set members. he_lower C x \<noteq> my_name \<longrightarrow> (\<exists>i. tells C x (pub_of (he_lib C) (sk (he_lower C x))) i)"
    and "tells M my_name (pub_of (he_lib C) c) i"
    and "member \<in> set members" and "he_lower C member \<noteq> my_name"
    and "length room_key = 32" and "\<forall>i. length (nonces i) = 12" and "length nonce = 12" and "utf8_valid (ascii msg)"
    and "he_key_ok C" and "he_meta_ok C" and "he_key_ok M" and "he_meta_ok M"
    and "reads_back C (meta_tree my_name expires_at [])" and "\<not> room_expired C expires_at"
  shows "\<exists>fc m. generate_and_distribute_room_key C nonces room_key room my_name members expires_at f =
      Some (fc, Inr (of_bytes (he_print C (distribution_tree room m expires_at)))) \<and>
    map_wf m \<and> load_room_key C room fc = Some room_key \<and>
    (\<exists>v fm. map_of m (he_lower C member) = Some v \<and>
      receive_room_key M room my_name (canon v) expires_at g = Some (fm, Inr ()) \<and>
      load_room_key M room fm = Some room_key \<and>
      (\<exists>sent. encrypt_for_room C nonce room msg fc = Some (fc, Inr sent) \<and>
         decrypt_room_message_if_encrypted M room sent fm = msg))"
proof -
  note law = assms(1)
  have lib: "he_lib M = he_lib C" using assms(2) by (simp add: serde_law_def)
  obtain f1 m where enc: "encrypt_for_members C nonces room_key c room my_name members f [] = Some (f1, Inr m)" and wf: "map_wf m"
    and "\<exists>nonce enc. map_of m (he_lower C member) = Some (he_room_key_tree C enc) \<and> length nonce = 12 \<and>
        encrypt_room_key (he_lib C) nonce room_key c (pub_of (he_lib C) (sk (he_lower C member))) room = Some enc"
    using encrypt_for_members_covers [OF law assms(9,10,5), of c room f "[]"] assms(7,8) by fastforce
  then obtain n0 e where m: "map_of m (he_lower C member) = Some (he_room_key_tree C e)" and n0: "length n0 = 12"
    and e: "encrypt_room_key (he_lib C) n0 room_key c (pub_of (he_lib C) (sk (he_lower C member))) room = Some e" by blast
  obtain fc where fc: "store_room_key C room room_key my_name expires_at f1 = (fc, Inr ())" "load_room_key C room fc = Some room_key"
    and fc_meta: "meta_files fc room = Some (he_print C (meta_tree my_name expires_at []))"
    using load_stored_key [OF law assms(9,13,14), of room my_name expires_at f1] by auto
  obtain g1 where g1: "fetch_and_pin_public_key M my_name g = (g1, Inr (pub_of (he_lib C) c, i))"
    using fetch_tells [of M] law assms(6) hive_laws(3) [OF law] lib by metis
  have "decrypt_room_key (he_lib C) e (sk (he_lower C member)) (pub_of (he_lib C) c) room = Some (Inr room_key)"
    using hive_messages_facts(3) [OF law n0 assms(9), of c "sk (he_lower C member)" room] e by auto
  moreover obtain fm where "store_room_key M room room_key my_name expires_at g1 = (fm, Inr ())" "load_room_key M room fm = Some room_key"
    using load_stored_key [of M room_key room my_name expires_at g1] law lib assms(9,15,16) by auto
  moreover have "he_room_key M (canon (he_room_key_tree C e)) = Some e" using assms(2) by (simp add: serde_law_def)
  ultimately have recv: "receive_room_key M room my_name (canon (he_room_key_tree C e)) expires_at g = Some (fm, Inr ())"
    "load_room_key M room fm = Some room_key"
    using assms(4) g1 by (simp_all add: receive_room_key_def lib)
  obtain x where "encrypt_room_message (he_lib C) nonce (ascii msg) room_key = Some x" "env_encrypted x"
    "decrypt_room_message (he_lib C) x room_key = Inr (ascii msg)"
    using hive_messages_facts(4) [OF law assms(11)] by blast
  moreover have "he_envelope M (he_show_envelope C x) = Some x" using assms(2) by (simp add: serde_law_def)
  ultimately have "\<exists>sent. encrypt_for_room C nonce room msg fc = Some (fc, Inr sent) \<and>
      decrypt_room_message_if_encrypted M room sent fm = msg"
    using load_stored_meta [OF assms(17) fc_meta] fc(2) recv(2) assms(18) utf8_lossy_valid [OF assms(12)]
    by (simp add: encrypt_for_room_def decrypt_room_message_if_encrypted_def lib)
  moreover have "generate_and_distribute_room_key C nonces room_key room my_name members expires_at f =
      Some (fc, Inr (of_bytes (he_print C (distribution_tree room m expires_at))))"
    using enc fc(1) assms(3) by (simp add: generate_and_distribute_room_key_def)
  ultimately show ?thesis using fc(2) m wf recv by blast
qed

theorem room_key_shared_witness:
  "\<exists>fc m. generate_and_distribute_room_key (toy_env [10]) (\<lambda>_. replicate 12 5) (replicate 32 6) ''r'' ''alice'' [''bob'', ''alice''] None toy_files =
      Some (fc, Inr (of_bytes (he_print (toy_env [10]) (distribution_tree ''r'' m None)))) \<and>
    (\<exists>v fm. map_of m ''bob'' = Some v \<and>
       receive_room_key (toy_env [20]) ''r'' ''alice'' (canon v) None toy_files = Some (fm, Inr ()) \<and>
       load_room_key (toy_env [20]) ''r'' fm = Some (replicate 32 6))"
proof -
  have "utf8_valid (ascii ''hi'')" by code_simp
  moreover have "\<exists>i. tells (toy_env [10]) ''bob'' (pub_of toy_hive [20]) i" using toy_tells by blast
  ultimately show ?thesis
    using room_key_shared [of "toy_env [10]" "toy_env [20]" "[10]" "\<lambda>n. [20]" "''bob''" "[''bob'', ''alice'']" "''alice''" "''a''"
        "replicate 32 6" "\<lambda>_. replicate 12 5" "replicate 12 5" "''hi''" None "''r''" toy_files toy_files]
      toy_hive_law toy_serde toy_tells toy_reads_back by simp blast
qed

end
