(* ===== verification/Puller.thy ===== *)
theory Puller
  imports Hive_Store Events
begin

text \<open>
  \<open>src/crates/b3-cli/src/bridge/puller.rs\<close>: what the daemon does with the events of its servers. Each server has a
  loop that reconnects; the events of all of them go through one handler, and messages are polled for besides.
  The requests and the random names of messages are arguments; a task the code spawns is an output, the
  request or action it stands for. The derived parser of events is an argument.
\<close>

section \<open>Duplicates\<close>

text \<open>\<open>text.chars().take(n)\<close> on UTF-8.\<close>

fun take_chars :: "nat \<Rightarrow> bytes \<Rightarrow> bytes" where
  "take_chars 0 bs = []"
| "take_chars (Suc n) bs =
     (if bs = [] then [] else take (max 1 (utf8_len bs)) bs @ take_chars n (drop (max 1 (utf8_len bs)) bs))"

definition fingerprint :: "(bytes \<Rightarrow> bytes \<Rightarrow> u64) \<Rightarrow> string \<Rightarrow> string \<Rightarrow> u64" where
  "fingerprint hash sender msg = hash (ascii sender) (take_chars 200 (ascii msg))"

definition check_and_mark :: "(bytes \<Rightarrow> bytes \<Rightarrow> u64) \<Rightarrow> string \<Rightarrow> string \<Rightarrow> u64 list \<Rightarrow> u64 list \<times> bool" where
  "check_and_mark hash sender msg dedup =
     (let fp = fingerprint hash sender msg
      in if fp \<in> set dedup then (dedup, True)
         else let d = dedup @ [fp] in (if length d > 200 then tl d else d, False))"


section \<open>Servers\<close>

text \<open>\<open>str::trim_start_matches\<close>, and the part of a URL the code takes for its host.\<close>

definition trim_start :: "string \<Rightarrow> bytes \<Rightarrow> bytes" where
  "trim_start p s = strip_seqs [ascii p] s"

definition url_host :: "string \<Rightarrow> bytes" where
  "url_host url =
     takeWhile (\<lambda>b. b \<noteq> 58) (takeWhile (\<lambda>b. b \<noteq> 47) (trim_start ''http://'' (trim_start ''https://'' (ascii url))))"

definition server_urls :: "string \<Rightarrow> string list \<Rightarrow> string list" where
  "server_urls api_url servers = api_url # filter (\<lambda>p. url_host p \<noteq> url_host api_url \<and> url_host p \<noteq> []) servers"

definition agent_name :: "(string \<Rightarrow> string) \<Rightarrow> string \<Rightarrow> string" where
  "agent_name lower email = lower (takeWhile (\<lambda>c. c \<noteq> CHR ''@'') email)"


section \<open>The loop of a server\<close>

datatype sse_result = Clean_Close | Permanent_Failure u16 | Transient_Failure string | Network_Error string

text \<open>The answer to the request, an error or a status; a stream that was opened ends cleanly in every case.\<close>

definition connect_sse :: "string + u16 \<Rightarrow> sse_result" where
  "connect_sse answer =
     (case answer of
        Inl e \<Rightarrow> Network_Error e
      | Inr status \<Rightarrow>
          (if 200 \<le> status \<and> status < 300 then Clean_Close
           else if status = 401 \<or> status = 403 then Permanent_Failure status
           else Transient_Failure (''HTTP '' @ show_nat (unat status))))"

definition MAX_PERMANENT_FAILURES :: u32 where "MAX_PERMANENT_FAILURES = 10"

record pull_loop =
  pl_backoff :: backoff
  pl_permanent :: u32

definition pull_loop_new :: pull_loop where
  "pull_loop_new = \<lparr>pl_backoff = backoff_new (10 ^ 9) (30 * 10 ^ 9), pl_permanent = 0\<rparr>"

text \<open>
  One turn, after a connection: what is reported to the health registry and the delay (in nanoseconds) before the
  next one; \<open>Inl\<close> is the end of the loop, \<open>None\<close> a panic.
\<close>

fun pull_turn :: "sse_result \<Rightarrow> pull_loop \<Rightarrow> (pull_loop \<times> bool \<times> (unit + nat)) option" where
  "pull_turn Clean_Close p =
     Some (p\<lparr>pl_backoff := backoff_reset (pl_backoff p), pl_permanent := 0\<rparr>, True, Inr (10 ^ 9))"
| "pull_turn (Permanent_Failure status) p =
     (let p1 = p\<lparr>pl_permanent := pl_permanent p + 1\<rparr>
      in if pl_permanent p1 \<ge> MAX_PERMANENT_FAILURES then Some (p1, False, Inl ())
         else case next_delay_max (pl_backoff p1) of (b, d) \<Rightarrow> Some (p1\<lparr>pl_backoff := b\<rparr>, False, Inr d))"
| "pull_turn (Transient_Failure reason) p =
     map_option (\<lambda>(b, d). (p\<lparr>pl_backoff := b\<rparr>, False, Inr d)) (next_delay (pl_backoff p))"
| "pull_turn (Network_Error reason) p =
     map_option (\<lambda>(b, d). (p\<lparr>pl_backoff := b\<rparr>, False, Inr d)) (next_delay (pl_backoff p))"

text \<open>A run over the results of the connections: the delays slept, and whether the loop has ended.\<close>

fun pull_run :: "sse_result list \<Rightarrow> pull_loop \<Rightarrow> (pull_loop \<times> nat list \<times> bool) option" where
  "pull_run [] p = Some (p, [], False)"
| "pull_run (r # rs) p =
     (case pull_turn r p of
        None \<Rightarrow> None
      | Some (p1, h, Inl _) \<Rightarrow> Some (p1, [], True)
      | Some (p1, h, Inr d) \<Rightarrow> map_option (\<lambda>(p2, ds, e). (p2, d # ds, e)) (pull_run rs p1))"


section \<open>Events\<close>

record pull_env =
  pe_hive :: hive_env
  pe_event :: "bytes \<Rightarrow> agent_event option"
  pe_hash :: "bytes \<Rightarrow> bytes \<Rightarrow> u64"
  pe_email :: string
  pe_agent_id :: string
  pe_web :: bool
  pe_i64 :: "json_tree \<Rightarrow> int option"

definition my_name :: "pull_env \<Rightarrow> string" where
  "my_name E = agent_name (he_lower (pe_hive E)) (pe_email E)"

datatype channel_event =
    Channel_Transcription string string
  | Channel_Dm string string string
  | Channel_Room string string string string string

datatype pull_output =
    To_Channel channel_event
  | To_Browsers agent_event
  | Write_Pty bytes
  | Set_Pty_Size u16 u16
  | Ack_Destroy string
  | Start_Update string string string
  | Answer_Offer string string string "u64 option"
  | Add_Candidate string string string

record puller =
  pu_dedup :: "u64 list"
  pu_files :: hive_files

definition escape_newlines :: "string \<Rightarrow> string" where
  "escape_newlines s = concat (map (\<lambda>c. if of_char c = (10 :: nat) then [CHR 0x5C, CHR ''n''] else [c]) s)"

text \<open>The text of a direct message, after decryption; a failure shows the text as it came.\<close>

definition open_dm :: "pull_env \<Rightarrow> string \<Rightarrow> string \<Rightarrow> hive_files \<Rightarrow> (hive_files \<times> string) option" where
  "open_dm E sender msg f =
     (case decrypt_dm_if_encrypted (pe_hive E) (pe_agent_id E) sender msg f of
        None \<Rightarrow> None
      | Some (f1, Inr plain) \<Rightarrow> Some (f1, plain)
      | Some (f1, Inl e) \<Rightarrow> Some (f1, msg))"

definition to_web :: "pull_env \<Rightarrow> pull_output list \<Rightarrow> pull_output list" where
  "to_web E out = (if pe_web E then out else [])"

definition hive_text :: "pull_env \<Rightarrow> string \<Rightarrow> string \<Rightarrow> hive_files \<Rightarrow> (hive_files \<times> string) option" where
  "hive_text E sender msg f =
     (let H = pe_hive E
      in case he_parse H (ascii msg) of
           Some v \<Rightarrow>
             (if tree_get v ''timelock_delivery'' = Some (JBool True) then
                Some (f, case decrypt_timelock H (case tree_str v ''content'' of Some x \<Rightarrow> x | None \<Rightarrow> [])
                                (case tree_str v ''unlock_key'' of Some x \<Rightarrow> x | None \<Rightarrow> []) of
                           Inr plain \<Rightarrow> plain
                         | Inl e \<Rightarrow> ''[timelock decryption failed: '' @ he_show_error H e @ '']'')
              else open_dm E sender msg f)
         | None \<Rightarrow> open_dm E sender msg f)"

definition on_hive :: "pull_env \<Rightarrow> string \<Rightarrow> string \<Rightarrow> string \<Rightarrow> puller \<Rightarrow> (puller \<times> pull_output list) option" where
  "on_hive E msg_id sender msg s =
     (let d = fst (check_and_mark (pe_hash E) sender msg (pu_dedup s))
      in case hive_text E sender msg (pu_files s) of
           None \<Rightarrow> None
         | Some (f, plain) \<Rightarrow>
             (let sanitized = escape_newlines plain
              in Some (s\<lparr>pu_dedup := d, pu_files := f\<rparr>,
                       to_web E [To_Channel (Channel_Dm sender sanitized msg_id), To_Browsers (Hive sender sanitized)])))"

text \<open>A distribution of room keys: the creator check, the own entry, and the list of members.\<close>

definition own_entry :: "pull_env \<Rightarrow> (string \<times> json_tree) list \<Rightarrow> json_tree option" where
  "own_entry E keys =
     (case map_of keys (my_name E) of
        Some v \<Rightarrow> Some v
      | None \<Rightarrow> map_option snd (find (\<lambda>(k, v). he_lower (pe_hive E) k = my_name E) keys))"

definition on_key_distribution :: "pull_env \<Rightarrow> string \<Rightarrow> string \<Rightarrow> json_tree \<Rightarrow> hive_files \<Rightarrow> hive_files option" where
  "on_key_distribution E sender room v f =
     (if (case load_room_meta (pe_hive E) room f of Some creator \<Rightarrow> creator \<noteq> sender | None \<Rightarrow> False) then Some f
      else case tree_get v ''keys'' of
             Some (JObj keys) \<Rightarrow>
               (case own_entry E keys of
                  None \<Rightarrow> Some f
                | Some entry \<Rightarrow>
                    (case receive_room_key (pe_hive E) room sender entry (tree_str v ''expires_at'') f of
                       None \<Rightarrow> None
                     | Some (f1, Inl e) \<Rightarrow> Some f1
                     | Some (f1, Inr _) \<Rightarrow> store_room_members (pe_hive E) room (map fst keys) f1))
           | _ \<Rightarrow> Some f)"

definition on_hive_room ::
  "pull_env \<Rightarrow> string \<Rightarrow> string \<Rightarrow> string \<Rightarrow> string \<Rightarrow> string \<Rightarrow> puller \<Rightarrow> (puller \<times> pull_output list) option" where
  "on_hive_room E msg_id sender room topic msg s =
     (let H = pe_hive E;
          v = he_parse H (ascii msg);
          ty = Option.bind v (\<lambda>v. tree_str v ''msg_type'')
      in if ty = Some ''key_distribution'' then
           map_option (\<lambda>f. (s\<lparr>pu_files := f\<rparr>, [])) (on_key_distribution E sender room (the v) (pu_files s))
         else if ty = Some ''key_destroy'' then
           (let destroyed_by = (case tree_str (the v) ''destroyed_by'' of Some x \<Rightarrow> x | None \<Rightarrow> sender);
                notice = ''Key destroyed by '' @ destroyed_by @ ''. Room is now unreadable.''
            in Some (s\<lparr>pu_files := delete_room_key room (pu_files s)\<rparr>,
                     Ack_Destroy room # to_web E [To_Channel (Channel_Room ''system'' room topic notice msg_id)]))
         else
           (let sanitized = escape_newlines (decrypt_room_message_if_encrypted H room msg (pu_files s))
            in Some (s, to_web E [To_Channel (Channel_Room sender room topic sanitized msg_id),
                                  To_Browsers (Hive_Room sender room topic sanitized)])))"

text \<open>
  \<open>handle_event\<close>, by the type of the server-sent event; other types and data that do not parse as the event of
  that type are ignored. Whether there is a handle to resize the PTY is an argument.
\<close>

definition handle_event :: "pull_env \<Rightarrow> bool \<Rightarrow> string \<Rightarrow> string \<Rightarrow> bytes \<Rightarrow> puller \<Rightarrow> (puller \<times> pull_output list) option" where
  "handle_event E resizer msg_id ty data s =
     (case (ty, pe_event E data) of
        (_, None) \<Rightarrow> Some (s, [])
      | (_, Some e) \<Rightarrow>
          (if ty = ''transcription'' then
             (case e of Transcription msg \<Rightarrow> Some (s, to_web E [To_Channel (Channel_Transcription msg msg_id)]) | _ \<Rightarrow> Some (s, []))
           else if ty = ''hive'' then
             (case e of Hive sender msg \<Rightarrow> on_hive E msg_id sender msg s | _ \<Rightarrow> Some (s, []))
           else if ty = ''hive_room'' then
             (case e of Hive_Room sender room topic msg \<Rightarrow> on_hive_room E msg_id sender room topic msg s | _ \<Rightarrow> Some (s, []))
           else if ty = ''pty_input'' then
             (case e of
                Pty_Input inp \<Rightarrow>
                  Some (s, if inp = CHR 0x1B # ''[I'' \<or> inp = CHR 0x1B # ''[O'' then [] else [Write_Pty (ascii inp)])
              | _ \<Rightarrow> Some (s, []))
           else if ty = ''pty_resize'' then
             (case e of Pty_Resize rows cols \<Rightarrow> Some (s, if resizer then [Set_Pty_Size rows cols] else []) | _ \<Rightarrow> Some (s, []))
           else if ty = ''update_available'' then
             (case e of Update_Available vers url sha256 \<Rightarrow> Some (s, [Start_Update vers url sha256]) | _ \<Rightarrow> Some (s, []))
           else if ty = ''webrtc_offer'' then
             (case e of
                Webrtc_Offer sid sdp target origin browser \<Rightarrow>
                  Some (s, if target = ''daemon'' \<and> pe_web E then [Answer_Offer sid sdp origin browser] else [])
              | _ \<Rightarrow> Some (s, []))
           else if ty = ''webrtc_ice'' then
             (case e of
                Webrtc_Ice sid candidate mid target \<Rightarrow>
                  Some (s, if target = ''daemon'' then [Add_Candidate sid candidate mid] else [])
              | _ \<Rightarrow> Some (s, []))
           else Some (s, [])))"


section \<open>Polling\<close>

text \<open>One polled message: the new state, the last id seen, and what is delivered.\<close>

definition poll_message ::
  "pull_env \<Rightarrow> string \<Rightarrow> json_tree \<Rightarrow> puller \<times> int \<Rightarrow> ((puller \<times> int) \<times> pull_output list) option" where
  "poll_message E ch_msg_id msg = (\<lambda>(s, seen).
     let i = (case Option.bind (tree_get msg ''id'') (pe_i64 E) of Some n \<Rightarrow> n | None \<Rightarrow> 0);
         to_agent = (case tree_str msg ''to_agent'' of Some x \<Rightarrow> x | None \<Rightarrow> []);
         from_agent = (case tree_str msg ''from_agent'' of Some x \<Rightarrow> x | None \<Rightarrow> ''unknown'');
         content = (case tree_str msg ''content'' of Some x \<Rightarrow> x | None \<Rightarrow> [])
     in if i \<le> seen then Some ((s, seen), [])
        else if to_agent \<noteq> [] \<and> to_agent \<noteq> my_name E then Some ((s, max seen i), [])
        else if content = [] then Some ((s, max seen i), [])
        else case check_and_mark (pe_hash E) from_agent content (pu_dedup s) of
               (d, True) \<Rightarrow> Some ((s\<lparr>pu_dedup := d\<rparr>, max seen i), [])
             | (d, False) \<Rightarrow>
                 (case open_dm E from_agent content (pu_files s) of
                    None \<Rightarrow> None
                  | Some (f, plain) \<Rightarrow>
                      Some ((s\<lparr>pu_dedup := d, pu_files := f\<rparr>, max seen i),
                            to_web E [To_Channel (Channel_Dm from_agent (escape_newlines plain) ch_msg_id)])))"

fun poll_batch ::
  "pull_env \<Rightarrow> (nat \<Rightarrow> string) \<Rightarrow> json_tree list \<Rightarrow> puller \<times> int \<Rightarrow> ((puller \<times> int) \<times> pull_output list) option" where
  "poll_batch E ids [] s = Some (s, [])"
| "poll_batch E ids (m # ms) s =
     (case poll_message E (ids 0) m s of
        None \<Rightarrow> None
      | Some (s1, out) \<Rightarrow> map_option (\<lambda>(s2, out2). (s2, out @ out2)) (poll_batch E (ids \<circ> Suc) ms s1))"

definition body_messages :: "json_tree \<Rightarrow> json_tree list option" where
  "body_messages body = (case tree_get body ''messages'' of Some (JArr ms) \<Rightarrow> Some ms | _ \<Rightarrow> None)"

definition poll_seed :: "pull_env \<Rightarrow> json_tree option \<Rightarrow> int" where
  "poll_seed E answer =
     (case Option.bind answer body_messages of
        Some (m # _) \<Rightarrow> (case Option.bind (tree_get m ''id'') (pe_i64 E) of Some n \<Rightarrow> n | None \<Rightarrow> 0)
      | _ \<Rightarrow> 0)"

definition poll_turn ::
  "pull_env \<Rightarrow> (nat \<Rightarrow> string) \<Rightarrow> json_tree option \<Rightarrow> puller \<times> int \<Rightarrow> ((puller \<times> int) \<times> pull_output list) option" where
  "poll_turn E ids answer s =
     (case Option.bind answer body_messages of Some ms \<Rightarrow> poll_batch E ids ms s | None \<Rightarrow> Some (s, []))"


section \<open>Updates\<close>

text \<open>
  \<open>download_and_stage_update\<close>: \<open>None\<close> is no download or an error; otherwise the bytes put in place of the
  running program. \<open>sha256sum\<close> is the output of the external program.
\<close>

definition stage_update :: "string \<Rightarrow> (bytes \<Rightarrow> string) \<Rightarrow> bytes option \<Rightarrow> string \<Rightarrow> string \<Rightarrow> bytes option" where
  "stage_update current sha256sum download vers sha256 =
     (if vers = current then None
      else case download of
             None \<Rightarrow> None
           | Some bs \<Rightarrow> (if sha256 \<noteq> [] \<and> sha256sum bs \<noteq> sha256 then None else Some bs))"


section \<open>The loop gives up\<close>

text \<open>Permanent failures since the last clean close; other failures do not interrupt the count.\<close>

fun permanent_count :: "sse_result list \<Rightarrow> nat \<Rightarrow> nat" where
  "permanent_count [] n = n"
| "permanent_count (Clean_Close # rs) n = permanent_count rs 0"
| "permanent_count (Permanent_Failure status # rs) n = permanent_count rs (Suc n)"
| "permanent_count (_ # rs) n = permanent_count rs n"

definition pull_ok :: "nat \<Rightarrow> pull_loop \<Rightarrow> bool" where
  "pull_ok n p \<longleftrightarrow>
     unat (pl_permanent p) = n \<and> bo_base (pl_backoff p) = 10 ^ 9 \<and> bo_max (pl_backoff p) = 30 * 10 ^ 9 \<and>
     10 ^ 9 \<le> bo_current (pl_backoff p) \<and> bo_current (pl_backoff p) \<le> 30 * 10 ^ 9"

lemma pull_next_delay:
  "pull_ok n p \<Longrightarrow> \<exists>b. next_delay (pl_backoff p) = Some (b, bo_current (pl_backoff p)) \<and> pull_ok n (p\<lparr>pl_backoff := b\<rparr>)"
  by (auto simp: pull_ok_def next_delay_def duration_mul_def DURATION_MAX_def)

lemma pull_turn_ok:
  assumes "pull_ok n p" and "n < 10"
  shows "\<exists>p1 h a. pull_turn r p = Some (p1, h, a) \<and> pull_ok (permanent_count [r] n) p1 \<and>
    (a = Inl () \<longleftrightarrow> permanent_count [r] n = 10) \<and> (\<forall>d. a = Inr d \<longrightarrow> 10 ^ 9 \<le> d \<and> d \<le> 30 * 10 ^ 9)"
proof (cases r)
  case Clean_Close
  with assms show ?thesis by (auto simp: pull_ok_def backoff_reset_def)
next
  case (Permanent_Failure status)
  have u: "unat (pl_permanent p + 1) = Suc n" using assms by (simp add: pull_ok_def unat_word_ariths)
  have "pl_permanent p + 1 \<ge> MAX_PERMANENT_FAILURES \<longleftrightarrow> Suc n = 10"
    unfolding word_le_nat_alt u using assms(2) by (auto simp: MAX_PERMANENT_FAILURES_def)
  with assms u Permanent_Failure show ?thesis
    by (auto simp: pull_ok_def next_delay_max_def Let_def intro: exI [of _ False])
next
  case (Transient_Failure reason)
  with pull_next_delay [OF assms(1)] assms show ?thesis by (auto simp: pull_ok_def)
next
  case (Network_Error reason)
  with pull_next_delay [OF assms(1)] assms show ?thesis by (auto simp: pull_ok_def)
qed

lemma pull_run_ends:
  assumes "pull_ok n p" and "n < 10"
  shows "\<exists>p1 ds e. pull_run rs p = Some (p1, ds, e) \<and> (e \<longleftrightarrow> (\<exists>k. permanent_count (take k rs) n = 10)) \<and>
    list_all (\<lambda>d. 10 ^ 9 \<le> d \<and> d \<le> 30 * 10 ^ 9) ds \<and> (e \<or> length ds = length rs)"
  using assms
proof (induction rs arbitrary: n p)
  case Nil
  then show ?case by (auto intro: exI [of _ False])
next
  case (Cons r rs)
  obtain p1 h a where t: "pull_turn r p = Some (p1, h, a)" and ok: "pull_ok (permanent_count [r] n) p1"
    and e: "a = Inl () \<longleftrightarrow> permanent_count [r] n = 10" and d: "\<forall>d. a = Inr d \<longrightarrow> 10 ^ 9 \<le> d \<and> d \<le> 30 * 10 ^ 9"
    using pull_turn_ok [OF Cons.prems] by blast
  have take: "permanent_count (take (Suc k) (r # rs)) n = permanent_count (take k rs) (permanent_count [r] n)" for k
    by (cases r) simp_all
  have prefix: "(\<exists>k. permanent_count (take k (r # rs)) n = 10) \<longleftrightarrow> (\<exists>k. permanent_count (take k rs) (permanent_count [r] n) = 10)"
  proof
    assume "\<exists>k. permanent_count (take k (r # rs)) n = 10"
    then obtain k where k: "permanent_count (take k (r # rs)) n = 10" by blast
    then obtain j where "k = Suc j" using Cons.prems(2) by (cases k) auto
    then show "\<exists>k. permanent_count (take k rs) (permanent_count [r] n) = 10" using k take by metis
  qed (metis take)
  show ?case
  proof (cases "permanent_count [r] n = 10")
    case True
    then have "\<exists>k. permanent_count (take k rs) (permanent_count [r] n) = 10" by (intro exI [of _ 0]) simp
    with True t e prefix show ?thesis by auto
  next
    case False
    then obtain d' where a: "a = Inr d'" using e by (cases a) auto
    have "permanent_count [r] n < 10" using False Cons.prems(2) by (cases r) auto
    from Cons.IH [OF ok this] prefix a d t show ?thesis by auto
  qed
qed

text \<open>
  \<^bold>\<open>C26\<close>. A server's loop never panics, waits between one and thirty seconds after each connection, and ends exactly
  when, for some prefix of the results, ten of them since the last clean close were refused credentials;
  failures of other kinds in between do not reset the count.
\<close>

theorem puller_gives_up:
  "\<exists>p ds e. pull_run rs pull_loop_new = Some (p, ds, e) \<and> (e \<longleftrightarrow> (\<exists>k. permanent_count (take k rs) 0 = 10)) \<and>
    list_all (\<lambda>d. 10 ^ 9 \<le> d \<and> d \<le> 30 * 10 ^ 9) ds \<and> (e \<or> length ds = length rs)"
  by (rule pull_run_ends) (simp_all add: pull_ok_def pull_loop_new_def backoff_new_def)


section \<open>A concrete agent\<close>

definition toy_pull :: pull_env where
  "toy_pull =
     \<lparr>pe_hive = (toy_env [20])\<lparr>he_parse := (\<lambda>bs.
        if bs = [107] then Some (JObj [(''msg_type'', JStr ''key_destroy'')])
        else if bs = [100] then Some (JObj [(''msg_type'', JStr ''key_distribution''), (''keys'', JObj [])])
        else if bs = [3] then Some (JObj [(''creator'', JStr ''alice'')]) else None),
        he_envelope := (\<lambda>_. None)\<rparr>,
      pe_event = (\<lambda>bs. if bs = [1] then Some (Hive_Room ''eve'' ''r'' ''t'' ''d'') else Some (Hive ''bob'' ''hi'')),
      pe_hash = (\<lambda>a b. of_nat (length a + 16 * length b)), pe_email = ''me@b3'', pe_agent_id = ''b'', pe_web = True,
      pe_i64 = (\<lambda>v. case v of JNum n \<Rightarrow> Some (uint n) | _ \<Rightarrow> None)\<rparr>"

definition toy_puller :: puller where
  "toy_puller = \<lparr>pu_dedup = [], pu_files = toy_files\<lparr>meta_files := [''r'' \<mapsto> [3]]\<rparr>\<rparr>"

definition toy_message :: "u64 \<Rightarrow> string \<Rightarrow> json_tree" where
  "toy_message i msg = JObj [(''id'', JNum i), (''from_agent'', JStr ''bob''), (''content'', JStr msg)]"

lemmas toy_pull_defs = toy_pull_def toy_puller_def toy_message_def toy_env_def tree_str_def tree_get_def


section \<open>What is delivered\<close>

lemma check_and_mark_marks: "pu = fst (check_and_mark hash sender msg d) \<Longrightarrow> fingerprint hash sender msg \<in> set pu"
  by (cases d) (auto simp: check_and_mark_def Let_def)

lemma check_and_mark_seen: "fingerprint hash sender msg \<in> set d \<Longrightarrow> check_and_mark hash sender msg d = (d, True)"
  by (simp add: check_and_mark_def Let_def)

text \<open>The text of a direct message does not depend on the files: a pinned key is not consulted.\<close>

lemma fetch_text: "snd (fetch_and_pin_public_key H agent f) = snd (fetch_and_pin_public_key H agent g)"
  by (simp add: fetch_and_pin_public_key_def Let_def split: http_answer.split option.split)

lemma open_dm_text: "map_option snd (open_dm E sender msg f) = map_option snd (open_dm E sender msg g)"
proof -
  let ?F = "fetch_and_pin_public_key (pe_hive E) sender"
  obtain a b r where fa: "?F f = (a, r)" and gb: "?F g = (b, r)"
    using fetch_text [of "pe_hive E" sender f g] by (cases "?F f"; cases "?F g") auto
  show ?thesis
    by (cases r) (simp_all add: open_dm_def decrypt_dm_if_encrypted_def fa gb split: option.split sum.split prod.split)
qed

lemma hive_text_text: "map_option snd (hive_text E sender msg f) = map_option snd (hive_text E sender msg g)"
  by (auto simp: hive_text_def Let_def open_dm_text [of E sender msg f g] split: option.split)

lemma on_hive_any_state:
  assumes "on_hive E i sender msg s = Some (s1, out)"
  shows "\<exists>plain. out = to_web E [To_Channel (Channel_Dm sender plain i), To_Browsers (Hive sender plain)] \<and>
    fingerprint (pe_hash E) sender msg \<in> set (pu_dedup s1) \<and>
    (\<forall>s' j. \<exists>s2. on_hive E j sender msg s' =
       Some (s2, to_web E [To_Channel (Channel_Dm sender plain j), To_Browsers (Hive sender plain)]))"
proof -
  obtain f plain where d: "hive_text E sender msg (pu_files s) = Some (f, plain)"
    using assms by (auto simp: on_hive_def split: option.splits)
  have again: "\<exists>f'. hive_text E sender msg g = Some (f', plain)" for g
    using hive_text_text [of E sender msg g "pu_files s"] d by auto
  have "\<exists>s2. on_hive E j sender msg s' = Some (s2, to_web E
      [To_Channel (Channel_Dm sender (escape_newlines plain) j), To_Browsers (Hive sender (escape_newlines plain))])" for s' j
    using again [of "pu_files s'"] by (auto simp: on_hive_def Let_def)
  moreover have "fingerprint (pe_hash E) sender msg \<in> set (pu_dedup s1)"
    using assms d check_and_mark_marks [OF refl] by (auto simp: on_hive_def Let_def)
  ultimately show ?thesis using assms d by (auto simp: on_hive_def Let_def)
qed

definition poll_id :: "pull_env \<Rightarrow> json_tree \<Rightarrow> int" where
  "poll_id E m = (case Option.bind (tree_get m ''id'') (pe_i64 E) of Some n \<Rightarrow> n | None \<Rightarrow> 0)"

text \<open>
  A direct message that arrived as a server event is not delivered again by the poll that follows; but the
  handler of events never asks whether a message was seen: in whatever state the same event arrives again, from
  another server or after the poll has delivered it, it is delivered once more, to the agent and the browsers.
\<close>

theorem hive_repeats:
  assumes "on_hive E i sender msg s = Some (s1, out)"
    and "tree_str m ''from_agent'' = Some sender" and "tree_str m ''content'' = Some msg"
  shows "\<exists>plain. out = to_web E [To_Channel (Channel_Dm sender plain i), To_Browsers (Hive sender plain)] \<and>
    (\<exists>seen'. poll_message E k m (s1, seen) = Some ((s1, seen'), [])) \<and>
    (\<exists>s2. on_hive E j sender msg s' = Some (s2, to_web E [To_Channel (Channel_Dm sender plain j), To_Browsers (Hive sender plain)]))"
proof -
  obtain plain where p: "out = to_web E [To_Channel (Channel_Dm sender plain i), To_Browsers (Hive sender plain)]"
    "fingerprint (pe_hash E) sender msg \<in> set (pu_dedup s1)"
    "\<exists>s2. on_hive E j sender msg s' = Some (s2, to_web E [To_Channel (Channel_Dm sender plain j), To_Browsers (Hive sender plain)])"
    using on_hive_any_state [OF assms(1)] by blast
  have "\<exists>seen'. poll_message E k m (s1, seen) = Some ((s1, seen'), [])"
    by (simp add: poll_message_def Let_def assms(2,3) check_and_mark_seen [OF p(2)])
  with p show ?thesis by blast
qed

theorem hive_repeats_witness:
  "\<exists>s1 s2 last'. on_hive toy_pull ''i'' ''bob'' ''hi'' toy_puller =
       Some (s1, [To_Channel (Channel_Dm ''bob'' ''hi'' ''i''), To_Browsers (Hive ''bob'' ''hi'')]) \<and>
     poll_message toy_pull ''k'' (toy_message 5 ''hi'') (s1, 0) = Some ((s1, last'), []) \<and>
     on_hive toy_pull ''j'' ''bob'' ''hi'' s1 = Some (s2, [To_Channel (Channel_Dm ''bob'' ''hi'' ''j''), To_Browsers (Hive ''bob'' ''hi'')])"
proof -
  obtain s1 where h: "on_hive toy_pull ''i'' ''bob'' ''hi'' toy_puller =
      Some (s1, [To_Channel (Channel_Dm ''bob'' ''hi'' ''i''), To_Browsers (Hive ''bob'' ''hi'')])"
    by (simp add: on_hive_def hive_text_def open_dm_def decrypt_dm_if_encrypted_def to_web_def escape_newlines_def ascii_def
        Let_def toy_pull_defs)
  have m: "tree_str (toy_message 5 ''hi'') ''from_agent'' = Some ''bob''" "tree_str (toy_message 5 ''hi'') ''content'' = Some ''hi''"
    by (simp_all add: toy_pull_defs)
  have "pe_web toy_pull" by (simp add: toy_pull_def)
  with hive_repeats [OF h m, where k = "''k''" and seen = 0 and j = "''j''" and s' = s1] h show ?thesis by (auto simp: to_web_def)
qed


section \<open>Polling in order\<close>

lemma poll_old: "poll_id E m \<le> seen \<Longrightarrow> poll_message E k m (s, seen) = Some ((s, seen), [])"
  by (simp add: poll_message_def poll_id_def Let_def)

lemma poll_batch_old: "list_all (\<lambda>m. poll_id E m \<le> seen) ms \<Longrightarrow> poll_batch E ids ms (s, seen) = Some ((s, seen), [])"
  by (induction ms arbitrary: ids) (simp_all add: poll_old)

text \<open>A message this agent can read as it stands, and has not seen.\<close>

definition plain_for :: "pull_env \<Rightarrow> u64 list \<Rightarrow> json_tree \<Rightarrow> string \<Rightarrow> string \<Rightarrow> bool" where
  "plain_for E d m sender msg \<longleftrightarrow>
     tree_str m ''from_agent'' = Some sender \<and> tree_str m ''content'' = Some msg \<and> msg \<noteq> [] \<and>
     (tree_str m ''to_agent'' = None \<or> tree_str m ''to_agent'' = Some (my_name E)) \<and>
     he_envelope (pe_hive E) (ascii msg) = None \<and> fingerprint (pe_hash E) sender msg \<notin> set d"

lemma poll_fresh:
  assumes "plain_for E (pu_dedup s) m sender msg" and "seen < poll_id E m" and "length (pu_dedup s) < 200"
  shows "poll_message E k m (s, seen) =
    Some ((s\<lparr>pu_dedup := pu_dedup s @ [fingerprint (pe_hash E) sender msg]\<rparr>, poll_id E m),
          to_web E [To_Channel (Channel_Dm sender (escape_newlines msg) k)])"
  using assms unfolding poll_id_def
  by (auto simp: poll_message_def plain_for_def check_and_mark_def open_dm_def decrypt_dm_if_encrypted_def Let_def max_def)

fun plain_batch :: "pull_env \<Rightarrow> u64 list \<Rightarrow> int \<Rightarrow> json_tree list \<Rightarrow> (string \<times> string) list \<Rightarrow> bool" where
  "plain_batch E d seen [] [] \<longleftrightarrow> True"
| "plain_batch E d seen (m # ms) ((sender, msg) # ps) \<longleftrightarrow>
     plain_for E d m sender msg \<and> seen < poll_id E m \<and>
     plain_batch E (d @ [fingerprint (pe_hash E) sender msg]) (poll_id E m) ms ps"
| "plain_batch E d seen _ _ \<longleftrightarrow> False"

definition delivered :: "(nat \<Rightarrow> string) \<Rightarrow> (string \<times> string) list \<Rightarrow> pull_output list" where
  "delivered ids ps = map (\<lambda>(i, sender, msg). To_Channel (Channel_Dm sender (escape_newlines msg) (ids i))) (enumerate 0 ps)"

lemma delivered_Cons: "delivered ids ((a, b) # ps) = To_Channel (Channel_Dm a (escape_newlines b) (ids 0)) # delivered (ids \<circ> Suc) ps"
proof -
  have "enumerate (Suc 0) ps = map (\<lambda>(i, x). (Suc i, x)) (enumerate 0 ps)"
    by (simp add: enumerate_map_upt [symmetric] list_eq_iff_nth_eq nth_enumerate_eq)
  then show ?thesis by (simp add: delivered_def comp_def split_def)
qed

lemma poll_batch_plain:
  "plain_batch E (pu_dedup s) seen ms ps \<Longrightarrow> pe_web E \<Longrightarrow> length (pu_dedup s) + length ms \<le> 200 \<Longrightarrow>
     \<exists>s1. poll_batch E ids ms (s, seen) = Some ((s1, if ms = [] then seen else poll_id E (List.last ms)), delivered ids ps)"
proof (induction E "pu_dedup s" seen ms ps arbitrary: ids s rule: plain_batch.induct)
  case (2 E seen m ms sender msg ps)
  let ?s = "s\<lparr>pu_dedup := pu_dedup s @ [fingerprint (pe_hash E) sender msg]\<rparr>"
  have "poll_message E (ids 0) m (s, seen) = Some ((?s, poll_id E m), [To_Channel (Channel_Dm sender (escape_newlines msg) (ids 0))])"
    using poll_fresh [of E s m sender msg seen] "2.prems" by (simp add: to_web_def)
  moreover obtain s1 where "poll_batch E (ids \<circ> Suc) ms (?s, poll_id E m) =
      Some ((s1, if ms = [] then poll_id E m else poll_id E (List.last ms)), delivered (ids \<circ> Suc) ps)"
    using "2.hyps" [of ?s "ids \<circ> Suc"] "2.prems" by auto
  ultimately show ?case by (auto simp: delivered_Cons)
qed (simp_all add: delivered_def)

text \<open>
  A poll delivers a batch of unseen plaintext messages with increasing ids completely and in order, and
  remembers the last id; everything in later batches with an id up to that one is dropped for good, so of
  a batch that lists the newest message first only that one is delivered.
\<close>

theorem poll_delivers_in_order:
  assumes "plain_batch E (pu_dedup s) seen ms ps" and "pe_web E" and "ms \<noteq> []" and "length (pu_dedup s) + length ms \<le> 200"
    and "list_all (\<lambda>m. poll_id E m \<le> poll_id E (List.last ms)) older"
  shows "\<exists>s1. poll_batch E ids ms (s, seen) = Some ((s1, poll_id E (List.last ms)), delivered ids ps) \<and>
    poll_batch E ids2 older (s1, poll_id E (List.last ms)) = Some ((s1, poll_id E (List.last ms)), [])"
  using poll_batch_plain [OF assms(1,2,4), of ids] assms(3) poll_batch_old [OF assms(5)] by auto

theorem poll_delivers_in_order_witness:
  "\<exists>s1. poll_batch toy_pull (\<lambda>_. ''k'') [toy_message 5 ''hi'', toy_message 6 ''yes''] (toy_puller, 4) =
       Some ((s1, 6), [To_Channel (Channel_Dm ''bob'' ''hi'' ''k''), To_Channel (Channel_Dm ''bob'' ''yes'' ''k'')]) \<and>
     poll_batch toy_pull (\<lambda>_. ''k'') [toy_message 3 ''old''] (s1, 6) = Some ((s1, 6), [])"
proof -
  have f: "fingerprint (pe_hash toy_pull) ''bob'' ''hi'' = 35" "fingerprint (pe_hash toy_pull) ''bob'' ''yes'' = 51"
    by (code_simp, code_simp)
  have w: "pe_web toy_pull" "pu_dedup toy_puller = []" by (simp_all add: toy_pull_def toy_puller_def)
  have i: "poll_id toy_pull (toy_message n msg) = uint n" for n msg by (simp add: poll_id_def toy_pull_defs)
  have "plain_batch toy_pull (pu_dedup toy_puller) 4 [toy_message 5 ''hi'', toy_message 6 ''yes''] [(''bob'', ''hi''), (''bob'', ''yes'')]"
    by (simp add: plain_for_def f i) (simp add: toy_pull_defs)
  from poll_delivers_in_order [OF this, of "[toy_message 3 ''old'']" "\<lambda>_. ''k''" "\<lambda>_. ''k''"] show ?thesis
    by (simp add: i w delivered_def escape_newlines_def del: poll_batch.simps)
qed


section \<open>Room keys and their creators\<close>

fun handle_events ::
  "pull_env \<Rightarrow> (bool \<times> string \<times> string \<times> bytes) list \<Rightarrow> puller \<Rightarrow> (puller \<times> pull_output list) option" where
  "handle_events E [] s = Some (s, [])"
| "handle_events E ((resizer, msg_id, ty, data) # es) s =
     (case handle_event E resizer msg_id ty data s of
        None \<Rightarrow> None
      | Some (s1, out) \<Rightarrow> map_option (\<lambda>(s2, out2). (s2, out @ out2)) (handle_events E es s1))"

definition room_files :: "string \<Rightarrow> hive_files \<Rightarrow> bytes option \<times> bytes option" where
  "room_files room f = (key_files f room, meta_files f room)"

lemma fetch_room_files: "fetch_and_pin_public_key H agent f = (f1, r) \<Longrightarrow> room_files room f1 = room_files room f"
  by (auto simp: fetch_and_pin_public_key_def room_files_def Let_def split: http_answer.splits option.splits if_splits)

lemma open_dm_room_files: "open_dm E sender msg f = Some (f1, plain) \<Longrightarrow> room_files room f1 = room_files room f"
  by (auto simp: open_dm_def decrypt_dm_if_encrypted_def dest: fetch_room_files
      split: option.splits if_splits sum.splits prod.splits)

lemma hive_text_room_files: "hive_text E sender msg f = Some (f1, plain) \<Longrightarrow> room_files room f1 = room_files room f"
  by (auto simp: hive_text_def Let_def dest: open_dm_room_files split: option.splits if_splits)

lemma store_room_files:
  "store_room_key H room' key creator x f = (f1, r) \<Longrightarrow> room \<noteq> room' \<Longrightarrow> room_files room f1 = room_files room f"
  by (auto simp: store_room_key_def store_room_key_with_members_def room_files_def Let_def split: if_splits)

lemma receive_room_files:
  "receive_room_key H room' creator entry x f = Some (f1, r) \<Longrightarrow> room \<noteq> room' \<Longrightarrow> room_files room f1 = room_files room f"
  by (auto simp: receive_room_key_def dest!: fetch_room_files [of H creator f _ _ room] dest: store_room_files
      split: option.splits sum.splits prod.splits)

lemma members_room_files:
  "store_room_members H room' ms f = Some f1 \<Longrightarrow> room \<noteq> room' \<Longrightarrow> room_files room f1 = room_files room f"
  by (auto simp: store_room_members_def room_files_def split: option.splits if_splits)

lemma distribution_room_files:
  assumes "on_key_distribution E sender room' v f = Some f1"
    and "room = room' \<Longrightarrow> load_room_meta (pe_hive E) room f = Some c \<and> c \<noteq> sender"
  shows "room_files room f1 = room_files room f"
proof (cases "room = room'")
  case True
  then show ?thesis using assms by (auto simp: on_key_distribution_def)
next
  case False
  then show ?thesis using assms(1) receive_room_files members_room_files
    by (fastforce simp: on_key_distribution_def split: if_splits option.splits sum.splits prod.splits json_tree.splits)
qed

text \<open>The message type of a room message, and the events that may change the key of a room with creator \<open>c\<close>.\<close>

definition msg_type :: "pull_env \<Rightarrow> string \<Rightarrow> string option" where
  "msg_type E msg = Option.bind (he_parse (pe_hive E) (ascii msg)) (\<lambda>v. tree_str v ''msg_type'')"

definition may_change :: "pull_env \<Rightarrow> string \<Rightarrow> string \<Rightarrow> bool \<times> string \<times> string \<times> bytes \<Rightarrow> bool" where
  "may_change E c room = (\<lambda>(resizer, msg_id, ty, data).
     ty = ''hive_room'' \<and>
     (case pe_event E data of
        Some (Hive_Room sender room' topic msg) \<Rightarrow>
          room' = room \<and> (msg_type E msg = Some ''key_destroy'' \<or> msg_type E msg = Some ''key_distribution'' \<and> sender = c)
      | _ \<Rightarrow> False))"

lemma hive_room_room_files:
  assumes "on_hive_room E i sender room' topic msg s = Some (s1, out)"
    and "load_room_meta (pe_hive E) room (pu_files s) = Some c"
    and "room' = room \<Longrightarrow> msg_type E msg \<noteq> Some ''key_destroy'' \<and> (msg_type E msg = Some ''key_distribution'' \<longrightarrow> sender \<noteq> c)"
  shows "room_files room (pu_files s1) = room_files room (pu_files s)"
proof -
  note h = assms(1) [unfolded on_hive_room_def Let_def, folded msg_type_def]
  consider (dist) f where "msg_type E msg = Some ''key_distribution''"
      "on_key_distribution E sender room' (the (he_parse (pe_hive E) (ascii msg))) (pu_files s) = Some f" "pu_files s1 = f"
    | (destroy) "msg_type E msg = Some ''key_destroy''" "pu_files s1 = delete_room_key room' (pu_files s)"
    | (other) "pu_files s1 = pu_files s"
    using h by (auto split: if_splits)
  then show ?thesis
  proof cases
    case dist
    then show ?thesis using distribution_room_files [OF dist(2), of room c] assms(2,3) by auto
  next
    case destroy
    then show ?thesis using assms(3) by (auto simp: delete_room_key_def room_files_def)
  qed simp
qed

lemma load_room_meta_files: "room_files room f = room_files room g \<Longrightarrow> load_room_meta H room f = load_room_meta H room g"
  by (simp add: room_files_def load_room_meta_def load_room_meta_full_def)

lemma handle_event_room_files:
  assumes "handle_event E resizer i ty data s = Some (s1, out)"
    and "load_room_meta (pe_hive E) room (pu_files s) = Some c" and "\<not> may_change E c room (resizer, i, ty, data)"
  shows "room_files room (pu_files s1) = room_files room (pu_files s)"
proof -
  consider (hive) sender msg where "on_hive E i sender msg s = Some (s1, out)"
    | (room) sender room' topic msg where "ty = ''hive_room''" "pe_event E data = Some (Hive_Room sender room' topic msg)"
        "on_hive_room E i sender room' topic msg s = Some (s1, out)"
    | (other) "s1 = s"
    using assms(1) by (auto simp: handle_event_def split: option.splits if_splits agent_event.splits)
  then show ?thesis
  proof cases
    case hive
    then show ?thesis by (auto simp: on_hive_def Let_def dest: hive_text_room_files split: option.splits)
  next
    case room
    then show ?thesis using assms(3) by (intro hive_room_room_files [OF room(3) assms(2)]) (auto simp: may_change_def)
  qed simp
qed

text \<open>
  \<^bold>\<open>C25\<close>. Once a room's creator is stored, no sequence of events changes the room's key or its stored data, whatever
  it contains, except a key distribution by the creator itself or a \<open>key_destroy\<close> for the room.
\<close>

theorem room_key_protected:
  assumes "handle_events E evs s = Some (s1, outs)" and "load_room_meta (pe_hive E) room (pu_files s) = Some c"
    and "list_all (\<lambda>e. \<not> may_change E c room e) evs"
  shows "room_files room (pu_files s1) = room_files room (pu_files s) \<and> load_room_meta (pe_hive E) room (pu_files s1) = Some c"
  using assms
proof (induction evs arbitrary: s outs)
  case (Cons e evs)
  obtain resizer i ty data where e: "e = (resizer, i, ty, data)" by (cases e)
  obtain s2 o2 o3 where h: "handle_event E resizer i ty data s = Some (s2, o2)" and r: "handle_events E evs s2 = Some (s1, o3)"
    using Cons.prems(1) e by (auto split: option.splits)
  have f: "room_files room (pu_files s2) = room_files room (pu_files s)"
    using handle_event_room_files [OF h Cons.prems(2)] Cons.prems(3) e by simp
  then have "load_room_meta (pe_hive E) room (pu_files s2) = Some c"
    using Cons.prems(2) load_room_meta_files [OF f] by simp
  with Cons.IH [OF r this] Cons.prems(3) f show ?case by simp
qed simp

theorem room_key_protected_witness:
  "\<exists>s1 outs. handle_events toy_pull [(False, ''i'', ''hive_room'', [1]), (False, ''i'', ''hive'', [2])] toy_puller = Some (s1, outs) \<and>
     room_files ''r'' (pu_files s1) = (None, Some [3]) \<and> load_room_meta (pe_hive toy_pull) ''r'' (pu_files s1) = Some ''alice''"
proof -
  let ?es = "[(False, ''i'', ''hive_room'', [1]), (False, ''i'', ''hive'', [2])]"
  have u: "utf8_valid [3]" by (rule utf8_valid_ascii) simp
  have c: "load_room_meta (pe_hive toy_pull) ''r'' (pu_files toy_puller) = Some ''alice''"
    by (simp add: load_room_meta_def load_room_meta_full_def read_json_def) (simp add: toy_pull_defs u)
  have t: "msg_type toy_pull ''d'' = Some ''key_distribution''" by (simp add: msg_type_def ascii_def toy_pull_defs)
  have e: "pe_event toy_pull [1] = Some (Hive_Room ''eve'' ''r'' ''t'' ''d'')" "pe_event toy_pull [2] = Some (Hive ''bob'' ''hi'')"
    by (simp_all add: toy_pull_def)
  have n: "list_all (\<lambda>e. \<not> may_change toy_pull ''alice'' ''r'' e) ?es"
    by (simp add: may_change_def e t)
  obtain s1 outs where r: "handle_events toy_pull ?es toy_puller = Some (s1, outs)"
    using c by (simp add: handle_event_def on_hive_room_def on_key_distribution_def on_hive_def hive_text_def open_dm_def
        decrypt_dm_if_encrypted_def Let_def toy_pull_def toy_puller_def ascii_def tree_str_def tree_get_def)
  from room_key_protected [OF r c n] r show ?thesis by (auto simp: room_files_def toy_puller_def toy_files_def)
qed

text \<open>
  A \<open>key_destroy\<close> is obeyed whoever sends it and whoever created the room: the key and the stored creator
  are gone, the destruction is acknowledged to the server, and the next key distribution, by whomever, is
  accepted as if the room were new.
\<close>

theorem key_destroy_by_anyone:
  assumes "msg_type E msg = Some ''key_destroy''"
  shows "\<exists>s1 out. on_hive_room E i sender room topic msg s = Some (s1, Ack_Destroy room # out) \<and>
    load_room_key (pe_hive E) room (pu_files s1) = None \<and> load_room_meta (pe_hive E) room (pu_files s1) = None \<and>
    (tree_get v ''keys'' = Some (JObj keys) \<and> own_entry E keys = Some entry \<and>
     receive_room_key (pe_hive E) room other entry (tree_str v ''expires_at'') (pu_files s1) = Some (f, Inr ()) \<longrightarrow>
     on_key_distribution E other room v (pu_files s1) = store_room_members (pe_hive E) room (map fst keys) f)"
  using assms
  by (auto simp: on_hive_room_def Let_def msg_type_def load_room_key_def delete_room_key_def cached_key_def
      load_room_meta_def load_room_meta_full_def read_json_def on_key_distribution_def)

theorem key_destroy_by_anyone_witness:
  "\<exists>s1 out. on_hive_room toy_pull ''i'' ''eve'' ''r'' ''t'' ''k'' toy_puller = Some (s1, Ack_Destroy ''r'' # out) \<and>
     load_room_meta (pe_hive toy_pull) ''r'' (pu_files s1) = None"
proof -
  have "msg_type toy_pull ''k'' = Some ''key_destroy''" by (simp add: msg_type_def ascii_def toy_pull_defs)
  from key_destroy_by_anyone [OF this] show ?thesis by blast
qed

end
