(* ===== verification/Tunnel.thy ===== *)
theory Tunnel
  imports Ec2_Session Puller
begin

text \<open>
  \<open>src/crates/b3-tunnel/src/lib.rs\<close>: the control connection of a worker or daemon behind NAT, over which the
  server asks for sessions; and the loops of \<open>b3-cli/src/daemon/ec2_proxy.rs\<close> that keep one such connection to every
  server. Times are milliseconds of one clock; what happens to a connection or a send is an argument. A spawned
  task is an output.
\<close>

section \<open>The control loop\<close>

text \<open>
  What the loop selects, with the time, and whether a send to the socket would succeed. The end of the stream
  counts as a close.
\<close>

datatype control_frame =
    Control_Text bytes
  | Control_Ping bytes
  | Control_Pong
  | Control_Close
  | Control_Error string
  | Control_Other
  | Extra_Response bytes
  | Ping_Tick

type_synonym control_event = "nat \<times> bool \<times> control_frame"

datatype control_output =
    Send_Pong bytes
  | Send_Ping
  | Send_Text bytes
  | Dial_Session string string "(string \<times> string) list"
  | Run_Extra bytes

datatype tunnel_end = Tunnel_Closed | Tunnel_Error string | Pong_Timeout | Send_Failed

record tunnel_env =
  te_base :: string
  te_pong_timeout :: nat
  te_token :: "string option"
  te_extra :: bool

text \<open>\<open>dial_ec2_session\<close>: the address and the headers of the request.\<close>

definition dial_session :: "tunnel_env \<Rightarrow> string \<Rightarrow> control_output" where
  "dial_session T sid =
     Dial_Session sid (te_base T @ ''?session_id='' @ sid)
       (case te_token T of Some token \<Rightarrow> [(''Authorization'', ''Bearer '' @ token)] | None \<Rightarrow> [])"

text \<open>The state is the time of the last sign of life; \<open>Inl\<close> is the end of the loop.\<close>

definition control_text :: "'v json_lib \<Rightarrow> tunnel_env \<Rightarrow> nat \<Rightarrow> bytes \<Rightarrow> nat \<Rightarrow> nat \<times> control_output list" where
  "control_text J T now t last_pong =
     (case json_parse J t of
        None \<Rightarrow> (last_pong, [])
      | Some v \<Rightarrow>
          (if get_str J v ''type'' = Some ''session_request'' then
             (case get_str J v ''session_id'' of
                Some sid \<Rightarrow> (last_pong, [dial_session T sid])
              | None \<Rightarrow> (last_pong, []))
           else if get_str J v ''type'' = Some ''ping'' then (now, [Send_Pong []])
           else if te_extra T then (last_pong, [Run_Extra t])
           else (last_pong, [])))"

fun control_step ::
  "'v json_lib \<Rightarrow> tunnel_env \<Rightarrow> control_event \<Rightarrow> nat \<Rightarrow> (tunnel_end + nat) \<times> control_output list" where
  "control_step J T (now, ok, Control_Text t) last_pong =
     (case control_text J T now t last_pong of (lp, out) \<Rightarrow> (Inr lp, out))"
| "control_step J T (now, ok, Control_Ping data) last_pong = (Inr now, [Send_Pong data])"
| "control_step J T (now, ok, Control_Pong) last_pong = (Inr now, [])"
| "control_step J T (now, ok, Control_Close) last_pong = (Inl Tunnel_Closed, [])"
| "control_step J T (now, ok, Control_Error e) last_pong = (Inl (Tunnel_Error e), [])"
| "control_step J T (now, ok, Control_Other) last_pong = (Inr last_pong, [])"
| "control_step J T (now, ok, Extra_Response resp) last_pong = (if ok then Inr last_pong else Inl Send_Failed, [Send_Text resp])"
| "control_step J T (now, ok, Ping_Tick) last_pong =
     (if now - last_pong > te_pong_timeout T then (Inl Pong_Timeout, [])
      else (if ok then Inr last_pong else Inl Send_Failed, [Send_Ping]))"

fun control_run ::
  "'v json_lib \<Rightarrow> tunnel_env \<Rightarrow> control_event list \<Rightarrow> nat \<Rightarrow> (tunnel_end + nat) \<times> control_output list" where
  "control_run J T [] last_pong = (Inr last_pong, [])"
| "control_run J T (e # es) last_pong =
     (case control_step J T e last_pong of
        (Inl r, out) \<Rightarrow> (Inl r, out)
      | (Inr lp, out) \<Rightarrow> (case control_run J T es lp of (r, out2) \<Rightarrow> (r, out @ out2)))"

text \<open>\<open>splice_ws\<close>, one direction: messages are copied up to a close, an error or a failing send.\<close>

fun splice_one :: "ws_frame list \<Rightarrow> (nat \<Rightarrow> bool) \<Rightarrow> ws_frame list" where
  "splice_one [] ok = []"
| "splice_one (f # fs) ok =
     (if f = Frame_Close \<or> f = Frame_Error then []
      else f # (if ok 0 then splice_one fs (ok \<circ> Suc) else []))"


section \<open>Registration\<close>

definition url_to_domain :: "string \<Rightarrow> bytes" where
  "url_to_domain url =
     takeWhile (\<lambda>b. b \<noteq> 47)
       (trim_start ''ws://'' (trim_start ''wss://'' (trim_start ''http://'' (trim_start ''https://'' (ascii url)))))"

definition load_keypair :: "crypto_lib \<Rightarrow> bytes option \<Rightarrow> bytes option" where
  "load_keypair K file =
     (case file of
        None \<Rightarrow> None
      | Some raw \<Rightarrow>
          (if utf8_valid raw
           then (case b64_dec K (of_bytes (str_trim raw)) of
                   None \<Rightarrow> None | Some bs \<Rightarrow> (if length bs \<noteq> 32 then None else Some bs))
           else None))"

text \<open>The file afterwards, and the secret, if it could be written.\<close>

definition load_or_generate_keypair ::
  "crypto_lib \<Rightarrow> bool \<Rightarrow> bytes \<Rightarrow> bytes option \<Rightarrow> bytes option \<times> (unit + bytes)" where
  "load_or_generate_keypair K write_ok random file =
     (case load_keypair K file of
        Some secret \<Rightarrow> (file, Inr secret)
      | None \<Rightarrow> (if write_ok then (Some (ascii (b64_enc K random)), Inr random) else (file, Inl ())))"

definition register_frame :: "crypto_lib \<Rightarrow> bytes \<Rightarrow> u16 \<Rightarrow> u16 option \<Rightarrow> bool \<Rightarrow> json_tree" where
  "register_frame K secret lan_port app_port app_public =
     typed ''register''
       [(''pubkey'', JStr (b64_enc K (pub_of K secret))), (''lan_port'', JNum (ucast lan_port)), (''multi_server'', JBool True),
        (''app_enabled'', JBool (app_port \<noteq> None)), (''app_public'', JBool app_public)]"

text \<open>
  One turn of a registration loop: how far the attempt gets. An API key that cannot stand in a header panics, which
  ends the task. The backoff is in seconds.
\<close>

datatype attempt = Bad_Request | Bad_Key | Not_Connected | Not_Registered | Control_Ended

record registration =
  rg_backoff :: nat
  rg_peers :: "(nat \<times> bytes) list"
  rg_next :: nat

definition registration_new :: registration where
  "registration_new = \<lparr>rg_backoff = 1, rg_peers = [], rg_next = 0\<rparr>"

datatype registration_output =
    Sleep_Secs nat
  | Send_Register
  | Abort_Peer nat
  | Spawn_Peer nat bytes
  | Run_Control

text \<open>\<open>rg_next\<close> numbers the tasks. The loop of the primary server stops the loops of the peers and starts them afresh.\<close>

definition primary_turn ::
  "string list \<Rightarrow> attempt \<Rightarrow> registration \<Rightarrow> registration option \<times> registration_output list" where
  "primary_turn urls a g =
     (case a of
        Bad_Request \<Rightarrow> (Some (g\<lparr>rg_backoff := min (rg_backoff g * 2) 30\<rparr>), [Sleep_Secs (rg_backoff g)])
      | Bad_Key \<Rightarrow> (None, [])
      | Not_Connected \<Rightarrow> (Some (g\<lparr>rg_backoff := min (rg_backoff g * 2) 30\<rparr>), [Sleep_Secs (rg_backoff g)])
      | Not_Registered \<Rightarrow> (Some (g\<lparr>rg_backoff := 1\<rparr>), [Send_Register])
      | Control_Ended \<Rightarrow>
          (let peers = enumerate (rg_next g) (map url_to_domain (tl urls))
           in (Some (g\<lparr>rg_backoff := 1, rg_peers := peers, rg_next := rg_next g + length peers\<rparr>),
               [Send_Register] @ map (Abort_Peer \<circ> fst) (rg_peers g) @ map (\<lambda>(h, d). Spawn_Peer h d) peers @
               [Run_Control])))"

fun primary_run ::
  "string list \<Rightarrow> attempt list \<Rightarrow> registration \<Rightarrow> registration option \<times> registration_output list" where
  "primary_run urls [] g = (Some g, [])"
| "primary_run urls (a # as) g =
     (case primary_turn urls a g of
        (None, out) \<Rightarrow> (None, out)
      | (Some g1, out) \<Rightarrow> (case primary_run urls as g1 of (r, out2) \<Rightarrow> (r, out @ out2)))"

text \<open>A peer's loop looks first whether the sender of the shutdown channel is gone.\<close>

definition peer_turn :: "bool \<Rightarrow> attempt \<Rightarrow> nat \<Rightarrow> nat option \<times> registration_output list" where
  "peer_turn stopped a backoff =
     (if stopped then (None, [])
      else case a of
             Bad_Request \<Rightarrow> (Some (min (backoff * 2) 30), [Sleep_Secs backoff])
           | Bad_Key \<Rightarrow> (None, [])
           | Not_Connected \<Rightarrow> (Some (min (backoff * 2) 30), [Sleep_Secs backoff])
           | Not_Registered \<Rightarrow> (Some 1, [Send_Register])
           | Control_Ended \<Rightarrow> (Some 1, [Send_Register, Run_Control]))"


section \<open>The connection stays up exactly as long as the server shows signs of life\<close>

definition life_sign :: "'v json_lib \<Rightarrow> control_event \<Rightarrow> bool" where
  "life_sign J e =
     (case snd (snd e) of
        Control_Ping data \<Rightarrow> True
      | Control_Pong \<Rightarrow> True
      | Control_Text t \<Rightarrow> (case json_parse J t of None \<Rightarrow> False | Some v \<Rightarrow> get_str J v ''type'' = Some ''ping'')
      | _ \<Rightarrow> False)"

definition last_life :: "'v json_lib \<Rightarrow> control_event list \<Rightarrow> nat \<Rightarrow> nat" where
  "last_life J es t0 = foldl (\<lambda>t e. if life_sign J e then fst e else t) t0 es"

definition silent_tick :: "'v json_lib \<Rightarrow> tunnel_env \<Rightarrow> control_event list \<Rightarrow> nat \<Rightarrow> nat \<Rightarrow> bool" where
  "silent_tick J T es t0 i =
     (i < length es \<and> snd (snd (es ! i)) = Ping_Tick \<and> te_pong_timeout T < fst (es ! i) - last_life J (take i es) t0)"

definition session_wanted :: "'v json_lib \<Rightarrow> control_event \<Rightarrow> string option" where
  "session_wanted J e =
     (case snd (snd e) of
        Control_Text t \<Rightarrow>
          (case json_parse J t of
             None \<Rightarrow> None
           | Some v \<Rightarrow> (if get_str J v ''type'' = Some ''session_request'' then get_str J v ''session_id'' else None))
      | _ \<Rightarrow> None)"

fun is_dial :: "control_output \<Rightarrow> bool" where
  "is_dial (Dial_Session sid url headers) = True"
| "is_dial _ = False"

text \<open>Which event must end the loop, and how: the close of the stream, an error, a send that fails, a silent tick.\<close>

definition ending :: "'v json_lib \<Rightarrow> tunnel_env \<Rightarrow> control_event list \<Rightarrow> nat \<Rightarrow> nat \<Rightarrow> tunnel_end option" where
  "ending J T es t0 i =
     (let sent = fst (snd (es ! i))
      in case snd (snd (es ! i)) of
           Control_Close \<Rightarrow> Some Tunnel_Closed
         | Control_Error x \<Rightarrow> Some (Tunnel_Error x)
         | Extra_Response resp \<Rightarrow> (if sent then None else Some Send_Failed)
         | Ping_Tick \<Rightarrow> (if silent_tick J T es t0 i then Some Pong_Timeout else if sent then None else Some Send_Failed)
         | _ \<Rightarrow> None)"

lemma is_dial_session [simp]: "is_dial (dial_session T sid)"
  by (simp add: dial_session_def)

lemma last_life_simps [simp]:
  "last_life J [] t0 = t0"
  "last_life J (e # es) t0 = last_life J es (if life_sign J e then fst e else t0)"
  by (simp_all add: last_life_def)

lemma silent_tick_simps [simp]:
  "silent_tick J T (e # es) t0 0 \<longleftrightarrow> snd (snd e) = Ping_Tick \<and> te_pong_timeout T < fst e - t0"
  "silent_tick J T (e # es) t0 (Suc i) = silent_tick J T es (if life_sign J e then fst e else t0) i"
  by (auto simp: silent_tick_def)

lemma ending_simps [simp]:
  "ending J T (e # es) t0 (Suc i) = ending J T es (if life_sign J e then fst e else t0) i"
  unfolding ending_def silent_tick_simps(2) nth_Cons_Suc by (rule refl)

lemma control_step_cases:
  assumes "control_step J T e t0 = (r, out)"
  shows "(case r of
            Inr t \<Rightarrow> t = (if life_sign J e then fst e else t0) \<and> ending J T (e # es) t0 0 = None \<and>
              filter is_dial out = map (dial_session T) (case session_wanted J e of None \<Rightarrow> [] | Some sid \<Rightarrow> [sid])
          | Inl x \<Rightarrow> filter is_dial out = [] \<and> ending J T (e # es) t0 0 = Some x)"
proof -
  obtain now ok f where e: "e = (now, ok, f)" by (cases e)
  show ?thesis
    using assms unfolding e
    by (cases f)
      (auto simp: control_text_def life_sign_def session_wanted_def ending_def split: option.splits if_splits prod.splits)
qed

lemma map_filter_first:
  "List.map_filter f (x # xs) = (case f x of None \<Rightarrow> [] | Some y \<Rightarrow> [y]) @ List.map_filter f xs"
  by (simp add: List.map_filter_def split: option.splits)

section \<open>The loops of the peers\<close>

definition failing :: "attempt \<Rightarrow> bool" where
  "failing a \<longleftrightarrow> a = Bad_Request \<or> a = Not_Connected"

text \<open>The delay before the next attempt, after these.\<close>

definition delay_after :: "attempt list \<Rightarrow> nat" where
  "delay_after as = min (2 ^ length (takeWhile failing (rev as))) 30"

fun slept :: "registration_output \<Rightarrow> nat option" where
  "slept (Sleep_Secs s) = Some s"
| "slept _ = None"

fun peer_output :: "registration_output \<Rightarrow> (nat \<times> bytes) list \<Rightarrow> (nat \<times> bytes) list" where
  "peer_output (Spawn_Peer h d) run = run @ [(h, d)]"
| "peer_output (Abort_Peer h) run = filter (\<lambda>p. fst p \<noteq> h) run"
| "peer_output _ run = run"

text \<open>The tasks that have been started and not stopped.\<close>

definition running :: "registration_output list \<Rightarrow> (nat \<times> bytes) list" where
  "running out = fold peer_output out []"

lemma running_append [simp]: "running (out @ out2) = fold peer_output out2 (running out)"
  by (simp add: running_def)

lemma stop_all: "fold peer_output (map (Abort_Peer \<circ> fst) ps) run = filter (\<lambda>p. fst p \<notin> fst ` set ps) run"
  by (induction ps arbitrary: run) (auto intro: filter_cong)

lemma start_all: "fold peer_output (map (\<lambda>(h, d). Spawn_Peer h d) ps) run = run @ ps"
  by (induction ps arbitrary: run) auto

lemma slept_peers [simp]:
  "List.map_filter slept (map (Abort_Peer \<circ> fst) ps) = []"
  "List.map_filter slept (map (\<lambda>(h, d). Spawn_Peer h d) ps) = []"
  by (induction ps) (auto simp: List.map_filter_def)

lemma primary_run_snoc:
  "primary_run urls (as @ [a]) g =
     (case primary_run urls as g of
        (None, out) \<Rightarrow> (None, out)
      | (Some g1, out) \<Rightarrow> (case primary_turn urls a g1 of (r, out2) \<Rightarrow> (r, out @ out2)))"
  by (induction as arbitrary: g) (auto split: prod.splits option.splits)

lemma delay_after_simps [simp]:
  "delay_after [] = 1"
  "failing a \<Longrightarrow> delay_after (as @ [a]) = min (delay_after as * 2) 30"
  "\<not> failing a \<Longrightarrow> delay_after (as @ [a]) = 1"
  by (auto simp: delay_after_def min_def)

definition delays :: "attempt list \<Rightarrow> nat list" where
  "delays as = map (\<lambda>i. delay_after (take i as)) (filter (\<lambda>i. failing (as ! i)) [0..<length as])"

lemma delays_simps [simp]:
  "delays [] = []"
  "delays (as @ [a]) = delays as @ (if failing a then [delay_after as] else [])"
proof -
  have "filter (\<lambda>i. failing ((as @ [a]) ! i)) [0..<length as] = filter (\<lambda>i. failing (as ! i)) [0..<length as]"
    by (rule filter_cong) (auto simp: nth_append)
  moreover have "map (\<lambda>i. delay_after (take i (as @ [a]))) (filter P [0..<length as]) =
      map (\<lambda>i. delay_after (take i as)) (filter P [0..<length as])" for P
    by (rule map_cong) auto
  ultimately show "delays (as @ [a]) = delays as @ (if failing a then [delay_after as] else [])"
    by (simp add: delays_def)
qed (simp add: delays_def)

lemma map_filter_append [simp]: "List.map_filter f (xs @ ys) = List.map_filter f xs @ List.map_filter f ys"
  by (induction xs) (simp_all add: List.map_filter_def)

lemma primary_turn_ok:
  assumes "primary_turn urls a g = (Some g2, out)" "run = rg_peers g"
  shows "fold peer_output out run = rg_peers g2"
    and "rg_backoff g2 = (if failing a then min (rg_backoff g * 2) 30 else 1)"
    and "List.map_filter slept out = (if failing a then [rg_backoff g] else [])"
    and "rg_peers g2 = (if a = Control_Ended then enumerate (rg_next g2 - length (tl urls)) (map url_to_domain (tl urls))
           else rg_peers g)"
    and "a \<noteq> Control_Ended \<Longrightarrow> rg_next g2 = rg_next g"
  using assms
  by (cases a;
      auto simp: primary_turn_def failing_def Let_def stop_all start_all map_filter_first comp_def [symmetric] filter_empty_conv
        split: prod.splits; fail)+

lemma primary_run_ok:
  assumes "primary_run urls as registration_new = (Some g, out)"
  shows "running out = rg_peers g \<and> rg_backoff g = delay_after as \<and> List.map_filter slept out = delays as \<and>
    rg_peers g = (if Control_Ended \<in> set as
      then enumerate (rg_next g - length (tl urls)) (map url_to_domain (tl urls)) else [])"
  using assms
proof (induction as arbitrary: g out rule: rev_induct)
  case Nil
  then show ?case by (auto simp: registration_new_def running_def List.map_filter_def)
next
  case (snoc a as)
  obtain g1 out1 out2 where r: "primary_run urls as registration_new = (Some g1, out1)"
    and t: "primary_turn urls a g1 = (Some g, out2)" and out: "out = out1 @ out2"
    using snoc.prems by (auto simp: primary_run_snoc split: prod.splits option.splits)
  note ih = snoc.IH [OF r] and turn = primary_turn_ok [OF t refl]
  show ?case
    using ih turn out by (cases "a = Control_Ended") (auto simp: primary_turn_ok(1) [OF t])
qed


section \<open>Properties\<close>

definition toy_control :: "bytes \<Rightarrow> json_tree option" where
  "toy_control t =
     (if t = [1] then Some (typed ''session_request'' [(''session_id'', JStr ''s1'')])
      else if t = [2] then Some (typed ''ping'' []) else None)"

definition toy_tunnel :: tunnel_env where
  "toy_tunnel = \<lparr>te_base = ''wss://x/api'', te_pong_timeout = 15000, te_token = Some ''k'', te_extra = False\<rparr>"

lemma control_run_ends:
  assumes "control_run J T es t0 = (r, out)"
  shows "\<exists>n\<le>length es.
           filter is_dial out = map (dial_session T) (List.map_filter (session_wanted J) (take n es)) \<and>
           (\<forall>i<n. ending J T es t0 i = None) \<and>
           (case r of
              Inr t \<Rightarrow> n = length es \<and> t = last_life J es t0
            | Inl x \<Rightarrow> n < length es \<and> ending J T es t0 n = Some x)"
  using assms
proof (induction es arbitrary: t0 r out)
  case Nil
  then show ?case by (auto simp: List.map_filter_def)
next
  case (Cons e es)
  obtain r1 out1 where st: "control_step J T e t0 = (r1, out1)" by fastforce
  note c = control_step_cases [OF st, where es = es]
  show ?case
  proof (cases r1)
    case (Inl x)
    then show ?thesis using Cons.prems st c by (intro exI [of _ 0]) (auto simp: List.map_filter_def)
  next
    case (Inr t)
    obtain out2 where rest: "control_run J T es t = (r, out2)" and out: "out = out1 @ out2"
      using Cons.prems st Inr by (auto split: prod.splits)
    have t: "t = (if life_sign J e then fst e else t0)" and quiet: "ending J T (e # es) t0 0 = None"
      and d: "filter is_dial out1 = map (dial_session T) (case session_wanted J e of None \<Rightarrow> [] | Some sid \<Rightarrow> [sid])"
      using c Inr by simp_all
    obtain n where n: "n \<le> length es"
      "filter is_dial out2 = map (dial_session T) (List.map_filter (session_wanted J) (take n es))"
      "\<forall>i<n. ending J T es t i = None"
      "case r of Inr t' \<Rightarrow> n = length es \<and> t' = last_life J es t
       | Inl x \<Rightarrow> n < length es \<and> ending J T es t n = Some x"
      using Cons.IH [OF rest] by blast
    have "\<forall>i<Suc n. ending J T (e # es) t0 i = None"
    proof (intro allI impI)
      fix i assume "i < Suc n"
      then show "ending J T (e # es) t0 i = None" using quiet n(3) t by (cases i) auto
    qed
    then show ?thesis
      using n d out t by (intro exI [of _ "Suc n"]) (auto simp: map_filter_first split: sum.splits option.splits)
  qed
qed

text \<open>
  \<^bold>\<open>C27\<close>. The control loop handles the events in order and ends exactly at the first that must end it: the close
  of the stream, an error of the socket, a response or a ping that cannot be sent, or a tick more than the timeout
  after the server's last sign of life (a WebSocket ping or pong, or a ping message), and with the outcome that
  belongs to this event. It ends nowhere else. Up to there, every session the server asks for by an id is
  dialled exactly once, in the order asked for, with the token.
\<close>

theorem control_until_silence:
  assumes "control_run J T es t0 = (r, out)"
  shows "\<exists>n\<le>length es.
           filter is_dial out =
             map (\<lambda>sid. Dial_Session sid (te_base T @ ''?session_id='' @ sid)
                    (case te_token T of Some token \<Rightarrow> [(''Authorization'', ''Bearer '' @ token)] | None \<Rightarrow> []))
               (List.map_filter (session_wanted J) (take n es)) \<and>
           (\<forall>i<n. ending J T es t0 i = None) \<and>
           (case r of
              Inr t \<Rightarrow> n = length es \<and> t = last_life J es t0
            | Inl x \<Rightarrow> n < length es \<and> ending J T es t0 n = Some x)"
  using control_run_ends [OF assms] unfolding dial_session_def [abs_def] .

theorem control_until_silence_witness:
  "\<exists>n<4. filter is_dial [Send_Ping, Dial_Session ''s1'' ''wss://x/api?session_id=s1'' [(''Authorization'', ''Bearer k'')], Send_Pong []] =
       map (\<lambda>sid. Dial_Session sid (''wss://x/api?session_id='' @ sid) [(''Authorization'', ''Bearer k'')])
         (List.map_filter (session_wanted (tree_lib toy_control))
           (take n [(0, True, Ping_Tick), (5000, True, Control_Text [1]), (6000, True, Control_Text [2]), (22000, True, Ping_Tick)]))"
proof -
  let ?es = "[(0 :: nat, True, Ping_Tick), (5000, True, Control_Text [1]), (6000, True, Control_Text [2]), (22000, True, Ping_Tick)]"
  have "control_run (tree_lib toy_control) toy_tunnel ?es 0 =
    (Inl Pong_Timeout,
     [Send_Ping, Dial_Session ''s1'' ''wss://x/api?session_id=s1'' [(''Authorization'', ''Bearer k'')], Send_Pong []])"
    by (simp add: control_text_def toy_control_def toy_tunnel_def tree_lib_def typed_def get_str_def dial_session_def)
  from control_until_silence [OF this] obtain n where "n < length ?es"
    "filter is_dial [Send_Ping, Dial_Session ''s1'' ''wss://x/api?session_id=s1'' [(''Authorization'', ''Bearer k'')], Send_Pong []] =
       map (\<lambda>sid. Dial_Session sid (te_base toy_tunnel @ ''?session_id='' @ sid)
              (case te_token toy_tunnel of Some token \<Rightarrow> [(''Authorization'', ''Bearer '' @ token)] | None \<Rightarrow> []))
         (List.map_filter (session_wanted (tree_lib toy_control)) (take n ?es))"
    unfolding sum.case by blast
  moreover have "length ?es = 4" "te_base toy_tunnel = ''wss://x/api''" "te_token toy_tunnel = Some ''k''"
    by (simp_all add: toy_tunnel_def)
  ultimately show ?thesis by (intro exI [of _ n]) (simp del: filter.simps take_Cons_numeral)
qed

text \<open>
  \<^bold>\<open>C28\<close>. After any sequence of attempts of the primary loop, the peers' loops that run are exactly those of the last
  registration, one for each further server, in order: earlier ones have been stopped, and without a
  registration there are none. The loop sleeps after each failed connection only, for 1, 2, 4 and so on up to 30
  seconds, counted from the last connection that succeeded.
\<close>

theorem peers_of_last_registration:
  assumes "primary_run urls as registration_new = (Some g, out)"
  shows "running out = (if Control_Ended \<in> set as
           then enumerate (rg_next g - length (tl urls)) (map url_to_domain (tl urls)) else []) \<and>
    List.map_filter slept out = delays as \<and> rg_backoff g = delay_after as"
  using primary_run_ok [OF assms] by simp

theorem peers_of_last_registration_witness:
  "running [Sleep_Secs 1, Sleep_Secs 2, Send_Register, Spawn_Peer 0 (ascii ''b.io''), Run_Control, Send_Register, Abort_Peer 0,
       Spawn_Peer 1 (ascii ''b.io''), Run_Control] = enumerate 1 (map url_to_domain [''https://b.io/x''])"
proof -
  have u: "url_to_domain ''https://b.io/x'' = ascii ''b.io''" by code_simp
  have "primary_run [''a.io'', ''https://b.io/x''] [Not_Connected, Not_Connected, Control_Ended, Control_Ended] registration_new =
    (Some \<lparr>rg_backoff = 1, rg_peers = [(1, ascii ''b.io'')], rg_next = 2\<rparr>,
     [Sleep_Secs 1, Sleep_Secs 2, Send_Register, Spawn_Peer 0 (ascii ''b.io''), Run_Control, Send_Register, Abort_Peer 0,
       Spawn_Peer 1 (ascii ''b.io''), Run_Control])"
    by (simp add: primary_turn_def registration_new_def u)
  from conjunct1 [OF peers_of_last_registration [OF this]] show ?thesis by simp
qed

text \<open>A server that accepts connections and refuses the registration is tried again at once, without end.\<close>

lemma unregistered_never_sleeps:
  "primary_run urls (replicate n Not_Registered) registration_new = (Some registration_new, replicate n Send_Register)"
proof -
  have "primary_turn urls Not_Registered registration_new = (Some registration_new, [Send_Register])"
    by (simp add: primary_turn_def registration_new_def)
  then show ?thesis by (induction n) simp_all
qed

lemma peer_turn_as_primary:
  "\<not> stopped \<Longrightarrow> fst (peer_turn stopped a (rg_backoff g)) = map_option rg_backoff (fst (primary_turn urls a g))"
  by (cases a) (simp_all add: peer_turn_def primary_turn_def Let_def)

text \<open>The key survives a restart of the daemon.\<close>

lemma keypair_persists:
  assumes "hive_law H" and "length random = 32"
    and "load_or_generate_keypair (crypto_lib.truncate H) True random file = (file2, Inr secret)"
  shows "load_or_generate_keypair (crypto_lib.truncate H) w random2 file2 = (file2, Inr secret)"
  using assms hive_laws [OF assms(1)]
  by (auto simp: load_or_generate_keypair_def load_keypair_def crypto_lib.defs split: option.splits if_splits)

end
