(* ===== verification/Archive.thy ===== *)
theory Archive
  imports Events Utf8 Base64
begin

text \<open>
  The two archives of the daemon, \<open>src/crates/b3-cli/src/daemon/info_archive.rs\<close> and \<open>tts_archive.rs\<close>: bounded
  histories kept in memory and in an index file, the second with one WAV file for each entry. JSON is a parameter;
  the results of file operations are arguments, and a file is named by the text of its path.
\<close>

datatype read_result = Absent | Unreadable | Content bytes

definition INFO_MAX_ENTRIES :: nat where "INFO_MAX_ENTRIES = 1000"
definition TTS_MAX_ENTRIES :: nat where "TTS_MAX_ENTRIES = 50"

definition open_index :: "(bytes \<Rightarrow> 'e list option) \<Rightarrow> read_result \<Rightarrow> 'e list" where
  "open_index parse r =
     (case r of
        Absent \<Rightarrow> []
      | Unreadable \<Rightarrow> []
      | Content raw \<Rightarrow> (if utf8_valid raw then (case parse raw of None \<Rightarrow> [] | Some es \<Rightarrow> es) else []))"

text \<open>\<open>while index.len() >= cap { pop_front }\<close>: what is removed and what stays.\<close>

fun make_room :: "nat \<Rightarrow> 'e list \<Rightarrow> 'e list \<times> 'e list" where
  "make_room cap [] = ([], [])"
| "make_room cap (e # es) =
     (if cap \<le> length (e # es) then (case make_room cap es of (out, rest) \<Rightarrow> (e # out, rest)) else ([], e # es))"


section \<open>Info panels\<close>

record info_entry =
  ie_ts :: u64
  ie_title :: bytes
  ie_html :: bytes

record info_summary =
  is_ts :: u64
  is_title :: bytes
  is_index :: nat

record info_archive =
  ia_index :: "info_entry list"
  ia_file :: read_result

definition info_open :: "(bytes \<Rightarrow> info_entry list option) \<Rightarrow> read_result \<Rightarrow> info_archive" where
  "info_open parse r = \<lparr>ia_index = open_index parse r, ia_file = r\<rparr>"

text \<open>
  The index file is written in place: \<open>Some r\<close> is what a failed write leaves of it. A list that cannot be
  serialised is written as an empty file.
\<close>

definition info_store ::
  "(info_entry list \<Rightarrow> bytes option) \<Rightarrow> u64 \<Rightarrow> bytes \<Rightarrow> bytes \<Rightarrow> read_result option \<Rightarrow> info_archive \<Rightarrow> info_archive" where
  "info_store print now title html failed a =
     (let entry = \<lparr>ie_ts = now, ie_title = title, ie_html = html\<rparr>;
          index = snd (make_room INFO_MAX_ENTRIES (ia_index a)) @ [entry];
          json = (case print index of Some j \<Rightarrow> j | None \<Rightarrow> [])
      in \<lparr>ia_index = index, ia_file = (case failed of None \<Rightarrow> Content json | Some r \<Rightarrow> r)\<rparr>)"

definition info_list :: "info_archive \<Rightarrow> info_summary list" where
  "info_list a = map (\<lambda>(i, e). \<lparr>is_ts = ie_ts e, is_title = ie_title e, is_index = i\<rparr>) (rev (enumerate 0 (ia_index a)))"

definition info_get :: "nat \<Rightarrow> info_archive \<Rightarrow> info_entry option" where
  "info_get i a = (if i < length (ia_index a) then Some (ia_index a ! i) else None)"

definition info_latest :: "info_archive \<Rightarrow> info_entry option" where
  "info_latest a = (if ia_index a = [] then None else Some (last (ia_index a)))"

definition info_len :: "info_archive \<Rightarrow> nat" where
  "info_len a = length (ia_index a)"


section \<open>Speech\<close>

record tts_entry =
  te_msg_id :: string
  te_text :: bytes
  te_original_text :: bytes
  te_voice :: bytes
  te_emotion :: bytes
  te_replying_to :: bytes
  te_timestamp :: u64
  te_duration_sec :: u64
  te_size_bytes :: u64

record tts_archive =
  ta_index :: "tts_entry list"
  ta_file :: read_result
  ta_wavs :: "string \<Rightarrow> bytes option"

text \<open>\<open>Path::join\<close> and the file of a message.\<close>

definition path_join :: "string \<Rightarrow> string \<Rightarrow> string" where
  "path_join dir s = (if take 1 s = ''/'' then s else dir @ ''/'' @ s)"

definition wav_path :: "string \<Rightarrow> string \<Rightarrow> string" where
  "wav_path dir msg_id = path_join dir (msg_id @ ''.wav'')"

definition tts_open :: "(bytes \<Rightarrow> tts_entry list option) \<Rightarrow> read_result \<Rightarrow> (string \<Rightarrow> bytes option) \<Rightarrow> tts_archive" where
  "tts_open parse r wavs = \<lparr>ta_index = open_index parse r, ta_file = r, ta_wavs = wavs\<rparr>"

text \<open>The files of the entries removed, each if the removal succeeds.\<close>

fun remove_wavs :: "string \<Rightarrow> (nat \<Rightarrow> bool) \<Rightarrow> tts_entry list \<Rightarrow> (string \<Rightarrow> bytes option) \<Rightarrow> (string \<Rightarrow> bytes option)" where
  "remove_wavs dir ok [] wavs = wavs"
| "remove_wavs dir ok (e # es) wavs =
     remove_wavs dir (ok \<circ> Suc) es (if ok 0 then wavs(wav_path dir (te_msg_id e) := None) else wavs)"

text \<open>The index is written to a temporary file and renamed: without success the old one stays.\<close>

definition save_index_locked :: "(tts_entry list \<Rightarrow> bytes option) \<Rightarrow> bool \<Rightarrow> tts_entry list \<Rightarrow> read_result \<Rightarrow> read_result" where
  "save_index_locked print saved index r =
     (case print index of None \<Rightarrow> r | Some json \<Rightarrow> (if saved then Content json else r))"

text \<open>
  \<open>TtsArchive::store\<close>. \<open>failed = Some w\<close> is a failed write of the WAV file and what it leaves there; \<open>removed\<close> and
  \<open>saved\<close> say which of the later operations succeed.
\<close>

definition tts_store ::
  "string \<Rightarrow> (tts_entry list \<Rightarrow> bytes option) \<Rightarrow> tts_entry \<Rightarrow> bytes \<Rightarrow> bytes option option \<Rightarrow> (nat \<Rightarrow> bool) \<Rightarrow> bool \<Rightarrow>
     tts_archive \<Rightarrow> tts_archive \<times> (unit + unit)" where
  "tts_store dir print entry wav failed removed saved a =
     (let path = wav_path dir (te_msg_id entry)
      in case failed of
           Some w \<Rightarrow> (a\<lparr>ta_wavs := (ta_wavs a)(path := w)\<rparr>, Inl ())
         | None \<Rightarrow>
             (case make_room TTS_MAX_ENTRIES (ta_index a) of
                (old, rest) \<Rightarrow>
                  (let index = rest @ [entry]
                   in (\<lparr>ta_index = index, ta_file = save_index_locked print saved index (ta_file a),
                        ta_wavs = remove_wavs dir removed old ((ta_wavs a)(path \<mapsto> wav))\<rparr>, Inr ()))))"

definition tts_list :: "tts_archive \<Rightarrow> tts_entry list" where
  "tts_list a = rev (ta_index a)"

definition tts_contains :: "string \<Rightarrow> tts_archive \<Rightarrow> bool" where
  "tts_contains msg_id a = list_ex (\<lambda>e. te_msg_id e = msg_id) (ta_index a)"

definition audio_path :: "string \<Rightarrow> string \<Rightarrow> tts_archive \<Rightarrow> string option" where
  "audio_path dir msg_id a =
     (if list_ex (\<lambda>e. te_msg_id e = msg_id) (ta_index a)
      then (if ta_wavs a (wav_path dir msg_id) \<noteq> None then Some (wav_path dir msg_id) else None)
      else None)"


section \<open>Titles\<close>

text \<open>\<open>chars().take(n)\<close> on UTF-8.\<close>

primrec take_chars :: "nat \<Rightarrow> bytes \<Rightarrow> bytes" where
  "take_chars 0 bs = []"
| "take_chars (Suc n) bs =
     (if bs = [] then [] else (let k = max 1 (utf8_len bs) in take k bs @ take_chars n (drop k bs)))"

text \<open>The content of the first element of a name, or of one whose name starts with it.\<close>

definition tag_content :: "bytes \<Rightarrow> string \<Rightarrow> bytes option" where
  "tag_content html tag =
     (case str_find (ascii (''<'' @ tag)) html of
        None \<Rightarrow> None
      | Some start \<Rightarrow>
          (case str_find (ascii ''>'') (drop start html) of
             None \<Rightarrow> None
           | Some tag_end \<Rightarrow>
               (let content = drop (start + tag_end + 1) html
                in case str_find (ascii (''</'' @ tag @ ''>'')) content of
                     None \<Rightarrow> None
                   | Some n \<Rightarrow> Some (take n content))))"

fun first_title :: "bytes \<Rightarrow> string list \<Rightarrow> bytes option" where
  "first_title html [] = None"
| "first_title html (tag # tags) =
     (case tag_content html tag of
        None \<Rightarrow> first_title html tags
      | Some content \<Rightarrow>
          (let clean = str_trim (filter (\<lambda>c. c \<noteq> 60) content)
           in if clean \<noteq> [] then Some (take_chars 60 clean) else first_title html tags))"

fun strip_tags :: "bool \<Rightarrow> bytes \<Rightarrow> bytes" where
  "strip_tags in_tag [] = []"
| "strip_tags in_tag (c # cs) =
     (if c = 60 then strip_tags True cs
      else if c = 62 then strip_tags False cs
      else if in_tag then strip_tags in_tag cs
      else c # strip_tags in_tag cs)"

definition extract_info_title :: "bytes \<Rightarrow> bytes" where
  "extract_info_title html =
     (case first_title html [''h1'', ''h2'', ''h3'', ''h4'', ''strong'', ''b''] of
        Some title \<Rightarrow> title
      | None \<Rightarrow> (let trimmed = str_trim (strip_tags False html) in if trimmed = [] then ascii ''Info'' else take_chars 60 trimmed))"


section \<open>Who stores\<close>

text \<open>\<open>inject\<close>: an info event is stored before it is broadcast; every event is broadcast.\<close>

definition inject ::
  "(info_entry list \<Rightarrow> bytes option) \<Rightarrow> u64 \<Rightarrow> read_result option \<Rightarrow> agent_event \<Rightarrow> info_archive \<Rightarrow> info_archive \<times> agent_event" where
  "inject print now failed event a =
     ((case event of
         Hive sender txt \<Rightarrow>
           (if sender = ''info'' then info_store print now (extract_info_title (ascii txt)) (ascii txt) failed a else a)
       | _ \<Rightarrow> a), event)"

text \<open>\<open>tts_upload\<close>: the two forms of an upload, and a report to the ledger of voice jobs, if any. Error texts are without their cause.\<close>

record upload =
  up_audio :: "bytes option"
  up_msg_id :: string
  up_text :: string
  up_original_text :: string
  up_voice :: string
  up_emotion :: string
  up_replying_to :: string
  up_duration_sec :: u64
  up_voice_job_id :: string

definition upload_new :: upload where
  "upload_new =
     \<lparr>up_audio = None, up_msg_id = [], up_text = [], up_original_text = [], up_voice = [], up_emotion = [],
      up_replying_to = [], up_duration_sec = 0, up_voice_job_id = []\<rparr>"

definition str_or_empty :: "'v json_lib \<Rightarrow> 'v \<Rightarrow> string \<Rightarrow> string" where
  "str_or_empty J v k = (case get_str J v k of Some s \<Rightarrow> s | None \<Rightarrow> [])"

definition json_upload :: "'v json_lib \<Rightarrow> (string \<Rightarrow> bytes option) \<Rightarrow> bytes option \<Rightarrow> string + upload" where
  "json_upload J dec body =
     (case body of
        None \<Rightarrow> Inl ''body read error''
      | Some raw \<Rightarrow>
          (case json_parse J raw of
             None \<Rightarrow> Inl ''invalid JSON''
           | Some v \<Rightarrow>
               (if str_or_empty J v ''audio_b64'' = [] then Inl ''audio_b64 is required''
                else (case dec (str_or_empty J v ''audio_b64'') of
                        None \<Rightarrow> Inl ''invalid base64''
                      | Some wav \<Rightarrow>
                          Inr \<lparr>up_audio = Some wav, up_msg_id = str_or_empty J v ''msg_id'', up_text = str_or_empty J v ''text'',
                            up_original_text = str_or_empty J v ''original_text'', up_voice = str_or_empty J v ''voice'',
                            up_emotion = str_or_empty J v ''emotion'', up_replying_to = str_or_empty J v ''replying_to'',
                            up_duration_sec =
                              (case json_get J v ''duration_sec'' of
                                 Some d \<Rightarrow> (case json_f64 J d of Some x \<Rightarrow> x | None \<Rightarrow> 0) | None \<Rightarrow> 0),
                            up_voice_job_id = str_or_empty J v ''voice_job_id''\<rparr>))))"

text \<open>A part of a multipart body: its name, its bytes and its text, each if it can be read.\<close>

definition multipart_field :: "(string \<Rightarrow> u64 option) \<Rightarrow> string \<times> bytes option \<times> string option \<Rightarrow> upload \<Rightarrow> upload" where
  "multipart_field parse_f64 field u =
     (case field of (key, data, contents) \<Rightarrow>
        (let t = (case contents of Some t \<Rightarrow> t | None \<Rightarrow> [])
         in if key = ''audio'' then (case data of Some bs \<Rightarrow> u\<lparr>up_audio := Some bs\<rparr> | None \<Rightarrow> u)
            else if key = ''msg_id'' then u\<lparr>up_msg_id := t\<rparr>
            else if key = ''text'' then u\<lparr>up_text := t\<rparr>
            else if key = ''voice'' then u\<lparr>up_voice := t\<rparr>
            else if key = ''emotion'' then u\<lparr>up_emotion := t\<rparr>
            else if key = ''replying_to'' then u\<lparr>up_replying_to := t\<rparr>
            else if key = ''duration_sec'' then u\<lparr>up_duration_sec := (case parse_f64 t of Some x \<Rightarrow> x | None \<Rightarrow> 0)\<rparr>
            else if key = ''voice_job_id'' then u\<lparr>up_voice_job_id := t\<rparr>
            else u))"

definition multipart_upload :: "(string \<Rightarrow> u64 option) \<Rightarrow> (string \<times> bytes option \<times> string option) list \<Rightarrow> upload" where
  "multipart_upload parse_f64 parts = fold (multipart_field parse_f64) parts upload_new"

datatype upload_reply =
    Bad_Upload string
  | Already_Archived string
  | Archived string
  | Store_Failed

definition upload_entry :: "u64 \<Rightarrow> bytes \<Rightarrow> upload \<Rightarrow> tts_entry" where
  "upload_entry now wav u =
     \<lparr>te_msg_id = up_msg_id u, te_text = ascii (up_text u), te_original_text = ascii (up_original_text u),
      te_voice = ascii (up_voice u), te_emotion = ascii (up_emotion u), te_replying_to = ascii (up_replying_to u),
      te_timestamp = now, te_duration_sec = up_duration_sec u, te_size_bytes = of_nat (length wav)\<rparr>"

definition tts_upload ::
  "string \<Rightarrow> (tts_entry list \<Rightarrow> bytes option) \<Rightarrow> u64 \<Rightarrow> bytes option option \<Rightarrow> (nat \<Rightarrow> bool) \<Rightarrow> bool \<Rightarrow> upload \<Rightarrow> tts_archive \<Rightarrow>
     tts_archive \<times> upload_reply \<times> (string \<times> string) option" where
  "tts_upload dir print now failed removed saved u a =
     (case up_audio u of
        None \<Rightarrow> (a, Bad_Upload ''audio is required'', None)
      | Some wav \<Rightarrow>
          (if wav = [] then (a, Bad_Upload ''audio is required'', None)
           else if up_msg_id u = [] then (a, Bad_Upload ''msg_id is required'', None)
           else if tts_contains (up_msg_id u) a then (a, Already_Archived (up_msg_id u), None)
           else (let report = (\<lambda>s. if up_voice_job_id u = [] then None else Some (up_voice_job_id u, s))
                 in case tts_store dir print (upload_entry now wav u) wav failed removed saved a of
                      (a2, Inr _) \<Rightarrow> (a2, Archived (up_msg_id u), report ''archived'')
                    | (a2, Inl _) \<Rightarrow> (a2, Store_Failed, report ''failed''))))"

text \<open>
  The watchdog of a message that browsers are to archive, every thirty seconds: whether it is archived, and how
  many milliseconds ago a browser last reported on it.
\<close>

datatype watch = Watch_Waits | Watch_Ends | Watch_Generates

fun watchdog :: "(bool \<times> nat option) list \<Rightarrow> watch" where
  "watchdog [] = Watch_Waits"
| "watchdog ((archived, age) # checks) =
     (if archived then Watch_Ends
      else case age of
             Some ms \<Rightarrow> (if ms < 30000 then watchdog checks else Watch_Generates)
           | None \<Rightarrow> Watch_Generates)"


section \<open>A bounded history\<close>

definition last_n :: "nat \<Rightarrow> 'a list \<Rightarrow> 'a list" where
  "last_n n xs = drop (length xs - n) xs"

lemma last_n_simps [simp]:
  "length (last_n n xs) = min n (length xs)"
  "length xs \<le> n \<Longrightarrow> last_n n xs = xs"
  by (auto simp: last_n_def)

lemma last_n_append: "last_n n (last_n n xs @ ys) = last_n n (xs @ ys)"
  by (cases "length xs \<le> n") (simp_all add: last_n_def add.commute)

lemma make_room_split: "fst (make_room cap es) @ snd (make_room cap es) = es"
  by (induction es) (auto split: prod.splits)

lemma make_room_rest: "0 < cap \<Longrightarrow> snd (make_room cap es) = last_n (cap - 1) es"
proof (induction es)
  case (Cons e es)
  then show ?case by (cases "make_room cap es") (auto simp: last_n_def Suc_diff_le)
qed (simp add: last_n_def)

text \<open>
  What both archives promise: the entries in memory are the most recent ones of all that were ever there, up to a
  capacity. An operation may add an entry or, when it fails, none.
\<close>

locale bounded_history =
  fixes store :: "'o \<Rightarrow> 's \<Rightarrow> 's"
    and view :: "'s \<Rightarrow> 'e list"
    and adds :: "'o \<Rightarrow> 's \<Rightarrow> 'e list"
    and cap :: nat
  assumes view_store: "length (view s) \<le> cap \<Longrightarrow> view (store x s) = last_n cap (view s @ adds x s)"
begin

fun all_added :: "'o list \<Rightarrow> 's \<Rightarrow> 'e list" where
  "all_added [] s = []"
| "all_added (x # xs) s = adds x s @ all_added xs (store x s)"

lemma stays_bounded: "length (view s) \<le> cap \<Longrightarrow> length (view (store x s)) \<le> cap"
  by (simp add: view_store)

lemma view_run:
  "length (view s) \<le> cap \<Longrightarrow> view (fold store xs s) = last_n cap (view s @ all_added xs s)"
proof (induction xs arbitrary: s)
  case (Cons x xs)
  have "view (fold store xs (store x s)) = last_n cap (view (store x s) @ all_added xs (store x s))"
    by (rule Cons.IH [OF stays_bounded [OF Cons.prems]])
  then show ?case using Cons.prems by (simp add: view_store last_n_append)
qed simp

end

type_synonym info_op = "u64 \<times> bytes \<times> bytes \<times> read_result option"

fun do_info :: "(info_entry list \<Rightarrow> bytes option) \<Rightarrow> info_op \<Rightarrow> info_archive \<Rightarrow> info_archive" where
  "do_info print (now, title, html, failed) a = info_store print now title html failed a"

fun info_added :: "info_op \<Rightarrow> info_archive \<Rightarrow> info_entry list" where
  "info_added (now, title, html, failed) a = [\<lparr>ie_ts = now, ie_title = title, ie_html = html\<rparr>]"

lemma room_then_push: "0 < cap \<Longrightarrow> snd (make_room cap es) @ [e] = last_n cap (es @ [e])"
  by (auto simp: make_room_rest last_n_def Suc_diff_le)

lemma info_index_store:
  "ia_index (info_store print now title html failed a) =
     last_n INFO_MAX_ENTRIES (ia_index a @ [\<lparr>ie_ts = now, ie_title = title, ie_html = html\<rparr>])"
  by (simp add: info_store_def Let_def room_then_push INFO_MAX_ENTRIES_def)

interpretation info: bounded_history "do_info print" ia_index info_added INFO_MAX_ENTRIES for print
  by unfold_locales (auto simp: info_index_store)

type_synonym tts_op = "tts_entry \<times> bytes \<times> bytes option option \<times> (nat \<Rightarrow> bool) \<times> bool"

fun do_tts :: "string \<Rightarrow> (tts_entry list \<Rightarrow> bytes option) \<Rightarrow> tts_op \<Rightarrow> tts_archive \<Rightarrow> tts_archive" where
  "do_tts dir print (e, wav, failed, removed, saved) a = fst (tts_store dir print e wav failed removed saved a)"

fun tts_added :: "tts_op \<Rightarrow> tts_archive \<Rightarrow> tts_entry list" where
  "tts_added (e, wav, failed, removed, saved) a = (if failed = None then [e] else [])"

lemma tts_index_store:
  "ta_index (fst (tts_store dir print e wav failed removed saved a)) =
     (if failed = None then last_n TTS_MAX_ENTRIES (ta_index a @ [e]) else ta_index a)"
  by (simp add: tts_store_def Let_def room_then_push [symmetric] TTS_MAX_ENTRIES_def split: option.splits prod.splits)

interpretation tts: bounded_history "do_tts dir print" ta_index tts_added TTS_MAX_ENTRIES for dir print
  by unfold_locales (auto simp: tts_index_store)


section \<open>Every entry has its audio\<close>

definition plain :: "string \<Rightarrow> bool" where
  "plain msg_id \<longleftrightarrow> CHR ''/'' \<notin> set msg_id"

lemma wav_path_plain: "plain x \<Longrightarrow> wav_path dir x = dir @ ''/'' @ x @ ''.wav''"
  by (cases x) (auto simp: plain_def wav_path_def path_join_def)

lemma wav_path_inj: "plain x \<Longrightarrow> plain y \<Longrightarrow> wav_path dir x = wav_path dir y \<longleftrightarrow> x = y"
  by (simp add: wav_path_plain)

definition has_audio :: "string \<Rightarrow> tts_archive \<Rightarrow> tts_entry \<Rightarrow> bool" where
  "has_audio dir a e =
     (\<exists>w. ta_wavs a (wav_path dir (te_msg_id e)) = Some w \<and> te_size_bytes e = of_nat (length w))"

definition audio_kept :: "string \<Rightarrow> tts_archive \<Rightarrow> bool" where
  "audio_kept dir a =
     (distinct (map te_msg_id (ta_index a)) \<and> (\<forall>e \<in> set (ta_index a). plain (te_msg_id e) \<and> has_audio dir a e))"

lemma remove_wavs_other:
  "p \<notin> wav_path dir ` te_msg_id ` set es \<Longrightarrow> remove_wavs dir ok es wavs p = wavs p"
  by (induction es arbitrary: ok wavs) auto

lemma tts_store_keeps:
  assumes kept: "audio_kept dir a" and new: "\<not> tts_contains (te_msg_id e) a" and "plain (te_msg_id e)"
    and "te_size_bytes e = of_nat (length wav)"
  shows "audio_kept dir (fst (tts_store dir print e wav failed removed saved a))"
proof (cases failed)
  case (Some w)
  have "te_msg_id x \<noteq> te_msg_id e" if "x \<in> set (ta_index a)" for x
    using that new by (auto simp: tts_contains_def list_ex_iff)
  then show ?thesis using assms Some by (auto simp: audio_kept_def has_audio_def tts_store_def wav_path_inj)
next
  case None
  obtain old rest where m: "make_room TTS_MAX_ENTRIES (ta_index a) = (old, rest)" by fastforce
  have split: "ta_index a = old @ rest"
    using make_room_split [of TTS_MAX_ENTRIES "ta_index a"] m by simp
  note room = m [unfolded split]
  have other: "te_msg_id x \<noteq> te_msg_id e" if "x \<in> set (ta_index a)" for x
    using that new by (auto simp: tts_contains_def list_ex_iff)
  have "wav_path dir (te_msg_id x) \<notin> wav_path dir ` te_msg_id ` set old" if "x \<in> set (rest @ [e])" for x
  proof -
    have "te_msg_id x \<notin> te_msg_id ` set old"
      using that kept other unfolding audio_kept_def split by (auto simp: image_iff) (metis UnCI set_append split)
    moreover have "plain (te_msg_id y)" if "y \<in> set (old @ [x])" for y
      using that \<open>x \<in> set (rest @ [e])\<close> kept assms(3) unfolding audio_kept_def split by auto
    ultimately show ?thesis by (auto simp: wav_path_inj)
  qed
  then have stays: "remove_wavs dir removed old ((ta_wavs a)(wav_path dir (te_msg_id e) \<mapsto> wav)) (wav_path dir (te_msg_id x)) =
      ((ta_wavs a)(wav_path dir (te_msg_id e) \<mapsto> wav)) (wav_path dir (te_msg_id x))" if "x \<in> set (rest @ [e])" for x
    using that by (simp add: remove_wavs_other)
  have "has_audio dir (fst (tts_store dir print e wav failed removed saved a)) x" if "x \<in> set (rest @ [e])" for x
    using that kept other assms stays [OF that] None
    by (auto simp: tts_store_def room audio_kept_def has_audio_def wav_path_inj split Let_def)
  then show ?thesis
    using kept other assms(3) None by (auto simp: audio_kept_def tts_store_def room split Let_def) blast
qed

text \<open>An upload, with the results of its file operations.\<close>

type_synonym upload_op = "u64 \<times> bytes option option \<times> (nat \<Rightarrow> bool) \<times> bool \<times> upload"

fun do_upload :: "string \<Rightarrow> (tts_entry list \<Rightarrow> bytes option) \<Rightarrow> upload_op \<Rightarrow> tts_archive \<Rightarrow> tts_archive" where
  "do_upload dir print (now, failed, removed, saved, u) a = fst (tts_upload dir print now failed removed saved u a)"

lemma tts_upload_keeps:
  assumes "audio_kept dir a" and "plain (up_msg_id u)"
  shows "audio_kept dir (fst (tts_upload dir print now failed removed saved u a))"
proof -
  consider "up_audio u = None \<or> up_audio u = Some [] \<or> up_msg_id u = [] \<or> tts_contains (up_msg_id u) a"
    | wav where "up_audio u = Some wav" "wav \<noteq> []" "up_msg_id u \<noteq> []" "\<not> tts_contains (up_msg_id u) a"
    by (cases "up_audio u") auto
  then show ?thesis
  proof cases
    case 1
    then show ?thesis using assms(1) by (auto simp: tts_upload_def split: option.split)
  next
    case 2
    have "audio_kept dir (fst (tts_store dir print (upload_entry now wav u) wav failed removed saved a))"
      by (rule tts_store_keeps) (simp_all add: assms 2 upload_entry_def)
    moreover have "fst (tts_upload dir print now failed removed saved u a) =
        fst (tts_store dir print (upload_entry now wav u) wav failed removed saved a)"
    proof -
      obtain a2 r where "tts_store dir print (upload_entry now wav u) wav failed removed saved a = (a2, r)" by fastforce
      then show ?thesis using 2 by (cases r) (simp_all add: tts_upload_def Let_def)
    qed
    ultimately show ?thesis by simp
  qed
qed


section \<open>Properties\<close>

definition info_entries :: "info_op list \<Rightarrow> info_entry list" where
  "info_entries ops = map (\<lambda>(t, ti, h, _). \<lparr>ie_ts = t, ie_title = ti, ie_html = h\<rparr>) ops"

definition info_row :: "info_archive \<Rightarrow> info_summary \<Rightarrow> bool" where
  "info_row a s = (\<exists>e. info_get (is_index s) a = Some e \<and> ie_ts e = is_ts s \<and> ie_title e = is_title s)"

lemma info_list_rows: "s \<in> set (info_list a) \<Longrightarrow> info_row a s"
  by (auto simp: info_list_def info_row_def info_get_def in_set_enumerate_eq)

text \<open>
  \<^bold>\<open>C29\<close>. The panel history is the most recent thousand of all entries, in the order stored, over restarts of the
  daemon: opening the archive on the file that the last store wrote gives the same entries. The list is newest
  first and an index taken from it leads to the entry it names; the latest entry is the one stored last.
\<close>

theorem info_history_survives:
  assumes "length (ia_index a) \<le> INFO_MAX_ENTRIES"
    and es: "es = last_n INFO_MAX_ENTRIES (ia_index a @ info_entries ops @ info_entries [(now, title, html, None)])"
    and reads: "print es = Some j" "utf8_valid j" "parse j = Some es"
  shows "let b = fold (do_info print) (ops @ [(now, title, html, None)]) a in
      ia_index b = es \<and> ia_index (info_open parse (ia_file b)) = es \<and>
      map is_ts (info_list b) = rev (map ie_ts es) \<and> (\<forall>s \<in> set (info_list b). info_row b s) \<and>
      info_latest b = Some (hd (info_entries [(now, title, html, None)]))"
proof -
  let ?b = "info_store print now title html None (fold (do_info print) ops a)"
  have added: "info.all_added print ops s = info_entries ops" for s
    by (induction ops arbitrary: s) (auto simp: info_entries_def)
  have index: "ia_index ?b = es"
    using info.view_run [OF assms(1), of print ops]
    by (simp add: info_index_store added last_n_append es info_entries_def del: append.assoc)
  have "ia_file ?b = Content j"
    using index reads(1) by (auto simp: info_store_def Let_def)
  then have "ia_index (info_open parse (ia_file ?b)) = es" using reads by (simp add: info_open_def open_index_def)
  moreover have "map is_ts (info_list ?b) = rev (map ie_ts (ia_index ?b))"
    by (rule nth_equalityI) (simp_all add: info_list_def rev_map [symmetric] rev_nth nth_enumerate_eq)
  moreover have "info_latest ?b = Some (hd (info_entries [(now, title, html, None)]))"
    by (simp add: info_latest_def info_store_def Let_def info_entries_def)
  ultimately show ?thesis using index info_list_rows by (simp add: Let_def)
qed

theorem info_history_survives_witness:
  "ia_index (fold (do_info (\<lambda>es. Some (map (\<lambda>e. ucast (ie_ts e)) es))) [(1, [], [], Some Absent), (2, [], [], None)]
      (info_open (\<lambda>_. None) Absent)) = info_entries [(1, [], [], None), (2, [], [], None)]"
  using info_history_survives [of "info_open (\<lambda>_. None) Absent" "info_entries [(1, [], [], None), (2, [], [], None)]"
      "[(1, [], [], Some Absent)]" 2 "[]" "[]" "\<lambda>es. Some (map (\<lambda>e. ucast (ie_ts e)) es)" "[1, 2]"
      "\<lambda>j. Some (map (\<lambda>b. \<lparr>ie_ts = ucast b, ie_title = [], ie_html = []\<rparr>) j)"]
  by (simp add: info_open_def open_index_def INFO_MAX_ENTRIES_def info_entries_def utf8_valid_ascii Let_def)

text \<open>
  \<^bold>\<open>C30\<close>. After any sequence of uploads whose message ids have no slash, whichever file operations fail, no id is
  listed twice and every listed message can be played: \<open>audio_path\<close> finds a file, of the size the entry says.
\<close>

theorem listed_audio_plays:
  assumes "audio_kept dir a" and "\<forall>(now, failed, removed, saved, u) \<in> set ops. plain (up_msg_id u)"
  shows "let b = fold (do_upload dir print) ops a in
    distinct (map te_msg_id (tts_list b)) \<and>
    (\<forall>e \<in> set (tts_list b). \<exists>path w. audio_path dir (te_msg_id e) b = Some path \<and> ta_wavs b path = Some w \<and>
      te_size_bytes e = of_nat (length w))"
proof -
  have "audio_kept dir (fold (do_upload dir print) ops a)"
    using assms
  proof (induction ops arbitrary: a)
    case (Cons x xs)
    obtain now failed removed saved u where x: "x = (now, failed, removed, saved, u)" by (cases x)
    have "audio_kept dir (do_upload dir print x a)"
      using tts_upload_keeps Cons.prems by (simp add: x)
    then show ?case using Cons by simp
  qed simp
  then show ?thesis
    by (auto simp: Let_def audio_kept_def has_audio_def tts_list_def audio_path_def list_ex_iff distinct_rev rev_map [symmetric]
      split: if_splits)
qed

theorem listed_audio_plays_witness:
  "let b = fold (do_upload ''tts'' (\<lambda>_. None))
       [(5, None, \<lambda>_. True, True, upload_new\<lparr>up_audio := Some [1, 2], up_msg_id := ''m''\<rparr>)]
       (tts_open (\<lambda>_. None) Absent (\<lambda>_. None)) in
    \<exists>path w. audio_path ''tts'' ''m'' b = Some path \<and> ta_wavs b path = Some w \<and> length w = 2"
proof -
  let ?ops = "[(5, None, \<lambda>_. True, True, upload_new\<lparr>up_audio := Some [1, 2], up_msg_id := ''m''\<rparr>)] :: upload_op list"
  let ?a = "tts_open (\<lambda>_. None) Absent (\<lambda>_. None)"
  let ?b = "fold (do_upload ''tts'' (\<lambda>_. None)) ?ops ?a"
  have "\<forall>(now, failed, removed, saved, u) \<in> set ?ops. plain (up_msg_id u)" "audio_kept ''tts'' ?a"
    by (simp_all add: plain_def upload_new_def audio_kept_def tts_open_def open_index_def)
  from listed_audio_plays [OF this(2,1), of "\<lambda>_. None"]
  have "\<forall>e \<in> set (tts_list ?b). \<exists>path w. audio_path ''tts'' (te_msg_id e) ?b = Some path \<and> ta_wavs ?b path = Some w \<and>
      te_size_bytes e = of_nat (length w)" unfolding Let_def by blast
  moreover have "tts_list ?b = [upload_entry 5 [1, 2] (upload_new\<lparr>up_audio := Some [1, 2], up_msg_id := ''m''\<rparr>)]"
    by (simp add: tts_list_def tts_upload_def tts_contains_def tts_open_def open_index_def upload_new_def tts_store_def Let_def
      TTS_MAX_ENTRIES_def)
  moreover have "?b = fst (tts_store ''tts'' (\<lambda>_. None) (upload_entry 5 [1, 2] (upload_new\<lparr>up_audio := Some [1, 2], up_msg_id := ''m''\<rparr>))
      [1, 2] None (\<lambda>_. True) True ?a)"
    by (simp add: tts_upload_def tts_contains_def tts_open_def open_index_def upload_new_def tts_store_def Let_def)
  then have "ta_wavs ?b (wav_path ''tts'' ''m'') = Some [1, 2]"
    by (simp add: tts_store_def tts_open_def open_index_def upload_entry_def upload_new_def Let_def)
  ultimately show ?thesis
    by (auto simp: Let_def upload_entry_def upload_new_def audio_path_def split: if_splits)
qed

text \<open>
  A message stored twice, as the watchdog and an upload may do that both looked before either stored, loses its
  audio when its first entry leaves the history; if that happens at the second store, at once.
\<close>

lemma stored_twice_loses_audio:
  assumes "ta_index a = e # es" and "length es = 49" and "removed 0"
  shows "let b = fst (tts_store dir print (e\<lparr>te_timestamp := now\<rparr>) wav None removed saved a) in
    tts_contains (te_msg_id e) b \<and> audio_path dir (te_msg_id e) b = None"
proof -
  have "make_room TTS_MAX_ENTRIES (ta_index a) = ([e], es)"
    using assms by (cases es) (simp_all add: TTS_MAX_ENTRIES_def)
  then show ?thesis using assms(3) by (simp add: tts_store_def Let_def tts_contains_def audio_path_def)
qed

lemma tts_recent:
  "length (ta_index a) \<le> TTS_MAX_ENTRIES \<Longrightarrow>
     tts_list (fold (do_tts dir print) ops a) = rev (last_n TTS_MAX_ENTRIES (ta_index a @ tts.all_added dir print ops a))"
  by (simp add: tts_list_def tts.view_run)

definition browser_busy :: "bool \<times> nat option \<Rightarrow> bool" where
  "browser_busy c = (\<not> fst c \<and> (case snd c of Some ms \<Rightarrow> ms < 30000 | None \<Rightarrow> False))"

lemma watchdog_decides:
  "watchdog checks =
     (case dropWhile browser_busy checks of [] \<Rightarrow> Watch_Waits | c # _ \<Rightarrow> if fst c then Watch_Ends else Watch_Generates)"
  by (induction checks rule: watchdog.induct) (auto simp: browser_busy_def split: option.splits)

end
