(* ===== verification/Attach.thy ===== *)
theory Attach
  imports Protocol Json
begin

text \<open>
  A terminal attached to the daemon: \<open>handle_client\<close>, \<open>clamp_cursor_up\<close> and the rebroadcast of
  \<open>src/crates/b3-cli/src/daemon/server.rs\<close>, and the client of \<open>commands/attach.rs\<close>. The messages between them are
  those of \<open>Protocol\<close>; what the PTY and the terminal deliver are arguments, and errors of PTY calls, which are only
  logged, are left out.
\<close>

section \<open>Cursor movements\<close>

text \<open>\<open>usize\<close> has 64 bits, and \<open>cumulative_up + n\<close> wraps.\<close>

definition MAX_CURSOR_UP_ROWS :: u64 where "MAX_CURSOR_UP_ROWS = 100"

definition ascii_digit :: "u8 \<Rightarrow> bool" where
  "ascii_digit b \<longleftrightarrow> 48 \<le> b \<and> b \<le> 57"

text \<open>\<open>s.parse().ok().unwrap_or(1)\<close> on digits; a number of more than 64 bits does not parse.\<close>

definition cursor_count :: "bytes \<Rightarrow> u64" where
  "cursor_count ds =
     (if ds = [] then 1 else if parse_nat (of_bytes ds) < 2 ^ 64 then of_nat (parse_nat (of_bytes ds)) else 1)"

definition cursor_up :: "bytes \<Rightarrow> bytes" where
  "cursor_up ds = [0x1B, 91] @ ds @ [65]"

text \<open>What is emitted for a cursor-up of \<open>n\<close> rows, after which the counter is \<open>c\<close>.\<close>

definition emit_up :: "u64 \<Rightarrow> u64 \<Rightarrow> bytes \<Rightarrow> bytes" where
  "emit_up c n ds =
     (if c \<le> MAX_CURSOR_UP_ROWS then cursor_up ds
      else if c - n < MAX_CURSOR_UP_ROWS then
        (let remaining = MAX_CURSOR_UP_ROWS - (c - n)
         in if remaining > 0 then cursor_up (ascii (show_nat (unat remaining))) else [])
      else [])"

lemma rest_shorter:
  "length (tl (dropWhile P (tl r))) < Suc (length r)"
  "length (dropWhile P (tl r)) - Suc 0 < Suc (length r)"
  using length_dropWhile_le [of P "tl r"] by simp_all

function clamp_from :: "u64 \<Rightarrow> bytes \<Rightarrow> bytes" where
  "clamp_from c [] = []"
| "clamp_from c (b # r) =
     (if b = 0x1B \<and> r \<noteq> [] \<and> hd r = 91 then
        (let ds = takeWhile ascii_digit (tl r); rest = dropWhile ascii_digit (tl r)
         in if rest \<noteq> [] \<and> hd rest = 65 then
              (let n = cursor_count ds in emit_up (c + n) n ds @ clamp_from (c + n) (tl rest))
            else [0x1B, 91] @ ds @ take 1 rest @ clamp_from 0 (drop 1 rest))
      else b # clamp_from (if b \<noteq> 0x1B \<and> 0x20 \<le> b \<and> b \<noteq> 0x7F then 0 else c) r)"
  by pat_completeness auto

termination
  by (relation "measure (\<lambda>(c, d). length d)") (simp_all add: rest_shorter)

declare clamp_from.simps(2) [simp del]

definition clamp_cursor_up :: "bytes \<Rightarrow> bytes" where
  "clamp_cursor_up data = (if 0x1B \<notin> set data then data else clamp_from 0 data)"


section \<open>Output\<close>

text \<open>A broadcast receiver; the rebroadcast goes on after a lag and ends with the PTY.\<close>

datatype output_recv = Output_Data bytes | Output_Lagged u64 | Output_Closed

fun rebroadcast :: "output_recv list \<Rightarrow> bytes list" where
  "rebroadcast [] = []"
| "rebroadcast (Output_Data d # rs) = clamp_cursor_up d # rebroadcast rs"
| "rebroadcast (Output_Lagged n # rs) = rebroadcast rs"
| "rebroadcast (Output_Closed # rs) = []"

definition client_greeting :: "u16 \<Rightarrow> u16 \<Rightarrow> bytes \<Rightarrow> message list" where
  "client_greeting rows cols banner = Welcome rows cols # (if banner \<noteq> [] then [Output banner] else [])"

text \<open>The output task, with whether each write succeeds: the messages written.\<close>

fun output_task :: "(output_recv \<times> bool) list \<Rightarrow> message list" where
  "output_task [] = []"
| "output_task ((Output_Data d, ok) # rs) = (if ok then Output d # output_task rs else [])"
| "output_task ((Output_Closed, ok) # rs) = (if ok then [Exited 0] else [])"
| "output_task ((Output_Lagged n, ok) # rs) = output_task rs"


section \<open>Input\<close>

record daemon_state =
  ds_rows :: u16
  ds_cols :: u16
  ds_shutdown :: bool

datatype client_effect = Pty_Write bytes | Pty_Resize_To u16 u16

text \<open>One message: the state, the effects, and whether the loop goes on.\<close>

definition client_message :: "message \<Rightarrow> daemon_state \<Rightarrow> daemon_state \<times> client_effect list \<times> bool" where
  "client_message m d =
     (case m of
        Input bs \<Rightarrow> (d, [Pty_Write bs], True)
      | Resize rows cols \<Rightarrow> (d\<lparr>ds_rows := rows, ds_cols := cols\<rparr>, [Pty_Resize_To rows cols], True)
      | Detach \<Rightarrow> (d, [], False)
      | Stop \<Rightarrow> (d\<lparr>ds_shutdown := True\<rparr>, [], False)
      | Status \<Rightarrow> (d, [], True)
      | _ \<Rightarrow> (d, [], True))"

function client_loop :: "bytes \<Rightarrow> daemon_state \<Rightarrow> daemon_state \<times> client_effect list" where
  "client_loop stream d =
     (case read_message stream of
        Inl e \<Rightarrow> (d, [])
      | Inr (m, rest) \<Rightarrow>
          (case client_message m d of
             (d2, out, False) \<Rightarrow> (d2, out)
           | (d2, out, True) \<Rightarrow> (case client_loop rest d2 of (d3, out2) \<Rightarrow> (d3, out @ out2))))"
  by pat_completeness auto
termination
  by (relation "measure (\<lambda>(s, d). length s)") (auto dest: read_message_less)

declare client_loop.simps [simp del]


section \<open>The attached terminal\<close>

datatype stdin_signal = Signal_Detach | Signal_Stop

text \<open>The loop over the bytes of one read: the messages sent, the signal that ends it, and the pending prefix.\<close>

fun prefix_scan :: "bool \<Rightarrow> bytes \<Rightarrow> message list \<times> stdin_signal option \<times> bool" where
  "prefix_scan saw [] = ([], None, saw)"
| "prefix_scan saw (b # bs) =
     (if saw then
        (if b = 100 \<or> b = 68 then ([Detach], Some Signal_Detach, False)
         else if b = 113 \<or> b = 81 then ([Stop], Some Signal_Stop, False)
         else (case prefix_scan False bs of (ms, r, s) \<Rightarrow> (Input [2, b] # ms, r, s)))
      else prefix_scan (b = 2) bs)"

definition stdin_read :: "bool \<Rightarrow> bytes \<Rightarrow> message list \<times> stdin_signal option \<times> bool" where
  "stdin_read saw data =
     (case prefix_scan saw data of
        (ms, Some r, s) \<Rightarrow> (ms, Some r, s)
      | (ms, None, s) \<Rightarrow> (if s then (ms, None, s) else (ms @ [Input data], None, s)))"

text \<open>All reads up to the end of the input (an empty read), after the newline that makes the prompt appear.\<close>

fun stdin_run :: "bool \<Rightarrow> bytes list \<Rightarrow> message list \<times> stdin_signal option" where
  "stdin_run saw [] = ([], None)"
| "stdin_run saw (data # reads) =
     (if data = [] then ([], None)
      else case stdin_read saw data of
             (ms, Some r, s) \<Rightarrow> (ms, Some r)
           | (ms, None, s) \<Rightarrow> (case stdin_run s reads of (ms2, r) \<Rightarrow> (ms @ ms2, r)))"

definition attach_greeting :: "message list" where
  "attach_greeting = [Input [10]]"

text \<open>The task that watches the size of the terminal, four times a second.\<close>

fun resize_watch :: "u16 \<times> u16 \<Rightarrow> (u16 \<times> u16) option list \<Rightarrow> message list" where
  "resize_watch prev [] = []"
| "resize_watch prev (sz # sizes) =
     (case sz of
        Some (cols, rows) \<Rightarrow>
          (if (cols, rows) \<noteq> prev then Resize rows cols # resize_watch (cols, rows) sizes else resize_watch prev sizes)
      | None \<Rightarrow> resize_watch prev sizes)"

datatype exit_reason = Child_Exited | Disconnected | Detached | Stopped

text \<open>The output of the client: what it prints, and why it ends.\<close>

function attach_output :: "bytes \<Rightarrow> bytes list \<times> exit_reason" where
  "attach_output stream =
     (case read_message stream of
        Inl e \<Rightarrow> ([], Disconnected)
      | Inr (Output d, rest) \<Rightarrow> (case attach_output rest of (out, r) \<Rightarrow> (d # out, r))
      | Inr (Exited code, rest) \<Rightarrow> ([], Child_Exited)
      | Inr (m, rest) \<Rightarrow> attach_output rest)"
  by pat_completeness auto
termination
  by (relation "measure length") (auto dest: read_message_less)

declare attach_output.simps [simp del]

text \<open>A message other than a welcome is an error of the attachment.\<close>

definition attach_stream :: "bytes \<Rightarrow> (bytes list \<times> exit_reason) option" where
  "attach_stream stream =
     (case read_message stream of
        Inr (Welcome rows cols, rest) \<Rightarrow> Some (attach_output rest)
      | _ \<Rightarrow> None)"


section \<open>What the clamp does to a stream\<close>

text \<open>
  The sequences of a stream as the code tells them apart: cursor-up with its digits, another sequence with its digits
  and the byte that ends it, if it is there, and single bytes.
\<close>

datatype token = Tok_Up bytes | Tok_Csi bytes "u8 option" | Tok_Byte u8

function tokens :: "bytes \<Rightarrow> token list" where
  "tokens [] = []"
| "tokens (b # r) =
     (if b = 0x1B \<and> r \<noteq> [] \<and> hd r = 91 then
        (let ds = takeWhile ascii_digit (tl r); rest = dropWhile ascii_digit (tl r)
         in if rest \<noteq> [] \<and> hd rest = 65 then Tok_Up ds # tokens (tl rest)
            else Tok_Csi ds (if rest = [] then None else Some (hd rest)) # tokens (drop 1 rest))
      else Tok_Byte b # tokens r)"
  by pat_completeness auto

termination
  by (relation "measure length") (simp_all add: rest_shorter)

declare tokens.simps(2) [simp del]

fun render :: "token \<Rightarrow> bytes" where
  "render (Tok_Up ds) = cursor_up ds"
| "render (Tok_Csi ds t) = [0x1B, 91] @ ds @ (case t of None \<Rightarrow> [] | Some b \<Rightarrow> [b])"
| "render (Tok_Byte b) = [b]"

fun resets :: "token \<Rightarrow> bool" where
  "resets (Tok_Up ds) = False"
| "resets (Tok_Csi ds t) = True"
| "resets (Tok_Byte b) = (b \<noteq> 0x1B \<and> 0x20 \<le> b \<and> b \<noteq> 0x7F)"

fun is_up :: "token \<Rightarrow> bool" where
  "is_up (Tok_Up ds) = True"
| "is_up _ = False"

fun clamp_tokens :: "u64 \<Rightarrow> token list \<Rightarrow> token list" where
  "clamp_tokens c [] = []"
| "clamp_tokens c (Tok_Up ds # ts) =
     (let n = cursor_count ds
      in (if c + n \<le> MAX_CURSOR_UP_ROWS then [Tok_Up ds]
          else if c < MAX_CURSOR_UP_ROWS then [Tok_Up (ascii (show_nat (unat (MAX_CURSOR_UP_ROWS - c))))] else []) @
         clamp_tokens (c + n) ts)"
| "clamp_tokens c (t # ts) = t # clamp_tokens (if resets t then 0 else c) ts"

text \<open>The five ways a stream can begin.\<close>

lemma span_digits:
  "list_all ascii_digit ds \<Longrightarrow> \<not> ascii_digit t \<Longrightarrow> takeWhile ascii_digit (ds @ t # r) = ds"
  "list_all ascii_digit ds \<Longrightarrow> \<not> ascii_digit t \<Longrightarrow> dropWhile ascii_digit (ds @ t # r) = t # r"
  "list_all ascii_digit ds \<Longrightarrow> takeWhile ascii_digit ds = ds"
  "list_all ascii_digit ds \<Longrightarrow> dropWhile ascii_digit ds = []"
  by (induction ds) auto

lemma digit_A [simp]: "\<not> ascii_digit 65"
  by (simp add: ascii_digit_def)

definition starts_csi :: "u8 \<Rightarrow> bytes \<Rightarrow> bool" where
  "starts_csi b r \<longleftrightarrow> b = 0x1B \<and> r \<noteq> [] \<and> hd r = 91"

lemma stream_cases [case_names empty up csi cut byte]:
  assumes "d = [] \<Longrightarrow> thesis"
    and "\<And>ds r. list_all ascii_digit ds \<Longrightarrow> d = cursor_up ds @ r \<Longrightarrow> thesis"
    and "\<And>ds t r. list_all ascii_digit ds \<Longrightarrow> \<not> ascii_digit t \<Longrightarrow> t \<noteq> 65 \<Longrightarrow> d = [0x1B, 91] @ ds @ t # r \<Longrightarrow> thesis"
    and "\<And>ds. list_all ascii_digit ds \<Longrightarrow> d = [0x1B, 91] @ ds \<Longrightarrow> thesis"
    and "\<And>b r. \<not> starts_csi b r \<Longrightarrow> d = b # r \<Longrightarrow> thesis"
  shows thesis
proof (cases d)
  case (Cons b r)
  show thesis
  proof (cases "starts_csi b r")
    case True
    then obtain r2 where r2: "d = [0x1B, 91] @ r2" using Cons by (cases r) (auto simp: starts_csi_def)
    let ?ds = "takeWhile ascii_digit r2"
    have ds: "list_all ascii_digit ?ds" by (auto simp: list_all_iff dest: set_takeWhileD)
    have split: "r2 = ?ds @ dropWhile ascii_digit r2" by simp
    show thesis
    proof (cases "dropWhile ascii_digit r2")
      case Nil
      with split have "r2 = ?ds" by (simp only: append_Nil2)
      then show thesis using assms(4) [OF ds] r2 by simp
    next
      case (Cons t r3)
      then have "\<not> ascii_digit t" by (metis dropWhile_eq_Cons_conv)
      then show thesis using assms(2,3) [OF ds] r2 split Cons by (cases "t = 65") (auto simp: cursor_up_def)
    qed
  qed (use assms(5) Cons in blast)
qed (use assms(1) in blast)

lemma tokens_simps:
  "list_all ascii_digit ds \<Longrightarrow> tokens (cursor_up ds @ r) = Tok_Up ds # tokens r"
  "list_all ascii_digit ds \<Longrightarrow> \<not> ascii_digit t \<Longrightarrow> t \<noteq> 65 \<Longrightarrow> tokens (0x1B # 91 # ds @ t # r) = Tok_Csi ds (Some t) # tokens r"
  "list_all ascii_digit ds \<Longrightarrow> tokens (0x1B # 91 # ds) = [Tok_Csi ds None]"
  "\<not> starts_csi b r \<Longrightarrow> tokens (b # r) = Tok_Byte b # tokens r"
  by (auto simp: tokens.simps(2) span_digits starts_csi_def cursor_up_def Let_def)

lemma clamp_from_simps:
  "list_all ascii_digit ds \<Longrightarrow> clamp_from c (cursor_up ds @ r) =
     emit_up (c + cursor_count ds) (cursor_count ds) ds @ clamp_from (c + cursor_count ds) r"
  "list_all ascii_digit ds \<Longrightarrow> \<not> ascii_digit t \<Longrightarrow> t \<noteq> 65 \<Longrightarrow>
     clamp_from c (0x1B # 91 # ds @ t # r) = 0x1B # 91 # ds @ t # clamp_from 0 r"
  "list_all ascii_digit ds \<Longrightarrow> clamp_from c (0x1B # 91 # ds) = 0x1B # 91 # ds"
  "\<not> starts_csi b r \<Longrightarrow> clamp_from c (b # r) = b # clamp_from (if resets (Tok_Byte b) then 0 else c) r"
  by (auto simp: clamp_from.simps(2) span_digits starts_csi_def cursor_up_def Let_def)

lemma stream_induct [case_names empty up csi cut byte]:
  assumes "P []"
    and "\<And>ds r. list_all ascii_digit ds \<Longrightarrow> P r \<Longrightarrow> P (cursor_up ds @ r)"
    and "\<And>ds t r. list_all ascii_digit ds \<Longrightarrow> \<not> ascii_digit t \<Longrightarrow> t \<noteq> 65 \<Longrightarrow> P r \<Longrightarrow> P ([0x1B, 91] @ ds @ t # r)"
    and "\<And>ds. list_all ascii_digit ds \<Longrightarrow> P ([0x1B, 91] @ ds)"
    and "\<And>b r. \<not> starts_csi b r \<Longrightarrow> P r \<Longrightarrow> P (b # r)"
  shows "P d"
proof (induction d rule: length_induct)
  case (1 d)
  show ?case
  proof (cases d rule: stream_cases)
    case (up ds r)
    then show ?thesis using 1 assms(2) by (simp add: cursor_up_def)
  next
    case (csi ds t r)
    then show ?thesis using 1 assms(3) by simp
  qed (use 1 assms in auto)
qed

lemma emit_up_tokens:
  "emit_up (c + n) n ds = concat (map render
     (if c + n \<le> MAX_CURSOR_UP_ROWS then [Tok_Up ds]
      else if c < MAX_CURSOR_UP_ROWS then [Tok_Up (ascii (show_nat (unat (MAX_CURSOR_UP_ROWS - c))))] else []))"
proof -
  have "c < MAX_CURSOR_UP_ROWS \<Longrightarrow> MAX_CURSOR_UP_ROWS - c > 0" by (simp add: word_less_nat_alt unat_sub word_le_nat_alt)
  then show ?thesis by (auto simp: emit_up_def Let_def)
qed

lemma clamp_from_tokens: "clamp_from c d = concat (map render (clamp_tokens c (tokens d)))"
  by (induction d arbitrary: c rule: stream_induct) (simp_all add: tokens_simps clamp_from_simps emit_up_tokens Let_def)

lemma render_tokens: "concat (map render (tokens d)) = d"
  by (induction d rule: stream_induct) (simp_all add: tokens_simps)

text \<open>
  The rows that the digits of a cursor-up ask for, without a bound and apart from the parser of the code: one if there
  are none, the decimal number they write otherwise. Then the number of rows climbed in one go after each
  cursor-up, starting from \<open>c\<close>.
\<close>

primrec decimal :: "bytes \<Rightarrow> nat" where
  "decimal [] = 0"
| "decimal (b # bs) = (unat b - 48) * 10 ^ length bs + decimal bs"

fun up_rows :: "bytes \<Rightarrow> nat" where
  "up_rows [] = 1"
| "up_rows (b # bs) = decimal (b # bs)"

fun climbs :: "nat \<Rightarrow> token list \<Rightarrow> nat list" where
  "climbs c [] = []"
| "climbs c (Tok_Up ds # ts) = (c + up_rows ds) # climbs (c + up_rows ds) ts"
| "climbs c (t # ts) = climbs (if resets t then 0 else c) ts"

lemma parse_nat_decimal: "parse_nat (of_bytes ds) = decimal ds"
proof -
  have "fold (\<lambda>c n. 10 * n + (of_char c - 48)) (of_bytes ds) a = a * 10 ^ length ds + decimal ds" for a :: nat
  proof (induction ds arbitrary: a)
    case (Cons b ds)
    have "unat b mod 256 = unat b" using unsigned_less [of b, where ?'a = nat] by simp
    then show ?case using Cons by (simp add: of_bytes_def algebra_simps)
  qed (simp add: of_bytes_def)
  then show ?thesis by (simp add: parse_nat_def)
qed

lemma up_rows_eq: "up_rows ds = (if ds = [] then 1 else decimal ds)"
  by (cases ds) simp_all

lemma cursor_count_rows: "up_rows ds < 2 ^ 64 \<Longrightarrow> unat (cursor_count ds) = up_rows ds"
  by (simp add: up_rows_eq cursor_count_def parse_nat_decimal unat_of_nat take_bit_nat_eq_self split: if_splits)

lemma ascii_show:
  "n < 2 ^ 64 \<Longrightarrow> up_rows (ascii (show_nat n)) = n" "list_all ascii_digit (ascii (show_nat n))"
proof -
  have "show_nat n \<noteq> []" by (simp add: show_nat.simps [of n])
  then have "ascii (show_nat n) \<noteq> []" by (simp add: ascii_def)
  then show "n < 2 ^ 64 \<Longrightarrow> up_rows (ascii (show_nat n)) = n"
    using parse_nat_decimal [of "ascii (show_nat n)"] by (simp add: up_rows_eq)
  show "list_all ascii_digit (ascii (show_nat n))"
    using show_nat_digits [of n] by (auto simp: ascii_def list_all_iff is_digit_def ascii_digit_def word_le_nat_alt unat_of_nat take_bit_nat_eq_self)
qed

fun wf_tokens :: "token list \<Rightarrow> bool" where
  "wf_tokens [] = True"
| "wf_tokens (Tok_Up ds # ts) = (list_all ascii_digit ds \<and> wf_tokens ts)"
| "wf_tokens (Tok_Csi ds (Some t) # ts) = (list_all ascii_digit ds \<and> \<not> ascii_digit t \<and> t \<noteq> 65 \<and> wf_tokens ts)"
| "wf_tokens (Tok_Csi ds None # ts) = (list_all ascii_digit ds \<and> ts = [])"
| "wf_tokens (Tok_Byte b # ts) = (b \<noteq> 0x1B \<and> wf_tokens ts)"

lemma tokens_of_wf: "wf_tokens ts \<Longrightarrow> tokens (concat (map render ts)) = ts"
  by (induction ts rule: wf_tokens.induct) (simp_all add: tokens_simps starts_csi_def)

lemma wf_tokens_tokens: "Tok_Byte 0x1B \<notin> set (tokens d) \<Longrightarrow> wf_tokens (tokens d)"
  by (induction d rule: stream_induct) (auto simp: tokens_simps)

lemma wf_clamp_tokens: "wf_tokens ts \<Longrightarrow> wf_tokens (clamp_tokens c ts)"
  by (induction ts arbitrary: c rule: wf_tokens.induct) (auto simp: ascii_show(2) Let_def)

lemma clamp_keeps_others: "filter (Not \<circ> is_up) (clamp_tokens c ts) = filter (Not \<circ> is_up) ts"
  by (induction c ts rule: clamp_tokens.induct) (simp_all add: Let_def)

lemma no_wrap: "unat c + up_rows ds < 2 ^ 64 \<Longrightarrow> unat (c + cursor_count ds) = unat c + up_rows ds"
  by (simp add: cursor_count_rows unat_word_ariths)

lemma clamp_tokens_bound:
  "\<forall>x \<in> set (climbs (unat c) ts). x < 2 ^ 64 \<Longrightarrow> \<forall>x \<in> set (climbs (min 100 (unat c)) (clamp_tokens c ts)). x \<le> 100"
proof (induction c ts rule: clamp_tokens.induct)
  case (2 c ds ts)
  have sum: "unat (c + cursor_count ds) = unat c + up_rows ds"
    using "2.prems" by (intro no_wrap) simp
  have ih: "\<forall>x \<in> set (climbs (min 100 (unat c + up_rows ds)) (clamp_tokens (c + cursor_count ds) ts)). x \<le> 100"
    using 2 by (simp add: sum)
  have rem: "unat (MAX_CURSOR_UP_ROWS - c) = 100 - unat c" if "c < MAX_CURSOR_UP_ROWS"
    using that by (simp add: MAX_CURSOR_UP_ROWS_def word_less_nat_alt unat_sub word_le_nat_alt)
  consider "unat c + up_rows ds \<le> 100" | "100 < unat c + up_rows ds" "unat c < 100" | "100 \<le> unat c" "100 < unat c + up_rows ds"
    by linarith
  then show ?case
  proof cases
    case 1
    then show ?thesis using ih by (simp add: MAX_CURSOR_UP_ROWS_def word_le_nat_alt sum)
  next
    case 2
    then show ?thesis using ih rem
      by (simp add: MAX_CURSOR_UP_ROWS_def word_le_nat_alt word_less_nat_alt sum ascii_show)
  next
    case 3
    then show ?thesis using ih by (simp add: MAX_CURSOR_UP_ROWS_def word_le_nat_alt word_less_nat_alt sum)
  qed
qed (simp_all split: if_splits)

lemma clamp_tokens_id:
  "\<forall>x \<in> set (climbs (unat c) ts). x \<le> 100 \<Longrightarrow> clamp_tokens c ts = ts"
proof (induction c ts rule: clamp_tokens.induct)
  case (2 c ds ts)
  have "unat (c + cursor_count ds) = unat c + up_rows ds"
    using "2.prems" by (intro no_wrap) simp
  then show ?case using 2 by (simp add: MAX_CURSOR_UP_ROWS_def word_le_nat_alt)
qed (auto split: if_splits)

lemma no_escape: "0x1B \<notin> set d \<Longrightarrow> clamp_from c d = d"
  by (induction d arbitrary: c) (auto simp: clamp_from_simps starts_csi_def)

lemma clamp_cursor_up_tokens: "clamp_cursor_up d = concat (map render (clamp_tokens 0 (tokens d)))"
  using no_escape [of d 0] by (simp add: clamp_cursor_up_def clamp_from_tokens)

text \<open>The rows an erasure of several lines climbs are not added up, since the other sequence resets the counter.\<close>

lemma erase_lines_unclamped:
  "clamp_cursor_up (concat (replicate n ([0x1B, 91, 50, 75] @ cursor_up [49]))) =
     concat (replicate n ([0x1B, 91, 50, 75] @ cursor_up [49]))"
proof -
  let ?d = "concat (replicate n ([0x1B, 91, 50, 75] @ cursor_up [49]))"
  let ?ts = "concat (replicate n [Tok_Csi [50] (Some 75), Tok_Up [49]])"
  have dig: "list_all ascii_digit [50]" "list_all ascii_digit [49]" "\<not> ascii_digit 75" by (simp_all add: ascii_digit_def)
  have "wf_tokens ?ts" by (induction n) (use dig in simp_all)
  moreover have d: "?d = concat (map render ?ts)" by (induction n) simp_all
  ultimately have "tokens ?d = ?ts" using tokens_of_wf by metis
  moreover have one: "up_rows [49] = 1" by simp
  have "climbs c ?ts = replicate n 1" for c by (induction n arbitrary: c) (simp_all add: one)
  then have "clamp_tokens 0 ?ts = ?ts" by (intro clamp_tokens_id) auto
  ultimately show ?thesis by (simp only: clamp_cursor_up_tokens d [symmetric])
qed

text \<open>A count that does not fit is taken for one row.\<close>

lemma huge_count_unclamped:
  assumes "list_all ascii_digit ds" and "2 ^ 64 \<le> parse_nat (of_bytes ds)"
  shows "clamp_cursor_up (cursor_up ds) = cursor_up ds"
proof -
  have "cursor_count ds = 1" using assms(2) by (simp add: cursor_count_def)
  moreover have "tokens (cursor_up ds) = [Tok_Up ds]" using tokens_simps(1) [OF assms(1), of "[]"] by simp
  ultimately show ?thesis by (simp add: clamp_cursor_up_tokens MAX_CURSOR_UP_ROWS_def)
qed

text \<open>A zero is counted as it is written, although terminals climb one row for it, so any number of them passes.\<close>

lemma zero_count_unclamped:
  "clamp_cursor_up (concat (replicate n (cursor_up [48]))) = concat (replicate n (cursor_up [48]))"
proof -
  let ?d = "concat (replicate n (cursor_up [48]))" and ?ts = "replicate n (Tok_Up [48])"
  have "wf_tokens ?ts" by (induction n) (simp_all add: ascii_digit_def)
  moreover have d: "?d = concat (map render ?ts)" by (induction n) simp_all
  ultimately have "tokens ?d = ?ts" using tokens_of_wf by metis
  moreover have "climbs 0 ?ts = replicate n 0" by (induction n) simp_all
  then have "clamp_tokens 0 ?ts = ?ts" by (intro clamp_tokens_id) auto
  ultimately show ?thesis by (simp only: clamp_cursor_up_tokens d [symmetric])
qed


section \<open>What the client sends\<close>

fun is_resize :: "message \<Rightarrow> bool" where
  "is_resize (Resize r c) = True"
| "is_resize _ = False"

fun is_input :: "message \<Rightarrow> bool" where
  "is_input (Input bs) = True"
| "is_input _ = False"

definition pty_input :: "client_effect list \<Rightarrow> bytes" where
  "pty_input out = concat (map (\<lambda>e. case e of Pty_Write bs \<Rightarrow> bs | _ \<Rightarrow> []) out)"

definition input_bytes :: "message list \<Rightarrow> bytes" where
  "input_bytes ms = concat (map (\<lambda>m. case m of Input bs \<Rightarrow> bs | _ \<Rightarrow> []) ms)"

lemma prefix_scan_plain: "2 \<notin> set data \<Longrightarrow> prefix_scan False data = ([], None, False)"
  by (induction data) auto

lemma stdin_run_plain:
  assumes "\<forall>data \<in> set reads. data \<noteq> [] \<and> 2 \<notin> set data" and "k \<in> {100, 68, 113, 81}"
  shows "stdin_run False (reads @ [[2, k]]) =
    (map Input reads @ [if k \<in> {113, 81} then Stop else Detach], Some (if k \<in> {113, 81} then Signal_Stop else Signal_Detach))"
  using assms by (induction reads) (auto simp: stdin_read_def prefix_scan_plain)

lemma client_loop_next:
  "message_wf m \<Longrightarrow> client_loop (write_message m @ rest) d =
     (case client_message m d of
        (d2, out, False) \<Rightarrow> (d2, out)
      | (d2, out, True) \<Rightarrow> (case client_loop rest d2 of (d3, out2) \<Rightarrow> (d3, out @ out2)))"
  by (simp add: client_loop.simps [of "write_message m @ rest"] ipc.read_enc)

lemma client_loop_run:
  assumes "\<forall>m \<in> set ms. message_wf m \<and> (is_input m \<or> is_resize m)"
  shows "\<exists>d2 out. (\<forall>rest. client_loop (concat (map write_message ms) @ rest) d =
      (case client_loop rest d2 of (d3, out2) \<Rightarrow> (d3, out @ out2))) \<and>
    pty_input out = input_bytes ms \<and> ds_shutdown d2 = ds_shutdown d"
  using assms
proof (induction ms arbitrary: d)
  case Nil
  then show ?case by (intro exI [of _ d] exI [of _ "[]"]) (auto simp: pty_input_def input_bytes_def)
next
  case (Cons m ms)
  obtain d1 out1 where m: "client_message m d = (d1, out1, True)" "pty_input out1 = input_bytes [m]" "ds_shutdown d1 = ds_shutdown d"
    using Cons.prems by (cases m) (auto simp: client_message_def pty_input_def input_bytes_def)
  obtain d2 out where r: "\<forall>rest. client_loop (concat (map write_message ms) @ rest) d1 =
      (case client_loop rest d2 of (d3, out2) \<Rightarrow> (d3, out @ out2))"
    "pty_input out = input_bytes ms" "ds_shutdown d2 = ds_shutdown d1"
    using Cons.IH [of d1] Cons.prems by auto
  have "client_loop (concat (map write_message (m # ms)) @ rest) d =
      (case client_loop rest d2 of (d3, out2) \<Rightarrow> (d3, (out1 @ out) @ out2))" for rest
    using Cons.prems r(1) by (simp add: client_loop_next m(1) split: prod.split)
  then show ?case
    using m(2,3) r(2,3) by (intro exI [of _ d2] exI [of _ "out1 @ out"]) (simp add: pty_input_def input_bytes_def)
qed

lemma filter_last: "filter P ms = xs @ [f] \<Longrightarrow> \<exists>pre post. ms = pre @ f # post \<and> filter P pre = xs"
proof (induction ms arbitrary: xs)
  case (Cons m ms)
  show ?case
  proof (cases "P m \<and> xs = []")
    case True
    then show ?thesis using Cons.prems by (intro exI [of _ "[]"] exI [of _ ms]) simp
  next
    case False
    then obtain ys where "filter P ms = ys @ [f]" "xs = (if P m then m # ys else ys)"
      using Cons.prems by (cases xs) (auto split: if_splits)
    then obtain pre post where "ms = pre @ f # post" "filter P pre = ys" using Cons.IH by blast
    then show ?thesis using \<open>xs = _\<close> by (intro exI [of _ "m # pre"] exI [of _ post]) simp
  qed
qed simp

text \<open>A prefix that is not followed by a command is sent twice, and one at the end of a read swallows the read.\<close>

lemma prefix_doubles:
  "b \<notin> {2, 100, 68, 113, 81} \<Longrightarrow> stdin_read False [2, b] = ([Input [2, b], Input [2, b]], None, False)"
  by (simp add: stdin_read_def)

lemma prefix_swallows: "2 \<notin> set data \<Longrightarrow> stdin_read False (data @ [2]) = ([], None, True)"
proof -
  assume "2 \<notin> set data"
  then have "prefix_scan False (data @ [2]) = ([], None, True)" by (induction data) auto
  then show ?thesis by (simp add: stdin_read_def)
qed

lemma attach_prints:
  "\<forall>d \<in> set ds. length d < 4 * 1024 * 1024 \<Longrightarrow>
   attach_stream (concat (map write_message (client_greeting rows cols [] @ output_task (map (\<lambda>d. (Output_Data d, True)) ds @ [(Output_Closed, True)])))) =
     Some (ds, Child_Exited)"
proof -
  assume small: "\<forall>d \<in> set ds. length d < 4 * 1024 * 1024"
  have step: "message_wf m \<Longrightarrow> attach_output (write_message m @ rest) =
      (case m of Output d \<Rightarrow> (case attach_output rest of (out, r) \<Rightarrow> (d # out, r)) | Exited c \<Rightarrow> ([], Child_Exited) | _ \<Rightarrow> attach_output rest)"
    for m rest
    by (simp add: attach_output.simps [of "write_message m @ rest"] ipc.read_enc split: message.split)
  have last: "attach_output (write_message (Exited 0)) = ([], Child_Exited)"
    using step [of "Exited 0" "[]"] by (simp add: message_wf_def message_parts_def MAX_MESSAGE_def)
  have "attach_output (concat (map write_message (output_task (map (\<lambda>d. (Output_Data d, True)) ds @ [(Output_Closed, True)])))) =
      (ds, Child_Exited)"
    using small by (induction ds) (simp_all add: last step message_wf_def message_parts_def MAX_MESSAGE_def)
  then show ?thesis
    by (simp add: attach_stream_def client_greeting_def ipc.read_enc message_wf_def message_parts_def MAX_MESSAGE_def)
qed


section \<open>Properties\<close>

text \<open>
  \<^bold>\<open>C32\<close>. If every escape byte of a chunk of output starts a control sequence and the rows climbed in one go stay below
  2^64, a cursor-up without a number counting one row and any other what its digits write, then the clamped chunk never
  climbs more than a hundred rows in one go, differs in its cursor movements only, and a chunk that climbs no more is
  passed on as it is.
\<close>

theorem clamped_output:
  assumes "Tok_Byte 0x1B \<notin> set (tokens d)" and "\<forall>x \<in> set (climbs 0 (tokens d)). x < 2 ^ 64"
  shows "(\<forall>x \<in> set (climbs 0 (tokens (clamp_cursor_up d))). x \<le> 100) \<and>
    filter (Not \<circ> is_up) (tokens (clamp_cursor_up d)) = filter (Not \<circ> is_up) (tokens d) \<and>
    ((\<forall>x \<in> set (climbs 0 (tokens d)). x \<le> 100) \<longrightarrow> clamp_cursor_up d = d)"
proof -
  have "tokens (clamp_cursor_up d) = clamp_tokens 0 (tokens d)"
    by (simp add: clamp_cursor_up_tokens tokens_of_wf wf_clamp_tokens wf_tokens_tokens assms(1))
  moreover have "\<forall>x \<in> set (climbs 0 (clamp_tokens 0 (tokens d))). x \<le> 100"
    using clamp_tokens_bound [of 0 "tokens d"] assms(2) by simp
  moreover have "(\<forall>x \<in> set (climbs 0 (tokens d)). x \<le> 100) \<longrightarrow> clamp_cursor_up d = d"
    using clamp_tokens_id [of 0 "tokens d"] by (simp add: clamp_cursor_up_tokens render_tokens)
  ultimately show ?thesis by (simp add: clamp_keeps_others)
qed

theorem clamped_output_witness:
  "set (climbs 0 (tokens (clamp_cursor_up (cursor_up [57, 48] @ cursor_up [57, 48])))) \<subseteq> {..100}"
proof -
  have d: "list_all ascii_digit [57, 48]" by (simp add: ascii_digit_def)
  have t: "tokens (cursor_up [57, 48] @ cursor_up [57, 48]) = [Tok_Up [57, 48], Tok_Up [57, 48]]"
    using tokens_simps(1) [OF d] tokens_simps(1) [OF d, of "[]"] by simp
  have u: "up_rows [57, 48] = 90" by simp
  have "\<forall>x \<in> set (climbs 0 (tokens (clamp_cursor_up (cursor_up [57, 48] @ cursor_up [57, 48])))). x \<le> 100"
    by (rule conjunct1 [OF clamped_output]) (simp_all add: t u)
  then show ?thesis by blast
qed



end
