(* ===== verification/Daemon.thy ===== *)
theory Daemon
  imports Tunnel Archive
begin

text \<open>
  What \<open>run_daemon\<close> of \<open>src/crates/b3-cli/src/daemon/server.rs\<close> decides when it starts and while it runs: the
  PID file, the configuration refreshed from the server, the instructions and permissions written for the agent,
  the servers to register with, the GPU credentials and their file, the local puller and the main loop. Files,
  processes and the answers of the server are arguments; \<open>None\<close> is a panic.
\<close>

section \<open>The PID file\<close>

definition parse_u32 :: "string \<Rightarrow> nat option" where
  "parse_u32 s =
     (let ds = (if take 1 s = ''+'' then tl s else s)
      in if ds \<noteq> [] \<and> list_all is_digit ds \<and> parse_nat ds < 2 ^ 32 then Some (parse_nat ds) else None)"

text \<open>Whether a daemon runs, and whether the file is left.\<close>

definition is_running :: "(nat \<Rightarrow> bool) \<Rightarrow> read_result \<Rightarrow> bool \<times> bool" where
  "is_running process_exists file =
     (case file of
        Absent \<Rightarrow> (False, False)
      | Unreadable \<Rightarrow> (False, False)
      | Content raw \<Rightarrow>
          (if utf8_valid raw then
             (case parse_u32 (of_bytes (str_trim raw)) of
                Some pid \<Rightarrow> (if process_exists pid then (True, True) else (False, False))
              | None \<Rightarrow> (False, False))
           else (False, False)))"


section \<open>Configuration\<close>

record config =
  cf_agent_email :: string
  cf_api_url :: string
  cf_web_url :: string
  cf_servers :: "string list"
  cf_version :: string

record config_fields =
  ff_agent_email :: string
  ff_api_url :: string
  ff_web_url :: string
  ff_servers :: "string list"

text \<open>The version is stamped; the second component says whether the file is written.\<close>

definition stamp_version :: "string \<Rightarrow> config \<Rightarrow> config \<times> bool" where
  "stamp_version current c = (if cf_version c \<noteq> current then (c\<lparr>cf_version := current\<rparr>, True) else (c, False))"

text \<open>Up to five attempts to reach the server, each a second after the one before.\<close>

definition api_reachable :: "(nat \<Rightarrow> bool) \<Rightarrow> bool" where
  "api_reachable attempt = list_ex attempt [0..<5]"

definition refresh_config :: "config_fields \<Rightarrow> config \<Rightarrow> config \<times> bool" where
  "refresh_config f c =
     (let (c1, b1) = (if ff_agent_email f \<noteq> cf_agent_email c then (c\<lparr>cf_agent_email := ff_agent_email f\<rparr>, True) else (c, False));
          (c2, b2) = (if ff_api_url f \<noteq> cf_api_url c1 then (c1\<lparr>cf_api_url := ff_api_url f\<rparr>, True) else (c1, b1));
          (c3, b3) = (if ff_web_url f \<noteq> cf_web_url c2 then (c2\<lparr>cf_web_url := ff_web_url f\<rparr>, True) else (c2, b2))
      in (if ff_servers f \<noteq> [] \<and> ff_servers f \<noteq> cf_servers c3 then (c3\<lparr>cf_servers := ff_servers f\<rparr>, True) else (c3, b3)))"

text \<open>The servers to register with, the primary one first. \<open>url_host\<close> is \<open>server_domain\<close> of the configuration.\<close>

definition registration_urls :: "config \<Rightarrow> string list" where
  "registration_urls c =
     cf_api_url c #
     filter (\<lambda>u. url_to_domain u \<noteq> url_host (cf_api_url c)) (if cf_servers c \<noteq> [] then cf_servers c else [cf_api_url c])"


section \<open>Instructions and permissions of the agent\<close>

definition version_tag :: "string \<Rightarrow> bytes" where
  "version_tag ver = ascii (''<!-- b3 v'' @ ver @ '' -->'')"

text \<open>The section of \<open>CLAUDE.md\<close>; its text is an argument.\<close>

definition voice_section :: "bytes \<Rightarrow> string \<Rightarrow> bytes" where
  "voice_section body ver = body @ version_tag ver @ [10]"

definition section_heading :: bytes where
  "section_heading = 10 # ascii ''## Babel3 Voice''"

definition old_heading :: bytes where
  "old_heading = ascii ''## HeyCode Voice''"

text \<open>\<open>str::replace\<close>.\<close>

lemma str_find_found: "str_find key s = Some i \<Longrightarrow> i + length key \<le> length s \<and> starts_with (drop i s) key"
proof (induction s arbitrary: i)
  case (Cons b r)
  then show ?case
    by (auto simp: starts_with_def split: if_splits) (metis length_Cons length_take min.bounded_iff order_refl)
qed (auto simp: starts_with_def split: if_splits)

function str_replace :: "bytes \<Rightarrow> bytes \<Rightarrow> bytes \<Rightarrow> bytes" where
  "str_replace old new s =
     (case str_find old s of
        None \<Rightarrow> s
      | Some i \<Rightarrow> (if old = [] then s else take i s @ new @ str_replace old new (drop (i + length old) s)))"
  by pat_completeness auto

termination
  by (relation "measure (\<lambda>(old, new, s). length s)") (auto dest!: str_find_found simp: neq_Nil_conv)

declare str_replace.simps [simp del]

text \<open>The end of a section: the end of the line of the first marker in it, or of the text.\<close>

definition section_end :: "bytes \<Rightarrow> nat \<Rightarrow> nat" where
  "section_end doc start =
     (case List.map_filter (\<lambda>tag. str_find (ascii tag) (drop start doc)) [''<!-- b3 v'', ''<!-- hc v'', ''<!-- heycode v''] of
        [] \<Rightarrow> length doc
      | p # ps \<Rightarrow>
          (let pos = start + foldl min p ps
           in case str_find [10] (drop pos doc) of Some nl \<Rightarrow> pos + nl | None \<Rightarrow> length doc))"

definition replace_section :: "bytes \<Rightarrow> string \<Rightarrow> bytes \<Rightarrow> bytes option" where
  "replace_section body ver doc =
     (case str_find section_heading doc of
        Some start \<Rightarrow>
          Some (take start doc @ voice_section body ver @
            (if section_end doc start < length doc then drop (section_end doc start) doc else []))
      | None \<Rightarrow> None)"

text \<open>
  What the file holds afterwards; \<open>None\<close> leaves it. The migration of an old heading is only written with a
  replaced section: an appended section leaves the text before it alone.
\<close>

definition update_instructions :: "bytes \<Rightarrow> string \<Rightarrow> read_result \<Rightarrow> bytes option" where
  "update_instructions body ver file =
     (let found = (case file of Content raw \<Rightarrow> (if utf8_valid raw then raw else []) | _ \<Rightarrow> []);
          doc = (if str_contains old_heading found then str_replace old_heading (ascii ''## Babel3 Voice'') found else found)
      in if str_contains (version_tag ver) doc then None
         else case replace_section body ver doc of
                Some doc2 \<Rightarrow> Some doc2
              | None \<Rightarrow> Some ((case file of Content raw \<Rightarrow> raw | _ \<Rightarrow> []) @ voice_section body ver))"

text \<open>\<open>settings.json\<close>: the tools of the daemon are allowed. Indexing a value that is neither an object nor null panics.\<close>

definition allow_pattern :: json_tree where
  "allow_pattern = JStr ''mcp__b3__''"

definition read_settings :: "(bytes \<Rightarrow> json_tree option) \<Rightarrow> read_result \<Rightarrow> json_tree" where
  "read_settings parse file =
     (case file of
        Content raw \<Rightarrow> (if utf8_valid raw then (case parse raw of Some v \<Rightarrow> v | None \<Rightarrow> JObj []) else JObj [])
      | _ \<Rightarrow> JObj [])"

definition ensure_allowed :: "json_tree \<Rightarrow> json_tree option" where
  "ensure_allowed settings =
     (case tree_get settings ''permissions'' of
        Some perms \<Rightarrow>
          (case tree_get perms ''allow'' of
             Some allow \<Rightarrow>
               (case allow of
                  JArr vs \<Rightarrow>
                    (if allow_pattern \<in> set vs then Some settings
                     else (case tree_set perms ''allow'' (JArr (vs @ [allow_pattern])) of
                             Some p \<Rightarrow> tree_set settings ''permissions'' p | None \<Rightarrow> None))
                | _ \<Rightarrow> Some settings)
           | None \<Rightarrow>
               (case tree_set perms ''allow'' (JArr [allow_pattern]) of
                  Some p \<Rightarrow> tree_set settings ''permissions'' p | None \<Rightarrow> None))
      | None \<Rightarrow> tree_set settings ''permissions'' (JObj [(''allow'', JArr [allow_pattern])]))"

definition claude_args :: "string list \<Rightarrow> string list" where
  "claude_args args = (if ''--channels'' \<in> set args then args else args @ [''--channels'', ''plugin:b3''])"


section \<open>GPU credentials\<close>

text \<open>
  Environment variables. \<open>set_var\<close> panics if the name is empty, has an equals sign or a NUL, or the value has a NUL.
\<close>

type_synonym environment = "bytes \<Rightarrow> bytes option"

definition env_get :: "environment \<Rightarrow> bytes \<Rightarrow> bytes" where
  "env_get env k = (case env k of Some v \<Rightarrow> v | None \<Rightarrow> [])"

definition set_var :: "bytes \<Rightarrow> bytes \<Rightarrow> environment \<Rightarrow> environment option" where
  "set_var k v env = (if k = [] \<or> 61 \<in> set k \<or> 0 \<in> set k \<or> 0 \<in> set v then None else Some (env(k \<mapsto> v)))"

text \<open>\<open>str::lines\<close>.\<close>

function str_lines :: "bytes \<Rightarrow> bytes list" where
  "str_lines s =
     (if s = [] then []
      else (let line = takeWhile (\<lambda>b. b \<noteq> 10) s
            in (if line \<noteq> [] \<and> last line = 13 \<and> 10 \<in> set s then butlast line else line) # str_lines (drop (Suc (length line)) s)))"
  by pat_completeness auto
termination
  by (relation "measure length") auto

declare str_lines.simps [simp del]

definition load_env_line :: "bytes \<Rightarrow> environment \<Rightarrow> environment option" where
  "load_env_line raw env =
     (let line = str_trim raw
      in if line = [] \<or> hd line = 35 then Some env
         else case str_find [61] line of
                None \<Rightarrow> Some env
              | Some i \<Rightarrow>
                  (let key = str_trim (take i line); val = str_trim (drop (i + 1) line)
                   in if val \<noteq> [] \<and> env_get env key = [] then set_var key val env else Some env))"

fun load_env_lines :: "bytes list \<Rightarrow> environment \<Rightarrow> environment option" where
  "load_env_lines [] env = Some env"
| "load_env_lines (l # ls) env = (case load_env_line l env of None \<Rightarrow> None | Some env2 \<Rightarrow> load_env_lines ls env2)"

definition API_KEY :: bytes where "API_KEY = ascii ''RUNPOD_API_KEY''"
definition GPU_ID :: bytes where "GPU_ID = ascii ''RUNPOD_GPU_ID''"
definition LOCAL_URL :: bytes where "LOCAL_URL = ascii ''LOCAL_GPU_URL''"
definition LOCAL_TOKEN :: bytes where "LOCAL_TOKEN = ascii ''LOCAL_GPU_TOKEN''"

definition missing_credentials :: "environment \<Rightarrow> bool" where
  "missing_credentials env \<longleftrightarrow> env_get env API_KEY = [] \<or> env_get env GPU_ID = []"

definition load_env_file :: "read_result \<Rightarrow> environment \<Rightarrow> environment option" where
  "load_env_file file env =
     (if missing_credentials env then
        (case file of
           Content raw \<Rightarrow> (if utf8_valid raw then load_env_lines (str_lines raw) env else Some env)
         | _ \<Rightarrow> Some env)
      else Some env)"

definition env_line :: "bytes \<Rightarrow> bytes \<Rightarrow> bytes" where
  "env_line k v = k @ [61] @ v @ [10]"

text \<open>What is written for the next start; nothing for an empty text.\<close>

definition env_file :: "environment \<Rightarrow> bytes" where
  "env_file env =
     (if env_get env GPU_ID \<noteq> [] \<and> env_get env API_KEY \<noteq> []
      then env_line GPU_ID (env_get env GPU_ID) @ env_line API_KEY (env_get env API_KEY) else []) @
     (if env_get env LOCAL_URL \<noteq> [] then env_line LOCAL_URL (env_get env LOCAL_URL) else []) @
     (if env_get env LOCAL_TOKEN \<noteq> [] then env_line LOCAL_TOKEN (env_get env LOCAL_TOKEN) else [])"

definition strip_suffix :: "bytes \<Rightarrow> bytes \<Rightarrow> bytes option" where
  "strip_suffix p s =
     (if length p \<le> length s \<and> drop (length s - length p) s = p then Some (take (length s - length p) s) else None)"

definition set_if :: "bool \<Rightarrow> bytes \<Rightarrow> bytes \<Rightarrow> environment \<Rightarrow> environment option" where
  "set_if b k v env = (if b then set_var k v env else Some env)"

text \<open>The answer of \<open>/api/gpu/config\<close>: the environment, and the file to write, if any.\<close>

definition fetch_gpu_config :: "'v json_lib \<Rightarrow> 'v \<Rightarrow> environment \<Rightarrow> (environment \<times> bytes option) option" where
  "fetch_gpu_config J body env =
     (if \<not> missing_credentials env \<or> Option.bind (json_get J body ''configured'') (json_bool J) \<noteq> Some True then Some (env, None)
      else
        (let token = get_str J body ''gpu_token'';
             gpu_id = Option.bind (get_str J body ''gpu_url'')
               (\<lambda>url. Option.bind (strip_prefix (ascii ''https://api.runpod.ai/v2/'') (ascii url)) (strip_suffix (ascii ''/runsync'')));
             url = get_str J body ''local_gpu_url''; local_token = get_str J body ''local_gpu_token'';
             text_of = (\<lambda>s. case s of Some t \<Rightarrow> ascii t | None \<Rightarrow> [])
         in Option.bind (set_if (token \<noteq> None) API_KEY (text_of token) env) (\<lambda>e1.
            Option.bind (set_if (gpu_id \<noteq> None) GPU_ID (case gpu_id of Some i \<Rightarrow> i | None \<Rightarrow> []) e1) (\<lambda>e2.
            Option.bind (set_if (text_of url \<noteq> []) LOCAL_URL (text_of url) e2) (\<lambda>e3.
            Option.bind (set_if (text_of local_token \<noteq> []) LOCAL_TOKEN (text_of local_token) e3) (\<lambda>e4.
            Some (e4, if env_file e4 \<noteq> [] then Some (env_file e4) else None)))))))"

text \<open>The refresh of the tunnel's address, every minute.\<close>

definition refresh_gpu_url :: "'v json_lib \<Rightarrow> 'v \<Rightarrow> environment \<Rightarrow> environment option" where
  "refresh_gpu_url J body env =
     (case get_str J body ''local_gpu_url'' of
        Some url \<Rightarrow> (if url \<noteq> [] \<and> ascii url \<noteq> env_get env LOCAL_URL then set_var LOCAL_URL (ascii url) env else Some env)
      | None \<Rightarrow> Some env)"


section \<open>Running\<close>

text \<open>The local puller: what it writes to the PTY and the sizes it applies, with whether a resize succeeds.\<close>

datatype puller_effect = Write_Pty string | Size_Pty u16 u16

definition local_puller_step :: "bool \<Rightarrow> agent_event \<Rightarrow> puller_effect list" where
  "local_puller_step resize_ok e =
     (case e of
        Pty_Input data \<Rightarrow> (if data = [CHR 0x1B, CHR ''['', CHR ''I''] \<or> data = [CHR 0x1B, CHR ''['', CHR ''O''] then [] else [Write_Pty data])
      | Pty_Resize rows cols \<Rightarrow> (if resize_ok then [Size_Pty rows cols] else [])
      | _ \<Rightarrow> [])"

fun local_puller :: "(event_recv \<times> bool) list \<Rightarrow> puller_effect list" where
  "local_puller [] = []"
| "local_puller ((Event e, ok) # rs) = local_puller_step ok e @ local_puller rs"
| "local_puller ((Lagged n, ok) # rs) = local_puller rs"
| "local_puller ((Closed, ok) # rs) = []"

text \<open>The main loop: the clients served, and whether it ended. A change of the channel ends it when it holds true.\<close>

datatype main_event = Accepted nat | Accept_Error | Shutdown_Changed bool | Ctrl_C

fun main_loop :: "main_event list \<Rightarrow> nat list \<times> bool" where
  "main_loop [] = ([], False)"
| "main_loop (e # es) =
     (case e of
        Accepted i \<Rightarrow> (case main_loop es of (cs, ended) \<Rightarrow> (i # cs, ended))
      | Accept_Error \<Rightarrow> main_loop es
      | Shutdown_Changed b \<Rightarrow> (if b then ([], True) else main_loop es)
      | Ctrl_C \<Rightarrow> ([], True))"


section \<open>Credentials survive a restart\<close>

text \<open>A value that a line of the file can carry.\<close>

definition env_value :: "bytes \<Rightarrow> bool" where
  "env_value v \<longleftrightarrow> v \<noteq> [] \<and> (\<forall>b \<in> set v. 33 \<le> b \<and> b \<le> 126)"

lemma takeWhile_line: "10 \<notin> set l \<Longrightarrow> takeWhile (\<lambda>b. b \<noteq> 10) (l @ 10 # r) = l"
  by (induction l) auto

lemma str_lines_line:
  assumes "10 \<notin> set l" and "l \<noteq> []" and "last l \<noteq> 13"
  shows "str_lines (l @ 10 # r) = l # str_lines r"
proof -
  have "drop (Suc (length l)) (l @ 10 # r) = r" by simp
  then show ?thesis
    unfolding str_lines.simps [of "l @ 10 # r"] by (simp add: takeWhile_line [OF assms(1)] assms(3) Let_def)
qed

lemma str_lines_Nil [simp]: "str_lines [] = []"
  by (simp add: str_lines.simps)

text \<open>Printable ASCII has no white space to trim.\<close>

lemma trim_printable: "\<forall>b \<in> set s. 33 \<le> b \<and> b \<le> 126 \<Longrightarrow> str_trim s = s"
proof -
  assume a: "\<forall>b \<in> set s. 33 \<le> b \<and> b \<le> 126"
  then have "\<forall>b \<in> set s. 33 \<le> b \<and> b \<le> 0x7F" by (auto simp: word_le_nat_alt)
  moreover from this have "strip_seqs (map rev white_space) (rev s) = rev s" by (intro strip_ascii [OF ws_heads(2)]) simp
  ultimately show ?thesis unfolding str_trim_def by (simp add: strip_ascii [OF ws_heads(1)])
qed

definition env_key :: "bytes \<Rightarrow> bool" where
  "env_key k \<longleftrightarrow> k \<noteq> [] \<and> hd k \<noteq> 35 \<and> list_all (\<lambda>b. 33 \<le> b \<and> b \<le> 126 \<and> b \<noteq> 61) k"

lemma env_keys [simp]: "env_key API_KEY" "env_key GPU_ID" "env_key LOCAL_URL" "env_key LOCAL_TOKEN"
  by code_simp+

lemma keys_distinct [simp]:
  "API_KEY \<noteq> GPU_ID" "API_KEY \<noteq> LOCAL_URL" "API_KEY \<noteq> LOCAL_TOKEN" "GPU_ID \<noteq> LOCAL_URL" "GPU_ID \<noteq> LOCAL_TOKEN" "LOCAL_URL \<noteq> LOCAL_TOKEN"
  "GPU_ID \<noteq> API_KEY" "LOCAL_URL \<noteq> API_KEY" "LOCAL_TOKEN \<noteq> API_KEY" "LOCAL_URL \<noteq> GPU_ID" "LOCAL_TOKEN \<noteq> GPU_ID" "LOCAL_TOKEN \<noteq> LOCAL_URL"
  by (simp_all add: API_KEY_def GPU_ID_def LOCAL_URL_def LOCAL_TOKEN_def ascii_def)

lemma load_env_line_var:
  assumes "env_key k" and "env_value v" and "env_get env k = []"
  shows "load_env_line (k @ [61] @ v) env = Some (env(k \<mapsto> v))"
proof -
  have k: "k \<noteq> []" "hd k \<noteq> 35" "61 \<notin> set k" "\<forall>b \<in> set k. 33 \<le> b \<and> b \<le> 126"
    using assms(1) by (auto simp: env_key_def list_all_iff)
  have v: "v \<noteq> []" "\<forall>b \<in> set v. 33 \<le> b \<and> b \<le> 126" using assms(2) by (auto simp: env_value_def)
  have "\<forall>b \<in> set (k @ [61] @ v). 33 \<le> b \<and> b \<le> (126 :: u8)" using k(4) v(2) by auto
  then have line: "str_trim (k @ [61] @ v) = k @ [61] @ v" by (rule trim_printable)
  have "0 \<notin> set k" "0 \<notin> set v" using k(4) v(2) by auto
  then show ?thesis
    unfolding load_env_line_def line
    using k v assms(3) str_find_first [of 61 k v]
    by (simp add: Let_def trim_printable set_var_def)
qed

lemma load_env_next:
  assumes "env_key k" and "env_value v" and "env_get env k = []"
  shows "load_env_lines (str_lines (env_line k v @ r)) env = load_env_lines (str_lines r) (env(k \<mapsto> v))"
proof -
  have k: "10 \<notin> set k" using assms(1) by (auto simp: env_key_def list_all_iff)
  have "33 \<le> last v" using assms(2) by (simp add: env_value_def)
  then have last: "last v \<noteq> 13" by auto
  have v: "10 \<notin> set v" "v \<noteq> []" using assms(2) by (auto simp: env_value_def)
  have "str_lines (env_line k v @ r) = (k @ [61] @ v) # str_lines r"
    using str_lines_line [of "k @ [61] @ v" r] k v last by (simp add: env_line_def)
  then show ?thesis using load_env_line_var [OF assms] by simp
qed

lemma env_line_ascii: "env_key k \<Longrightarrow> env_value v \<Longrightarrow> list_all (\<lambda>b. b \<le> 0x7F) (env_line k v)"
  by (auto simp: env_line_def env_key_def env_value_def list_all_iff word_le_nat_alt)

text \<open>A value with a line break adds a variable of the server's choice to the file.\<close>

lemma env_line_injection: "env_line k (v @ [10] @ k2 @ [61] @ v2) = env_line k v @ env_line k2 v2"
  by (simp add: env_line_def)

lemma blank_name_panics:
  assumes "env_get env [] = []"
  shows "load_env_line (ascii ''=x'') env = None"
proof -
  have "str_trim (ascii ''=x'') = ascii ''=x''" "str_find [61] (ascii ''=x'') = Some 0" "str_trim (take 0 (ascii ''=x'')) = []"
    "str_trim (drop (0 + 1) (ascii ''=x'')) = ascii ''x''" by code_simp+
  moreover have "ascii ''=x'' \<noteq> []" "hd (ascii ''=x'') \<noteq> 35" "ascii ''x'' \<noteq> []" by code_simp+
  ultimately show ?thesis using assms by (simp add: load_env_line_def Let_def set_var_def)
qed


section \<open>Files that are updated\<close>

lemma str_contains_append: "str_contains key (a @ key @ b)"
proof (induction a)
  case Nil
  show ?case by (cases key; cases b) (auto simp: str_contains_def starts_with_def)
qed (auto simp: str_contains_def)

lemma instructions_idempotent:
  assumes "update_instructions body ver file = Some doc" and "utf8_valid doc" and "\<not> str_contains old_heading doc"
  shows "update_instructions body ver (Content doc) = None"
proof -
  have "replace_section body ver d = Some x \<Longrightarrow> \<exists>a b. x = a @ voice_section body ver @ b" for d x
    unfolding replace_section_def by (auto split: option.splits)
  moreover have "(\<exists>d. replace_section body ver d = Some doc) \<or> (\<exists>r. doc = r @ voice_section body ver)"
    using assms(1) unfolding update_instructions_def Let_def by (simp split: if_splits option.splits) blast+
  ultimately have "\<exists>a b. doc = a @ voice_section body ver @ b" by (metis append_Nil2)
  then obtain a b where "doc = (a @ body) @ version_tag ver @ [10] @ b" by (auto simp: voice_section_def)
  then have "str_contains (version_tag ver) doc" using str_contains_append by blast
  then show ?thesis using assms(2,3) by (simp add: update_instructions_def)
qed

lemma tree_get_set: "tree_set v k x = Some v2 \<Longrightarrow> tree_get v2 k2 = (if k2 = k then Some x else tree_get v k2)"
  by (auto simp: tree_set_def tree_get_def split: json_tree.splits)

text \<open>What the update leaves in place: every other key, and the pattern among the allowed ones if these are a list.\<close>

lemma permissions_allowed:
  assumes "ensure_allowed s = Some s2"
  shows "k \<noteq> ''permissions'' \<Longrightarrow> tree_get s2 k = tree_get s k"
    and "\<exists>p v. tree_get s2 ''permissions'' = Some p \<and> tree_get p ''allow'' = Some v \<and>
      (case v of JArr vs \<Rightarrow> allow_pattern \<in> set vs | _ \<Rightarrow> s2 = s)"
proof -
  have new: "tree_get q ''allow'' = Some (JArr vs)" if "tree_set p ''allow'' (JArr vs) = Some q" for p q vs
    using tree_get_set [OF that] by simp
  have put: "tree_get s2 ''permissions'' = Some q" "k \<noteq> ''permissions'' \<Longrightarrow> tree_get s2 k = tree_get s k"
    if "tree_set s ''permissions'' q = Some s2" for q k
    using tree_get_set [OF that] by simp_all
  consider (kept) p v where "s2 = s" "tree_get s ''permissions'' = Some p" "tree_get p ''allow'' = Some v"
      "\<forall>vs. v = JArr vs \<longrightarrow> allow_pattern \<in> set vs"
    | (set) q vs where "tree_set s ''permissions'' q = Some s2" "tree_get q ''allow'' = Some (JArr vs)" "allow_pattern \<in> set vs"
  proof (cases "tree_get s ''permissions''")
    case None
    then have "tree_set s ''permissions'' (JObj [(''allow'', JArr [allow_pattern])]) = Some s2"
      using assms by (simp add: ensure_allowed_def)
    then show thesis by (rule set [where vs = "[allow_pattern]"]) (simp_all add: tree_get_def)
  next
    case (Some p)
    show thesis
    proof (cases "tree_get p ''allow''")
      case None
      then obtain q where q: "tree_set p ''allow'' (JArr [allow_pattern]) = Some q" "tree_set s ''permissions'' q = Some s2"
        using assms Some by (auto simp: ensure_allowed_def split: option.splits)
      show thesis by (rule set [OF q(2) new [OF q(1)]]) simp
    next
      case allow: (Some v)
      show thesis
      proof (cases "\<exists>vs. v = JArr vs \<and> allow_pattern \<notin> set vs")
        case True
        then obtain vs q where q: "tree_set p ''allow'' (JArr (vs @ [allow_pattern])) = Some q" "tree_set s ''permissions'' q = Some s2"
          using assms Some allow by (auto simp: ensure_allowed_def split: option.splits)
        show thesis by (rule set [OF q(2) new [OF q(1)]]) simp
      next
        case False
        then have "s2 = s" using assms Some allow by (cases v) (auto simp: ensure_allowed_def)
        then show thesis using kept [OF _ Some allow] False by blast
      qed
    qed
  qed
  then show "k \<noteq> ''permissions'' \<Longrightarrow> tree_get s2 k = tree_get s k"
    and "\<exists>p v. tree_get s2 ''permissions'' = Some p \<and> tree_get p ''allow'' = Some v \<and>
      (case v of JArr vs \<Rightarrow> allow_pattern \<in> set vs | _ \<Rightarrow> s2 = s)"
    by (cases; auto simp: put split: json_tree.split; fail)+
qed

lemma settings_panic: "ensure_allowed (JArr vs) = None" "ensure_allowed (JObj [(''permissions'', JStr p)]) = None"
  by (simp_all add: ensure_allowed_def tree_get_def tree_set_def)

lemma refresh_takes_fields:
  "fst (refresh_config f c) = \<lparr>cf_agent_email = ff_agent_email f, cf_api_url = ff_api_url f, cf_web_url = ff_web_url f,
     cf_servers = (if ff_servers f = [] then cf_servers c else ff_servers f), cf_version = cf_version c\<rparr>"
  "snd (refresh_config f c) \<longleftrightarrow> fst (refresh_config f c) \<noteq> c"
  by (cases c; auto simp: refresh_config_def Let_def split: if_splits)+

section \<open>Properties\<close>

lemma env_get_upd [simp]: "env_get (env(k \<mapsto> v)) k2 = (if k2 = k then v else env_get env k2)"
  by (simp add: env_get_def)

text \<open>
  The credentials written after they were fetched are read back at the next start: if the four values are
  absent or printable without white space, and the environment has none of its own, loading the file gives each
  of them again, the pair for RunPod if both were there, and changes no other variable.
\<close>

theorem credentials_survive:
  assumes vals: "\<forall>k \<in> {API_KEY, GPU_ID, LOCAL_URL, LOCAL_TOKEN}. env_get env k = [] \<or> env_value (env_get env k)"
    and clean: "\<forall>k \<in> {API_KEY, GPU_ID, LOCAL_URL, LOCAL_TOKEN}. env_get env0 k = []"
  shows "\<exists>env2. load_env_file (Content (env_file env)) env0 = Some env2 \<and>
    (\<forall>k \<in> {LOCAL_URL, LOCAL_TOKEN}. env_get env2 k = env_get env k) \<and>
    (\<forall>k \<in> {API_KEY, GPU_ID}. env_get env2 k = (if missing_credentials env then [] else env_get env k)) \<and>
    (\<forall>k. k \<notin> {API_KEY, GPU_ID, LOCAL_URL, LOCAL_TOKEN} \<longrightarrow> env2 k = env0 k)"
proof -
  have "list_all (\<lambda>b. b \<le> 0x7F) (env_file env)"
    using vals env_line_ascii by (auto simp: env_file_def)
  then have "load_env_file (Content (env_file env)) env0 = load_env_lines (str_lines (env_file env)) env0"
    using clean by (simp add: load_env_file_def missing_credentials_def utf8_valid_ascii)
  moreover have "\<exists>env2. load_env_lines (str_lines (env_file env)) env0 = Some env2 \<and>
    (\<forall>k \<in> {LOCAL_URL, LOCAL_TOKEN}. env_get env2 k = env_get env k) \<and>
    (\<forall>k \<in> {API_KEY, GPU_ID}. env_get env2 k = (if missing_credentials env then [] else env_get env k)) \<and>
    (\<forall>k. k \<notin> {API_KEY, GPU_ID, LOCAL_URL, LOCAL_TOKEN} \<longrightarrow> env2 k = env0 k)"
    using vals clean load_env_next [where r = "[]"]
    by (cases "missing_credentials env"; cases "env_get env LOCAL_URL = []"; cases "env_get env LOCAL_TOKEN = []")
      (auto simp: env_file_def missing_credentials_def load_env_next)
  ultimately show ?thesis by simp
qed

theorem credentials_survive_witness:
  "\<exists>env2. load_env_file (Content (env_file ((\<lambda>_. None)(LOCAL_URL \<mapsto> [120])))) (\<lambda>_. None) = Some env2 \<and> env_get env2 LOCAL_URL = [120]"
proof -
  have "\<forall>k \<in> {API_KEY, GPU_ID, LOCAL_URL, LOCAL_TOKEN}.
      env_get ((\<lambda>_. None)(LOCAL_URL \<mapsto> [120])) k = [] \<or> env_value (env_get ((\<lambda>_. None)(LOCAL_URL \<mapsto> [120])) k)"
    by (simp add: env_get_def env_value_def)
  from credentials_survive [OF this, of "\<lambda>_. None"] show ?thesis by (auto simp: env_get_def)
qed

text \<open>
  If the address of the primary server has no port, no peer loop that runs is one for the primary server's
  own host, after any sequence of attempts; and once a registration has succeeded there is one for each other server
  of the configuration.
\<close>

theorem primary_is_no_peer:
  assumes "url_to_domain (cf_api_url c) = url_host (cf_api_url c)"
    and "primary_run (registration_urls c) as registration_new = (Some g, out)"
  shows "url_to_domain (cf_api_url c) \<notin> snd ` set (running out) \<and>
    (Control_Ended \<in> set as \<longrightarrow>
      snd ` set (running out) = url_to_domain ` set (cf_servers c) - {url_to_domain (cf_api_url c)})"
proof -
  have "snd ` set (running out) = (if Control_Ended \<in> set as then url_to_domain ` set (tl (registration_urls c)) else {})"
    using primary_run_ok [OF assms(2)] by (simp flip: set_map)
  then show ?thesis using assms(1) by (auto simp: registration_urls_def)
qed

theorem primary_is_no_peer_witness:
  "ascii ''b'' \<in> snd ` set (running [Send_Register, Spawn_Peer 0 (ascii ''b''), Run_Control])"
proof -
  let ?c = "\<lparr>cf_agent_email = [], cf_api_url = ''https://a'', cf_web_url = [], cf_servers = [''https://a'', ''https://b''], cf_version = []\<rparr>"
  have u: "url_to_domain ''https://a'' = ascii ''a''" "url_to_domain ''https://b'' = ascii ''b''" "url_host ''https://a'' = ascii ''a''"
    "ascii ''b'' \<noteq> ascii ''a''" by code_simp+
  have "primary_run (registration_urls ?c) [Control_Ended] registration_new =
      (Some \<lparr>rg_backoff = 1, rg_peers = [(0, ascii ''b'')], rg_next = 1\<rparr>, [Send_Register, Spawn_Peer 0 (ascii ''b''), Run_Control])"
    using u(4) by (simp add: registration_urls_def u primary_turn_def registration_new_def)
  from primary_is_no_peer [OF _ this] show ?thesis using u(4) by (simp add: u)
qed

text \<open>With a port the two readings of the address differ, and the primary becomes a peer of itself.\<close>

lemma primary_peers_itself:
  "registration_urls \<lparr>cf_agent_email = e, cf_api_url = ''http://h:80'', cf_web_url = w, cf_servers = [''http://h:80''], cf_version = v\<rparr> =
     [''http://h:80'', ''http://h:80'']"
proof -
  have "url_to_domain ''http://h:80'' \<noteq> url_host ''http://h:80''" by code_simp
  then show ?thesis by (simp add: registration_urls_def)
qed

end
