(* ===== verification/Gpu_Client.thy ===== *)
theory Gpu_Client
  imports Daemon Tts
begin

text \<open>
  \<open>src/crates/b3-cli/src/daemon/gpu_client.rs\<close> and what \<open>web.rs\<close> does with it: speech generated by the daemon
  itself. The answers of the servers, as far as the code looks at them, and the clock (in milliseconds) are
  arguments; the requests sent are returned with the address and the token they carry.
\<close>

datatype 'v http_reply = Reply_Failed | Reply nat "'v option"

definition is_success :: "nat \<Rightarrow> bool" where
  "is_success status \<longleftrightarrow> 200 \<le> status \<and> status < 300"

record gpu_request =
  gr_url :: string
  gr_token :: "string option"

datatype gpu_error =
    No_Backend
  | Bad_Json
  | Run_Failed nat
  | Missing_Id
  | Request_Failed
  | Timed_Out
  | No_Audio
  | Stitch_Failed

record gpu_config =
  gc_local_url :: "string option"
  gc_local_token :: string
  gc_runpod_url :: "string option"
  gc_runpod_token :: string

definition env_some :: "environment \<Rightarrow> bytes \<Rightarrow> string option" where
  "env_some env k = (if env_get env k = [] then None else Some (of_bytes (env_get env k)))"

definition gpu_config_from_env :: "environment \<Rightarrow> gpu_config" where
  "gpu_config_from_env env =
     \<lparr>gc_local_url = env_some env LOCAL_URL, gc_local_token = of_bytes (env_get env LOCAL_TOKEN),
      gc_runpod_url = map_option (\<lambda>i. ''https://api.runpod.ai/v2/'' @ i) (env_some env GPU_ID),
      gc_runpod_token = of_bytes (env_get env API_KEY)\<rparr>"

definition CACHE_TTL :: nat where "CACHE_TTL = 300000"
definition MAX_POLL_TIME :: nat where "MAX_POLL_TIME = 300000"

definition bearer_if :: "string \<Rightarrow> string option" where
  "bearer_if token = (if token = [] then None else Some token)"


section \<open>Submitting a job\<close>

text \<open>The fallback, and the job's id with the address to poll.\<close>

definition submit_runpod ::
  "'v json_lib \<Rightarrow> gpu_config \<Rightarrow> 'v http_reply \<Rightarrow> gpu_request list \<times> (gpu_error + string \<times> string)" where
  "submit_runpod J gcf reply =
     (case gc_runpod_url gcf of
        None \<Rightarrow> ([], Inl No_Backend)
      | Some url \<Rightarrow>
          ([\<lparr>gr_url = url @ ''/run'', gr_token = bearer_if (gc_runpod_token gcf)\<rparr>],
           case reply of
             Reply_Failed \<Rightarrow> Inl Request_Failed
           | Reply status body \<Rightarrow>
               (if \<not> is_success status then Inl (Run_Failed status)
                else case body of
                       None \<Rightarrow> Inl Bad_Json
                     | Some v \<Rightarrow> (case get_str J v ''id'' of None \<Rightarrow> Inl Missing_Id | Some i \<Rightarrow> Inr (i, url)))))"

definition submit_job ::
  "'v json_lib \<Rightarrow> gpu_config \<Rightarrow> 'v http_reply \<Rightarrow> 'v http_reply \<Rightarrow> gpu_request list \<times> (gpu_error + string \<times> string)" where
  "submit_job J gcf local_reply runpod_reply =
     (case gc_local_url gcf of
        None \<Rightarrow> submit_runpod J gcf runpod_reply
      | Some url \<Rightarrow>
          (let request = \<lparr>gr_url = url @ ''/run'', gr_token = bearer_if (gc_local_token gcf)\<rparr>;
               fallback = (case submit_runpod J gcf runpod_reply of (rs, r) \<Rightarrow> (request # rs, r))
           in case local_reply of
                Reply_Failed \<Rightarrow> fallback
              | Reply status body \<Rightarrow>
                  (if \<not> is_success status then fallback
                   else case body of
                          None \<Rightarrow> ([request], Inl Bad_Json)
                        | Some v \<Rightarrow> (case get_str J v ''id'' of Some i \<Rightarrow> ([request], Inr (i, url)) | None \<Rightarrow> fallback))))"


section \<open>Collecting the audio\<close>

text \<open>A chunk goes to its index; the list grows as far as needed.\<close>

definition place_chunk :: "audio_chunk \<Rightarrow> bytes option list \<Rightarrow> bytes option list" where
  "place_chunk c all =
     (let i = unat (chunk_index c)
      in (all @ replicate (Suc i - length all) None)[i := Some (audio_bytes c)])"

record poll_state =
  ps_chunks :: "bytes option list"
  ps_done :: bool
  ps_empty :: u32

definition poll_new :: poll_state where
  "poll_new = \<lparr>ps_chunks = [], ps_done = False, ps_empty = 0\<rparr>"

text \<open>The answer of the stream endpoint; an answer that is not JSON ends the generation.\<close>

definition poll_answer :: "'v json_lib \<Rightarrow> 'v http_reply \<Rightarrow> poll_state \<Rightarrow> poll_state option" where
  "poll_answer J reply s =
     (case reply of
        Reply_Failed \<Rightarrow> Some (s\<lparr>ps_empty := ps_empty s + 1\<rparr>)
      | Reply status body \<Rightarrow>
          (if \<not> is_success status then Some (s\<lparr>ps_empty := ps_empty s + 1\<rparr>)
           else case body of
                  None \<Rightarrow> None
                | Some v \<Rightarrow>
                    (let result = parse_stream_response J v;
                         s1 = (if spr_chunks result \<noteq> []
                               then s\<lparr>ps_empty := 0, ps_chunks := fold place_chunk (spr_chunks result) (ps_chunks s)\<rparr>
                               else s\<lparr>ps_empty := ps_empty s + 1\<rparr>)
                     in Some (if spr_done result then s1\<lparr>ps_done := True\<rparr> else s1))))"

definition status_ended :: "'v json_lib \<Rightarrow> 'v http_reply \<Rightarrow> bool" where
  "status_ended J reply =
     (case reply of
        Reply status (Some v) \<Rightarrow> get_str J v ''status'' \<in> {Some ''COMPLETED'', Some ''FAILED'', Some ''CANCELLED''}
      | _ \<Rightarrow> False)"

definition asks_status :: "poll_state \<Rightarrow> bool" where
  "asks_status s \<longleftrightarrow> ps_empty s \<ge> 10 \<and> ps_empty s mod 10 = 0"

definition poll_token :: "gpu_config \<Rightarrow> string \<Rightarrow> string option" where
  "poll_token gcf base =
     (if str_contains (ascii ''runpod.ai'') (ascii base) \<and> gc_runpod_token gcf \<noteq> [] then Some (gc_runpod_token gcf)
      else if \<not> str_contains (ascii ''runpod.ai'') (ascii base) \<and> gc_local_token gcf \<noteq> [] then Some (gc_local_token gcf)
      else None)"

text \<open>
  The loop. A round is the time since the start when it is entered, and the answers of the two endpoints; \<open>None\<close> when
  it still runs after the rounds given.
\<close>

fun poll_rounds ::
  "'v json_lib \<Rightarrow> gpu_config \<Rightarrow> string \<Rightarrow> string \<Rightarrow> (nat \<times> 'v http_reply \<times> 'v http_reply) list \<Rightarrow> poll_state
     \<Rightarrow> gpu_request list \<times> (gpu_error + bytes list) option" where
  "poll_rounds J gcf job base rounds s =
     (if ps_done s then
        ([], Some (let ordered = List.map_filter id (ps_chunks s) in if ordered = [] then Inl No_Audio else Inr ordered))
      else case rounds of
             [] \<Rightarrow> ([], None)
           | (elapsed, stream, status) # rest \<Rightarrow>
               (if MAX_POLL_TIME \<le> elapsed then ([], Some (Inl Timed_Out))
                else (let request = \<lparr>gr_url = base @ ''/stream/'' @ job, gr_token = poll_token gcf base\<rparr>
                      in case poll_answer J stream s of
                           None \<Rightarrow> ([request], Some (Inl Bad_Json))
                         | Some s1 \<Rightarrow>
                             (let asked = (if asks_status s1 then [request\<lparr>gr_url := base @ ''/status/'' @ job\<rparr>] else []);
                                  s2 = (if asks_status s1 \<and> status_ended J status then s1\<lparr>ps_done := True\<rparr> else s1)
                              in case poll_rounds J gcf job base rest s2 of (rs, r) \<Rightarrow> ([request] @ asked @ rs, r)))))"

declare poll_rounds.simps [simp del]

definition poll_stream ::
  "'v json_lib \<Rightarrow> gpu_config \<Rightarrow> string \<Rightarrow> string \<Rightarrow> (nat \<times> 'v http_reply \<times> 'v http_reply) list
     \<Rightarrow> gpu_request list \<times> (gpu_error + bytes list) option" where
  "poll_stream J gcf job base rounds = poll_rounds J gcf job base rounds poll_new"


section \<open>Voices\<close>

definition voice_data :: "'v json_lib \<Rightarrow> 'v http_reply \<Rightarrow> string option" where
  "voice_data J reply =
     (case reply of
        Reply status (Some v) \<Rightarrow>
          (if is_success status
           then (case get_str J v ''conditionals_b64'' of Some b64 \<Rightarrow> if b64 = [] then None else Some b64 | None \<Rightarrow> None)
           else None)
      | _ \<Rightarrow> None)"

text \<open>The voice of the system without a token, then the one of the user.\<close>

definition fetch_conditionals_uncached ::
  "'v json_lib \<Rightarrow> string \<Rightarrow> string \<Rightarrow> string \<Rightarrow> string \<Rightarrow> 'v http_reply \<Rightarrow> 'v http_reply \<Rightarrow> gpu_request list \<times> string" where
  "fetch_conditionals_uncached J voice api agent_id api_key system user =
     (let first = \<lparr>gr_url = api @ ''/api/default-voices/'' @ voice, gr_token = None\<rparr>;
          second = \<lparr>gr_url = api @ ''/api/agents/'' @ agent_id @ ''/user-voices/'' @ voice, gr_token = Some api_key\<rparr>
      in case voice_data J system of
           Some b64 \<Rightarrow> ([first], b64)
         | None \<Rightarrow> ([first, second], case voice_data J user of Some b64 \<Rightarrow> b64 | None \<Rightarrow> []))"

type_synonym voice_cache = "(string, string \<times> nat) rmap"

definition get_cached_conditionals :: "string \<Rightarrow> nat \<Rightarrow> voice_cache \<Rightarrow> string option" where
  "get_cached_conditionals voice now cache =
     (case map_of cache voice of Some (data, fetched_at) \<Rightarrow> if now - fetched_at < CACHE_TTL then Some data else None | None \<Rightarrow> None)"

text \<open>\<open>now\<close> is the time of the look-up, \<open>now2\<close> of the insertion.\<close>

definition fetch_conditionals ::
  "'v json_lib \<Rightarrow> string \<Rightarrow> string \<Rightarrow> string \<Rightarrow> string \<Rightarrow> nat \<Rightarrow> nat \<Rightarrow> 'v http_reply \<Rightarrow> 'v http_reply \<Rightarrow> voice_cache
     \<Rightarrow> voice_cache \<times> gpu_request list \<times> string" where
  "fetch_conditionals J voice api agent_id api_key now now2 system user cache =
     (case get_cached_conditionals voice now cache of
        Some data \<Rightarrow> (cache, [], data)
      | None \<Rightarrow>
          (case fetch_conditionals_uncached J voice api agent_id api_key system user of
             (rs, result) \<Rightarrow> (if result = [] then cache else map_insert voice (result, now2) cache, rs, result)))"


section \<open>The pipeline\<close>

record 'v gpu_replies =
  rp_system :: "'v http_reply"
  rp_user :: "'v http_reply"
  rp_local :: "'v http_reply"
  rp_runpod :: "'v http_reply"
  rp_rounds :: "(nat \<times> 'v http_reply \<times> 'v http_reply) list"

datatype gpu_result = Gpu_Running | Gpu_Panics | Gpu_Fails gpu_error | Gpu_Wav bytes nat

text \<open>The audio with the number of its PCM bytes, of which the duration is made.\<close>

definition stitch_result :: "resampler \<Rightarrow> bytes list \<Rightarrow> gpu_result" where
  "stitch_result R wavs =
     (case stitch_wav_chunks R wavs of
        None \<Rightarrow> Gpu_Panics
      | Some None \<Rightarrow> Gpu_Fails Stitch_Failed
      | Some (Some wav) \<Rightarrow> Gpu_Wav wav (sum_list (map (\<lambda>c. length c - 44) wavs)))"

definition gpu_payload :: "string \<Rightarrow> string \<Rightarrow> string \<Rightarrow> string \<Rightarrow> string \<Rightarrow> json_tree option" where
  "gpu_payload txt voice msg_id conditionals agent_id =
     tree_set (build_tts_payload txt voice msg_id conditionals DEFAULT_SPLIT_CHARS (of_nat DEFAULT_MIN_CHUNK_CHARS))
       ''agent_id'' (JStr agent_id)"

definition generate_tts ::
  "'v json_lib \<Rightarrow> resampler \<Rightarrow> gpu_config \<Rightarrow> string \<Rightarrow> string \<Rightarrow> string \<Rightarrow> string \<Rightarrow> nat \<Rightarrow> nat \<Rightarrow> 'v gpu_replies \<Rightarrow> voice_cache
     \<Rightarrow> voice_cache \<times> gpu_request list \<times> gpu_result" where
  "generate_tts J R gcf voice api agent_id api_key now now2 replies cache =
     (case fetch_conditionals J voice api agent_id api_key now now2 (rp_system replies) (rp_user replies) cache of
        (cache2, rs1, conditionals) \<Rightarrow>
          (case submit_job J gcf (rp_local replies) (rp_runpod replies) of
             (rs2, Inl e) \<Rightarrow> (cache2, rs1 @ rs2, Gpu_Fails e)
           | (rs2, Inr (job, base)) \<Rightarrow>
               (case poll_stream J gcf job base (rp_rounds replies) of
                  (rs3, None) \<Rightarrow> (cache2, rs1 @ rs2 @ rs3, Gpu_Running)
                | (rs3, Some (Inl e)) \<Rightarrow> (cache2, rs1 @ rs2 @ rs3, Gpu_Fails e)
                | (rs3, Some (Inr wavs)) \<Rightarrow> (cache2, rs1 @ rs2 @ rs3, stitch_result R wavs))))"

text \<open>\<open>resolve_agent_voice\<close> and \<open>daemon_generate_and_archive\<close>: the archive and what is reported of the voice job.\<close>

definition resolve_agent_voice :: "'v json_lib \<Rightarrow> 'v http_reply \<Rightarrow> string option" where
  "resolve_agent_voice J reply =
     (case reply of
        Reply status (Some v) \<Rightarrow>
          (if is_success status then (case get_str J v ''voice'' of Some s \<Rightarrow> if s = [] then None else Some s | None \<Rightarrow> None) else None)
      | _ \<Rightarrow> None)"

definition effective_voice :: "'v json_lib \<Rightarrow> 'v http_reply \<Rightarrow> string \<Rightarrow> string" where
  "effective_voice J reply voice =
     (if voice = [] \<or> voice = ''default''
      then (case resolve_agent_voice J reply of Some s \<Rightarrow> s | None \<Rightarrow> ''arabella-chase'') else voice)"

definition archive_result ::
  "string \<Rightarrow> (tts_entry list \<Rightarrow> bytes option) \<Rightarrow> (nat \<Rightarrow> u64) \<Rightarrow> u64 \<Rightarrow> bytes option option \<Rightarrow> (nat \<Rightarrow> bool) \<Rightarrow> bool \<Rightarrow>
     string \<Rightarrow> string \<Rightarrow> string \<Rightarrow> string \<Rightarrow> gpu_result \<Rightarrow> tts_archive \<Rightarrow> tts_archive \<times> (string \<times> string) list" where
  "archive_result dir print duration now failed removed saved msg_id txt voice emotion r a =
     (case r of
        Gpu_Wav wav pcm \<Rightarrow>
          (case tts_store dir print
                  \<lparr>te_msg_id = msg_id, te_text = ascii txt, te_original_text = [], te_voice = ascii voice, te_emotion = ascii emotion,
                   te_replying_to = [], te_timestamp = now, te_duration_sec = duration pcm, te_size_bytes = of_nat (length wav)\<rparr>
                  wav failed removed saved a of
             (a2, Inl _) \<Rightarrow> (a2, [])
           | (a2, Inr _) \<Rightarrow> (a2, [(msg_id, ''done'')]))
      | Gpu_Fails e \<Rightarrow> (a, [(msg_id, ''failed'')])
      | _ \<Rightarrow> (a, []))"


section \<open>The audio is put in order\<close>

definition chunk_at :: "bytes option list \<Rightarrow> nat \<Rightarrow> bytes option" where
  "chunk_at l i = (if i < length l then l ! i else None)"

lemma chunk_at_place:
  "chunk_at (place_chunk c l) i = (if i = unat (chunk_index c) then Some (audio_bytes c) else chunk_at l i)"
  by (auto simp: chunk_at_def place_chunk_def Let_def nth_append nth_list_update)

lemma length_place: "length (place_chunk c l) = max (length l) (Suc (unat (chunk_index c)))"
  by (simp add: place_chunk_def Let_def max_def)

definition chunks_of :: "bytes list \<Rightarrow> audio_chunk list \<Rightarrow> bool" where
  "chunks_of as cs = (\<forall>c \<in> set cs. unat (chunk_index c) < length as \<and> audio_bytes c = as ! unat (chunk_index c))"

lemma fold_place:
  assumes "chunks_of as cs" and "length l \<le> length as" and "\<forall>i < length as. chunk_at l i \<in> {None, Some (as ! i)}"
  shows "length (fold place_chunk cs l) \<le> length as \<and>
    (\<forall>i < length as. chunk_at (fold place_chunk cs l) i =
       (if i \<in> (\<lambda>c. unat (chunk_index c)) ` set cs then Some (as ! i) else chunk_at l i))"
  using assms
proof (induction cs arbitrary: l)
  case (Cons c cs)
  have c: "unat (chunk_index c) < length as" "audio_bytes c = as ! unat (chunk_index c)"
    using Cons.prems(1) by (auto simp: chunks_of_def)
  have "length (fold place_chunk cs (place_chunk c l)) \<le> length as \<and>
    (\<forall>i < length as. chunk_at (fold place_chunk cs (place_chunk c l)) i =
       (if i \<in> (\<lambda>c. unat (chunk_index c)) ` set cs then Some (as ! i) else chunk_at (place_chunk c l) i))"
    by (rule Cons.IH) (use Cons.prems c in \<open>auto simp: chunks_of_def length_place chunk_at_place\<close>)
  then show ?case using c by (auto simp: chunk_at_place)
qed simp

lemma map_filter_id_Some: "List.map_filter id (map Some xs) = xs"
  by (induction xs) (simp_all add: List.map_filter_def)

lemma all_placed:
  assumes "chunks_of as cs" and "{..<length as} \<subseteq> (\<lambda>c. unat (chunk_index c)) ` set cs"
  shows "List.map_filter id (fold place_chunk cs []) = as"
proof -
  let ?l = "fold place_chunk cs []"
  have f: "length ?l \<le> length as \<and> (\<forall>i < length as. chunk_at ?l i = Some (as ! i))"
    using fold_place [OF assms(1), of "[]"] assms(2) by (auto simp: chunk_at_def)
  then have "length ?l = length as"
    by (metis (no_types) chunk_at_def le_neq_implies_less option.distinct(1) less_irrefl)
  moreover from this have "?l ! i = map Some as ! i" if "i < length as" for i
    using f that by (auto simp: chunk_at_def)
  ultimately have "?l = map Some as" by (intro nth_equalityI) simp_all
  then show ?thesis by (simp add: map_filter_id_Some)
qed

definition reply_result :: "'v json_lib \<Rightarrow> 'v http_reply \<Rightarrow> stream_parse_result" where
  "reply_result J reply =
     (case reply of
        Reply status (Some v) \<Rightarrow>
          (if is_success status then parse_stream_response J v else \<lparr>spr_chunks = [], spr_done = False, spr_total_chunks = None\<rparr>)
      | _ \<Rightarrow> \<lparr>spr_chunks = [], spr_done = False, spr_total_chunks = None\<rparr>)"

definition readable :: "'v http_reply \<Rightarrow> bool" where
  "readable reply = (case reply of Reply status None \<Rightarrow> \<not> is_success status | _ \<Rightarrow> True)"

lemma poll_answer_readable:
  "readable reply \<Longrightarrow> \<exists>s1. poll_answer J reply s = Some s1 \<and>
     ps_chunks s1 = fold place_chunk (spr_chunks (reply_result J reply)) (ps_chunks s) \<and>
     ps_done s1 = (ps_done s \<or> spr_done (reply_result J reply))"
  by (auto simp: poll_answer_def readable_def reply_result_def Let_def split: http_reply.splits option.splits)

text \<open>A round that goes on: in time, an answer that can be read, and a status that does not end the job.\<close>

definition good_round :: "'v json_lib \<Rightarrow> nat \<times> 'v http_reply \<times> 'v http_reply \<Rightarrow> bool" where
  "good_round J r = (case r of (elapsed, stream, status) \<Rightarrow> elapsed < MAX_POLL_TIME \<and> readable stream \<and> \<not> status_ended J status)"

definition round_chunks :: "'v json_lib \<Rightarrow> (nat \<times> 'v http_reply \<times> 'v http_reply) list \<Rightarrow> audio_chunk list" where
  "round_chunks J rounds = concat (map (\<lambda>(elapsed, stream, status). spr_chunks (reply_result J stream)) rounds)"

definition ends_job :: "'v json_lib \<Rightarrow> nat \<times> 'v http_reply \<times> 'v http_reply \<Rightarrow> bool" where
  "ends_job J r = (case r of (elapsed, stream, status) \<Rightarrow> spr_done (reply_result J stream))"

lemma poll_round:
  assumes "good_round J (elapsed, stream, status)" and "\<not> ps_done s"
  shows "\<exists>s1. snd (poll_rounds J gcf job base ((elapsed, stream, status) # rest) s) = snd (poll_rounds J gcf job base rest s1) \<and>
    ps_chunks s1 = fold place_chunk (spr_chunks (reply_result J stream)) (ps_chunks s) \<and> ps_done s1 = spr_done (reply_result J stream)"
proof -
  obtain s1 where s1: "poll_answer J stream s = Some s1"
    "ps_chunks s1 = fold place_chunk (spr_chunks (reply_result J stream)) (ps_chunks s)" "ps_done s1 = spr_done (reply_result J stream)"
    using poll_answer_readable [of stream J s] assms by (auto simp: good_round_def)
  have "snd (poll_rounds J gcf job base ((elapsed, stream, status) # rest) s) = snd (poll_rounds J gcf job base rest s1)"
    using assms s1(1) unfolding poll_rounds.simps [of J gcf job base "_ # _"]
    by (simp add: good_round_def Let_def split: prod.split)
  then show ?thesis using s1(2,3) by blast
qed

lemma poll_collects:
  assumes "\<forall>r \<in> set rounds. good_round J r \<and> \<not> ends_job J r" and "good_round J r" and "ends_job J r" and "\<not> ps_done s"
  shows "snd (poll_rounds J gcf job base (rounds @ r # rest) s) =
    Some (let ordered = List.map_filter id (fold place_chunk (round_chunks J (rounds @ [r])) (ps_chunks s))
          in if ordered = [] then Inl No_Audio else Inr ordered)"
  using assms
proof (induction rounds arbitrary: s)
  case Nil
  obtain elapsed stream status where r: "r = (elapsed, stream, status)" by (cases r)
  obtain s1 where "snd (poll_rounds J gcf job base (r # rest) s) = snd (poll_rounds J gcf job base rest s1)"
    "ps_chunks s1 = fold place_chunk (spr_chunks (reply_result J stream)) (ps_chunks s)" "ps_done s1"
    using poll_round [of J elapsed stream status s gcf job base rest] Nil by (auto simp: r ends_job_def)
  then show ?case by (simp add: poll_rounds.simps [of J gcf job base rest s1] round_chunks_def r id_def)
next
  case (Cons q rounds)
  obtain elapsed stream status where q: "q = (elapsed, stream, status)" by (cases q)
  obtain s1 where s1: "snd (poll_rounds J gcf job base (q # rounds @ r # rest) s) = snd (poll_rounds J gcf job base (rounds @ r # rest) s1)"
    "ps_chunks s1 = fold place_chunk (spr_chunks (reply_result J stream)) (ps_chunks s)" "\<not> ps_done s1"
    using poll_round [of J elapsed stream status s gcf job base "rounds @ r # rest"] Cons.prems by (auto simp: q ends_job_def)
  show ?case using Cons.IH [OF _ Cons.prems(2,3) s1(3)] Cons.prems(1) s1(1,2) by (simp add: q round_chunks_def)
qed


section \<open>Properties\<close>

definition poll_rounds_done :: "'v json_lib \<Rightarrow> bytes list \<Rightarrow> (nat \<times> 'v http_reply \<times> 'v http_reply) list \<Rightarrow> bool" where
  "poll_rounds_done J as rounds =
     (chunks_of as (round_chunks J rounds) \<and> {..<length as} \<subseteq> (\<lambda>c. unat (chunk_index c)) ` set (round_chunks J rounds))"

text \<open>
  \<^bold>\<open>C33\<close>. If every round of polling is in time and readable, or a failed request, and the job is reported done in the
  last of them and not before, the daemon returns the chunks in the order of their indices, whatever order they
  came in, in however many answers and however often each.
\<close>

theorem audio_in_order:
  assumes "\<forall>r \<in> set rounds. good_round J r \<and> \<not> ends_job J r" and "good_round J r" and "ends_job J r"
    and "poll_rounds_done J as (rounds @ [r])" and "as \<noteq> []"
  shows "snd (poll_stream J gcf job base (rounds @ r # rest)) = Some (Inr as)"
proof -
  have "List.map_filter id (fold place_chunk (round_chunks J (rounds @ [r])) []) = as"
    by (rule all_placed) (use assms(4) in \<open>simp_all add: poll_rounds_done_def\<close>)
  then show ?thesis
    using poll_collects [OF assms(1-3), of poll_new gcf job base rest] assms(5)
    by (simp add: poll_stream_def poll_new_def)
qed

definition toy_answer :: "worker_item list \<Rightarrow> nat \<times> json_tree http_reply \<times> json_tree http_reply" where
  "toy_answer is = (400, Reply 200 (Some (wrap_body True (map (\<lambda>i. wrap_item (True, i)) is))), Reply_Failed)"

lemma toy_answer_result:
  "\<forall>s. Malformed s \<notin> set is \<Longrightarrow> reply_result (tree_lib p) (fst (snd (toy_answer is))) =
     \<lparr>spr_chunks = concat (map audio_of is), spr_done = (concat (map total_of is) \<noteq> []),
      spr_total_chunks = (let ts = concat (map total_of is) in if ts = [] then None else Some (last ts))\<rparr>"
  using tts_stream_parsed [of "map (Pair True) is" p True]
  by (auto simp: reply_result_def toy_answer_def is_success_def comp_def image_iff)

theorem audio_in_order_witness:
  "snd (poll_stream (tree_lib (\<lambda>_. None)) (gpu_config_from_env (\<lambda>_. None)) ''j'' ''http://w''
      [toy_answer [Audio \<lparr>chunk_index = 1, audio_bytes = [2], sample_rate = 24000, duration_sec = 0\<rparr>],
       toy_answer [Audio \<lparr>chunk_index = 0, audio_bytes = [1], sample_rate = 24000, duration_sec = 0\<rparr>, Finished 2]]) =
     Some (Inr [[1], [2]])"
proof -
  let ?J = "tree_lib (\<lambda>_. None)"
  let ?a = "Audio \<lparr>chunk_index = 1, audio_bytes = [2], sample_rate = 24000, duration_sec = 0\<rparr>"
  let ?b = "Audio \<lparr>chunk_index = 0, audio_bytes = [1], sample_rate = 24000, duration_sec = 0\<rparr>"
  have a: "reply_result ?J (fst (snd (toy_answer [?a]))) = \<lparr>spr_chunks = audio_of ?a, spr_done = False, spr_total_chunks = None\<rparr>"
    and b: "reply_result ?J (fst (snd (toy_answer [?b, Finished 2]))) =
      \<lparr>spr_chunks = audio_of ?b, spr_done = True, spr_total_chunks = Some 2\<rparr>"
    by (simp_all add: toy_answer_result audio_of_def total_of_def)
  have good: "good_round ?J (toy_answer is)" for "is"
    by (simp add: toy_answer_def good_round_def readable_def status_ended_def MAX_POLL_TIME_def)
  have rounds: "round_chunks ?J [toy_answer [?a], toy_answer [?b, Finished 2]] = audio_of ?a @ audio_of ?b"
    using a b by (simp add: round_chunks_def toy_answer_def)
  have ends: "\<not> ends_job ?J (toy_answer [?a])" "ends_job ?J (toy_answer [?b, Finished 2])"
    using a b by (simp_all add: ends_job_def toy_answer_def)
  have "poll_rounds_done ?J [[1], [2]] [toy_answer [?a], toy_answer [?b, Finished 2]]"
    unfolding poll_rounds_done_def rounds by (auto simp: chunks_of_def audio_of_def)
  then show ?thesis
    using audio_in_order [of "[toy_answer [?a]]" ?J "toy_answer [?b, Finished 2]" "[[1], [2]]"
        "gpu_config_from_env (\<lambda>_. None)" "''j''" "''http://w''" "[]"] good ends by simp
qed

text \<open>Chunks that are missing when the job is reported done leave a hole in the audio without an error.\<close>

lemma hole_in_audio:
  assumes "good_round J r" and "ends_job J r" and "round_chunks J [r] = [c]" and "chunk_index c = 1"
  shows "snd (poll_stream J gcf job base [r]) = Some (Inr [audio_bytes c])"
proof -
  have "List.map_filter id (fold place_chunk [c] []) = [audio_bytes c]"
    using assms(4) by (simp add: place_chunk_def List.map_filter_def numeral_2_eq_2)
  then show ?thesis
    using poll_collects [of "[]" J r poll_new gcf job base "[]"] assms by (simp add: poll_stream_def poll_new_def)
qed

text \<open>
  The requests to a worker, as its interface has them: the submission, and for the job whose id its answer gives the two
  questions of the polling loop, all with the worker's token if there is one.
\<close>

definition job_given :: "'v json_lib \<Rightarrow> 'v http_reply \<Rightarrow> string \<Rightarrow> bool" where
  "job_given J reply job \<longleftrightarrow>
     (\<exists>status v. reply = Reply status (Some v) \<and> 200 \<le> status \<and> status \<le> 299 \<and> get_str J v ''id'' = Some job)"

definition to_worker :: "'v json_lib \<Rightarrow> 'v http_reply \<Rightarrow> string \<Rightarrow> string \<Rightarrow> gpu_request \<Rightarrow> bool" where
  "to_worker J reply base token q \<longleftrightarrow>
     gr_token q = (if token = [] then None else Some token) \<and>
     (gr_url q = base @ ''/run'' \<or>
      (\<exists>job. job_given J reply job \<and> gr_url q \<in> {base @ ''/stream/'' @ job, base @ ''/status/'' @ job}))"

lemma to_worker_run: "to_worker J reply base token \<lparr>gr_url = base @ ''/run'', gr_token = bearer_if token\<rparr>"
  by (simp add: to_worker_def bearer_if_def)

lemma submit_requests:
  assumes "q \<in> set (fst (submit_job J gcf lr rr))"
  shows "(\<exists>u. gc_local_url gcf = Some u \<and> to_worker J lr u (gc_local_token gcf) q) \<or>
    (\<exists>u. gc_runpod_url gcf = Some u \<and> to_worker J rr u (gc_runpod_token gcf) q)"
proof -
  have "(\<exists>u. gc_local_url gcf = Some u \<and> q = \<lparr>gr_url = u @ ''/run'', gr_token = bearer_if (gc_local_token gcf)\<rparr>) \<or>
      (\<exists>u. gc_runpod_url gcf = Some u \<and> q = \<lparr>gr_url = u @ ''/run'', gr_token = bearer_if (gc_runpod_token gcf)\<rparr>)"
    using assms
    by (auto simp: submit_job_def submit_runpod_def Let_def split: option.splits http_reply.splits if_splits prod.splits)
  then show ?thesis using to_worker_run by metis
qed

lemma submit_gives_job:
  assumes "snd (submit_job J gcf lr rr) = Inr (job, base)"
  shows "(gc_local_url gcf = Some base \<and> job_given J lr job) \<or> (gc_runpod_url gcf = Some base \<and> job_given J rr job)"
  using assms
  by (auto simp: submit_job_def submit_runpod_def job_given_def is_success_def Let_def
      split: option.splits http_reply.splits if_splits prod.splits)

lemma poll_requests:
  "\<forall>q \<in> set (fst (poll_rounds J gcf job base rounds s)).
     gr_token q = poll_token gcf base \<and> gr_url q \<in> {base @ ''/stream/'' @ job, base @ ''/status/'' @ job}"
proof (induction rounds arbitrary: s)
  case Nil
  then show ?case by (simp add: poll_rounds.simps [of J gcf job base "[]"])
next
  case (Cons r rounds)
  obtain elapsed stream status where r: "r = (elapsed, stream, status)" by (cases r)
  show ?case
    unfolding r poll_rounds.simps [of J gcf job base "_ # _"] using Cons.IH
    by (auto simp: Let_def split: option.split prod.split) (metis fst_conv)+
qed

lemma voice_requests:
  "q \<in> set (fst (snd (fetch_conditionals J voice api agent_id api_key now now2 system user cache))) \<Longrightarrow>
     q \<in> {\<lparr>gr_url = api @ ''/api/default-voices/'' @ voice, gr_token = None\<rparr>,
          \<lparr>gr_url = api @ ''/api/agents/'' @ agent_id @ ''/user-voices/'' @ voice, gr_token = Some api_key\<rparr>}"
  by (auto simp: fetch_conditionals_def fetch_conditionals_uncached_def Let_def split: option.splits)

lemma generate_requests:
  assumes "q \<in> set (fst (snd (generate_tts J R gcf voice api agent_id api_key now now2 replies cache)))"
  obtains
      (voice) "q \<in> set (fst (snd (fetch_conditionals J voice api agent_id api_key now now2 (rp_system replies) (rp_user replies) cache)))"
    | (submit) "q \<in> set (fst (submit_job J gcf (rp_local replies) (rp_runpod replies)))"
    | (poll) job base where "snd (submit_job J gcf (rp_local replies) (rp_runpod replies)) = Inr (job, base)"
        "q \<in> set (fst (poll_stream J gcf job base (rp_rounds replies)))"
  using assms unfolding generate_tts_def
  by (auto split: prod.splits sum.splits option.splits)

text \<open>
  \<^bold>\<open>C34\<close>. The tokens stay with their servers. Whatever \<open>generate_tts\<close> gets for answers and however it ends, if the
  address of the local worker does not contain the name of the other service, then each request it sends is one of
  these: that for the voice of the system, without a token; that for the user's voice at the API's address, with
  the agent's key; the submission of the job to the local worker or the service, or a question for the job that
  this one's answer named, with the token configured for this one, if it is not empty.
\<close>

theorem gpu_tokens_confined:
  assumes "\<forall>u. env_some env LOCAL_URL = Some u \<longrightarrow> \<not> str_contains (ascii ''runpod.ai'') (ascii u)"
    and "q \<in> set (fst (snd (generate_tts J R (gpu_config_from_env env) voice api agent_id api_key now now2 replies cache)))"
  shows "q = \<lparr>gr_url = api @ ''/api/default-voices/'' @ voice, gr_token = None\<rparr> \<or>
    q = \<lparr>gr_url = api @ ''/api/agents/'' @ agent_id @ ''/user-voices/'' @ voice, gr_token = Some api_key\<rparr> \<or>
    (\<exists>u. env_some env LOCAL_URL = Some u \<and> to_worker J (rp_local replies) u (of_bytes (env_get env LOCAL_TOKEN)) q) \<or>
    (\<exists>i. env_some env GPU_ID = Some i \<and>
       to_worker J (rp_runpod replies) (''https://api.runpod.ai/v2/'' @ i) (of_bytes (env_get env API_KEY)) q)"
proof -
  let ?gcf = "gpu_config_from_env env"
  have cfg: "gc_local_url ?gcf = env_some env LOCAL_URL" "gc_local_token ?gcf = of_bytes (env_get env LOCAL_TOKEN)"
    "gc_runpod_url ?gcf = Some u \<longleftrightarrow> (\<exists>i. env_some env GPU_ID = Some i \<and> u = ''https://api.runpod.ai/v2/'' @ i)"
    "gc_runpod_token ?gcf = of_bytes (env_get env API_KEY)" for u
    by (auto simp: gpu_config_from_env_def)
  show ?thesis
    using assms(2)
  proof (cases rule: generate_requests)
    case voice
    then show ?thesis using voice_requests by fastforce
  next
    case submit
    then show ?thesis using submit_requests [OF submit] by (auto simp: cfg)
  next
    case (poll job base)
    have q: "gr_token q = poll_token ?gcf base" "gr_url q \<in> {base @ ''/stream/'' @ job, base @ ''/status/'' @ job}"
      using poll(2) poll_requests [of J ?gcf job base "rp_rounds replies" poll_new] by (simp_all add: poll_stream_def)
    have "str_contains (ascii ''runpod.ai'') (ascii (''https://api.runpod.ai/v2/'' @ i))" for i
      using str_contains_append [of "ascii ''runpod.ai''" "ascii ''https://api.''" "ascii (''/v2/'' @ i)"] by (simp add: ascii_def)
    then show ?thesis
      using submit_gives_job [OF poll(1)] q assms(1) unfolding cfg to_worker_def poll_token_def
      by (elim disjE) (auto simp del: append.simps)
  qed
qed

theorem gpu_tokens_confined_witness:
  "fst (snd (generate_tts (tree_lib (\<lambda>_. None)) toy_resampler
      (gpu_config_from_env ((\<lambda>_. None)(LOCAL_URL \<mapsto> ascii ''http://w'', LOCAL_TOKEN \<mapsto> ascii ''t'')))
      ''v'' ''https://b'' ''a'' ''k'' 0 0
      \<lparr>rp_system = Reply_Failed, rp_user = Reply_Failed, rp_local = Reply 200 (Some (JObj [(''id'', JStr ''j'')])),
       rp_runpod = Reply_Failed, rp_rounds = [(0, Reply_Failed, Reply_Failed)]\<rparr> [])) =
     [\<lparr>gr_url = ''https://b/api/default-voices/v'', gr_token = None\<rparr>,
      \<lparr>gr_url = ''https://b/api/agents/a/user-voices/v'', gr_token = Some ''k''\<rparr>,
      \<lparr>gr_url = ''http://w/run'', gr_token = Some ''t''\<rparr>,
      \<lparr>gr_url = ''http://w/stream/j'', gr_token = Some ''t''\<rparr>] \<and>
   to_worker (tree_lib (\<lambda>_. None)) (Reply 200 (Some (JObj [(''id'', JStr ''j'')]))) ''http://w'' ''t''
     \<lparr>gr_url = ''http://w/stream/j'', gr_token = Some ''t''\<rparr>"
proof -
  let ?env = "(\<lambda>_. None)(LOCAL_URL \<mapsto> ascii ''http://w'', LOCAL_TOKEN \<mapsto> ascii ''t'')"
  let ?q = "\<lparr>gr_url = ''http://w/stream/j'', gr_token = Some ''t''\<rparr>"
  have ne: "ascii ''http://w'' \<noteq> []" "ascii ''t'' \<noteq> []" "\<not> str_contains (ascii ''runpod.ai'') (ascii ''http://w'')" by code_simp+
  have c: "env_some ?env LOCAL_URL = Some ''http://w''" "of_bytes (env_get ?env LOCAL_TOKEN) = ''t''" "env_some ?env GPU_ID = None"
    using ne by (simp_all add: env_some_def env_get_def)
  show ?thesis
    using gpu_tokens_confined [of ?env ?q "tree_lib (\<lambda>_. None)" toy_resampler "''v''" "''https://b''" "''a''" "''k''" 0 0
        "\<lparr>rp_system = Reply_Failed, rp_user = Reply_Failed, rp_local = Reply 200 (Some (JObj [(''id'', JStr ''j'')])),
          rp_runpod = Reply_Failed, rp_rounds = [(0, Reply_Failed, Reply_Failed)]\<rparr>" "[]"] c ne(3)
    by (simp add: generate_tts_def fetch_conditionals_def get_cached_conditionals_def fetch_conditionals_uncached_def voice_data_def
        submit_job_def gpu_config_from_env_def bearer_if_def is_success_def get_str_def tree_lib_def poll_stream_def
        poll_rounds.simps poll_new_def poll_answer_def asks_status_def poll_token_def MAX_POLL_TIME_def)
qed

text \<open>The daemon's own archive keeps the audio it generates.\<close>

lemma generated_audio_plays:
  assumes "audio_kept dir a" and "\<not> tts_contains msg_id a" and "plain msg_id"
  shows "audio_kept dir (fst (archive_result dir print duration now failed removed saved msg_id txt voice emotion r a))"
proof (cases r)
  case (Gpu_Wav wav pcm)
  let ?e = "\<lparr>te_msg_id = msg_id, te_text = ascii txt, te_original_text = [], te_voice = ascii voice, te_emotion = ascii emotion,
    te_replying_to = [], te_timestamp = now, te_duration_sec = duration pcm, te_size_bytes = of_nat (length wav)\<rparr>"
  have "audio_kept dir (fst (tts_store dir print ?e wav failed removed saved a))"
    by (rule tts_store_keeps) (use assms in simp_all)
  then show ?thesis by (cases "snd (tts_store dir print ?e wav failed removed saved a)")
    (auto simp: archive_result_def Gpu_Wav split: prod.splits)
qed (simp_all add: archive_result_def assms(1))

end
