(* ===== verification/Json_Rpc.thy ===== *)
theory Json_Rpc
  imports Json Utf8
begin

text \<open>
  The loop the two MCP servers share (\<open>run\<close> in \<open>src/crates/b3-cli/src/mcp/session_memory.rs\<close> and \<open>mcp/b3.rs\<close>): JSON-RPC,
  one request per line of the standard input. The derived parser of requests and the tools are arguments; a tool
  that panics ends the process. The parser's own text in the answer to a line that is no request is left out.
\<close>

record 'v rpc_request =
  rq_method :: string
  rq_id :: "'v option"
  rq_params :: "'v option"

text \<open>The id of an answer to a line that is no request is null.\<close>

datatype 'v rpc_response = Rpc_Result 'v json_tree | Rpc_Error "'v option" int string

text \<open>What a server says of itself, and its tools: the answer to a call, or \<open>None\<close> for a panic.\<close>

record 'v rpc_server =
  rs_initialize :: json_tree
  rs_tools :: json_tree
  rs_call :: "string \<Rightarrow> 'v option \<Rightarrow> json_tree option"

definition rpc_answer :: "'v json_lib \<Rightarrow> 'v rpc_server \<Rightarrow> 'v \<Rightarrow> 'v rpc_request \<Rightarrow> 'v rpc_response option" where
  "rpc_answer J V i r =
     (if rq_method r = ''initialize'' then Some (Rpc_Result i (rs_initialize V))
      else if rq_method r = ''tools/list'' then Some (Rpc_Result i (JObj [(''tools'', rs_tools V)]))
      else if rq_method r = ''resources/list'' then Some (Rpc_Result i (JObj [(''resources'', JArr [])]))
      else if rq_method r = ''prompts/list'' then Some (Rpc_Result i (JObj [(''prompts'', JArr [])]))
      else if rq_method r = ''tools/call'' then
        (let tool = (case Option.bind (rq_params r) (\<lambda>p. get_str J p ''name'') of Some s \<Rightarrow> s | None \<Rightarrow> [])
         in map_option (Rpc_Result i) (rs_call V tool (Option.bind (rq_params r) (\<lambda>p. json_get J p ''arguments''))))
      else if rq_method r = ''ping'' then Some (Rpc_Result i (JObj []))
      else Some (Rpc_Error (Some i) (- 32601) (''Method not found: '' @ rq_method r)))"

text \<open>What comes out of the standard input, with whether the answer can be written; how the loop ends.\<close>

datatype rpc_input = Rpc_Line bytes bool | Rpc_Read_Error

datatype rpc_end = Rpc_Eof | Rpc_Stopped | Rpc_Write_Failed | Rpc_Panicked

definition rpc_line :: "'v json_lib \<Rightarrow> (bytes \<Rightarrow> 'v rpc_request option) \<Rightarrow> 'v rpc_server \<Rightarrow> bytes \<Rightarrow> 'v rpc_response option option" where
  "rpc_line J parse V raw =
     (let line = str_trim raw
      in if line = [] then Some None
         else case parse line of
                None \<Rightarrow> Some (Some (Rpc_Error None (- 32700) ''Parse error''))
              | Some r \<Rightarrow> (case rq_id r of None \<Rightarrow> Some None | Some i \<Rightarrow> map_option Some (rpc_answer J V i r)))"

text \<open>An answer that is not written ends the server, but not the answer to a line that is no request.\<close>

definition write_matters :: "'v rpc_response \<Rightarrow> bool" where
  "write_matters a \<longleftrightarrow> (case a of Rpc_Error None _ _ \<Rightarrow> False | _ \<Rightarrow> True)"

fun rpc_loop ::
  "'v json_lib \<Rightarrow> (bytes \<Rightarrow> 'v rpc_request option) \<Rightarrow> 'v rpc_server \<Rightarrow> rpc_input list \<Rightarrow> 'v rpc_response list \<times> rpc_end" where
  "rpc_loop J parse V [] = ([], Rpc_Eof)"
| "rpc_loop J parse V (Rpc_Read_Error # ins) = ([], Rpc_Stopped)"
| "rpc_loop J parse V (Rpc_Line l ok # ins) =
     (case rpc_line J parse V l of
        None \<Rightarrow> ([], Rpc_Panicked)
      | Some None \<Rightarrow> rpc_loop J parse V ins
      | Some (Some a) \<Rightarrow>
          (if \<not> ok \<and> write_matters a then ([], Rpc_Write_Failed)
           else (case rpc_loop J parse V ins of (as, e) \<Rightarrow> ((if ok then [a] else []) @ as, e))))"


section \<open>Every request is answered once\<close>

definition response_id :: "'v rpc_response \<Rightarrow> 'v option" where
  "response_id a = (case a of Rpc_Result i _ \<Rightarrow> Some i | Rpc_Error i _ _ \<Rightarrow> i)"

text \<open>The ids a line asks an answer for: none for an empty line and a notification.\<close>

definition wanted :: "(bytes \<Rightarrow> 'v rpc_request option) \<Rightarrow> rpc_input \<Rightarrow> 'v option list" where
  "wanted parse x =
     (case x of
        Rpc_Read_Error \<Rightarrow> []
      | Rpc_Line raw _ \<Rightarrow>
          (if str_trim raw = [] then []
           else case parse (str_trim raw) of
                  None \<Rightarrow> [None]
                | Some r \<Rightarrow> (case rq_id r of None \<Rightarrow> [] | Some i \<Rightarrow> [Some i])))"

definition written :: "rpc_input \<Rightarrow> bool" where
  "written x \<longleftrightarrow> (case x of Rpc_Line _ ok \<Rightarrow> ok | Rpc_Read_Error \<Rightarrow> True)"

lemma rpc_answer_id: "rpc_answer J V i r = Some a \<Longrightarrow> response_id a = Some i"
  by (auto simp: rpc_answer_def response_id_def Let_def split: if_splits)

lemma rpc_line_wanted:
  assumes "rpc_line J parse V raw = Some a"
  shows "wanted parse (Rpc_Line raw ok) = (case a of None \<Rightarrow> [] | Some x \<Rightarrow> [response_id x])"
  using assms
  by (auto simp: rpc_line_def wanted_def response_id_def Let_def split: if_splits option.splits
      dest: rpc_answer_id [unfolded response_id_def])



end
