(* ===== verification/Session_Memory.thy ===== *)
theory Session_Memory
  imports Archive Daemon Json_Rpc "HOL-Library.Sublist"
begin

text \<open>
  \<open>src/crates/b3-cli/src/mcp/session_memory.rs\<close>: the server that searches the session files of the assistant. The
  file system, the environment, the parser of time stamps, floating-point arithmetic and the random generator are
  parameters. Paths are strings, lines of a file UTF-8 bytes. Where an answer ends in the text of an error of the
  operating system, that text is left out.
\<close>

record 'v memory_env =
  me_json :: "'v json_lib"
  me_i64 :: "'v \<Rightarrow> int option"
  me_is_null :: "'v \<Rightarrow> bool"
  me_show :: "'v \<Rightarrow> bytes"
  me_var :: "string \<Rightarrow> string option"
  me_home :: "string option"
  me_exists :: "string \<Rightarrow> bool"
  me_is_dir :: "string \<Rightarrow> bool"
  me_canonical :: "string \<Rightarrow> string option"
  me_read_dir :: "string \<Rightarrow> string list option"
  me_content :: "string \<Rightarrow> bytes option"
  me_len :: "string \<Rightarrow> nat option"
  me_mtime :: "string \<Rightarrow> nat option"
  me_rfc3339 :: "bytes \<Rightarrow> int option"
  me_upper :: "string \<Rightarrow> string"
  me_megabytes :: "nat \<Rightarrow> u64"
  me_below :: "nat \<Rightarrow> u64 \<Rightarrow> bool"
  me_hours :: "nat \<Rightarrow> u64"
  me_fraction :: "u64 \<Rightarrow> bool"
  me_times :: "nat \<Rightarrow> u64 \<Rightarrow> nat"
  me_draw :: "u64 \<Rightarrow> nat \<Rightarrow> nat \<Rightarrow> nat"
  me_time_seed :: u64

text \<open>\<open>str::split\<close> at a character, and \<open>str::replace\<close> of a line break by a space.\<close>

fun split_on :: "'a \<Rightarrow> 'a list \<Rightarrow> 'a list list" where
  "split_on c [] = [[]]"
| "split_on c (x # xs) =
     (if x = c then [] # split_on c xs
      else case split_on c xs of l # ls \<Rightarrow> (x # l) # ls | [] \<Rightarrow> [[x]])"

definition flat_line :: "bytes \<Rightarrow> bytes" where
  "flat_line = map (\<lambda>b. if b = 10 then 32 else b)"

definition str_join :: "bytes \<Rightarrow> bytes list \<Rightarrow> bytes" where
  "str_join sep ws = (case ws of [] \<Rightarrow> [] | w # rest \<Rightarrow> w @ concat (map (\<lambda>x. sep @ x) rest))"

text \<open>\<open>Path\<close>: the last component, its extension and the equality of paths.\<close>

definition path_name :: "string \<Rightarrow> string" where
  "path_name p = last (split_on CHR ''/'' p)"

definition is_jsonl :: "string \<Rightarrow> bool" where
  "is_jsonl p \<longleftrightarrow> 6 < length (path_name p) \<and> drop (length (path_name p) - 6) (path_name p) = ''.jsonl''"

definition session_stem :: "string \<Rightarrow> string" where
  "session_stem p = take (length (path_name p) - 6) (path_name p)"

definition path_parts :: "string \<Rightarrow> bool \<times> string list" where
  "path_parts p =
     (let cs = split_on CHR ''/'' p
      in (take 1 p = ''/'', (if hd cs = ''.'' then [''.''] else []) @ filter (\<lambda>c. c \<noteq> [] \<and> c \<noteq> ''.'') cs))"

definition path_member :: "string \<Rightarrow> string list \<Rightarrow> bool" where
  "path_member p ps \<longleftrightarrow> path_parts p \<in> path_parts ` set ps"


section \<open>Directories\<close>

text \<open>Without an explicit list, every project directory that holds a session file.\<close>

definition discover_session_dirs :: "'v memory_env \<Rightarrow> string list" where
  "discover_session_dirs E =
     (case me_var E ''SESSION_DIRS'' of
        Some (c # s) \<Rightarrow> filter (\<lambda>d. d \<noteq> []) (split_on CHR '':'' (c # s))
      | _ \<Rightarrow>
          (case me_home E of
             None \<Rightarrow> []
           | Some home \<Rightarrow>
               (let projects = path_join (path_join home ''.claude'') ''projects''
                in case (if me_is_dir E projects then me_read_dir E projects else None) of
                     None \<Rightarrow> []
                   | Some ps \<Rightarrow>
                       map (\<lambda>p. case me_canonical E p of Some c \<Rightarrow> c | None \<Rightarrow> p)
                         (filter (\<lambda>p. me_is_dir E p \<and> (case me_read_dir E p of Some fs \<Rightarrow> list_ex is_jsonl fs | None \<Rightarrow> False)) ps))))"

definition session_dirs_config_path :: "'v memory_env \<Rightarrow> string option" where
  "session_dirs_config_path E = map_option (\<lambda>h. path_join (path_join h ''.b3'') ''session-dirs.json'') (me_home E)"

fun all_some :: "'a option list \<Rightarrow> 'a list option" where
  "all_some [] = Some []"
| "all_some (None # xs) = None"
| "all_some (Some x # xs) = map_option ((#) x) (all_some xs)"

text \<open>\<open>serde_json::from_str::<Vec<String>>\<close>.\<close>

definition parse_strings :: "'v json_lib \<Rightarrow> bytes \<Rightarrow> string list option" where
  "parse_strings J bs = Option.bind (Option.bind (json_parse J bs) (json_array J)) (\<lambda>vs. all_some (map (json_str J) vs))"

definition load_session_dirs_config :: "'v memory_env \<Rightarrow> string list" where
  "load_session_dirs_config E =
     (case Option.bind (session_dirs_config_path E) (me_content E) of
        Some bs \<Rightarrow> (if utf8_valid bs then (case parse_strings (me_json E) bs of Some ds \<Rightarrow> ds | None \<Rightarrow> []) else [])
      | None \<Rightarrow> [])"

definition add_dir :: "'v memory_env \<Rightarrow> string \<Rightarrow> string list \<Rightarrow> string list" where
  "add_dir E p dirs = (if me_exists E p \<and> \<not> path_member p dirs then dirs @ [p] else dirs)"

definition get_all_session_dirs :: "'v memory_env \<Rightarrow> string list" where
  "get_all_session_dirs E =
     (let dirs = fold (add_dir E) (load_session_dirs_config E) (discover_session_dirs E)
      in case me_var E ''SESSION_EXTRA_DIRS'' of
           None \<Rightarrow> dirs
         | Some extra \<Rightarrow>
             fold (\<lambda>d ds. let p = of_bytes (str_trim (ascii d)) in if p = [] then ds else add_dir E p ds)
               (split_on CHR '':'' extra) dirs)"

definition resolve_session_id :: "'v memory_env \<Rightarrow> string \<Rightarrow> string option" where
  "resolve_session_id E sid =
     (let f = (if drop (length sid - 6) sid = ''.jsonl'' then sid else sid @ ''.jsonl'')
      in find (me_exists E) (map (\<lambda>d. path_join d f) (get_all_session_dirs E)))"

text \<open>The most recently modified session file; the first of those with the same time.\<close>

definition newer :: "'v memory_env \<Rightarrow> string \<Rightarrow> (nat \<times> string) option \<Rightarrow> (nat \<times> string) option" where
  "newer E p best =
     (if \<not> is_jsonl p then best
      else case (me_len E p, me_mtime E p) of
             (Some _, Some t) \<Rightarrow> (case best of Some (t0, _) \<Rightarrow> if t0 < t then Some (t, p) else best | None \<Rightarrow> Some (t, p))
           | _ \<Rightarrow> best)"

definition session_files :: "'v memory_env \<Rightarrow> string list" where
  "session_files E = concat (map (\<lambda>d. case me_read_dir E d of Some ps \<Rightarrow> ps | None \<Rightarrow> []) (get_all_session_dirs E))"

definition active_session :: "'v memory_env \<Rightarrow> string option" where
  "active_session E = map_option snd (fold (newer E) (session_files E) None)"

definition resolve_session_path :: "'v memory_env \<Rightarrow> 'v \<Rightarrow> string + string" where
  "resolve_session_path E args =
     (case get_str (me_json E) args ''session_id'' of
        Some (c # i) \<Rightarrow>
          (case resolve_session_id E (c # i) of
             Some p \<Rightarrow> Inr p
           | None \<Rightarrow> Inl (''No session file found for session_id: '' @ c # i))
      | _ \<Rightarrow>
          (case get_str (me_json E) args ''session_file'' of
             Some (c # f) \<Rightarrow> (if me_exists E (c # f) then Inr (c # f) else Inl (''Session file not found: '' @ c # f))
           | _ \<Rightarrow>
               (case active_session E of
                  Some p \<Rightarrow> Inr p
                | None \<Rightarrow> Inl ''No session file provided and no active session found'')))"

definition get_agent_name :: "'v memory_env \<Rightarrow> string" where
  "get_agent_name E =
     (case me_var E ''SESSION_AGENT_NAME'' of
        Some (c # s) \<Rightarrow> c # s
      | _ \<Rightarrow>
          (case me_var E ''USER'' of
             Some u \<Rightarrow> (if take 6 u = ''agent-'' then me_upper E (drop 6 u) else ''Assistant'')
           | None \<Rightarrow> ''Assistant''))"

definition classify_source :: "string \<Rightarrow> string" where
  "classify_source p = (if str_contains (ascii ''.claude-remote'') (ascii p) then ''remote'' else ''local'')"

definition tool_error :: "string \<Rightarrow> json_tree" where
  "tool_error msg =
     JObj [(''content'', JArr [JObj [(''type'', JStr ''text''), (''text'', JStr msg)]]), (''isError'', JBool True)]"

text \<open>
  \<open>handle_add_session_dir\<close>, with what is written to the configuration file. \<open>writes\<close> says whether the directory can be
  created and the file written, \<open>print\<close> is the pretty-printer.
\<close>

definition handle_add_session_dir ::
  "'v memory_env \<Rightarrow> (string list \<Rightarrow> bytes) \<Rightarrow> bool \<Rightarrow> 'v \<Rightarrow> json_tree \<times> (string \<times> bytes) option" where
  "handle_add_session_dir E print writes args =
     (case get_str (me_json E) args ''dir'' of
        Some (c # d) \<Rightarrow>
          (let dir = c # d; canon = (\<lambda>p. case me_canonical E p of Some q \<Rightarrow> q | None \<Rightarrow> p);
               shown = (case session_dirs_config_path E of Some p \<Rightarrow> p | None \<Rightarrow> []);
               existing = load_session_dirs_config E; added = existing @ [canon dir]
           in if \<not> me_exists E dir then (tool_error (''Directory does not exist: '' @ dir), None)
              else if \<not> me_is_dir E dir then (tool_error (''Path is not a directory: '' @ dir), None)
              else if path_member (canon dir) (map canon existing) then
                (JObj [(''status'', JStr ''already_present''), (''dir'', JStr dir), (''config'', JStr shown)], None)
              else case session_dirs_config_path E of
                     None \<Rightarrow> (tool_error ''Failed to write config: could not determine home directory'', None)
                   | Some p \<Rightarrow>
                       (if writes
                        then (JObj [(''status'', JStr ''added''), (''dir'', JStr (canon dir)), (''config'', JStr shown),
                                    (''total_extra_dirs'', JNum (of_nat (length added)))],
                              Some (p, print added))
                        else (tool_error ''Failed to write config'', None)))
      | _ \<Rightarrow> (tool_error ([CHR 0x27] @ ''dir'' @ [CHR 0x27] @ '' parameter is required''), None))"


section \<open>Reading session files\<close>

text \<open>
  \<open>BufReader::lines\<close>: a line that is not UTF-8 is an error, and the next read goes on behind it. Newlines are counted, so
  a last line without one is not.
\<close>

definition reader_lines :: "bytes \<Rightarrow> bytes option list" where
  "reader_lines bs = map (\<lambda>l. if utf8_valid l then Some l else None) (str_lines bs)"

definition count_lines_in_file :: "bytes \<Rightarrow> nat" where
  "count_lines_in_file bs = length (filter (\<lambda>b. b = 10) bs)"

definition SEEK_THRESHOLD :: nat where "SEEK_THRESHOLD = 5000"
definition SAFETY_MARGIN :: nat where "SAFETY_MARGIN = 500"

record line_range =
  lr_lines :: "bytes list"
  lr_truncated :: bool
  lr_truncated_at :: "nat option"

text \<open>Where reading starts: the byte position, and the number given to the first whole line behind it.\<close>

definition seek_start :: "nat \<Rightarrow> nat \<Rightarrow> nat \<Rightarrow> (nat \<times> nat) option" where
  "seek_start abs_start total_lines file_len =
     (if abs_start > SEEK_THRESHOLD + SAFETY_MARGIN \<and> total_lines > SAFETY_MARGIN \<and> file_len > 1024
      then (let scan_start = abs_start - SAFETY_MARGIN;
                seek_to = min (min (scan_start * (file_len div total_lines)) (2 ^ 64 - 1)) (file_len - 1024)
            in if seek_to > 0 then Some (seek_to, scan_start) else None)
      else None)"

fun take_range :: "nat \<Rightarrow> nat \<Rightarrow> nat \<Rightarrow> bytes option list \<Rightarrow> line_range" where
  "take_range abs_start abs_end n [] = \<lparr>lr_lines = [], lr_truncated = False, lr_truncated_at = None\<rparr>"
| "take_range abs_start abs_end n (l # ls) =
     (if n < abs_start then take_range abs_start abs_end (Suc n) ls
      else if abs_end < n then \<lparr>lr_lines = [], lr_truncated = False, lr_truncated_at = None\<rparr>
      else case l of
             None \<Rightarrow> \<lparr>lr_lines = [], lr_truncated = True, lr_truncated_at = Some n\<rparr>
           | Some x \<Rightarrow> (let r = take_range abs_start abs_end (Suc n) ls in r\<lparr>lr_lines := x # lr_lines r\<rparr>))"

definition read_line_range :: "bytes \<Rightarrow> nat \<Rightarrow> nat \<Rightarrow> nat \<Rightarrow> nat \<Rightarrow> line_range" where
  "read_line_range bs abs_start abs_end total_lines file_len =
     (case seek_start abs_start total_lines file_len of
        None \<Rightarrow> take_range abs_start abs_end 1 (reader_lines bs)
      | Some (seek_to, scan_start) \<Rightarrow>
          take_range abs_start abs_end scan_start
            (reader_lines (drop 1 (dropWhile (\<lambda>b. b \<noteq> 10) (drop seek_to bs)))))"


section \<open>Session metadata\<close>

definition parse_iso_seconds :: "'v memory_env \<Rightarrow> bytes \<Rightarrow> int option" where
  "parse_iso_seconds E s =
     (case me_rfc3339 E s of
        Some t \<Rightarrow> Some t
      | None \<Rightarrow> me_rfc3339 E (concat (map (\<lambda>b. if b = 90 then ascii ''+00:00'' else [b]) s)))"

text \<open>\<open>data.get("timestamp").or_else(|| data.get("createdAt"))\<close>.\<close>

definition time_stamp :: "'v json_lib \<Rightarrow> 'v \<Rightarrow> string option" where
  "time_stamp J v =
     (case json_get J v ''timestamp'' of
        Some t \<Rightarrow> json_str J t
      | None \<Rightarrow> get_str J v ''createdAt'')"

definition written_files :: "'v json_lib \<Rightarrow> 'v \<Rightarrow> string list" where
  "written_files J v =
     (case Option.bind (json_get J v ''message'') (\<lambda>m. get_array J m ''content'') of
        None \<Rightarrow> []
      | Some items \<Rightarrow>
          List.map_filter (\<lambda>i. Option.bind (json_get J i ''input'') (\<lambda>x. get_str J x ''file_path''))
            (filter (\<lambda>i. get_str J i ''type'' = Some ''tool_use'' \<and> get_str J i ''name'' = Some ''Write'') items))"

record session_data =
  sd_first :: "string option"
  sd_last :: "string option"
  sd_lines :: nat
  sd_bytes :: nat
  sd_written :: "string list"
  sd_hours :: "u64 option"

text \<open>One line of the file; the set of files is kept as a list.\<close>

definition session_line :: "'v json_lib \<Rightarrow> bytes option \<Rightarrow> session_data \<Rightarrow> session_data" where
  "session_line J line d =
     (case line of
        None \<Rightarrow> d
      | Some l \<Rightarrow>
          (let d1 = d\<lparr>sd_lines := sd_lines d + 1\<rparr>
           in case json_parse J l of
                None \<Rightarrow> d1
              | Some v \<Rightarrow>
                  (let d2 = (case time_stamp J v of
                               None \<Rightarrow> d1
                             | Some t \<Rightarrow> d1\<lparr>sd_first := (if sd_first d1 = None then Some t else sd_first d1), sd_last := Some t\<rparr>)
                   in d2\<lparr>sd_written := sd_written d2 @ written_files J v\<rparr>)))"

definition duration_hours :: "'v memory_env \<Rightarrow> string option \<Rightarrow> string option \<Rightarrow> u64 option" where
  "duration_hours E f l =
     (case (f, l) of
        (Some a, Some b) \<Rightarrow>
          (if a = b then None
           else case (parse_iso_seconds E (ascii a), parse_iso_seconds E (ascii b)) of
                  (Some s, Some e) \<Rightarrow> Some (me_hours E (nat (max (e - s) 0)))
                | _ \<Rightarrow> None)
      | _ \<Rightarrow> None)"

definition extract_session_data :: "'v memory_env \<Rightarrow> bytes \<Rightarrow> nat \<Rightarrow> session_data" where
  "extract_session_data E bs len =
     (let d = fold (session_line (me_json E)) (reader_lines bs)
                \<lparr>sd_first = None, sd_last = None, sd_lines = 0, sd_bytes = len, sd_written = [], sd_hours = None\<rparr>
      in d\<lparr>sd_written := sort (remdups (sd_written d)), sd_hours := duration_hours E (sd_first d) (sd_last d)\<rparr>)"

definition opt_str :: "string option \<Rightarrow> json_tree" where
  "opt_str s = (case s of Some x \<Rightarrow> JStr x | None \<Rightarrow> JNull)"

definition opt_float :: "u64 option \<Rightarrow> json_tree" where
  "opt_float s = (case s of Some x \<Rightarrow> JFloat x | None \<Rightarrow> JNull)"

definition json_count :: "nat \<Rightarrow> json_tree" where
  "json_count n = JNum (of_nat n)"

text \<open>\<open>os_error\<close> is the text of the error if the file cannot be opened.\<close>

definition handle_get_session_info :: "'v memory_env \<Rightarrow> string \<Rightarrow> 'v \<Rightarrow> json_tree" where
  "handle_get_session_info E os_error args =
     (case resolve_session_path E args of
        Inl e \<Rightarrow> JObj [(''error'', JStr e)]
      | Inr p \<Rightarrow>
          (case (me_content E p, me_len E p) of
             (Some bs, Some len) \<Rightarrow>
               (let d = extract_session_data E bs len
                in JObj [(''file'', JStr p), (''line_count'', json_count (sd_lines d)), (''size_bytes'', json_count (sd_bytes d)),
                         (''size_mb'', JFloat (me_megabytes E (sd_bytes d))), (''first_timestamp'', opt_str (sd_first d)),
                         (''last_timestamp'', opt_str (sd_last d)), (''duration_hours'', opt_float (sd_hours d)),
                         (''files_written'', JArr (map JStr (sd_written d)))])
           | _ \<Rightarrow> JObj [(''error'', JStr os_error)]))"

definition handle_find_active_session :: "'v memory_env \<Rightarrow> json_tree" where
  "handle_find_active_session E =
     (case active_session E of
        None \<Rightarrow> JObj [(''error'', JStr ''No active session found'')]
      | Some p \<Rightarrow>
          JObj [(''file'', JStr p), (''size_mb'', JFloat (case me_len E p of Some n \<Rightarrow> me_megabytes E n | None \<Rightarrow> 0))])"


section \<open>Listing sessions\<close>

definition read_first_timestamp :: "'v json_lib \<Rightarrow> bytes \<Rightarrow> string option" where
  "read_first_timestamp J bs =
     (case reader_lines bs of
        [] \<Rightarrow> Option.bind (json_parse J []) (time_stamp J)
      | None # _ \<Rightarrow> None
      | Some l # _ \<Rightarrow> Option.bind (json_parse J (str_trim l)) (time_stamp J))"

text \<open>The last time stamp in the last 8192 bytes.\<close>

definition last_stamp :: "'v json_lib \<Rightarrow> bytes option \<Rightarrow> string option \<Rightarrow> string option" where
  "last_stamp J line acc =
     (case line of
        None \<Rightarrow> acc
      | Some l \<Rightarrow>
          (if str_trim l = [] then acc
           else case Option.bind (json_parse J l) (time_stamp J) of Some t \<Rightarrow> Some t | None \<Rightarrow> acc))"

definition read_last_timestamp :: "'v json_lib \<Rightarrow> bytes \<Rightarrow> nat \<Rightarrow> string option" where
  "read_last_timestamp J bs len =
     fold (last_stamp J) (reader_lines (if 8192 < len then drop (length bs - 8192) bs else bs)) None"

record session_row =
  sr_id :: string
  sr_source :: string
  sr_size_mb :: u64
  sr_lines :: nat
  sr_first :: "string option"
  sr_last :: "string option"
  sr_path :: string

definition session_row_of :: "'v memory_env \<Rightarrow> u64 option \<Rightarrow> string \<Rightarrow> string \<Rightarrow> string \<Rightarrow> string \<Rightarrow> session_row option" where
  "session_row_of E min_mb after before src p =
     (case (if is_jsonl p then me_len E p else None) of
        None \<Rightarrow> None
      | Some len \<Rightarrow>
          (let J = me_json E;
               first = Option.bind (me_content E p) (read_first_timestamp J);
               last_ts = Option.bind (me_content E p) (\<lambda>bs. read_last_timestamp J bs len)
           in if (case min_mb of Some m \<Rightarrow> me_below E len m | None \<Rightarrow> False) then None
              else if after \<noteq> [] \<and> (case last_ts of Some t \<Rightarrow> ascii t < ascii after | None \<Rightarrow> False) then None
              else if before \<noteq> [] \<and> (case last_ts of Some t \<Rightarrow> ascii before < ascii t | None \<Rightarrow> False) then None
              else Some \<lparr>sr_id = session_stem p, sr_source = src, sr_size_mb = me_megabytes E len,
                sr_lines = (if len < 10 * 1024 * 1024
                            then (case me_content E p of Some bs \<Rightarrow> count_lines_in_file bs | None \<Rightarrow> 0) else len div 3400),
                sr_first = first, sr_last = last_ts, sr_path = p\<rparr>))"

definition session_json :: "session_row \<Rightarrow> json_tree" where
  "session_json r =
     JObj [(''session_id'', JStr (sr_id r)), (''source'', JStr (sr_source r)), (''size_mb'', JFloat (sr_size_mb r)),
           (''line_count'', json_count (sr_lines r)), (''first_timestamp'', opt_str (sr_first r)),
           (''last_timestamp'', opt_str (sr_last r)), (''file_path'', JStr (sr_path r))]"

definition session_rows :: "'v memory_env \<Rightarrow> u64 option \<Rightarrow> string \<Rightarrow> string \<Rightarrow> session_row list" where
  "session_rows E min_mb after before =
     concat (map (\<lambda>d. case (if me_exists E d then me_read_dir E d else None) of
                        None \<Rightarrow> []
                      | Some ps \<Rightarrow> List.map_filter (session_row_of E min_mb after before (classify_source d)) ps)
       (get_all_session_dirs E))"

text \<open>The sizes are not negative, and such floating-point numbers are in the order of their bit patterns.\<close>

definition handle_list_sessions :: "'v memory_env \<Rightarrow> 'v \<Rightarrow> json_tree" where
  "handle_list_sessions E args =
     (let J = me_json E;
          limit = (case get_u64 J args ''limit'' of Some n \<Rightarrow> unat n | None \<Rightarrow> 50);
          text_of = (\<lambda>k. case get_str J args k of Some s \<Rightarrow> s | None \<Rightarrow> []);
          rows = sort_key (\<lambda>r. - uint (sr_size_mb r))
                   (session_rows E (get_f64 J args ''min_size_mb'') (text_of ''after'') (text_of ''before''));
          shown = (if limit > 0 \<and> length rows > limit then take limit rows else rows)
      in JObj [(''total'', json_count (length rows)), (''returned'', json_count (length shown)),
               (''sessions'', JArr (map session_json shown))])"


section \<open>Resurfacing\<close>

definition is_compaction :: "bytes \<Rightarrow> bool" where
  "is_compaction l \<longleftrightarrow> str_contains (ascii ''Compacted'') l \<and> str_contains (ascii ''ctrl+o'') l"

definition should_skip_content :: "bytes \<Rightarrow> bool" where
  "should_skip_content t \<longleftrightarrow> str_contains (ascii ''<task-notification>'') t \<or> is_compaction t"

definition is_queue_operation :: "'v json_lib \<Rightarrow> 'v \<Rightarrow> bool" where
  "is_queue_operation J v \<longleftrightarrow>
     get_str J v ''type'' = Some ''queue-operation'' \<and> get_str J v ''operation'' = Some ''enqueue''"

definition message_role :: "'v json_lib \<Rightarrow> 'v \<Rightarrow> string option" where
  "message_role J v = Option.bind (json_get J v ''message'') (\<lambda>m. get_str J m ''role'')"

text \<open>The lines kept, each with its position in the range.\<close>

definition keeps_line :: "string \<Rightarrow> bytes \<Rightarrow> bool" where
  "keeps_line record_type l \<longleftrightarrow>
     is_compaction l \<or>
     (str_trim l \<noteq> [] \<and> (str_contains (ascii ''tool_use_id'') l \<longrightarrow> record_type = ''all''))"

definition filter_lines :: "string \<Rightarrow> bytes list \<Rightarrow> (nat \<times> bytes) list" where
  "filter_lines record_type ls = filter (\<lambda>(i, l). keeps_line record_type l) (enumerate 0 ls)"

text \<open>Reservoir sampling; \<open>draw i\<close> is the number drawn from \<open>0..=i\<close>.\<close>

definition reservoir_step :: "(nat \<Rightarrow> nat) \<Rightarrow> nat \<Rightarrow> nat list \<Rightarrow> nat \<Rightarrow> nat list \<Rightarrow> nat list" where
  "reservoir_step draw k items i reservoir = (if draw i < k then reservoir[draw i := items ! i] else reservoir)"

definition reservoir_sample :: "(nat \<Rightarrow> nat) \<Rightarrow> nat list \<Rightarrow> nat \<Rightarrow> nat list" where
  "reservoir_sample draw items k =
     (if length items \<le> k then items
      else sort (fold (reservoir_step draw k items) [k..<length items] (take k items)))"

definition sample_lines :: "'v memory_env \<Rightarrow> u64 option \<Rightarrow> u64 option \<Rightarrow> (nat \<times> bytes) list \<Rightarrow> (nat \<times> bytes) list" where
  "sample_lines E frac seed ls =
     (case frac of
        None \<Rightarrow> ls
      | Some f \<Rightarrow>
          (if \<not> me_fraction E f then ls
           else (let markers = filter (\<lambda>i. is_compaction (snd (ls ! i))) [0..<length ls];
                     k = max (me_times E (length ls) f - length markers) 1;
                     available = filter (\<lambda>i. i \<notin> set markers) [0..<length ls];
                     rng = (case seed of Some x \<Rightarrow> x | None \<Rightarrow> me_time_seed E);
                     sampled = (if length available > k
                                then reservoir_sample (\<lambda>i. me_draw E rng (i - k) i) available k else available)
                 in map ((!) ls) (remdups_adj (sort (markers @ sampled))))))"

text \<open>\<open>&s[..n]\<close> panics if \<open>n\<close> is inside a character.\<close>

definition char_boundary :: "bytes \<Rightarrow> nat \<Rightarrow> bool" where
  "char_boundary s n \<longleftrightarrow> n = length s \<or> (n < length s \<and> (n = 0 \<or> \<not> cont (s ! n)))"

definition slice_to :: "nat \<Rightarrow> bytes \<Rightarrow> bytes option" where
  "slice_to n s = (if char_boundary s n then Some (take n s) else None)"

text \<open>What an item of a message contributes; the text behind the line number and the time.\<close>

definition tool_field :: "'v json_lib \<Rightarrow> 'v option \<Rightarrow> string \<Rightarrow> string \<Rightarrow> bytes" where
  "tool_field J input k otherwise =
     (case Option.bind input (\<lambda>v. get_str J v k) of Some s \<Rightarrow> ascii s | None \<Rightarrow> ascii otherwise)"

definition shell_search :: "string \<Rightarrow> bytes \<Rightarrow> bool" where
  "shell_search cmd command \<longleftrightarrow>
     starts_with (str_trim command) (ascii (cmd @ '' '')) \<or> str_contains (ascii ('' '' @ cmd @ '' '')) command"

definition tool_use_text :: "'v memory_env \<Rightarrow> string \<Rightarrow> string \<Rightarrow> 'v \<Rightarrow> bytes list" where
  "tool_use_text E rt agent item =
     (let J = me_json E;
          tool = (case get_str J item ''name'' of Some s \<Rightarrow> s | None \<Rightarrow> []);
          input = json_get J item ''input'';
          command = tool_field J input ''command'' [];
          shown = (case input of Some v \<Rightarrow> if me_is_null E v then ascii ''{}'' else me_show E v | None \<Rightarrow> ascii ''{}'');
          searched = (\<lambda>t. [ascii (t @ '': '') @ tool_field J input ''pattern'' [] @ ascii '' in '' @ tool_field J input ''path'' ''.''])
      in if rt = ''conversation'' then
           (if str_contains (ascii ''voice_say'') (ascii tool) \<and> tool_field J input ''text'' [] \<noteq> []
            then [ascii agent @ ascii '' [voice]: '' @ flat_line (tool_field J input ''text'' [])] else [])
         else if rt = ''tool_use'' \<or> rt = ''all'' then [ascii tool @ ascii '': '' @ shown]
         else if rt = ''bash'' then
           (if tool = ''Bash''
            then [ascii ''$ '' @ command @
                  (let desc = tool_field J input ''description'' [] in if desc = [] then [] else ascii '' # '' @ desc)]
            else [])
         else if rt = ''grep'' then
           (if tool = ''Bash'' then (if shell_search ''grep'' command then [ascii ''$ '' @ command] else [])
            else if tool = ''Grep'' then searched ''Grep'' else [])
         else if rt = ''find'' then
           (if tool = ''Bash'' then (if shell_search ''find'' command then [ascii ''$ '' @ command] else [])
            else if tool = ''Glob'' then searched ''Glob'' else [])
         else if rt = ''write'' then (if tool = ''Write'' then [ascii ''Write: '' @ tool_field J input ''file_path'' []] else [])
         else if rt = ''read'' then (if tool = ''Read'' then [ascii ''Read: '' @ tool_field J input ''file_path'' []] else [])
         else [])"

definition text_item :: "'v memory_env \<Rightarrow> string \<Rightarrow> string \<Rightarrow> 'v \<Rightarrow> bytes list" where
  "text_item E rt speaker item =
     (let t = tool_field (me_json E) (Some item) ''text'' []
      in if rt \<noteq> ''conversation'' \<and> rt \<noteq> ''all'' then []
         else if t = [] \<or> str_trim t = [] then []
         else if should_skip_content t then []
         else [ascii speaker @ ascii '': '' @ flat_line t] @ (if is_compaction t then [ascii ''COMPACTION''] else []))"

definition result_text :: "'v memory_env \<Rightarrow> string \<Rightarrow> nat \<Rightarrow> 'v \<Rightarrow> bytes list option" where
  "result_text E rt limit item =
     (if rt \<noteq> ''all'' then Some []
      else (let tid = tool_field (me_json E) (Some item) ''tool_use_id'' [];
                content = (case json_get (me_json E) item ''content'' of Some v \<Rightarrow> me_show E v | None \<Rightarrow> [])
            in case (if limit > 0 \<and> length content > limit then map_option (\<lambda>c. c @ ascii ''...'') (slice_to limit content)
                     else Some content) of
                 None \<Rightarrow> None
               | Some limited \<Rightarrow>
                   (case (if length tid \<ge> 8 then slice_to 8 tid else Some tid) of
                      None \<Rightarrow> None
                    | Some short \<Rightarrow> Some [ascii ''[result '' @ short @ ascii '']: '' @ limited])))"

definition item_text :: "'v memory_env \<Rightarrow> string \<Rightarrow> nat \<Rightarrow> string \<Rightarrow> string \<Rightarrow> 'v \<Rightarrow> bytes list option" where
  "item_text E rt limit agent speaker item =
     (case get_str (me_json E) item ''type'' of
        None \<Rightarrow> Some []
      | Some t \<Rightarrow>
          (if t = ''tool_use'' then Some (tool_use_text E rt agent item)
           else if t = ''text'' then Some (text_item E rt speaker item)
           else if t = ''tool_result'' then result_text E rt limit item
           else Some []))"

text \<open>One record of the file.\<close>

definition record_texts :: "'v memory_env \<Rightarrow> string \<Rightarrow> nat \<Rightarrow> string \<Rightarrow> 'v \<Rightarrow> bytes list option" where
  "record_texts E rt limit agent v =
     (let J = me_json E; talk = (rt = ''conversation'' \<or> rt = ''all'')
      in if is_queue_operation J v then
           Some (case get_str J v ''content'' of
                   Some c \<Rightarrow> (if c \<noteq> [] \<and> \<not> should_skip_content (ascii c) \<and> talk then [ascii ''User: '' @ ascii c] else [])
                 | None \<Rightarrow> [])
         else case (message_role J v, Option.bind (json_get J v ''message'') (\<lambda>m. json_get J m ''content'')) of
                (Some role, Some content) \<Rightarrow>
                  (let speaker = (if role = ''user'' then ''User'' else agent)
                   in case json_str J content of
                        Some t \<Rightarrow>
                          Some (if should_skip_content (ascii t) \<or> \<not> talk then []
                                else [ascii speaker @ ascii '': '' @ flat_line (ascii t)])
                      | None \<Rightarrow>
                          (case json_array J content of
                             None \<Rightarrow> Some []
                           | Some items \<Rightarrow> map_option concat (all_some (map (item_text E rt limit agent speaker) items))))
              | _ \<Rightarrow> Some [])"

definition line_prefix :: "nat \<Rightarrow> bytes" where
  "line_prefix n = ascii (''L'' @ show_nat n @ '': '')"

definition stamp_prefix :: "'v json_lib \<Rightarrow> bool \<Rightarrow> 'v \<Rightarrow> bytes" where
  "stamp_prefix J include v =
     (case get_str J v ''timestamp'' of
        Some (c # t) \<Rightarrow> (if include then ascii (c # t) @ ascii '' | '' else [])
      | _ \<Rightarrow> [])"

record memory_options =
  mo_type :: string
  mo_limit :: nat
  mo_stamps :: bool
  mo_agent :: string

definition line_moments :: "'v memory_env \<Rightarrow> memory_options \<Rightarrow> nat \<Rightarrow> bytes \<Rightarrow> bytes list option" where
  "line_moments E opts n l =
     (if l = [] then Some []
      else case json_parse (me_json E) l of
             None \<Rightarrow> Some []
           | Some v \<Rightarrow>
               map_option (map (\<lambda>t. line_prefix n @ stamp_prefix (me_json E) (mo_stamps opts) v @ t))
                 (record_texts E (mo_type opts) (mo_limit opts) (mo_agent opts) v))"

definition resurface_moments :: "'v memory_env \<Rightarrow> memory_options \<Rightarrow> nat \<Rightarrow> (nat \<times> bytes) list \<Rightarrow> bytes list option" where
  "resurface_moments E opts abs_start ls =
     map_option concat (all_some (map (\<lambda>(i, l). line_moments E opts (abs_start + i) l) ls))"

text \<open>\<open>split_whitespace\<close>, character by character, and the limit of words.\<close>

function split_words :: "bytes \<Rightarrow> bytes \<Rightarrow> bytes list" where
  "split_words w s =
     (if s = [] then (if w = [] then [] else [w])
      else case find (\<lambda>x. starts_with s x) white_space of
             Some x \<Rightarrow> (if w = [] then [] else [w]) @ split_words [] (drop (max 1 (length x)) s)
           | None \<Rightarrow> split_words (w @ take (max 1 (utf8_len s)) s) (drop (max 1 (utf8_len s)) s))"
  by pat_completeness auto
termination
  by (relation "measure (\<lambda>(w, s). length s)") auto

declare split_words.simps [simp del]

definition limit_words :: "nat option \<Rightarrow> bytes \<Rightarrow> bytes" where
  "limit_words limit l =
     (case limit of
        None \<Rightarrow> l
      | Some n \<Rightarrow>
          (let ws = split_words [] l in if length ws > n then str_join [32] (take n ws) @ ascii ''...'' else l))"

text \<open>The lines asked for: negative numbers count from the end.\<close>

definition first_line :: "nat \<Rightarrow> int \<Rightarrow> nat" where
  "first_line total_lines start_line =
     (if 0 < start_line then nat start_line else nat (max (int total_lines + start_line + 1) 1))"

definition final_line :: "nat \<Rightarrow> int \<Rightarrow> nat" where
  "final_line total_lines end_line =
     (if 0 < end_line then nat end_line
      else if end_line = -1 then total_lines
      else nat (max (int total_lines + end_line) 1))"

definition resurface_header :: "nat \<Rightarrow> nat \<Rightarrow> nat \<Rightarrow> line_range \<Rightarrow> bytes" where
  "resurface_header total_lines abs_start abs_end r =
     ascii (''[Session: '' @ show_nat total_lines @ '' total lines | Showing L'' @ show_nat abs_start @ ''-L'' @ show_nat abs_end) @
     (if lr_truncated r
      then ascii ('' | TRUNCATED at line '' @ show_nat (case lr_truncated_at r of Some n \<Rightarrow> n | None \<Rightarrow> 0)) @
           ascii '' (I/O error '' @ [0xE2, 0x80, 0x94] @ ascii '' partial result)'' else []) @
     ascii '']'' @ [10, 10]"


text \<open>
  \<open>handle_resurface\<close>, with the file written if one was asked for; \<open>writes\<close> says whether it can be. \<open>None\<close>: the slicing of a
  result panics.
\<close>

definition handle_resurface :: "'v memory_env \<Rightarrow> bool \<Rightarrow> 'v \<Rightarrow> (json_tree \<times> (string \<times> bytes) option) option" where
  "handle_resurface E writes args =
     (let J = me_json E;
          number = (\<lambda>k d. case Option.bind (json_get J args k) (me_i64 E) of Some i \<Rightarrow> i | None \<Rightarrow> d);
          rt = (case get_str J args ''record_type'' of Some t \<Rightarrow> t | None \<Rightarrow> ''conversation'');
          opts = \<lparr>mo_type = rt, mo_limit = (case get_u64 J args ''tool_result_limit'' of Some n \<Rightarrow> unat n | None \<Rightarrow> 100),
                  mo_stamps = (case get_bool J args ''include_timestamps'' of Some b \<Rightarrow> b | None \<Rightarrow> True),
                  mo_agent = get_agent_name E\<rparr>
      in case resolve_session_path E args of
           Inl e \<Rightarrow> Some (JStr (''Error: '' @ e), None)
         | Inr p \<Rightarrow>
             (let total_lines = (case me_content E p of Some bs \<Rightarrow> count_lines_in_file bs | None \<Rightarrow> 100000);
                  abs_start = first_line total_lines (number ''start_line'' 1);
                  abs_end = final_line total_lines (number ''end_line'' (- 1))
              in case me_content E p of
                   None \<Rightarrow> Some (JStr ''Error: Failed to read lines'', None)
                 | Some bs \<Rightarrow>
                     (let r = read_line_range bs abs_start abs_end total_lines (case me_len E p of Some n \<Rightarrow> n | None \<Rightarrow> 0);
                          ls = sample_lines E (get_f64 J args ''frac_sample'') (get_u64 J args ''seed'') (filter_lines rt (lr_lines r))
                      in case resurface_moments E opts abs_start ls of
                           None \<Rightarrow> None
                         | Some ms \<Rightarrow>
                             (let moments = map (limit_words (map_option unat (get_u64 J args ''max_word_length''))) ms;
                                  out = resurface_header total_lines abs_start abs_end r @ str_join [10] moments
                              in Some (case get_str J args ''output_file'' of
                                         Some (c # f) \<Rightarrow>
                                           (if writes
                                            then (JObj ([(''resurfaced'', JStr (c # f)), (''moments'', json_count (length moments)),
                                                         (''total_lines'', json_count total_lines)] @
                                                        (if lr_truncated r
                                                         then [(''truncated'', JBool True),
                                                               (''truncated_at_line'',
                                                                case lr_truncated_at r of Some n \<Rightarrow> json_count n | None \<Rightarrow> JNull)]
                                                         else [])),
                                                  Some (c # f, out))
                                            else (JStr ''Error writing output file'', None))
                                       | _ \<Rightarrow> (JStr (of_bytes out), None))))))"


section \<open>The server\<close>

text \<open>\<open>serde_json::to_string\<close> of an answer is the parameter \<open>print\<close>; an answer of the right shape is passed on.\<close>

definition wrap_result :: "(json_tree \<Rightarrow> string) \<Rightarrow> json_tree \<Rightarrow> json_tree" where
  "wrap_result print r =
     (if tree_get r ''content'' \<noteq> None then r
      else JObj [(''content'', JArr [JObj [(''type'', JStr ''text''), (''text'', JStr (print r))]])])"

text \<open>
  The tools, with the file a call writes. \<open>dirs\<close> prints the list of directories, \<open>os_error\<close> is the text of an error of the
  operating system, \<open>no_args\<close> the arguments of a call without any.
\<close>

definition memory_tool ::
  "'v memory_env \<Rightarrow> (string list \<Rightarrow> bytes) \<Rightarrow> bool \<Rightarrow> string \<Rightarrow> string \<Rightarrow> 'v \<Rightarrow> (json_tree \<times> (string \<times> bytes) option) option" where
  "memory_tool E dirs writes os_error tool args =
     (if tool = ''find_active_session'' then Some (handle_find_active_session E, None)
      else if tool = ''get_session_info'' then Some (handle_get_session_info E os_error args, None)
      else if tool = ''list_sessions'' then Some (handle_list_sessions E args, None)
      else if tool = ''resurface'' then handle_resurface E writes args
      else if tool = ''add_session_dir'' then Some (handle_add_session_dir E dirs writes args)
      else Some (tool_error (''Unknown tool: '' @ tool), None))"

definition memory_server ::
  "'v memory_env \<Rightarrow> (string list \<Rightarrow> bytes) \<Rightarrow> (json_tree \<Rightarrow> string) \<Rightarrow> bool \<Rightarrow> string \<Rightarrow> 'v \<Rightarrow> string \<Rightarrow> json_tree \<Rightarrow> 'v rpc_server" where
  "memory_server E dirs print writes os_error no_args release tools =
     \<lparr>rs_initialize =
        JObj [(''protocolVersion'', JStr ''2024-11-05''),
              (''capabilities'', JObj [(''tools'', JObj [(''listChanged'', JBool False)])]),
              (''serverInfo'', JObj [(''name'', JStr ''session-memory''), (''version'', JStr release)]),
              (''instructions'',
               JStr (''Session memory tools '' @ of_bytes [0xE2, 0x80, 0x94] @
                     '' resurface, list, and inspect Claude Code session JSONL files.''))],
      rs_tools = tools,
      rs_call = (\<lambda>tool args.
        map_option (wrap_result print \<circ> fst)
          (memory_tool E dirs writes os_error tool (case args of Some v \<Rightarrow> v | None \<Rightarrow> no_args)))\<rparr>"


section \<open>Sampling\<close>

lemma reservoir_step_ok:
  assumes "distinct r" and "set r \<subseteq> set (take i items)" and "distinct items" and "i < length items" and "length r = k"
  shows "distinct (reservoir_step draw k items i r)" "set (reservoir_step draw k items i r) \<subseteq> set (take (Suc i) items)"
    "length (reservoir_step draw k items i r) = k"
proof -
  have "items ! i \<notin> set (take i items)" using assms(3,4) by (auto simp: in_set_conv_nth nth_eq_iff_index_eq)
  then show "distinct (reservoir_step draw k items i r)"
    using assms by (auto simp: reservoir_step_def intro!: distinct_list_update)
  show "set (reservoir_step draw k items i r) \<subseteq> set (take (Suc i) items)"
    using assms set_update_subset_insert [of r "draw i" "items ! i"]
    by (auto simp: reservoir_step_def take_Suc_conv_app_nth)
  show "length (reservoir_step draw k items i r) = k" using assms(5) by (simp add: reservoir_step_def)
qed

lemma reservoir_fold:
  assumes "distinct items" and "k \<le> n" and "n \<le> length items"
  shows "let r = fold (reservoir_step draw k items) [k..<n] (take k items)
     in distinct r \<and> set r \<subseteq> set (take n items) \<and> length r = k"
  using assms(2,3)
proof (induction n rule: dec_induct)
  case base
  then show ?case using assms by simp
next
  case (step n)
  let ?r = "fold (reservoir_step draw k items) [k..<n] (take k items)"
  have "distinct ?r" "set ?r \<subseteq> set (take n items)" "length ?r = k" using step by (simp_all add: Let_def)
  from reservoir_step_ok [OF this(1,2) assms(1) _ this(3), of draw] step show ?case by (simp add: Let_def)
qed

text \<open>A sorted selection without repetitions, of the size asked for.\<close>

lemma reservoir_sample_ok:
  assumes "sorted items" and "distinct items"
  shows "sorted (reservoir_sample draw items k)" "distinct (reservoir_sample draw items k)"
    "set (reservoir_sample draw items k) \<subseteq> set items" "length (reservoir_sample draw items k) = min k (length items)"
proof -
  have *: "length items > k \<Longrightarrow> let r = fold (reservoir_step draw k items) [k..<length items] (take k items)
     in distinct r \<and> set r \<subseteq> set items \<and> length r = k"
    using reservoir_fold [OF assms(2), of k "length items" draw] by simp
  show "sorted (reservoir_sample draw items k)" "distinct (reservoir_sample draw items k)"
    "set (reservoir_sample draw items k) \<subseteq> set items" "length (reservoir_sample draw items k) = min k (length items)"
    using * assms by (auto simp: reservoir_sample_def Let_def)
qed

lemma sorted_selection:
  assumes "sorted is" and "distinct is" and "set is \<subseteq> {..<n}"
  shows "is = filter (\<lambda>i. i \<in> set is) [0..<n]"
proof (rule sorted_distinct_set_unique)
  show "sorted is" "distinct is" by (rule assms)+
qed (use assms(3) in \<open>auto simp: sorted_wrt_filter\<close>)

lemma filter_nth: "filter P xs = map ((!) xs) (filter (\<lambda>i. P (xs ! i)) [0..<length xs])"
proof -
  have "filter P (map ((!) xs) [0..<length xs]) = map ((!) xs) (filter (P \<circ> (!) xs) [0..<length xs])"
    by (rule filter_map)
  then show ?thesis by (simp add: map_nth comp_def)
qed

lemma subseq_filter_nth: "subseq (map ((!) xs) (filter P [0..<length xs])) xs"
proof -
  have "subseq (map ((!) xs) (filter P [0..<length xs])) (map ((!) xs) [0..<length xs])"
    by (intro subseq_map subseq_filter_left)
  then show ?thesis by (simp add: map_nth)
qed

text \<open>A line looks like a marker of a compaction if both words are somewhere in it.\<close>

definition marker :: "nat \<times> bytes \<Rightarrow> bool" where
  "marker l \<longleftrightarrow> sublist (ascii ''Compacted'') (snd l) \<and> sublist (ascii ''ctrl+o'') (snd l)"

lemma str_contains_sublist: "str_contains key s \<longleftrightarrow> sublist key s"
proof (induction s)
  case (Cons b s)
  have "starts_with (b # s) key \<longleftrightarrow> prefix key (b # s)"
    by (metis append_eq_conv_conj prefix_def starts_with_def)
  then show ?case using Cons by (auto simp: str_contains_def sublist_Cons_right)
qed (simp add: str_contains_def)

lemma marker_eq: "marker l = is_compaction (snd l)"
  by (simp add: marker_def is_compaction_def str_contains_sublist)

definition sample_size :: "'v memory_env \<Rightarrow> u64 \<Rightarrow> (nat \<times> bytes) list \<Rightarrow> nat" where
  "sample_size E f ls = max (me_times E (length ls) f - length (filter marker ls)) 1"

text \<open>A sample is a selection of positions, which the positions of all markers are among.\<close>

definition sample_length :: "'v memory_env \<Rightarrow> u64 option \<Rightarrow> (nat \<times> bytes) list \<Rightarrow> nat" where
  "sample_length E frac ls =
     (case frac of
        Some f \<Rightarrow> (if me_fraction E f
                   then length (filter marker ls) + min (sample_size E f ls) (length ls - length (filter marker ls))
                   else length ls)
      | None \<Rightarrow> length ls)"

lemma sample_selection:
  obtains Q where "sample_lines E frac seed ls = map ((!) ls) (filter Q [0..<length ls])"
    and "\<And>i. i < length ls \<Longrightarrow> marker (ls ! i) \<Longrightarrow> Q i"
    and "length (filter Q [0..<length ls]) = sample_length E frac ls"
proof (cases "\<exists>f. frac = Some f \<and> me_fraction E f")
  case False
  then show thesis
    by (intro that [of "\<lambda>_. True"]) (auto simp: sample_lines_def sample_length_def map_nth split: option.splits)
next
  case True
  then obtain f where f: "frac = Some f" "me_fraction E f" by auto
  define markers where "markers = filter (\<lambda>i. marker (ls ! i)) [0..<length ls]"
  define rest where "rest = filter (\<lambda>i. i \<notin> set markers) [0..<length ls]"
  define k where "k = sample_size E f ls"
  define chosen where "chosen = (if length rest > k
    then reservoir_sample (\<lambda>i. me_draw E (case seed of Some x \<Rightarrow> x | None \<Rightarrow> me_time_seed E) (i - k) i) rest k else rest)"
  have n: "length markers = length (filter marker ls)" by (simp add: markers_def filter_nth [of marker])
  have markers: "distinct markers" "set markers \<subseteq> {..<length ls}" by (auto simp: markers_def)
  have rest: "sorted rest" "distinct rest" "set rest = {..<length ls} - set markers"
    by (auto simp: rest_def sorted_wrt_filter)
  have chosen: "distinct chosen" "set chosen \<subseteq> set rest" "length chosen = min k (length rest)"
    using rest reservoir_sample_ok [OF rest(1,2)] by (auto simp: chosen_def)
  define idx where "idx = sort (markers @ chosen)"
  have disjoint: "distinct (markers @ chosen)" using markers chosen rest by auto
  have "sample_lines E frac seed ls = map ((!) ls) (remdups_adj (sort (markers @ chosen)))"
    by (simp add: sample_lines_def f chosen_def rest_def markers_def k_def sample_size_def marker_eq Let_def
        filter_nth [of marker])
  then have s: "sample_lines E frac seed ls = map ((!) ls) idx"
    using disjoint by (simp add: idx_def remdups_adj_distinct)
  have sel: "filter (\<lambda>i. i \<in> set idx) [0..<length ls] = idx"
    by (rule sorted_selection [symmetric]) (use disjoint markers rest chosen in \<open>auto simp: idx_def\<close>)
  have "length rest = length ls - length markers"
    using distinct_card [OF rest(2)] distinct_card [OF markers(1)] markers(2) by (simp add: rest(3) card_Diff_subset)
  then have "length idx = sample_length E frac ls" by (simp add: idx_def chosen(3) sample_length_def f n k_def)
  then show thesis
    by (intro that [of "\<lambda>i. i \<in> set idx"]) (simp_all add: s sel, simp add: idx_def markers_def)
qed

lemma sample_member: "x \<in> set (sample_lines E frac seed ls) \<Longrightarrow> x \<in> set ls"
  by (rule sample_selection [of E frac seed ls]) auto

lemma sample_length_eq:
  "sample_length E frac ls =
    (case frac of
       Some f \<Rightarrow> if me_fraction E f then min (length ls) (max (me_times E (length ls) f) (length (filter marker ls) + 1)) else length ls
     | None \<Rightarrow> length ls)"
proof -
  have "m + min (max (w - m) 1) (n - m) = min n (max w (m + 1))" if "m \<le> n" for m n w :: nat
    using that by arith
  then show ?thesis by (auto simp: sample_length_def sample_size_def split: option.split)
qed

text \<open>
  \<^bold>\<open>C36\<close>. Sampling keeps the order of the lines and every line that looks like a marker of a compaction, whatever the numbers
  drawn. With a fraction strictly between 0 and 1 the sample has as many lines as the fraction of all lines comes to,
  rounded down, but always one more than there are markers, unless there is no other line; without a fraction or with one
  outside these bounds, also for 0.0, it has all lines.
\<close>

theorem sample_keeps_markers:
  "subseq (sample_lines E frac seed ls) ls \<and>
   filter marker (sample_lines E frac seed ls) = filter marker ls \<and>
   length (sample_lines E frac seed ls) =
     (case frac of
        Some f \<Rightarrow> if me_fraction E f then min (length ls) (max (me_times E (length ls) f) (length (filter marker ls) + 1)) else length ls
      | None \<Rightarrow> length ls)"
proof (rule sample_selection [of E frac seed ls])
  fix Q
  assume Q: "sample_lines E frac seed ls = map ((!) ls) (filter Q [0..<length ls])"
    "\<And>i. i < length ls \<Longrightarrow> marker (ls ! i) \<Longrightarrow> Q i" "length (filter Q [0..<length ls]) = sample_length E frac ls"
  have "filter marker (map ((!) ls) (filter Q [0..<length ls])) = map ((!) ls) (filter (\<lambda>i. Q i \<and> marker (ls ! i)) [0..<length ls])"
    by (simp add: filter_map comp_def)
  also have "filter (\<lambda>i. Q i \<and> marker (ls ! i)) [0..<length ls] = filter (\<lambda>i. marker (ls ! i)) [0..<length ls]"
    by (rule filter_cong) (use Q(2) in auto)
  also have "map ((!) ls) \<dots> = filter marker ls" by (rule filter_nth [symmetric])
  finally show ?thesis using subseq_filter_nth [of ls Q] Q(1,3) unfolding sample_length_eq by simp
qed


section \<open>Line numbers\<close>

lemma take_range_lines:
  "lr_lines (take_range s e n ls) = map the (takeWhile (\<lambda>l. l \<noteq> None) (take (Suc e - max s n) (drop (s - n) ls)))"
proof (induction ls arbitrary: n)
  case Nil
  then show ?case by simp
next
  case (Cons l ls)
  consider "n < s" | "s \<le> n" "e < n" | "s \<le> n" "n \<le> e" by linarith
  then show ?case
  proof cases
    case 1
    then have "s - n = Suc (s - Suc n)" "max s n = max s (Suc n)" by auto
    then show ?thesis using 1 Cons.IH [of "Suc n"] by simp
  next
    case 2
    then show ?thesis by (simp add: max_def)
  next
    case 3
    then have "Suc e - max s n = Suc (Suc e - max s (Suc n))" "s - n = 0" "s - Suc n = 0" by auto
    then show ?thesis using 3 Cons.IH [of "Suc n"] by (cases l) (simp_all add: Let_def)
  qed
qed

lemma read_line_range_lines:
  assumes "seek_start s tot len = None" and "1 \<le> s"
  shows "lr_lines (read_line_range bs s e tot len) =
    map the (takeWhile (\<lambda>l. l \<noteq> None) (take (Suc e - s) (drop (s - 1) (reader_lines bs))))"
  using assms by (simp add: read_line_range_def take_range_lines max_def)

lemma nth_takeWhile_take_drop:
  assumes "i < length (takeWhile P (take n (drop m xs)))"
  shows "takeWhile P (take n (drop m xs)) ! i = xs ! (m + i)" "P (xs ! (m + i))" "i < n" "m + i < length xs"
proof -
  have "i < length (take n (drop m xs))" using assms length_takeWhile_le order_less_le_trans by blast
  then show *: "takeWhile P (take n (drop m xs)) ! i = xs ! (m + i)" "i < n" "m + i < length xs"
    using assms by (auto simp: takeWhile_nth)
  show "P (xs ! (m + i))" using nth_mem [OF assms] set_takeWhileD * by metis
qed

lemma filter_lines_member: "(i, l) \<in> set (filter_lines rt ls) \<longleftrightarrow> i < length ls \<and> l = ls ! i \<and> keeps_line rt l"
  by (auto simp: filter_lines_def in_set_enumerate_eq)

lemma all_some_member: "all_some xs = Some ys \<Longrightarrow> set xs = Some ` set ys"
  by (induction xs arbitrary: ys rule: all_some.induct) auto

lemma line_moments_prefix:
  assumes "line_moments E opts n l = Some ts" and "m \<in> set ts"
  shows "\<exists>x. m = line_prefix n @ x"
  using assms by (auto simp: line_moments_def split: if_splits option.splits)

text \<open>
  \<^bold>\<open>C35\<close>. Up to line 5500 of a file the line numbers shown are true: every moment, of a sample or not, carries the number of a
  line of the file within the range asked for, and is what the record in this line says.
\<close>

theorem moments_of_their_lines:
  assumes "seek_start s tot len = None" and "1 \<le> s"
    and "resurface_moments E opts s
      (sample_lines E frac seed (filter_lines rt (lr_lines (read_line_range bs s e tot len)))) = Some ms"
    and "m \<in> set ms"
  shows "\<exists>n l ts x. s \<le> n \<and> n \<le> e \<and> n \<le> length (reader_lines bs) \<and> reader_lines bs ! (n - 1) = Some l \<and>
    keeps_line rt l \<and> line_moments E opts n l = Some ts \<and> m \<in> set ts \<and> m = line_prefix n @ x"
proof -
  let ?L = "lr_lines (read_line_range bs s e tot len)"
  obtain tss where tss: "all_some (map (\<lambda>(i, l). line_moments E opts (s + i) l) (sample_lines E frac seed (filter_lines rt ?L))) = Some tss"
    and ms: "ms = concat tss" using assms(3) by (auto simp: resurface_moments_def)
  obtain ts where ts: "ts \<in> set tss" "m \<in> set ts" using assms(4) ms by auto
  have "Some ts \<in> Some ` set tss" using ts by simp
  then obtain i l where il: "(i, l) \<in> set (sample_lines E frac seed (filter_lines rt ?L))" "line_moments E opts (s + i) l = Some ts"
    unfolding all_some_member [OF tss, symmetric] by auto
  have "(i, l) \<in> set (filter_lines rt ?L)"
    using il(1) by (rule sample_member)
  then have l: "i < length ?L" "l = ?L ! i" "keeps_line rt l" unfolding filter_lines_member by blast+
  note L = read_line_range_lines [OF assms(1,2), of bs e]
  have i: "i < length (takeWhile (\<lambda>l. l \<noteq> None) (take (Suc e - s) (drop (s - 1) (reader_lines bs))))" using l(1) by (simp add: L)
  note at = nth_takeWhile_take_drop [OF i]
  have "reader_lines bs ! (s - 1 + i) = Some l" using l(2) at i by (auto simp: L)
  moreover have "s + i \<le> e" "s + i \<le> length (reader_lines bs)" "s + i - 1 = s - 1 + i" using at(3,4) assms(2) by auto
  moreover obtain x where "m = line_prefix (s + i) @ x" using line_moments_prefix [OF il(2) ts(2)] by blast
  ultimately show ?thesis
    using l(3) il(2) ts(2) by (intro exI [of _ "s + i"] exI [of _ l] exI [of _ ts] exI [of _ x]) auto
qed


text \<open>Beyond, the position of a line is estimated. Lines of equal length, where the estimate is exact:\<close>

definition uniform_file :: "nat \<Rightarrow> bytes list \<Rightarrow> bool" where
  "uniform_file k ls \<longleftrightarrow> 0 < k \<and> (\<forall>l \<in> set ls. length l = k \<and> 10 \<notin> set l \<and> last l \<noteq> 13 \<and> utf8_valid l)"

definition file_of :: "bytes list \<Rightarrow> bytes" where
  "file_of ls = concat (map (\<lambda>l. l @ [10]) ls)"

lemma file_of_simps [simp]: "file_of [] = []" "file_of (l # ls) = l @ 10 # file_of ls"
  by (simp_all add: file_of_def)

lemma uniform_simps:
  "uniform_file k (l # ls) \<Longrightarrow> uniform_file k ls"
  "uniform_file k (l # ls) \<Longrightarrow> length l = k \<and> l \<noteq> [] \<and> 10 \<notin> set l \<and> last l \<noteq> 13 \<and> utf8_valid l"
  by (auto simp: uniform_file_def)

lemma uniform_drop: "uniform_file k ls \<Longrightarrow> uniform_file k (drop m ls)"
  by (auto simp: uniform_file_def dest: in_set_dropD)

lemma length_uniform: "uniform_file k ls \<Longrightarrow> length (file_of ls) = length ls * Suc k"
proof (induction ls)
  case (Cons l ls)
  then show ?case using uniform_simps [OF Cons.prems] by simp
qed simp

lemma drop_uniform: "uniform_file k ls \<Longrightarrow> drop (m * Suc k) (file_of ls) = file_of (drop m ls)"
proof (induction m arbitrary: ls)
  case (Suc m)
  show ?case
  proof (cases ls)
    case (Cons l rest)
    then have "drop (Suc k) (l @ 10 # file_of rest) = file_of rest" using uniform_simps(2) Suc.prems by fastforce
    then have "drop (Suc m * Suc k) (l @ 10 # file_of rest) = drop (m * Suc k) (file_of rest)"
      by (metis drop_drop mult_Suc add.commute)
    then show ?thesis using Cons Suc.IH [OF uniform_simps(1)] Suc.prems by (simp del: mult_Suc_right mult_Suc)
  qed simp
qed simp

lemma lines_uniform: "uniform_file k ls \<Longrightarrow> reader_lines (file_of ls) = map Some ls"
proof (induction ls)
  case (Cons l ls)
  have "str_lines (l @ 10 # file_of ls) = l # str_lines (file_of ls)" "utf8_valid l"
    using uniform_simps(2) [OF Cons.prems] by (auto intro: str_lines_line)
  then show ?case using Cons.IH [OF uniform_simps(1) [OF Cons.prems]] by (simp add: reader_lines_def)
qed (simp add: reader_lines_def)

lemma count_uniform: "uniform_file k ls \<Longrightarrow> count_lines_in_file (file_of ls) = length ls"
proof (induction ls)
  case (Cons l ls)
  moreover have "filter (\<lambda>b. b = 10) l = []" using uniform_simps(2) [OF Cons.prems] by (auto simp: filter_empty_conv)
  ultimately show ?case by (auto simp: count_lines_in_file_def dest: uniform_simps)
qed (simp add: count_lines_in_file_def)

text \<open>
  \<^bold>\<open>C37\<close>. Asked for lines beyond line 5500 of a file with lines of equal length, not in the last kilobyte, the server answers with
  the lines two further on, under the numbers asked for.
\<close>

theorem far_lines_shifted:
  assumes "uniform_file k ls" and "5500 < s" and "(s - 500) * Suc k + 1024 \<le> length (file_of ls)"
    and "length (file_of ls) < 2 ^ 64"
  shows "lr_lines (read_line_range (file_of ls) s e (count_lines_in_file (file_of ls)) (length (file_of ls))) =
    take (Suc e - s) (drop (s + 1) ls)"
proof -
  let ?m = "s - 500"
  have len: "length (file_of ls) = length ls * Suc k" by (rule length_uniform [OF assms(1)])
  have "?m * Suc k < length ls * Suc k" using assms(3) len by linarith
  then have m: "?m < length ls" by (rule mult_right_less_imp_less) simp
  have "0 < ?m" using assms(2) by simp
  then have pos: "0 < ?m * Suc k" by simp
  have long: "500 < length ls" "ls \<noteq> []" using m assms(2) by auto
  have "seek_start s (length ls) (length ls * Suc k) = Some (?m * Suc k, ?m)"
    using m long assms(2-4) pos len by (simp add: seek_start_def SEEK_THRESHOLD_def SAFETY_MARGIN_def Let_def min_def)
  moreover have "drop 1 (dropWhile (\<lambda>b. b \<noteq> 10) (drop (?m * Suc k) (file_of ls))) = file_of (drop (Suc ?m) ls)"
  proof -
    obtain l rest where l: "drop ?m ls = l # rest" "drop (Suc ?m) ls = rest" using m by (metis Cons_nth_drop_Suc)
    have "uniform_file k (l # rest)" using uniform_drop [OF assms(1), of ?m] l(1) by simp
    then have "dropWhile (\<lambda>b. b \<noteq> 10) (l @ 10 # file_of rest) = 10 # file_of rest"
      using uniform_simps(2) by (subst dropWhile_append2) auto
    then show ?thesis unfolding drop_uniform [OF assms(1)] l by simp
  qed
  ultimately show ?thesis
    using lines_uniform [OF uniform_drop [OF assms(1), of "Suc ?m"]] count_uniform [OF assms(1)] assms(2)
    by (simp add: read_line_range_def take_range_lines len drop_map take_map max_def takeWhile_map comp_def)
qed


theorem far_lines_shifted_witness:
  "(let ls = replicate 5502 [97] @ replicate 4000 [98]
    in lr_lines (read_line_range (file_of ls) 5501 5502 (count_lines_in_file (file_of ls)) (length (file_of ls))) = [[98], [98]]
       \<and> take 2 (drop 5500 ls) = [[97], [97]])"
proof -
  let ?ls = "replicate 5502 [97] @ replicate 4000 [98] :: bytes list"
  have u: "uniform_file 1 ?ls" by (auto simp: uniform_file_def utf8_valid_ascii_Cons)
  have "length (file_of ?ls) = 19004" by (simp add: length_uniform [OF u] del: One_nat_def)
  then have "lr_lines (read_line_range (file_of ?ls) 5501 5502 (count_lines_in_file (file_of ?ls)) (length (file_of ?ls))) =
    take (Suc 5502 - 5501) (drop (5501 + 1) ?ls)"
    by (intro far_lines_shifted [OF u]) simp_all
  also have "\<dots> = [[98], [98]]" by (simp add: numeral_2_eq_2)
  finally show ?thesis by (simp add: Let_def numeral_2_eq_2)
qed

definition toy_memory :: "json_tree memory_env" where
  "toy_memory =
     \<lparr>me_json = tree_lib (\<lambda>l. if l = ascii ''u''
        then Some (JObj [(''type'', JStr ''queue-operation''), (''operation'', JStr ''enqueue''), (''content'', JStr ''hi'')]) else None),
      me_i64 = (\<lambda>_. None), me_is_null = (\<lambda>v. v = JNull), me_show = (\<lambda>_. []), me_var = (\<lambda>_. None), me_home = None,
      me_exists = (\<lambda>_. False), me_is_dir = (\<lambda>_. False), me_canonical = (\<lambda>_. None), me_read_dir = (\<lambda>_. None),
      me_content = (\<lambda>_. None), me_len = (\<lambda>_. None), me_mtime = (\<lambda>_. None), me_rfc3339 = (\<lambda>_. None), me_upper = (\<lambda>s. s),
      me_megabytes = (\<lambda>_. 0), me_below = (\<lambda>_ _. False), me_hours = (\<lambda>_. 0), me_fraction = (\<lambda>_. False), me_times = (\<lambda>_ _. 0),
      me_draw = (\<lambda>_ _ _. 0), me_time_seed = 0\<rparr>"

theorem moments_of_their_lines_witness:
  "\<exists>n l ts x. 1 \<le> n \<and> n \<le> 2 \<and> n \<le> length (reader_lines (ascii ''u'' @ [10])) \<and> reader_lines (ascii ''u'' @ [10]) ! (n - 1) = Some l \<and>
    keeps_line ''conversation'' l \<and>
    line_moments toy_memory \<lparr>mo_type = ''conversation'', mo_limit = 100, mo_stamps = True, mo_agent = ''A''\<rparr> n l = Some ts \<and>
    ascii ''L1: User: hi'' \<in> set ts \<and> ascii ''L1: User: hi'' = line_prefix n @ x"
proof -
  let ?o = "\<lparr>mo_type = ''conversation'', mo_limit = 100, mo_stamps = True, mo_agent = ''A''\<rparr>"
  have none: "seek_start 1 1 2 = None" by (simp add: seek_start_def SEEK_THRESHOLD_def)
  have lines: "filter_lines ''conversation'' (lr_lines (read_line_range (ascii ''u'' @ [10]) 1 2 1 2)) = [(0, ascii ''u'')]"
    by code_simp
  have "line_moments toy_memory ?o 1 (ascii ''u'') = Some [ascii ''L1: User: hi'']" by code_simp
  then have "resurface_moments toy_memory ?o 1
      (sample_lines toy_memory None None (filter_lines ''conversation'' (lr_lines (read_line_range (ascii ''u'' @ [10]) 1 2 1 2)))) =
    Some [ascii ''L1: User: hi'']"
    unfolding lines by (simp add: sample_lines_def resurface_moments_def)
  from moments_of_their_lines [OF none _ this, of "ascii ''L1: User: hi''"] show ?thesis by simp
qed


section \<open>What is not shown, and panics\<close>

lemma all_some_None: "all_some xs = None \<longleftrightarrow> None \<in> set xs"
  by (induction xs rule: all_some.induct) auto

lemma all_some_total: "(\<And>x. x \<in> set xs \<Longrightarrow> f x \<noteq> None) \<Longrightarrow> all_some (map f xs) \<noteq> None"
  by (simp add: all_some_None image_iff) (metis option.distinct(1))

text \<open>The announced marker of a compaction never appears: a text that mentions one is dropped before.\<close>

lemma no_compaction_shown:
  "text_item E rt speaker item = [] \<or>
   (\<exists>t. \<not> should_skip_content t \<and> text_item E rt speaker item = [ascii speaker @ ascii '': '' @ flat_line t])"
  by (auto simp: text_item_def Let_def should_skip_content_def)

text \<open>A user's text that mentions the field of a result is dropped, outside the mode that shows all.\<close>

lemma mention_dropped:
  "str_contains (ascii ''tool_use_id'') l \<Longrightarrow> \<not> is_compaction l \<Longrightarrow> keeps_line rt l \<longleftrightarrow> rt = ''all'' \<and> str_trim l \<noteq> []"
  by (auto simp: keeps_line_def)

text \<open>Only the mode that shows all can panic, at a limit that falls into a character.\<close>

lemma item_text_total: "rt \<noteq> ''all'' \<Longrightarrow> item_text E rt limit agent speaker item \<noteq> None"
  by (auto simp: item_text_def result_text_def split: option.splits)

lemma record_texts_total: "rt \<noteq> ''all'' \<Longrightarrow> record_texts E rt limit agent v \<noteq> None"
proof -
  assume "rt \<noteq> ''all''"
  then have "all_some (map (item_text E rt limit agent speaker) items) \<noteq> None" for speaker items
    by (intro all_some_total item_text_total)
  then show ?thesis by (simp add: record_texts_def Let_def split: option.split)
qed

lemma resurface_total: "mo_type opts \<noteq> ''all'' \<Longrightarrow> resurface_moments E opts s ls \<noteq> None"
proof -
  assume "mo_type opts \<noteq> ''all''"
  then have "line_moments E opts n l \<noteq> None" for n l
    using record_texts_total [of "mo_type opts" E "mo_limit opts" "mo_agent opts"]
    by (simp add: line_moments_def del: not_None_eq split: option.split)
  then have "all_some (map (\<lambda>(i, l). line_moments E opts (s + i) l) ls) \<noteq> None"
    by (intro all_some_total) (simp add: split_beta)
  then show ?thesis by (simp add: resurface_moments_def)
qed

lemma result_panics:
  assumes "json_get (me_json E) item ''content'' = Some v" and "me_show E v = c" and "0 < limit" and "limit < length c"
    and "cont (c ! limit)"
  shows "result_text E ''all'' limit item = None"
  using assms by (simp add: result_text_def Let_def slice_to_def char_boundary_def)

text \<open>The active session is the most recently modified session file there is.\<close>

definition dated :: "'v memory_env \<Rightarrow> string \<Rightarrow> nat \<Rightarrow> bool" where
  "dated E q t \<longleftrightarrow> is_jsonl q \<and> me_len E q \<noteq> None \<and> me_mtime E q = Some t"

lemma newer_cases:
  obtains "newer E q best = best" "\<And>t1. dated E q t1 \<Longrightarrow> \<exists>t0 p0. best = Some (t0, p0) \<and> t1 \<le> t0"
  | t1 where "newer E q best = Some (t1, q)" "dated E q t1" "\<And>t0 p0. best = Some (t0, p0) \<Longrightarrow> t0 < t1"
proof (cases "\<exists>t1. dated E q t1")
  case False
  then have "newer E q best = best" by (auto simp: newer_def dated_def split: option.splits)
  then show thesis using that(1) False by blast
next
  case True
  then obtain t1 where q: "dated E q t1" by blast
  then obtain n where n: "is_jsonl q" "me_len E q = Some n" "me_mtime E q = Some t1" by (auto simp: dated_def)
  show thesis
  proof (cases "\<exists>t0 p0. best = Some (t0, p0) \<and> t1 \<le> t0")
    case True
    then have "newer E q best = best" using n by (auto simp: newer_def)
    moreover have "t = t1" if "dated E q t" for t using that q by (simp add: dated_def)
    ultimately show thesis using that(1) True by blast
  next
    case False
    then have "newer E q best = Some (t1, q)" using n by (auto simp: newer_def split: option.splits)
    then show thesis using that(2) q False by (meson not_le)
  qed
qed

lemma newer_fold:
  assumes "fold (newer E) ps best = Some (t, p)"
  shows "best = Some (t, p) \<or> (p \<in> set ps \<and> dated E p t)" "best = Some (t0, p0) \<Longrightarrow> t0 \<le> t"
    "q \<in> set ps \<Longrightarrow> dated E q t1 \<Longrightarrow> t1 \<le> t"
proof -
  have "(best = Some (t, p) \<or> (p \<in> set ps \<and> dated E p t)) \<and> (\<forall>t0 p0. best = Some (t0, p0) \<longrightarrow> t0 \<le> t) \<and>
    (\<forall>q \<in> set ps. \<forall>t1. dated E q t1 \<longrightarrow> t1 \<le> t)"
    using assms
  proof (induction ps arbitrary: best)
    case Nil
    then show ?case by simp
  next
    case (Cons x ps)
    from Cons.prems have "fold (newer E) ps (newer E x best) = Some (t, p)" by simp
    note IH = Cons.IH [OF this]
    show ?case
    proof (rule newer_cases [of E x best])
      assume "newer E x best = best" "\<And>t1. dated E x t1 \<Longrightarrow> \<exists>t0 p0. best = Some (t0, p0) \<and> t1 \<le> t0"
      then show ?thesis using IH by (metis list.set_intros(2) order_trans set_ConsD)
    next
      fix t1
      assume new: "newer E x best = Some (t1, x)" "dated E x t1" "\<And>t0 p0. best = Some (t0, p0) \<Longrightarrow> t0 < t1"
      have "t1 \<le> t" using IH new(1) by blast
      moreover have "t2 = t1" if "dated E x t2" for t2 using that new(2) by (simp add: dated_def)
      ultimately have le: "t2 \<le> t" if "dated E x t2" for t2 using that by simp
      have "t0 \<le> t" if "best = Some (t0, p0)" for t0 p0 using new(3) [OF that] \<open>t1 \<le> t\<close> by simp
      moreover have "p \<in> set (x # ps) \<and> dated E p t" using IH new(1,2) by auto
      moreover have "\<forall>q \<in> set (x # ps). \<forall>t1. dated E q t1 \<longrightarrow> t1 \<le> t" using IH le by simp
      ultimately show ?thesis by blast
    qed
  qed
  then show "best = Some (t, p) \<or> (p \<in> set ps \<and> dated E p t)" "best = Some (t0, p0) \<Longrightarrow> t0 \<le> t"
    "q \<in> set ps \<Longrightarrow> dated E q t1 \<Longrightarrow> t1 \<le> t" by blast+
qed

lemma active_session_newest:
  assumes "active_session E = Some p"
  shows "\<exists>t. p \<in> set (session_files E) \<and> dated E p t \<and> (\<forall>q \<in> set (session_files E). \<forall>t1. dated E q t1 \<longrightarrow> t1 \<le> t)"
proof -
  obtain t where "fold (newer E) (session_files E) None = Some (t, p)" using assms by (auto simp: active_session_def)
  note newest = newer_fold [OF this]
  show ?thesis using newest(1,3) by blast
qed

text \<open>A directory that was added is found the next time, and not added again.\<close>

lemma dir_added_once:
  assumes "handle_add_session_dir E print True args = (r, Some (p, bs))"
    and "session_dirs_config_path E2 = Some p" and "me_content E2 p = Some bs" and "me_json E2 = me_json E"
    and "me_canonical E2 = me_canonical E" and "me_exists E2 = me_exists E" and "me_is_dir E2 = me_is_dir E"
    and "\<And>ds. utf8_valid (print ds)" and "\<And>ds. parse_strings (me_json E) (print ds) = Some ds"
    and "\<And>q c. me_canonical E q = Some c \<Longrightarrow> me_canonical E c = Some c"
  shows "\<exists>d. get_str (me_json E) args ''dir'' = Some d \<and>
    load_session_dirs_config E2 = load_session_dirs_config E @ [case me_canonical E d of Some c \<Rightarrow> c | None \<Rightarrow> d] \<and>
    snd (handle_add_session_dir E2 print True args) = None"
proof -
  obtain d0 ds where d: "get_str (me_json E) args ''dir'' = Some (d0 # ds)"
    using assms(1) by (auto simp: handle_add_session_dir_def split: option.splits list.splits)
  let ?d = "d0 # ds" and ?c = "\<lambda>p. case me_canonical E p of Some q \<Rightarrow> q | None \<Rightarrow> p"
  have ok: "me_exists E ?d" "me_is_dir E ?d" "bs = print (load_session_dirs_config E @ [?c ?d])"
    using assms(1) by (auto simp: handle_add_session_dir_def d Let_def split: if_splits option.splits)
  have load: "load_session_dirs_config E2 = load_session_dirs_config E @ [?c ?d]"
    using assms(2-4,8,9) ok(3) by (simp add: load_session_dirs_config_def [of E2])
  have "?c (?c ?d) = ?c ?d" using assms(10) by (auto split: option.splits)
  then have "path_member (?c ?d) (map ?c (load_session_dirs_config E2))" by (simp add: load path_member_def)
  then show ?thesis
    using ok(1,2) assms(4-7) d load by (simp add: handle_add_session_dir_def Let_def)
qed

end
