(* ===== verification/Web_Api.thy ===== *)
theory Web_Api
  imports Gpu_Client Puller Session_Memory
begin

text \<open>
  The daemon's HTTP interface (\<open>src/crates/b3-cli/src/daemon/web.rs\<close>): the check of the token in front of every route, the
  handlers that speak and that take transcriptions, and the events for the assistant with the thread of the MCP server that
  reads them (\<open>channel_events_watcher\<close> in \<open>src/crates/b3-cli/src/mcp/b3.rs\<close>). The HTTP library is a parameter: a request is
  what the code asks it for.
\<close>

section \<open>The token\<close>

text \<open>A header that is not visible ASCII is \<open>None\<close>, like one that is missing.\<close>

record http_request =
  hq_path :: string
  hq_options :: bool
  hq_authorization :: "string option"
  hq_query :: "string option"
  hq_cookie :: "string option"

definition text_prefix :: "string \<Rightarrow> string \<Rightarrow> string option" where
  "text_prefix p s = (if take (length p) s = p then Some (drop (length p) s) else None)"

definition trim_text :: "string \<Rightarrow> string" where
  "trim_text s = of_bytes (str_trim (ascii s))"

fun first_some :: "('a \<Rightarrow> 'b option) \<Rightarrow> 'a list \<Rightarrow> 'b option" where
  "first_some f [] = None"
| "first_some f (x # xs) = (case f x of Some y \<Rightarrow> Some y | None \<Rightarrow> first_some f xs)"

definition check_token :: "string \<Rightarrow> http_request \<Rightarrow> bool" where
  "check_token api_key r =
     (case Option.bind (hq_authorization r) (text_prefix ''Bearer '') of
        Some token \<Rightarrow> token = api_key
      | None \<Rightarrow>
          (case Option.bind (hq_query r) (\<lambda>q. first_some (text_prefix ''token='') (split_on CHR ''&'' q)) of
             Some token \<Rightarrow> token = api_key
           | None \<Rightarrow>
               (case Option.bind (hq_cookie r)
                       (\<lambda>c. first_some (\<lambda>x. text_prefix ''b3_token='' (trim_text x)) (split_on CHR '';'' c)) of
                  Some token \<Rightarrow> token = api_key
                | None \<Rightarrow> False)))"

datatype 'r http_answer = Unauthorized | Handled 'r

definition auth_middleware :: "string \<Rightarrow> (http_request \<Rightarrow> 'r) \<Rightarrow> http_request \<Rightarrow> 'r http_answer" where
  "auth_middleware api_key next r =
     (if hq_path r = ''/health'' \<or> hq_path r = ''/ws-proxy'' \<or> hq_options r then Handled (next r)
      else if \<not> check_token api_key r then Unauthorized
      else Handled (next r))"

text \<open>\<open>proxy_ws\<close>: the parsed query has the token of the proxy; the session id is handed on if it is a number.\<close>

definition proxy_ws :: "string \<Rightarrow> (string \<Rightarrow> string option) \<Rightarrow> (string \<Rightarrow> u64 option) \<Rightarrow> u64 option http_answer" where
  "proxy_ws proxy_token params parse =
     (if (case params ''proxy_token'' of Some t \<Rightarrow> t | None \<Rightarrow> []) \<noteq> proxy_token then Unauthorized
      else Handled (Option.bind (params ''session_id'') parse))"

definition auth_cookie :: "string \<Rightarrow> string" where
  "auth_cookie api_key = ''b3_token='' @ api_key @ ''; Path=/; HttpOnly; SameSite=None; Secure; Max-Age=86400''"


section \<open>Voice jobs\<close>

text \<open>A report to the ledger: the method, the address and the body; nothing without a job or a server.\<close>

definition merge_fields :: "(string \<times> json_tree) list \<Rightarrow> (string \<times> json_tree) list \<Rightarrow> (string \<times> json_tree) list" where
  "merge_fields extra fs = fold (\<lambda>(k, v) m. map_insert k v m) extra fs"

definition report_voice_job ::
  "string \<Rightarrow> string \<Rightarrow> string \<Rightarrow> string \<Rightarrow> (string \<times> json_tree) list \<Rightarrow> (string \<times> string \<times> json_tree) list" where
  "report_voice_job release api job_id status extra =
     (if job_id = [] \<or> api = [] then []
      else [(''PATCH'', api @ ''/api/voice-jobs/'' @ job_id,
             JObj (merge_fields extra [(''status'', JStr status), (''reporter_version'', JStr (''daemon:'' @ release))]))])"

definition register_voice_job ::
  "string \<Rightarrow> string \<Rightarrow> string \<Rightarrow> string \<Rightarrow> string \<Rightarrow> (string \<times> json_tree) list \<Rightarrow> (string \<times> string \<times> json_tree) list" where
  "register_voice_job release api job_id agent_id job_type extra =
     (if job_id = [] \<or> api = [] then []
      else [(''POST'', api @ ''/api/voice-jobs'',
             JObj (merge_fields extra
               [(''id'', JStr job_id), (''agent_id'', JStr agent_id), (''job_type'', JStr job_type),
                (''reporter_version'', JStr (''daemon:'' @ release))]))])"


section \<open>Speaking\<close>

datatype web_output =
    Job_Report "string \<times> string \<times> json_tree"
  | Agent_Event agent_event
  | Assistant_Event channel_event
  | Generate_Speech string
  | Watch_Archive

record voice_config =
  vc_release :: string
  vc_api :: string
  vc_agent_id :: string

definition field_or :: "'v json_lib \<Rightarrow> 'v \<Rightarrow> string \<Rightarrow> string \<Rightarrow> string" where
  "field_or J v k d = (case get_str J v k of Some s \<Rightarrow> s | None \<Rightarrow> d)"

text \<open>The browsers: those that told their version. \<open>ago\<close> gives the time since a browser was last seen.\<close>

definition browser_profile :: "'h web_state \<Rightarrow> (u64 \<Rightarrow> u64) \<Rightarrow> u64 \<Rightarrow> json_tree" where
  "browser_profile w ago i =
     (let (rows, cols) = (case map_of (session_sizes w) i of Some rc \<Rightarrow> rc | None \<Rightarrow> (0, 0))
      in JObj [(''session_id'', JNum i),
               (''version'', JStr (case map_of (browser_versions w) i of Some s \<Rightarrow> s | None \<Rightarrow> [])),
               (''last_seen_ms'', JNum (ago i)),
               (''user_agent'', JStr (case map_of (browser_user_agents w) i of Some s \<Rightarrow> s | None \<Rightarrow> [])),
               (''volume'', JNum (case map_of (browser_volumes w) i of Some x \<Rightarrow> ucast x | None \<Rightarrow> 100)),
               (''audio_context'', JBool (case map_of (browser_audio_contexts w) i of Some b \<Rightarrow> b | None \<Rightarrow> False)),
               (''rows'', JNum (ucast rows)), (''cols'', JNum (ucast cols))])"

definition live_clients :: "'h web_state \<Rightarrow> nat" where
  "live_clients w = length (filter (\<lambda>i. map_of (browser_audio_contexts w) i = Some True) (map fst (browser_versions w)))"

text \<open>
  The handler \<open>tts\<close>, with its status. \<open>clean\<close> is \<open>clean_for_tts\<close>, a chain of regular expressions, and \<open>conditionals\<close> the data
  of the voice from the GPU client. \<open>None\<close>: slicing the preview panics.
\<close>

definition tts_stream_of :: "'v json_lib \<Rightarrow> 'v \<Rightarrow> string \<Rightarrow> string \<Rightarrow> tts_stream" where
  "tts_stream_of J body cleaned conditionals =
     \<lparr>ts_msg_id = field_or J body ''msg_id'' [], ts_text = cleaned, ts_original_text = field_or J body ''text'' [],
      ts_voice = field_or J body ''voice'' ''default'', ts_emotion = field_or J body ''emotion'' [],
      ts_replying_to = field_or J body ''replying_to'' [], ts_split_chars = ''.!?'', ts_min_chunk_chars = 80,
      ts_conditionals_b64 = conditionals\<rparr>"

definition tts ::
  "'v json_lib \<Rightarrow> voice_config \<Rightarrow> 'h web_state \<Rightarrow> (u64 \<Rightarrow> u64) \<Rightarrow> (string \<Rightarrow> string) \<Rightarrow> (string \<Rightarrow> string) \<Rightarrow> 'v
     \<Rightarrow> (nat \<times> json_tree \<times> web_output list) option" where
  "tts J V w ago clean conditionals body =
     (let words = field_or J body ''text'' []; msg_id = field_or J body ''msg_id'' []; voice = field_or J body ''voice'' ''default'';
          cleaned = clean words
      in if words = [] then Some (400, JObj [(''error'', JStr ''text is required'')], [])
         else case (if length cleaned > 80 then slice_to 80 (ascii cleaned) else Some (ascii cleaned)) of
                None \<Rightarrow> None
              | Some preview \<Rightarrow>
                  Some (200,
                    JObj [(''status'', JStr ''streaming''), (''msg_id'', JStr msg_id), (''clients'', json_count (live_clients w)),
                          (''browsers'', JArr (map (\<lambda>(i, _). browser_profile w ago i) (browser_versions w))),
                          (''credits_remaining'', JNull)],
                    map Job_Report (register_voice_job (vc_release V) (vc_api V) msg_id (vc_agent_id V) ''tts''
                      [(''msg_id'', JStr msg_id), (''text_preview'', JStr (of_bytes preview)), (''voice'', JStr voice)]) @
                    [Agent_Event (Tts_Generating msg_id 0 1),
                     Agent_Event (Tts_Stream (tts_stream_of J body cleaned (conditionals voice))),
                     (if live_clients w = 0 then Generate_Speech ''no_browsers'' else Watch_Archive)]))"

text \<open>\<open>transcription_callback\<close>: to the assistant if it listens, else to the puller.\<close>

definition transcription_callback ::
  "'v json_lib \<Rightarrow> voice_config \<Rightarrow> nat \<Rightarrow> string \<Rightarrow> 'v \<Rightarrow> json_tree \<times> web_output list" where
  "transcription_callback J V listeners msg_id body =
     (let words = trim_text (field_or J body ''text'' []); job = field_or J body ''voice_job_id'' []
      in if words = [] then
           (JObj [(''injected'', JBool False)],
            map Job_Report (report_voice_job (vc_release V) (vc_api V) job ''failed''
              [(''error'', JStr ''empty_text''), (''error_stage'', JStr ''daemon_injection'')]))
         else
           (JObj [(''injected'', JBool True)],
            (if listeners > 0 then [Assistant_Event (Channel_Transcription words msg_id)] else [Agent_Event (Transcription words)]) @
            map Job_Report (report_voice_job (vc_release V) (vc_api V) job ''injected'' [])))"

definition tts_audio_callback :: "'v json_lib \<Rightarrow> 'v \<Rightarrow> nat \<times> web_output list" where
  "tts_audio_callback J body =
     (case (get_str J body ''error'', get_str J body ''audio_b64'') of
        (None, Some audio) \<Rightarrow>
          (200, [Agent_Event (Tts_Audio_Data (field_or J body ''msg_id'' [])
             (case get_u64 J body ''chunk'' of Some n \<Rightarrow> n | None \<Rightarrow> 0) (case get_u64 J body ''total'' of Some n \<Rightarrow> n | None \<Rightarrow> 1)
             audio
             (case get_f64 J body ''duration_sec'' of Some x \<Rightarrow> x | None \<Rightarrow> 0) (case get_f64 J body ''generation_sec'' of Some x \<Rightarrow> x | None \<Rightarrow> 0))])
      | _ \<Rightarrow> (400, []))"

definition fetch_force_lowercase :: "'v json_lib \<Rightarrow> 'v http_reply \<Rightarrow> bool" where
  "fetch_force_lowercase J reply =
     (case reply of
        Reply status (Some v) \<Rightarrow>
          (if is_success status then (case get_bool J v ''force_lowercase'' of Some b \<Rightarrow> b | None \<Rightarrow> True) else True)
      | _ \<Rightarrow> True)"


section \<open>Events for the assistant\<close>

text \<open>The serialization of an event, and the stream of a subscriber; \<open>frame\<close> is the framing of the HTTP library.\<close>

definition event_tree :: "channel_event \<Rightarrow> json_tree" where
  "event_tree e =
     (case e of
        Channel_Transcription t m \<Rightarrow> JObj [(''type'', JStr ''transcription''), (''text'', JStr t), (''message_id'', JStr m)]
      | Channel_Dm s t m \<Rightarrow>
          JObj [(''type'', JStr ''hive_dm''), (''sender'', JStr s), (''text'', JStr t), (''message_id'', JStr m)]
      | Channel_Room s r topic t m \<Rightarrow>
          JObj [(''type'', JStr ''hive_room''), (''sender'', JStr s), (''room_id'', JStr r), (''room_topic'', JStr topic),
                (''text'', JStr t), (''message_id'', JStr m)])"

datatype channel_recv = Channel_Got channel_event | Channel_Lagged nat

definition channel_events_sse :: "(json_tree \<Rightarrow> bytes) \<Rightarrow> (bytes \<Rightarrow> bytes list) \<Rightarrow> channel_recv list \<Rightarrow> bytes list" where
  "channel_events_sse print frame rs =
     concat (map (\<lambda>r. case r of Channel_Got e \<Rightarrow> frame (print (event_tree e)) | Channel_Lagged n \<Rightarrow> []) rs)"

record channel_notification =
  cn_content :: string
  cn_chat_id :: string
  cn_message_id :: string
  cn_user :: string

text \<open>A line of the stream. The time stamp of a notification is left out.\<close>

definition dispatch_event :: "'v json_lib \<Rightarrow> 'v \<Rightarrow> channel_notification list" where
  "dispatch_event J v =
     (let ty = field_or J v ''type'' []; content = field_or J v ''text'' []; m = field_or J v ''message_id'' ''unknown'';
          sender = field_or J v ''sender'' ''unknown''
      in if content = [] then []
         else if ty = ''transcription'' then
           [\<lparr>cn_content = content, cn_chat_id = ''voice'', cn_message_id = m, cn_user = ''voice''\<rparr>]
         else if ty = ''hive_dm'' then
           [\<lparr>cn_content = content, cn_chat_id = ''hive_dm'', cn_message_id = m, cn_user = sender\<rparr>]
         else if ty = ''hive_room'' then
           [\<lparr>cn_content = content, cn_chat_id = ''hive_room_'' @ field_or J v ''room_id'' ''unknown'', cn_message_id = m, cn_user = sender\<rparr>]
         else [])"

definition watch_line :: "'v json_lib \<Rightarrow> bytes \<Rightarrow> channel_notification list" where
  "watch_line J raw =
     (let line = str_trim raw
      in if \<not> starts_with line (ascii ''data:'') then []
         else (let data = str_trim (drop 5 line)
               in if data = [] \<or> data = [58] then []
                  else case json_parse J data of None \<Rightarrow> [] | Some v \<Rightarrow> dispatch_event J v))"

text \<open>An attempt to connect, with the lines read until the stream ends or cannot be read; the pause after it in seconds.\<close>

datatype watch_attempt = Watch_Refused | Watch_Connected "bytes option list"

datatype watch_output = Notify channel_notification | Pause nat

definition watch_turn :: "'v json_lib \<Rightarrow> nat \<Rightarrow> watch_attempt \<Rightarrow> nat \<times> watch_output list" where
  "watch_turn J backoff a =
     (case a of
        Watch_Refused \<Rightarrow> (min (backoff * 2) 30, [Pause backoff])
      | Watch_Connected ls \<Rightarrow>
          (min (1 * 2) 30,
           map Notify (concat (map (watch_line J) (map the (takeWhile (\<lambda>l. l \<noteq> None) ls)))) @ [Pause 1]))"

fun channel_events_watcher :: "'v json_lib \<Rightarrow> nat \<Rightarrow> watch_attempt list \<Rightarrow> watch_output list" where
  "channel_events_watcher J backoff [] = []"
| "channel_events_watcher J backoff (a # as) =
     (case watch_turn J backoff a of (b, out) \<Rightarrow> out @ channel_events_watcher J b as)"


section \<open>The gate\<close>

text \<open>All tokens of a request, in the order in which they are looked for.\<close>

definition presented :: "http_request \<Rightarrow> string list" where
  "presented r =
     (case Option.bind (hq_authorization r) (text_prefix ''Bearer '') of Some t \<Rightarrow> [t] | None \<Rightarrow> []) @
     (case hq_query r of None \<Rightarrow> [] | Some q \<Rightarrow> List.map_filter (text_prefix ''token='') (split_on CHR ''&'' q)) @
     (case hq_cookie r of
        None \<Rightarrow> [] | Some c \<Rightarrow> List.map_filter (\<lambda>x. text_prefix ''b3_token='' (trim_text x)) (split_on CHR '';'' c))"

lemma first_some_filter: "first_some f xs = (case List.map_filter f xs of [] \<Rightarrow> None | y # ys \<Rightarrow> Some y)"
  by (induction xs) (auto simp: List.map_filter_simps split: option.splits)

lemma check_token_presented: "check_token api_key r \<longleftrightarrow> (\<exists>ts. presented r = api_key # ts)"
  by (auto simp: check_token_def presented_def first_some_filter split: option.splits list.splits)

text \<open>
  \<^bold>\<open>C39\<close>. A request reaches a handler exactly if it is one for the health or the proxy route, a request for options, or the
  first token it presents, in the authorization header, the query or the cookies, is the key of the agent: a wrong token
  is not made good by a right one that follows, and without a token no handler runs.
\<close>

theorem token_gate:
  "auth_middleware api_key next r =
     (if hq_path r \<in> {''/health'', ''/ws-proxy''} \<or> hq_options r \<or> (\<exists>ts. presented r = api_key # ts)
      then Handled (next r) else Unauthorized)"
  by (auto simp: auth_middleware_def check_token_presented)

text \<open>The cookie set by \<open>auth_cookie\<close> opens the gate again, if the key has no semicolon and nothing to trim.\<close>

lemma split_on_none: "c \<notin> set s \<Longrightarrow> split_on c s = [s]"
  by (induction s) auto

lemma cookie_accepted:
  assumes "CHR '';'' \<notin> set api_key" and "trim_text (''b3_token='' @ api_key) = ''b3_token='' @ api_key"
  shows "check_token api_key \<lparr>hq_path = p, hq_options = False, hq_authorization = None, hq_query = None,
    hq_cookie = Some (''b3_token='' @ api_key)\<rparr>"
  using assms by (simp add: check_token_def split_on_none text_prefix_def)


section \<open>What the assistant hears\<close>

definition notification_of :: "channel_event \<Rightarrow> channel_notification" where
  "notification_of e =
     (case e of
        Channel_Transcription t m \<Rightarrow> \<lparr>cn_content = t, cn_chat_id = ''voice'', cn_message_id = m, cn_user = ''voice''\<rparr>
      | Channel_Dm s t m \<Rightarrow> \<lparr>cn_content = t, cn_chat_id = ''hive_dm'', cn_message_id = m, cn_user = s\<rparr>
      | Channel_Room s r topic t m \<Rightarrow> \<lparr>cn_content = t, cn_chat_id = ''hive_room_'' @ r, cn_message_id = m, cn_user = s\<rparr>)"

text \<open>
  JSON on one line: an object in braces without a line break, of which the parser tells the fields. And the framing of an
  event: a data line and an empty one.
\<close>

definition one_line :: "'v json_lib \<Rightarrow> (json_tree \<Rightarrow> bytes) \<Rightarrow> channel_event \<Rightarrow> bool" where
  "one_line J print e \<longleftrightarrow>
     (\<exists>m. print (event_tree e) = 123 # m @ [125]) \<and>
     (\<exists>v. json_parse J (print (event_tree e)) = Some v \<and>
          (\<forall>k. get_str J v k = Option.bind (tree_get (event_tree e) k) (\<lambda>x. case x of JStr s \<Rightarrow> Some s | _ \<Rightarrow> None)))"

definition sse_framing :: "(bytes \<Rightarrow> bytes list) \<Rightarrow> bool" where
  "sse_framing frame \<longleftrightarrow> (\<forall>d. frame d = [ascii ''data: '' @ d, []])"

lemma white_heads: "b \<in> {123, 125, 100} \<Longrightarrow> list_all (\<lambda>w. w = [] \<or> hd w \<noteq> b) white_space"
  "b \<in> {123, 125, 100} \<Longrightarrow> list_all (\<lambda>w. w = [] \<or> hd w \<noteq> b) (map rev white_space)"
  by (simp_all add: white_space_def upt_rec list_all_iff) auto

lemma trim_braces: "str_trim (123 # m @ [125]) = 123 # m @ [125]"
  by (simp add: str_trim_def strip_seqs_id white_heads)

lemma trim_data: "str_trim (ascii ''data: '' @ 123 # m @ [125]) = ascii ''data: '' @ 123 # m @ [125]"
  by (simp add: str_trim_def ascii_def strip_seqs_id white_heads)

lemma find_space: "find (\<lambda>w. w \<noteq> [] \<and> starts_with (32 # r) w) white_space = Some [32]"
  by (simp add: white_space_def starts_with_def)

lemma trim_space: "str_trim (32 # s) = str_trim s"
  by (simp add: str_trim_def strip_seqs.simps [of white_space "32 # s"] find_space)

lemma watch_data_line:
  assumes "one_line J print e"
  shows "watch_line J (ascii ''data: '' @ print (event_tree e)) = (if cn_content (notification_of e) = [] then [] else [notification_of e])"
proof -
  from assms obtain m v where m: "print (event_tree e) = 123 # m @ [125]" and v: "json_parse J (123 # m @ [125]) = Some v"
    and fields: "\<And>k. get_str J v k = Option.bind (tree_get (event_tree e) k) (\<lambda>x. case x of JStr s \<Rightarrow> Some s | _ \<Rightarrow> None)"
    by (auto simp: one_line_def)
  have "ascii ''data: '' = ascii ''data:'' @ [32]" by (simp add: ascii_def)
  then have data: "str_trim (drop 5 (ascii ''data: '' @ 123 # m @ [125])) = 123 # m @ [125]"
    by (simp add: trim_space trim_braces)
  have "starts_with (ascii ''data: '' @ 123 # m @ [125]) (ascii ''data:'')" by (simp add: starts_with_def ascii_def)
  then have "watch_line J (ascii ''data: '' @ print (event_tree e)) = dispatch_event J v"
    unfolding watch_line_def m trim_data Let_def data by (simp add: v)
  also have "\<dots> = (if cn_content (notification_of e) = [] then [] else [notification_of e])"
    by (cases e) (simp_all add: dispatch_event_def field_or_def fields event_tree_def tree_get_def notification_of_def Let_def)
  finally show ?thesis .
qed

lemma watch_empty_line: "watch_line J [] = []"
  by (simp add: watch_line_def str_trim_def starts_with_def ascii_def)

text \<open>
  \<^bold>\<open>C40\<close>. What the daemon sends to the assistant while it is connected arrives: each event with a text becomes exactly one
  notification with its text, chat, id and sender, in order; only events the subscriber was too slow for are missing.
\<close>

theorem assistant_hears:
  assumes "\<forall>e. Channel_Got e \<in> set rs \<longrightarrow> one_line J print e" and "sse_framing frame"
  shows "snd (watch_turn J b (Watch_Connected (map Some (channel_events_sse print frame rs)))) =
    map Notify (filter (\<lambda>n. cn_content n \<noteq> []) (map notification_of (List.map_filter (\<lambda>r. case r of Channel_Got e \<Rightarrow> Some e | _ \<Rightarrow> None) rs)))
      @ [Pause 1]"
proof -
  have "concat (map (watch_line J) (channel_events_sse print frame rs)) =
    filter (\<lambda>n. cn_content n \<noteq> []) (map notification_of (List.map_filter (\<lambda>r. case r of Channel_Got e \<Rightarrow> Some e | _ \<Rightarrow> None) rs))"
    using assms(1)
  proof (induction rs)
    case Nil
    then show ?case by (simp add: channel_events_sse_def List.map_filter_simps)
  next
    case (Cons r rs)
    then show ?case using assms(2)
      by (cases r) (simp_all add: channel_events_sse_def List.map_filter_simps sse_framing_def watch_data_line watch_empty_line)
  qed
  then show ?thesis by (simp add: watch_turn_def takeWhile_eq_all_conv [THEN iffD2] comp_def)
qed


theorem assistant_hears_witness:
  "snd (watch_turn (tree_lib (\<lambda>b. if b = [123, 125] then Some (event_tree (Channel_Transcription ''hi'' ''m'')) else None)) 4
      (Watch_Connected (map Some (channel_events_sse (\<lambda>_. [123, 125]) (\<lambda>d. [ascii ''data: '' @ d, []])
         [Channel_Lagged 2, Channel_Got (Channel_Transcription ''hi'' ''m'')])))) =
    [Notify \<lparr>cn_content = ''hi'', cn_chat_id = ''voice'', cn_message_id = ''m'', cn_user = ''voice''\<rparr>, Pause 1]"
proof -
  let ?e = "Channel_Transcription ''hi'' ''m''"
  let ?J = "tree_lib (\<lambda>b. if b = [123, 125] then Some (event_tree ?e) else None)"
  have "one_line ?J (\<lambda>_. [123, 125]) ?e"
    by (auto simp: one_line_def tree_lib_def get_str_def tree_get_def event_tree_def split: option.splits)
  moreover have "sse_framing (\<lambda>d. [ascii ''data: '' @ d, []])" by (simp add: sse_framing_def)
  ultimately have "snd (watch_turn ?J 4 (Watch_Connected (map Some (channel_events_sse (\<lambda>_. [123, 125]) (\<lambda>d. [ascii ''data: '' @ d, []])
      [Channel_Lagged 2, Channel_Got ?e])))) =
    map Notify (filter (\<lambda>n. cn_content n \<noteq> []) (map notification_of
      (List.map_filter (\<lambda>r. case r of Channel_Got e \<Rightarrow> Some e | _ \<Rightarrow> None) [Channel_Lagged 2, Channel_Got ?e]))) @ [Pause 1]"
    by (intro assistant_hears) auto
  then show ?thesis by (simp add: List.map_filter_simps notification_of_def)
qed

text \<open>The text for the speech is reduced to ASCII, so its preview can be cut after eighty bytes.\<close>

lemma slice_ascii:
  assumes "list_all (\<lambda>b. b \<le> 0x7F) s" and "n < length s"
  shows "slice_to n s = Some (take n s)"
proof -
  have "s ! n \<le> 0x7F" using assms by (simp add: list_all_length)
  then have "\<not> cont (s ! n)" by (auto simp: cont_def dest: order_trans)
  then show ?thesis using assms(2) by (simp add: slice_to_def char_boundary_def)
qed

lemma tts_answers:
  assumes "list_all (\<lambda>b. b \<le> 0x7F) (ascii (clean (field_or J body ''text'' [])))"
  shows "tts J V w ago clean conditionals body \<noteq> None"
proof -
  let ?c = "clean (field_or J body ''text'' [])"
  have "\<exists>preview. (if length ?c > 80 then slice_to 80 (ascii ?c) else Some (ascii ?c)) = Some preview"
    using slice_ascii [OF assms, of 80] by (cases "80 < length ?c") simp_all
  then obtain preview where p: "(if length ?c > 80 then slice_to 80 (ascii ?c) else Some (ascii ?c)) = Some preview" ..
  show ?thesis
    unfolding tts_def Let_def p option.case
    by (cases "field_or J body ''text'' [] = []") (simp_all only: if_True if_False option.distinct(2) not_False_eq_True simp_thms)
qed

text \<open>Refused connections are tried again after 1, 2, 4, 8, 16 and then always 30 seconds.\<close>

lemma watcher_refused:
  "channel_events_watcher J b (Watch_Refused # as) = Pause b # channel_events_watcher J (min (b * 2) 30) as"
  by (simp add: watch_turn_def)

lemma watcher_pauses:
  "channel_events_watcher J 1 [Watch_Refused, Watch_Refused, Watch_Refused, Watch_Refused, Watch_Refused, Watch_Refused, Watch_Refused] =
     map Pause [1, 2, 4, 8, 16, 30, 30]"
  by (simp add: watcher_refused del: channel_events_watcher.simps(2))

end
