(* ===== verification/Spec2Isabelle.thy ===== *)
theory Spec2Isabelle
  imports Delivery Recovery Resume Multi Session Bridge Encrypted Backoff Health Turn Protocol Rtc_Channel Tts Hive Relay
    Gpu_Session Rtc_Session Ec2_Session Puller Tunnel Archive Attach Daemon Gpu_Client Session_Memory Web_Api
begin

text \<open>
  A verification library for the Rust workspace under \<open>src/crates\<close>: a daemon (\<open>b3-cli\<close>) that runs a terminal
  and shows it to browsers, a relay in front of a GPU worker (\<open>b3-gpu-relay\<close>), and what they share: the
  reliable transport (\<open>b3-reliable\<close>), the WebRTC data channel (\<open>b3-webrtc\<close>), the tunnel to the server
  (\<open>b3-tunnel\<close>) and common code (\<open>b3-common\<close>).

  \<^bold>\<open>How the parts interact.\<close> Messages are cut into numbered frames by a reliable channel, which a peer's channel
  reorders, acknowledges and reassembles. A multi-transport owns one channel and writes its frames to the
  best of several sinks; a session owns one multi-transport and the tasks that serve a browser, and a
  registry of sessions decides which one a browser gets back. A bridge feeds a session's channel. The relay
  runs one such session per browser on the local network, and for browsers that come through the server an
  encrypted channel around a second reliable channel.

  In the daemon the program's terminal writes to a ring buffer; each browser is served deltas of it and daemon events,
  over a WebSocket, over a WebRTC data channel, or over an encrypted session through the server, which turns each
  message into a request to the daemon's own web server. A puller per server polls messages, among them
  encrypted ones of other agents, which the key store opens. The daemon registers with the server, keeps a control connection,
  and runs a registration loop per further server. Panels and speech are kept in archives; speech that no
  browser archived is generated by the daemon through the GPU client. Local clients attach over a socket.

  \<^bold>\<open>Theories, in the order of the imports.\<close>
  \<^item> \<open>B3_Prelude\<close>: words and byte encodings, decimal numerals, chunks of lists, association lists as maps, and
    the interfaces as locales (a machine with an invariant, a codec, a stream codec, a registry) that later theories
    interpret on the model.
  \<^item> \<open>Frame\<close> (\<open>b3-reliable/src/frame.rs\<close>): the three frame formats; encoders and decoder are inverse and a
    corrupt or truncated frame is refused.
  \<^item> \<open>Channel\<close>, \<open>Channel_Receive\<close>, \<open>Channel_Send\<close>, \<open>Delivery\<close> (\<open>channel.rs\<close>): every operation of \<open>ReliableChannel\<close>;
    the receiver as a function of the set of frames that arrived; the invariant of both buffers; transfer
    over a network that reorders and duplicates.
  \<^item> \<open>Link\<close>, \<open>Recovery\<close>, \<open>Resume\<close>: two channels and a network that also loses, as an inductive step relation;
    the delivered messages are a prefix of those sent; fast retransmission and the Resume handshake recover
    Critical frames; what they do not recover.
  \<^item> \<open>Multi\<close>, \<open>Session\<close>, \<open>Bridge\<close> (\<open>multi.rs\<close>, \<open>session.rs\<close>, \<open>bridge.rs\<close>): the table of transports, the registry of
    sessions, the tasks of a session in any order of operations with those that lose their handle, the loop that feeds a
    channel.
  \<^item> \<open>Json\<close>, \<open>Utf8\<close>: the interface of the JSON library, a small tree of values to instantiate it, and the
    operations of Rust's \<open>str\<close> on UTF-8 bytes.
  \<^item> \<open>Encrypted\<close> (\<open>crypto.rs\<close>): the encrypted channel; nonces, transparency, handshake, reset.
  \<^item> \<open>Backoff\<close>, \<open>Health\<close>, \<open>Tts\<close>, \<open>Base64\<close>, \<open>Turn\<close> (\<open>b3-common\<close>, \<open>b3-webrtc/src/signaling.rs\<close>): retry delays and
    limits, the health registry, speech payloads, streams and WAV files, the two base64 routines, SHA-1 and
    HMAC against RFC 3174, written out as the RFC does, and RFC 2104.
  \<^item> \<open>Rtc_Channel\<close> (\<open>b3-webrtc/src/channel.rs\<close>): framing and reassembly of data-channel messages.
  \<^item> \<open>Protocol\<close> (\<open>b3-cli/src/daemon/protocol.rs\<close>): the messages of the daemon's local socket.
  \<^item> \<open>Hive\<close> (\<open>b3-cli/src/crypto/hive.rs\<close>): encrypted messages between agents and key pinning.
  \<^item> \<open>Relay\<close>, \<open>Gpu_Session\<close> (\<open>b3-gpu-relay/src/main.rs\<close>): routing of the worker's responses, browser admission,
    and the session behind the server.
  \<^item> \<open>Terminal\<close> (\<open>daemon/web.rs\<close>, session store and pusher, with the broadcast channel of \<open>pty/manager.rs\<close>): the
    capped buffer of the terminal's output and the deltas of it; what a browser shows is a contiguous piece of the output
    less what the broadcast channel overwrote before the pusher read it.
  \<^item> \<open>Events\<close> (\<open>web.rs\<close>, \<open>rtc.rs\<close>, event consumers): the broadcast of daemon events to the consumers of a session,
    their filters and the limit of lags.
  \<^item> \<open>Browser_Ws\<close> (\<open>web.rs\<close>, \<open>ws_handler\<close>): the WebSocket of a browser: the password loop, every control
    message, resizing to the smallest browser, clean-up.
  \<^item> \<open>Rtc_Session\<close> (\<open>daemon/rtc.rs\<close>): a WebRTC peer's control and terminal channels and event relay; which input
    needs no password, what a bridge cleans up, and what it leaves when it is aborted.
  \<^item> \<open>Ec2_Session\<close> (\<open>daemon/ec2_proxy.rs\<close>): a browser's encrypted session through the server; which frame each
    request comes from and where the API key goes, which payloads reach the local socket, when the task panics.
  \<^item> \<open>Hive_Store\<close> (\<open>daemon/hive_integration.rs\<close>): stored identity, peer keys, rooms, direct and room messages.
  \<^item> \<open>Puller\<close> (\<open>bridge/puller.rs\<close>): the event loop of a server, polled messages, duplicates, room key messages, updates.
  \<^item> \<open>Tunnel\<close> (\<open>b3-tunnel/src/lib.rs\<close>, the registration loops): the control connection and every way it ends, registration
    with retries, the peer loops and their lifetime, the persistent key pair.
  \<^item> \<open>Archive\<close> (\<open>daemon/info_archive.rs\<close>, \<open>tts_archive.rs\<close>, the upload handler and watchdog of \<open>web.rs\<close>): the
    two bounded histories and their files.
  \<^item> \<open>Attach\<close> (\<open>handle_client\<close> and \<open>clamp_cursor_up\<close> of \<open>daemon/server.rs\<close>, \<open>commands/attach.rs\<close>): attached terminals, the
    prefix key and the clamp of cursor movements.
  \<^item> \<open>Daemon\<close> (\<open>run_daemon\<close> of \<open>daemon/server.rs\<close>): the files written at start, the environment file, instructions,
    settings, the list of servers and the supervision of its loops.
  \<^item> \<open>Gpu_Client\<close> (\<open>daemon/gpu_client.rs\<close>, generation in \<open>web.rs\<close>): submitting, polling and archiving speech; the
    address and the token of each request.
  \<^item> \<open>Json_Rpc\<close>, \<open>Session_Memory\<close> (\<open>mcp/session_memory.rs\<close>): the loop of the MCP servers, and the tools that list and
    search session files: true line numbers, sampling, the shift of lines far into a file.
  \<^item> \<open>Web_Api\<close> (\<open>web.rs\<close>, \<open>mcp/b3.rs\<close>): the token in front of the routes, the handlers for speech and transcriptions, and
    the way of an event from the daemon to a notification of the assistant.

  \<^bold>\<open>Conventions.\<close> A struct is a \<open>record\<close>, an enum a \<open>datatype\<close>; fixed-width integers are words and wrap (release
  profile), \<open>usize\<close> lengths are naturals. An operation on \<open>&mut self\<close> returns the new state and what it wrote to
  its closures or sockets, in order. \<open>None\<close> is a panic where the code can panic, \<open>Inl\<close> an error value. Clock
  readings, random bytes and the outcomes of system calls are arguments; log lines are left out. A
  \<open>BTreeMap\<close> or \<open>HashMap\<close> is an association list with distinct keys. A \<open>str\<close> is its UTF-8 bytes, or a \<open>string\<close> where it
  only passes through JSON values and events. An asynchronous task is a function of the sequence of things it
  awaits, and an interleaving of tasks is that sequence. Third-party crates and the operating system are parameters, gathered
  in records (\<open>crypto_lib\<close>, \<open>hive_lib\<close>, \<open>json_lib\<close>, \<open>resampler\<close>, and the environments \<open>ws_env\<close>, \<open>rpc_env\<close>, \<open>ec2_env\<close>,
  \<open>hive_env\<close>, \<open>pull_env\<close>, \<open>tunnel_env\<close>, \<open>memory_env\<close>); what is relied upon is a named law (\<open>aead_law\<close>, \<open>hive_law\<close>, \<open>serde_law\<close>,
  \<open>tells\<close>, \<open>reads_back\<close>) that the witnesses instantiate. Loops are recursive functions with termination proofs, or
  run over the list of what they receive; no fuel is used.

  \<^bold>\<open>Locales.\<close> \<open>B3_Prelude\<close> states the interfaces. The channel and the multi-transport interpret the machine with an
  invariant; association lists and the table of transports the registry; \<open>Frame\<close> the codec and \<open>Protocol\<close> the codec of a
  stream; the two archives the bounded history of \<open>Archive\<close>.

  \<^bold>\<open>Not modelled.\<close> The tools of the voice server (\<open>mcp/b3.rs\<close>), which call the daemon over HTTP and pass its answers on;
  the remaining handlers of \<open>web.rs\<close> for files and for requests passed on to the server; opening sockets (\<open>ipc.rs\<close>) and the
  terminal process (\<open>pty/\<close>), which delegate to the operating system; the commands, the service installation, the
  logger and the build scripts, which prompt, start processes and write files. Their results reach
  the model as inputs where it uses them.
\<close>

end
